(* ===== verification/Lnmp_Prelude.thy ===== *)
theory Lnmp_Prelude
  imports Complex_Main "HOL-Library.AList" "HOL-Library.Word"
begin

text \<open>
  What every component of the LNMP model shares: the errors Python raises, the parts of
  Python's strings, lists, dictionaries and numbers that the sources use, and the lemmas
  about them that carry the component proofs.

  Conventions. A Python \<open>int\<close> is \<open>int\<close>, or \<open>nat\<close> where the code only ever holds an
  unsigned quantity (a field unpacked from a datagram, a counter). A Python \<open>float\<close> is
  idealised as \<open>real\<close>: IEEE rounding of intermediate results is not modelled, the explicit
  roundings of the code are. A \<open>str\<close> is a \<open>string\<close>, one \<open>char\<close> per character, so text
  is restricted to the first 256 code points. A \<open>dict\<close> whose order matters is an
  association list updated with \<open>AList.update\<close> (an existing key keeps its place, a new
  key goes last, as in Python), any other is a map. An instant is an \<open>int\<close> of
  microseconds since the epoch (the resolution of \<open>datetime\<close> and of \<open>timestamptz\<close>),
  while \<open>time.time()\<close> is a \<open>real\<close> of seconds. A UUID is a 128-bit word.
\<close>

named_theorems py_simps \<open>unfoldings of the Python helpers\<close>
named_theorems wf_intros \<open>introduction rules of the well-formedness invariants\<close>

datatype py_error = StructError | ValueError | KeyError | IndexError | TypeError | DbError

type_synonym 'a result = "py_error + 'a"
type_synonym uuid = "128 word"
type_synonym byte = "8 word"
type_synonym instant = int

abbreviation sec :: "int \<Rightarrow> instant" where "sec n \<equiv> n * 1000000"

subsection \<open>Results\<close>

text \<open>\<open>returns r P\<close>: the computation does not raise, and its value satisfies \<open>P\<close>.\<close>

definition returns :: "'a result \<Rightarrow> ('a \<Rightarrow> bool) \<Rightarrow> bool" where
  "returns r P = (case r of Inl _ \<Rightarrow> False | Inr x \<Rightarrow> P x)"

lemma returns_simps [simp]: "returns (Inl e) P = False" "returns (Inr x) P = P x"
  by (simp_all add: returns_def)

lemma returns_case [wf_intros]:
  "returns r P \<Longrightarrow> (\<And>x. P x \<Longrightarrow> returns (f x) Q) \<Longrightarrow>
   returns (case r of Inl e \<Rightarrow> Inl e | Inr x \<Rightarrow> f x) Q"
  by (cases r) auto

lemma returns_if [wf_intros]:
  "(c \<Longrightarrow> returns a P) \<Longrightarrow> (\<not> c \<Longrightarrow> returns b P) \<Longrightarrow> returns (if c then a else b) P"
  by simp

lemma returns_ex: "returns r (\<lambda>_. True) \<longleftrightarrow> (\<exists>x. r = Inr x)"
  by (cases r) auto

lemma returns_mono: "returns r P \<Longrightarrow> (\<And>x. P x \<Longrightarrow> Q x) \<Longrightarrow> returns r Q"
  by (cases r) auto

lemma returnsE: "returns r P \<Longrightarrow> (\<And>x. r = Inr x \<Longrightarrow> P x \<Longrightarrow> thesis) \<Longrightarrow> thesis"
  by (cases r) auto

lemma returns_map [simp]: "returns (map_sum id f r) P = returns r (\<lambda>x. P (f x))"
  by (cases r) auto

lemma map_sum_Inr: "map_sum id f r = Inr y \<longleftrightarrow> (\<exists>x. r = Inr x \<and> f x = y)"
  by (cases r) auto

text \<open>A loop over a list that stops at the first exception.\<close>

fun fold_result :: "('a \<Rightarrow> 's \<Rightarrow> 's result) \<Rightarrow> 'a list \<Rightarrow> 's \<Rightarrow> 's result" where
  "fold_result f [] s = Inr s"
| "fold_result f (x # xs) s = (case f x s of Inl e \<Rightarrow> Inl e | Inr s' \<Rightarrow> fold_result f xs s')"

lemma returns_fold_result:
  "(\<And>x s. x \<in> set xs \<Longrightarrow> P s \<Longrightarrow> returns (f x s) P) \<Longrightarrow> P s \<Longrightarrow> returns (fold_result f xs s) P"
  by (induction xs arbitrary: s) (auto intro!: returns_case)

lemma triple_collapse: "p = (fst p, fst (snd p), snd (snd p))"
  by simp

subsection \<open>Lists\<close>

text \<open>The slice \<open>xs[i:j]\<close> for non-negative bounds, and \<open>xs[-n:]\<close> (the whole list for
  \<open>n = 0\<close>, because \<open>-0\<close> is \<open>0\<close>).\<close>

definition py_slice :: "'a list \<Rightarrow> nat \<Rightarrow> nat \<Rightarrow> 'a list" where
  "py_slice xs i j = take (j - i) (drop i xs)"

definition py_tail :: "'a list \<Rightarrow> nat \<Rightarrow> 'a list" where
  "py_tail xs n = (if n = 0 then xs else drop (length xs - n) xs)"

lemma length_py_slice [simp]: "length (py_slice xs i j) = min (j - i) (length xs - i)"
  by (simp add: py_slice_def min.commute)

lemma length_py_tail: "0 < n \<Longrightarrow> length (py_tail xs n) = min n (length xs)"
  by (simp add: py_tail_def)

lemma py_tail_id: "length xs \<le> n \<Longrightarrow> py_tail xs n = xs"
  by (simp add: py_tail_def)

lemma set_py_tail: "set (py_tail xs n) \<subseteq> set xs"
  by (auto simp: py_tail_def dest: in_set_dropD)

lemma distinct_py_tail: "distinct xs \<Longrightarrow> distinct (py_tail xs n)"
  by (simp add: py_tail_def)

lemma py_tail_snoc: "0 < n \<Longrightarrow> py_tail (xs @ [x]) n = py_tail xs (n - 1) @ [x] \<or> n = 1"
  by (auto simp: py_tail_def Suc_diff_le)

lemma last_in_py_tail: "xs \<noteq> [] \<Longrightarrow> last xs \<in> set (py_tail xs n)"
proof (cases "n = 0")
  case False
  assume "xs \<noteq> []"
  with False have lt: "length xs - n < length xs" by (cases xs) auto
  then have "last (drop (length xs - n) xs) = last xs" by (rule last_drop)
  with lt have "last xs \<in> set (drop (length xs - n) xs)"
    by (metis drop_eq_Nil last_in_set not_le)
  with False show ?thesis by (simp add: py_tail_def)
qed (simp add: py_tail_def)

text \<open>\<open>collections.deque(maxlen=n)\<close>: an append beyond the bound drops from the left.\<close>

definition deque_append :: "nat \<Rightarrow> 'a list \<Rightarrow> 'a \<Rightarrow> 'a list" where
  "deque_append n q x = (let q' = q @ [x] in drop (length q' - n) q')"

lemma length_deque_append: "length (deque_append n q x) \<le> n"
  by (simp add: deque_append_def Let_def)

lemma deque_append_room: "length q < n \<Longrightarrow> deque_append n q x = q @ [x]"
  by (simp add: deque_append_def Let_def)

lemma set_deque_append: "set (deque_append n q x) \<subseteq> insert x (set q)"
  by (auto simp: deque_append_def Let_def dest: in_set_dropD)

lemma deque_append_full:
  "length q = n \<Longrightarrow> 0 < n \<Longrightarrow> deque_append n q x = tl q @ [x]"
  by (cases q) (auto simp: deque_append_def Let_def)

subsection \<open>Strings\<close>

definition is_space :: "char \<Rightarrow> bool" where
  "is_space c \<longleftrightarrow> of_char c \<in> {9::nat, 10, 11, 12, 13, 28, 29, 30, 31, 32, 133, 160}"

definition strip :: "string \<Rightarrow> string" where
  "strip s = rev (dropWhile is_space (rev (dropWhile is_space s)))"

text \<open>\<open>s.split(c)\<close> for a one-character separator: never the empty list.\<close>

fun split_on :: "char \<Rightarrow> string \<Rightarrow> string list" where
  "split_on c [] = [[]]"
| "split_on c (x # xs) =
     (if x = c then [] # split_on c xs
      else (case split_on c xs of [] \<Rightarrow> [[x]] | w # ws \<Rightarrow> (x # w) # ws))"

lemma split_on_nonempty [simp]: "split_on c s \<noteq> []"
  by (induction s) (auto split: list.splits)

lemma hd_split_on: "hd (split_on c s) = takeWhile (\<lambda>x. x \<noteq> c) s"
  by (induction s) (auto split: list.splits)

lemma strip_id: "\<forall>c \<in> set s. \<not> is_space c \<Longrightarrow> strip s = s"
  by (simp add: strip_def dropWhile_eq_self_iff hd_conv_nth[symmetric])
    (metis dropWhile_eq_self_iff hd_in_set set_rev rev_rev_ident)

definition clean_ip :: "string \<Rightarrow> string" where
  \<comment> \<open>\<open>ip.split("/")[0].strip()\<close>, repeated at every use of an address\<close>
  "clean_ip s = strip (hd (split_on CHR ''/'' s))"

lemma clean_ip_id: "\<forall>c \<in> set s. \<not> is_space c \<and> c \<noteq> CHR ''/'' \<Longrightarrow> clean_ip s = s"
  by (simp add: clean_ip_def hd_split_on takeWhile_eq_all_conv[THEN iffD2] strip_id)

definition upper_char :: "char \<Rightarrow> char" where
  "upper_char c = (let k = of_char c :: nat in if 97 \<le> k \<and> k \<le> 122 then char_of (k - 32) else c)"

definition lower_char :: "char \<Rightarrow> char" where
  "lower_char c = (let k = of_char c :: nat in if 65 \<le> k \<and> k \<le> 90 then char_of (k + 32) else c)"

definition upper :: "string \<Rightarrow> string" where "upper s = map upper_char s"
definition lower :: "string \<Rightarrow> string" where "lower s = map lower_char s"

subsection \<open>Decimal text\<close>

definition digit :: "nat \<Rightarrow> char" where "digit d = char_of (48 + d)"

definition digit_val :: "char \<Rightarrow> nat option" where
  "digit_val c = (let k = of_char c :: nat in if 48 \<le> k \<and> k \<le> 57 then Some (k - 48) else None)"

lemma digit_val_digit [simp]: "d < 10 \<Longrightarrow> digit_val (digit d) = Some d"
  by (simp add: digit_def digit_val_def Let_def)

text \<open>\<open>str(n)\<close> of a non-negative integer.\<close>

fun dec :: "nat \<Rightarrow> string" where
  "dec n = (if n < 10 then [digit n] else dec (n div 10) @ [digit (n mod 10)])"

declare dec.simps [simp del]

text \<open>\<open>int(s)\<close>: surrounding blanks, one sign, digits that single underscores may separate.\<close>

fun digits_val :: "nat \<Rightarrow> string \<Rightarrow> nat option" where
  "digits_val a [] = Some a"
| "digits_val a (c # cs) =
     (case digit_val c of
        Some d \<Rightarrow> digits_val (a * 10 + d) cs
      | None \<Rightarrow>
          (case cs of
             [] \<Rightarrow> None
           | c' # _ \<Rightarrow> if c = CHR ''_'' \<and> digit_val c' \<noteq> None then digits_val a cs else None))"

definition nat_literal :: "string \<Rightarrow> nat option" where
  "nat_literal s =
     (case s of [] \<Rightarrow> None | c # _ \<Rightarrow> if digit_val c = None then None else digits_val 0 s)"

definition py_int :: "string \<Rightarrow> int result" where
  "py_int s =
     (let t = strip s;
          signed = (\<lambda>f ds. case nat_literal ds of None \<Rightarrow> Inl ValueError | Some n \<Rightarrow> Inr (f (int n)))
      in case t of
           [] \<Rightarrow> Inl ValueError
         | c # ds \<Rightarrow> if c = CHR ''-'' then signed uminus ds
                    else if c = CHR ''+'' then signed id ds else signed id t)"

lemma dec_digits: "c \<in> set (dec n) \<Longrightarrow> digit_val c \<noteq> None"
proof (induction n rule: dec.induct)
  case (1 n)
  show ?case
  proof (cases "n < 10")
    case True
    with "1.prems" show ?thesis by (subst (asm) dec.simps) simp
  next
    case False
    with "1.prems" have "c \<in> set (dec (n div 10)) \<or> c = digit (n mod 10)"
      by (subst (asm) dec.simps) auto
    with "1.IH"[OF False] show ?thesis by auto
  qed
qed

lemma dec_nonempty [simp]: "dec n \<noteq> []"
  by (subst dec.simps) simp

lemma digit_no_space: "digit_val c \<noteq> None \<Longrightarrow> \<not> is_space c"
  by (auto simp: is_space_def digit_val_def Let_def split: if_splits)

lemma decimal_no_space: "digit_val c \<noteq> None \<or> c = CHR ''.'' \<Longrightarrow> \<not> is_space c"
  using digit_no_space[of c] by (elim disjE) (simp_all add: is_space_def)

lemma dec_no_space: "c \<in> set (dec n) \<Longrightarrow> \<not> is_space c"
  by (rule digit_no_space) (rule dec_digits)

lemma dec_not_in [simp]: "digit_val c = None \<Longrightarrow> c \<notin> set (dec n)"
  using dec_digits by blast

lemma strip_dec [simp]: "strip (dec n) = dec n"
  by (rule strip_id) (auto dest: dec_no_space)

lemma digits_val_snoc:
  "digits_val a s = Some m \<Longrightarrow> d < 10 \<Longrightarrow> digits_val a (s @ [digit d]) = Some (m * 10 + d)"
proof (induction a s rule: digits_val.induct)
  case (2 a c cs)
  then show ?case
    by (cases cs) (auto split: option.splits if_splits)
qed simp

lemma digits_val_dec: "digits_val 0 (dec n) = Some n"
proof (induction n rule: dec.induct)
  case (1 n)
  show ?case
  proof (cases "n < 10")
    case True
    then show ?thesis by (subst dec.simps) simp
  next
    case False
    with 1 have "digits_val 0 (dec (n div 10)) = Some (n div 10)" by simp
    then have "digits_val 0 (dec (n div 10) @ [digit (n mod 10)]) = Some (n div 10 * 10 + n mod 10)"
      by (rule digits_val_snoc) simp
    with False show ?thesis by (subst dec.simps) simp
  qed
qed

lemma nat_literal_dec [simp]: "nat_literal (dec n) = Some n"
proof -
  obtain c cs where c: "dec n = c # cs" by (cases "dec n") auto
  then have "digit_val c \<noteq> None" using dec_digits[of c n] by simp
  moreover have "digits_val 0 (c # cs) = Some n" using digits_val_dec[of n] c by simp
  ultimately show ?thesis unfolding nat_literal_def c by simp
qed

lemma py_int_dec [simp]: "py_int (dec n) = Inr (int n)"
proof -
  obtain c cs where c: "dec n = c # cs" by (cases "dec n") auto
  then have "digit_val c \<noteq> None" using dec_digits[of c n] by simp
  then have "c \<noteq> CHR ''-''" "c \<noteq> CHR ''+''" by (auto simp: digit_val_def)
  moreover have "nat_literal (c # cs) = Some n" using nat_literal_dec[of n] c by simp
  moreover have "strip (c # cs) = c # cs" using strip_dec[of n] unfolding c .
  ultimately show ?thesis unfolding c by (simp add: py_int_def)
qed

lemma dec_inject [simp]: "dec m = dec n \<longleftrightarrow> m = n"
  by (metis nat_literal_dec option.inject)

end
