(* ===== verification/Py_Bytes.thy ===== *)
theory Py_Bytes
  imports Lnmp_Prelude
begin

text \<open>
  The parts of Python's \<open>struct\<close>, \<open>int.from_bytes\<close> and \<open>socket\<close> address formatting that the
  datagram decoders of \<open>monitoring/flow\<close> use. A \<open>bytes\<close> object is a list of 8-bit words;
  the numbers read from it are naturals (Python integers do not wrap). Reading past the
  end of a buffer raises \<open>struct.error\<close>, an address of the wrong length \<open>ValueError\<close>; both are
  values here, so that "the decoder never raises" can be stated and proved.
\<close>

subsection \<open>Big-endian integers\<close>

definition be_nat :: "byte list \<Rightarrow> nat" where
  \<comment> \<open>\<open>int.from_bytes(bs, "big")\<close>\<close>
  "be_nat bs = foldl (\<lambda>a b. a * 256 + unat b) 0 bs"

lemma be_nat_Nil [simp]: "be_nat [] = 0"
  by (simp add: be_nat_def)

lemma be_nat_snoc [simp]: "be_nat (bs @ [b]) = be_nat bs * 256 + unat b"
  by (simp add: be_nat_def)

lemma unat_byte_less: "unat (b :: byte) < 256"
  using unsigned_less[of b, where ?'a = nat] by simp

lemma be_nat_bound: "be_nat bs < 256 ^ length bs"
proof (induction bs rule: rev_induct)
  case (snoc b bs)
  have "be_nat bs * 256 + unat b < (be_nat bs + 1) * 256"
    using unat_byte_less[of b] by simp
  also have "\<dots> \<le> 256 ^ length bs * 256" using snoc by simp
  finally show ?case by simp
qed simp

text \<open>\<open>n.to_bytes(k, "big")\<close>, which is \<open>struct.pack\<close> of one unsigned field of width \<open>k\<close>.\<close>

fun to_be :: "nat \<Rightarrow> nat \<Rightarrow> byte list" where
  "to_be 0 n = []"
| "to_be (Suc k) n = to_be k (n div 256) @ [word_of_nat (n mod 256)]"

lemma length_to_be [simp]: "length (to_be k n) = k"
  by (induction k arbitrary: n) auto

lemma unat_byte_of [simp]: "unat (word_of_nat (n mod 256) :: byte) = n mod 256"
  by (simp add: unat_of_nat)

lemma be_nat_to_be: "n < 256 ^ k \<Longrightarrow> be_nat (to_be k n) = n"
proof (induction k arbitrary: n)
  case (Suc k)
  then have "n div 256 < 256 ^ k" by (simp add: less_mult_imp_div_less mult.commute)
  then have "be_nat (to_be k (n div 256)) = n div 256" by (rule Suc.IH)
  then show ?case by simp
qed simp

lemma to_be_be_nat: "length bs = k \<Longrightarrow> to_be k (be_nat bs) = bs"
proof (induction k arbitrary: bs)
  case (Suc k)
  then obtain b cs where bs: "bs = cs @ [b]" by (cases bs rule: rev_cases) auto
  with Suc have "to_be k (be_nat cs) = cs" by simp
  with bs unat_byte_less[of b] show ?case by simp
qed simp

subsection \<open>struct\<close>

text \<open>The network-order formats of the sources use \<open>B\<close>, \<open>H\<close> and \<open>I\<close> only.\<close>

datatype fmt = B | H | I

fun fmt_size :: "fmt \<Rightarrow> nat" where
  "fmt_size B = 1" | "fmt_size H = 2" | "fmt_size I = 4"

definition calcsize :: "fmt list \<Rightarrow> nat" where "calcsize fs = sum_list (map fmt_size fs)"

fun unpack_fields :: "fmt list \<Rightarrow> byte list \<Rightarrow> nat list" where
  "unpack_fields [] bs = []"
| "unpack_fields (f # fs) bs =
     be_nat (take (fmt_size f) bs) # unpack_fields fs (drop (fmt_size f) bs)"

definition unpack_from :: "fmt list \<Rightarrow> byte list \<Rightarrow> nat \<Rightarrow> nat list result" where
  "unpack_from fs data off =
     (if off + calcsize fs \<le> length data then Inr (unpack_fields fs (drop off data))
      else Inl StructError)"

fun pack :: "fmt list \<Rightarrow> nat list \<Rightarrow> byte list" where
  "pack (f # fs) (v # vs) = to_be (fmt_size f) v @ pack fs vs"
| "pack _ _ = []"

fun fits :: "fmt list \<Rightarrow> nat list \<Rightarrow> bool" where
  "fits [] [] = True"
| "fits (f # fs) (v # vs) = (v < 256 ^ fmt_size f \<and> fits fs vs)"
| "fits _ _ = False"

lemma calcsize_simps [simp]: "calcsize [] = 0" "calcsize (f # fs) = fmt_size f + calcsize fs"
  by (simp_all add: calcsize_def)

lemma length_unpack_fields [simp]: "length (unpack_fields fs bs) = length fs"
  by (induction fs arbitrary: bs) auto

lemma unpack_fields_append:
  "calcsize fs \<le> length bs \<Longrightarrow> unpack_fields fs (bs @ cs) = unpack_fields fs bs"
  by (induction fs arbitrary: bs) auto

lemma length_pack: "fits fs vs \<Longrightarrow> length (pack fs vs) = calcsize fs"
  by (induction fs vs rule: fits.induct) auto

lemma unpack_pack: "fits fs vs \<Longrightarrow> unpack_fields fs (pack fs vs @ rest) = vs"
  by (induction fs vs rule: fits.induct) (auto simp: be_nat_to_be)

lemma fits_unpack: "calcsize fs \<le> length bs \<Longrightarrow> fits fs (unpack_fields fs bs)"
proof (induction fs arbitrary: bs)
  case (Cons f fs)
  have "be_nat (take (fmt_size f) bs) < 256 ^ fmt_size f"
    using be_nat_bound[of "take (fmt_size f) bs"] Cons.prems by (simp add: min_absorb2)
  with Cons show ?case by simp
qed simp

lemma unpack_from_ok:
  "off + calcsize fs \<le> length data \<Longrightarrow> unpack_from fs data off = Inr (unpack_fields fs (drop off data))"
  by (simp add: unpack_from_def)

lemma unpack_from_pack:
  "fits fs vs \<Longrightarrow> unpack_from fs (pre @ pack fs vs @ rest) (length pre) = Inr vs"
  by (simp add: unpack_from_def length_pack unpack_pack)

subsection \<open>Textual addresses\<close>

definition join :: "string \<Rightarrow> string list \<Rightarrow> string" where
  \<comment> \<open>\<open>sep.join(ws)\<close>\<close>
  "join sep ws = (case ws of [] \<Rightarrow> [] | v # vs \<Rightarrow> v @ concat (map (\<lambda>w. sep @ w) vs))"

definition dotted :: "byte list \<Rightarrow> string" where
  "dotted bs = join ''.'' (map (\<lambda>b. dec (unat b)) bs)"

text \<open>\<open>socket.inet_ntoa(bs)\<close> and \<open>socket.inet_ntop(AF_INET, bs)\<close>.\<close>

definition inet_ntoa :: "byte list \<Rightarrow> string result" where
  "inet_ntoa bs = (if length bs = 4 then Inr (dotted bs) else Inl ValueError)"

definition hex_digit :: "nat \<Rightarrow> char" where
  "hex_digit d = (if d < 10 then digit d else char_of (87 + d))"

fun hex :: "nat \<Rightarrow> string" where
  "hex n = (if n < 16 then [hex_digit n] else hex (n div 16) @ [hex_digit (n mod 16)])"

declare hex.simps [simp del]

text \<open>
  \<open>socket.inet_ntop(AF_INET6, bs)\<close>, as the C library writes it: the first longest run of at
  least two zero groups becomes \<open>::\<close>, and an address whose first six groups are zero, or
  five zeros and \<open>ffff\<close>, ends in dotted decimal.
\<close>

fun groups :: "byte list \<Rightarrow> nat list" where
  "groups (a # b # bs) = be_nat [a, b] # groups bs"
| "groups _ = []"

definition zeros_at :: "nat list \<Rightarrow> nat \<Rightarrow> nat" where
  "zeros_at ws i = length (takeWhile (\<lambda>w. w = 0) (drop i ws))"

definition best_run :: "nat list \<Rightarrow> nat \<times> nat" where
  \<comment> \<open>start and length of the first longest run of zero groups\<close>
  "best_run ws =
     foldl (\<lambda>(b, l) i. if l < zeros_at ws i then (i, zeros_at ws i) else (b, l)) (0, 0) [0..<length ws]"

definition inet_ntop6 :: "byte list \<Rightarrow> string result" where
  "inet_ntop6 bs =
     (if length bs \<noteq> 16 then Inl ValueError
      else
        let ws = groups bs;
            (b, l) = best_run ws;
            run = 2 \<le> l;
            mapped = run \<and> b = 0 \<and> (l = 6 \<or> (l = 5 \<and> ws ! 5 = 65535));
            piece = (\<lambda>i. if run \<and> b \<le> i \<and> i < b + l then (if i = b then '':'' else [])
                         else (if i = 0 then [] else '':'')
                              @ (if mapped \<and> i = 6 then dotted (drop 12 bs) else hex (ws ! i)));
            n = (if mapped then 7 else 8)
        in Inr (concat (map piece [0..<n]) @ (if run \<and> b + l = 8 then '':'' else [])))"

lemma inet_ntoa_ok: "length bs = 4 \<Longrightarrow> \<exists>s. inet_ntoa bs = Inr s \<and> s \<noteq> []"
  by (cases bs) (auto simp: inet_ntoa_def dotted_def join_def)

lemma inet_ntop6_ok: "length bs = 16 \<Longrightarrow> \<exists>s. inet_ntop6 bs = Inr s"
  by (simp add: inet_ntop6_def Let_def split: prod.splits)

end
