(* ===== verification/Flow_Record.thy ===== *)
theory Flow_Record
  imports Py_Bytes
begin

text \<open>
  The normalised flow record that the three decoders of \<open>monitoring/flow\<close> build (a
  dictionary with fixed keys in the source) and the uptime arithmetic that NetFlow v5 and
  v9 share: a flow's start and end come as milliseconds of the device's 32-bit uptime
  counter and are turned into wall-clock seconds relative to the export time.
\<close>

record flow =
  f_version :: nat
  f_exporter_ip :: string
  f_src_ip :: string
  f_dst_ip :: string
  f_src_port :: nat
  f_dst_port :: nat
  f_protocol :: nat
  f_bytes :: nat
  f_packets :: nat
  f_tcp_flags :: nat
  f_input_if :: nat
  f_output_if :: nat
  f_start_time :: real
  f_end_time :: real

definition elapsed_ms :: "nat \<Rightarrow> nat \<Rightarrow> int" where
  "elapsed_ms sys_uptime uptime_ms =
     (let diff = int sys_uptime - int uptime_ms
      in if diff < 0 then diff + 0x100000000 else diff)"

definition calc_flow_time :: "nat \<Rightarrow> nat \<Rightarrow> nat \<Rightarrow> real" where
  "calc_flow_time sys_uptime unix_secs uptime_ms =
     (let diff = elapsed_ms sys_uptime uptime_ms
      in if 2592000000 < diff then real unix_secs
         else real unix_secs - real_of_int diff / 1000)"

definition calc_v9_time :: "nat \<Rightarrow> nat \<Rightarrow> nat option \<Rightarrow> real" where
  "calc_v9_time sys_uptime unix_secs uptime =
     (case uptime of
        None \<Rightarrow> real unix_secs
      | Some uptime_ms \<Rightarrow>
          (let diff = elapsed_ms sys_uptime uptime_ms
           in if 2592000000 < diff then real unix_secs
              else real unix_secs - real_of_int diff / 1000))"

lemma calc_v9_time_simps [simp]:
  "calc_v9_time s u None = real u" "calc_v9_time s u (Some t) = calc_flow_time s u t"
  by (simp_all add: calc_v9_time_def calc_flow_time_def)

lemma elapsed_ms_mod:
  fixes U u :: nat
  assumes "u \<le> U" and "U - u < 4294967296"
  shows "elapsed_ms (U mod 4294967296) (u mod 4294967296) = int (U - u)"
proof -
  let ?m = "4294967296 :: int"
  let ?e = "elapsed_ms (U mod 4294967296) (u mod 4294967296)"
  have "?e mod ?m = (int U - int u) mod ?m"
    by (simp add: elapsed_ms_def Let_def zmod_int mod_simps)
  moreover have "0 \<le> ?e" "?e < ?m"
    by (auto simp: elapsed_ms_def Let_def zmod_int)
  ultimately have "?e = (int U - int u) mod ?m"
    by (metis mod_pos_pos_trivial)
  also have "\<dots> = int U - int u"
    using assms by (intro mod_pos_pos_trivial) linarith+
  finally show ?thesis using assms(1) by (simp add: of_nat_diff)
qed

lemma elapsed_ms_nonneg: "t \<le> s + 4294967296 \<Longrightarrow> 0 \<le> elapsed_ms s t"
  by (simp add: elapsed_ms_def Let_def)

lemma calc_flow_time_bounds:
  assumes "t \<le> s + 4294967296"
  shows "calc_flow_time s u t \<le> real u" and "real u - 2592000 \<le> calc_flow_time s u t"
  using elapsed_ms_nonneg[OF assms] by (simp_all add: calc_flow_time_def Let_def field_simps)

text \<open>
  C1. A true flow time survives the 32-bit rollover of the uptime counter: if the device had
  been up for \<open>U\<close> ms when it exported and for \<open>u\<close> ms when the flow event happened, at most
  30 days earlier, then whatever the counter showed modulo \<open>2\<^sup>32\<close>, the computed time is
  the export time less the elapsed milliseconds.
\<close>

theorem calc_flow_time_rollover:
  assumes "u \<le> U" and "U - u \<le> 2592000000"
  shows "calc_flow_time (U mod 2 ^ 32) unix_secs (u mod 2 ^ 32)
         = real unix_secs - real (U - u) / 1000"
proof -
  have "elapsed_ms (U mod 4294967296) (u mod 4294967296) = int (U - u)"
    using assms by (intro elapsed_ms_mod) simp_all
  with assms(2) show ?thesis by (simp add: calc_flow_time_def)
qed

theorem calc_flow_time_rollover_witness:
  "calc_flow_time 1000 1700000000 4294967000 = 1700000000 - 1.296"
  using calc_flow_time_rollover[of "4294967000" "4294968296" 1700000000] by simp


subsection \<open>Draining an orphan buffer\<close>

text \<open>
  The template-based decoders keep data that arrived before its template in a ring buffer
  of \<open>ORPHAN_MAX\<close> items and, when a template arrives, run the buffer once: an item older than
  the orphan TTL is dropped, an item of this template is decoded and consumed, any other
  item is kept. The loop is the same in \<open>v9_parser.py\<close> and \<open>ipfix_parser.py\<close>; it is a function
  of the three tests the two files instantiate.
\<close>

definition ORPHAN_MAX :: nat where "ORPHAN_MAX = 100"

fun drain_items ::
  "('i \<Rightarrow> bool) \<Rightarrow> ('i \<Rightarrow> bool) \<Rightarrow> ('i \<Rightarrow> flow list option result) \<Rightarrow> 'i list \<Rightarrow>
   flow list \<Rightarrow> 'i list \<Rightarrow> (flow list \<times> 'i list) result" where
  "drain_items expired matches decode [] out remaining = Inr (out, remaining)"
| "drain_items expired matches decode (x # xs) out remaining =
     (if expired x then drain_items expired matches decode xs out remaining
      else if matches x then
        (case decode x of
           Inl e \<Rightarrow> Inl e
         | Inr None \<Rightarrow> drain_items expired matches decode xs out remaining
         | Inr (Some fs) \<Rightarrow> drain_items expired matches decode xs (out @ fs) remaining)
      else drain_items expired matches decode xs out (deque_append ORPHAN_MAX remaining x))"

definition drained :: "('i \<Rightarrow> bool) \<Rightarrow> ('i \<Rightarrow> bool) \<Rightarrow> ('i \<Rightarrow> flow list) \<Rightarrow> 'i list \<Rightarrow> flow list" where
  "drained expired matches fd xs =
     concat (map fd (filter (\<lambda>x. \<not> expired x \<and> matches x) xs))"

lemma drain_items_eq:
  assumes "\<And>x. x \<in> set xs \<Longrightarrow> \<not> expired x \<Longrightarrow> matches x \<Longrightarrow> decode x = Inr (Some (fd x))"
    and "length xs + length remaining \<le> ORPHAN_MAX"
  shows "drain_items expired matches decode xs out remaining =
    Inr (out @ drained expired matches fd xs,
         remaining @ filter (\<lambda>x. \<not> expired x \<and> \<not> matches x) xs)"
  using assms
proof (induction xs arbitrary: out remaining)
  case (Cons x xs)
  then show ?case
    by (cases "expired x"; cases "matches x") (auto simp: drained_def deque_append_room)
qed (simp add: drained_def)

lemma drain_items_returns:
  assumes "\<And>x. x \<in> set xs \<Longrightarrow> returns (decode x) (\<lambda>r. \<forall>fs. r = Some fs \<longrightarrow> (\<forall>f \<in> set fs. P f))"
    and "\<forall>f \<in> set out. P f" and "length rem \<le> ORPHAN_MAX"
  shows "returns (drain_items expired matches decode xs out rem)
    (\<lambda>(out', rem'). (\<forall>f \<in> set out'. P f) \<and> set rem' \<subseteq> set xs \<union> set rem \<and> length rem' \<le> ORPHAN_MAX)"
  using assms
proof (induction xs arbitrary: out rem)
  case (Cons x xs)
  have app: "length (deque_append ORPHAN_MAX rem x) \<le> ORPHAN_MAX" by (rule length_deque_append)
  have sub: "set (deque_append ORPHAN_MAX rem x) \<subseteq> insert x (set rem)" by (rule set_deque_append)
  consider "expired x" | "\<not> expired x" "matches x" | "\<not> expired x" "\<not> matches x" by blast
  then show ?case
  proof cases
    case 1
    have "returns (drain_items expired matches decode xs out rem) (\<lambda>(out', rem').
        (\<forall>f \<in> set out'. P f) \<and> set rem' \<subseteq> set xs \<union> set rem \<and> length rem' \<le> ORPHAN_MAX)"
      using Cons.prems by (intro Cons.IH) auto
    then show ?thesis using 1 by (auto elim: returns_mono)
  next
    case 2
    obtain r where r: "decode x = Inr r" and "\<forall>fs. r = Some fs \<longrightarrow> (\<forall>f \<in> set fs. P f)"
      using Cons.prems(1)[of x] by (auto elim!: returnsE)
    then have "\<forall>f \<in> set (out @ (case r of None \<Rightarrow> [] | Some fs \<Rightarrow> fs)). P f"
      using Cons.prems(2) by (auto split: option.splits)
    then have "returns (drain_items expired matches decode xs
        (out @ (case r of None \<Rightarrow> [] | Some fs \<Rightarrow> fs)) rem) (\<lambda>(out', rem').
        (\<forall>f \<in> set out'. P f) \<and> set rem' \<subseteq> set xs \<union> set rem \<and> length rem' \<le> ORPHAN_MAX)"
      using Cons.prems by (intro Cons.IH) auto
    then show ?thesis using 2 r by (cases r) (auto elim: returns_mono)
  next
    case 3
    have "returns (drain_items expired matches decode xs out (deque_append ORPHAN_MAX rem x))
      (\<lambda>(out', rem'). (\<forall>f \<in> set out'. P f) \<and>
        set rem' \<subseteq> set xs \<union> set (deque_append ORPHAN_MAX rem x) \<and> length rem' \<le> ORPHAN_MAX)"
      using Cons.prems app by (intro Cons.IH) auto
    then show ?thesis using 3 sub by (auto elim!: returns_mono)
  qed
qed auto

subsection \<open>Sets inside a datagram\<close>

text \<open>
  After their header, NetFlow v9 and IPFIX datagrams are sequences of sets, each an id, its
  length including these four bytes, and a payload. \<open>sets_bytes\<close> is what an exporter sends.
\<close>

definition set_bytes :: "nat \<times> byte list \<Rightarrow> byte list" where
  "set_bytes s = pack [H, H] [fst s, 4 + length (snd s)] @ snd s"

definition sets_bytes :: "(nat \<times> byte list) list \<Rightarrow> byte list" where
  "sets_bytes ss = concat (map set_bytes ss)"

definition set_ok :: "nat \<times> byte list \<Rightarrow> bool" where
  "set_ok s \<longleftrightarrow> fst s < 65536 \<and> length (snd s) < 65532"

lemma sets_bytes_simps [simp]:
  "sets_bytes [] = []" "sets_bytes (s # ss) = set_bytes s @ sets_bytes ss"
  by (simp_all add: sets_bytes_def)

lemma length_set_bytes [simp]: "length (set_bytes s) = 4 + length (snd s)"
  by (simp add: set_bytes_def)

lemma unpack_set_header:
  "set_ok s \<Longrightarrow> unpack_from [H, H] (pre @ set_bytes s @ rest) (length pre) = Inr [fst s, 4 + length (snd s)]"
  unfolding set_bytes_def append_assoc by (rule unpack_from_pack) (simp add: set_ok_def)

lemma set_payload:
  "py_slice (pre @ set_bytes s @ rest) (length pre + 4) (length pre + (4 + length (snd s))) = snd s"
  by (simp add: py_slice_def set_bytes_def)

subsection \<open>What every decoder promises\<close>

definition flow_ok :: "nat \<Rightarrow> string \<Rightarrow> flow \<Rightarrow> bool" where
  "flow_ok version ip f \<longleftrightarrow>
     f_version f = version \<and> f_exporter_ip f = ip \<and> f_src_ip f \<noteq> [] \<and> f_dst_ip f \<noteq> []"

text \<open>
  The contract between a decoder and the collector that feeds it datagrams from the network:
  in a good state no input makes it raise, the next state is good, and every flow carries
  the decoder's version, the exporter it came from and both addresses.
\<close>

definition decode_into ::
  "('s \<Rightarrow> byte list \<Rightarrow> string \<Rightarrow> (flow list \<times> 's) result) \<Rightarrow> byte list \<times> string \<Rightarrow>
   flow list \<times> 's \<Rightarrow> (flow list \<times> 's) result" where
  "decode_into decode d st =
     (case decode (snd st) (fst d) (snd d) of
        Inl e \<Rightarrow> Inl e
      | Inr (fs, s') \<Rightarrow> Inr (fst st @ fs, s'))"

locale flow_decoder =
  fixes decode :: "'s \<Rightarrow> byte list \<Rightarrow> string \<Rightarrow> (flow list \<times> 's) result"
    and inv :: "'s \<Rightarrow> bool"
    and version :: nat
  assumes decode_returns:
    "inv s \<Longrightarrow> returns (decode s data ip) (\<lambda>(fs, s'). inv s' \<and> (\<forall>f \<in> set fs. flow_ok version ip f))"
begin

definition good :: "flow list \<times> 's \<Rightarrow> bool" where
  "good st \<longleftrightarrow> inv (snd st) \<and> (\<forall>f \<in> set (fst st). flow_ok version (f_exporter_ip f) f)"

lemma decode_Inr: "inv s \<Longrightarrow> \<exists>fs s'. decode s data ip = Inr (fs, s') \<and> inv s'"
  using decode_returns[of s data ip] by (auto elim!: returnsE)

lemma decode_flow_ok:
  "inv s \<Longrightarrow> decode s data ip = Inr (fs, s') \<Longrightarrow> f \<in> set fs \<Longrightarrow> flow_ok version ip f"
  using decode_returns[of s data ip] by auto

lemma decode_inv: "inv s \<Longrightarrow> decode s data ip = Inr (fs, s') \<Longrightarrow> inv s'"
  using decode_returns[of s data ip] by auto

lemma decode_not_Inl: "inv s \<Longrightarrow> decode s data ip \<noteq> Inl e"
  using decode_returns[of s data ip] by (cases "decode s data ip") auto

lemma decode_stream:
  assumes "inv s"
  shows "returns (fold_result (decode_into decode) ds ([], s)) good"
proof (rule returns_fold_result)
  fix d and st :: "flow list \<times> 's"
  assume "good st"
  then show "returns (decode_into decode d st) good"
    using decode_returns[of "snd st" "fst d" "snd d"]
    by (cases st) (auto simp: decode_into_def good_def flow_ok_def elim!: returnsE)
qed (use assms in \<open>simp add: good_def\<close>)

end

end
