(* ===== verification/NetFlow_V5.thy ===== *)
theory NetFlow_V5
  imports Flow_Record
begin

unbundle bit_operations_syntax

text \<open>
  \<open>monitoring/flow/v5_parser.py\<close>: the stateless NetFlow v5 decoder. The header says how many
  records follow; as many as the datagram really holds are read at a fixed stride.
\<close>

definition HEADER_STRUCT :: "fmt list" where
  "HEADER_STRUCT = [H, H, I, I, I, I, B, B, H]"

definition RECORD_STRUCT :: "fmt list" where
  "RECORD_STRUCT = [I, I, I, H, H, I, I, I, I, H, H, B, B, B, B, H, H, B, B, H]"

definition HEADER_SIZE :: nat where "HEADER_SIZE = calcsize HEADER_STRUCT"
definition RECORD_SIZE :: nat where "RECORD_SIZE = calcsize RECORD_STRUCT"

lemma v5_sizes [simp]:
  "calcsize HEADER_STRUCT = 24" "calcsize RECORD_STRUCT = 48" "HEADER_SIZE = 24" "RECORD_SIZE = 48"
  by (simp_all add: HEADER_SIZE_def RECORD_SIZE_def HEADER_STRUCT_def RECORD_STRUCT_def)

definition sampling_multiplier :: "nat \<Rightarrow> nat" where
  "sampling_multiplier raw_sampling =
     (let sampling_interval = raw_sampling AND 0x3FFF
      in if 0 < sampling_interval then sampling_interval else 1)"

lemma mask_3FFF: "n AND 0x3FFF = n mod 16384" for n :: nat
proof -
  have "n AND mask 14 = n mod 2 ^ 14" by (simp only: take_bit_eq_mask[symmetric] take_bit_eq_mod)
  then show ?thesis by (simp add: mask_eq_exp_minus_1)
qed

lemma sampling_multiplier_bounds: "1 \<le> sampling_multiplier r" "sampling_multiplier r < 2 ^ 14"
proof -
  have "r mod 16384 < 16384" by simp
  then show "1 \<le> sampling_multiplier r" "sampling_multiplier r < 2 ^ 14"
    by (auto simp: sampling_multiplier_def Let_def mask_3FFF)
qed

definition v5_flow :: "string \<Rightarrow> nat list \<Rightarrow> nat list \<Rightarrow> string \<Rightarrow> string \<Rightarrow> flow" where
  \<comment> \<open>the dictionary appended per record: \<open>h\<close> and \<open>r\<close> are the unpacked header and record\<close>
  "v5_flow exporter_ip h r src_ip dst_ip =
     \<lparr> f_version = 5, f_exporter_ip = exporter_ip, f_src_ip = src_ip, f_dst_ip = dst_ip,
       f_src_port = r ! 9, f_dst_port = r ! 10, f_protocol = r ! 13,
       f_bytes = r ! 6 * sampling_multiplier (h ! 8),
       f_packets = r ! 5 * sampling_multiplier (h ! 8),
       f_tcp_flags = r ! 12, f_input_if = r ! 3, f_output_if = r ! 4,
       f_start_time = calc_flow_time (h ! 2) (h ! 3) (r ! 7),
       f_end_time = calc_flow_time (h ! 2) (h ! 3) (r ! 8) \<rparr>"

definition v5_record :: "byte list \<Rightarrow> string \<Rightarrow> nat list \<Rightarrow> nat \<Rightarrow> flow result" where
  "v5_record data exporter_ip h offset =
     (case unpack_from RECORD_STRUCT data offset of
        Inl e \<Rightarrow> Inl e
      | Inr r \<Rightarrow>
          (case inet_ntoa (pack [I] [r ! 0]) of
             Inl e \<Rightarrow> Inl e
           | Inr src_ip \<Rightarrow>
               (case inet_ntoa (pack [I] [r ! 1]) of
                  Inl e \<Rightarrow> Inl e
                | Inr dst_ip \<Rightarrow> Inr (v5_flow exporter_ip h r src_ip dst_ip))))"

fun v5_records :: "nat \<Rightarrow> byte list \<Rightarrow> string \<Rightarrow> nat list \<Rightarrow> nat \<Rightarrow> flow list result" where
  \<comment> \<open>the \<open>for _ in range(actual_records)\<close> loop\<close>
  "v5_records 0 data exporter_ip h offset = Inr []"
| "v5_records (Suc n) data exporter_ip h offset =
     (case v5_record data exporter_ip h offset of
        Inl e \<Rightarrow> Inl e
      | Inr f \<Rightarrow>
          (case v5_records n data exporter_ip h (offset + RECORD_SIZE) of
             Inl e \<Rightarrow> Inl e
           | Inr fs \<Rightarrow> Inr (f # fs)))"

definition parse_v5_packet :: "byte list \<Rightarrow> string \<Rightarrow> flow list result" where
  "parse_v5_packet data exporter_ip =
     (if length data < HEADER_SIZE then Inr []
      else
        (case unpack_from HEADER_STRUCT data 0 of
           Inl e \<Rightarrow> Inl e
         | Inr h \<Rightarrow>
             (let version = h ! 0; count = h ! 1
              in if version \<noteq> 5 \<or> count = 0 then Inr []
                 else v5_records (min count ((length data - HEADER_SIZE) div RECORD_SIZE))
                        data exporter_ip h HEADER_SIZE)))"

subsection \<open>One record\<close>

definition v5_spec :: "string \<Rightarrow> nat list \<Rightarrow> nat list \<Rightarrow> flow" where
  \<comment> \<open>what a record means: its two leading words are the addresses\<close>
  "v5_spec exporter_ip h r =
     v5_flow exporter_ip h r (dotted (to_be 4 (r ! 0))) (dotted (to_be 4 (r ! 1)))"

lemma v5_record_ok:
  "off + 48 \<le> length data \<Longrightarrow>
   v5_record data ip h off = Inr (v5_spec ip h (unpack_fields RECORD_STRUCT (drop off data)))"
  by (simp add: v5_record_def unpack_from_ok inet_ntoa_def v5_spec_def)

lemma v5_records_ok:
  "off + n * 48 \<le> length data \<Longrightarrow>
   v5_records n data ip h off =
     Inr (map (\<lambda>i. v5_spec ip h (unpack_fields RECORD_STRUCT (drop (off + i * 48) data))) [0..<n])"
proof (induction n arbitrary: off)
  case (Suc n)
  then have "off + 48 \<le> length data" "off + 48 + n * 48 \<le> length data" by simp_all
  then show ?case
    using Suc.IH[of "off + 48"]
    by (simp add: v5_record_ok upt_conv_Cons map_Suc_upt[symmetric] add.assoc del: upt_Suc)
qed simp

subsection \<open>The whole datagram\<close>

definition v5_header :: "byte list \<Rightarrow> nat list" where
  "v5_header data = unpack_fields HEADER_STRUCT data"

definition v5_count :: "byte list \<Rightarrow> nat" where
  \<comment> \<open>how many records a datagram yields\<close>
  "v5_count data =
     (if length data < 24 \<or> v5_header data ! 0 \<noteq> 5 then 0
      else min (v5_header data ! 1) ((length data - 24) div 48))"

lemma v5_count_fits: "24 \<le> length data \<Longrightarrow> 24 + v5_count data * 48 \<le> length data"
proof -
  assume "24 \<le> length data"
  moreover have "v5_count data * 48 \<le> (length data - 24) div 48 * 48"
    by (simp add: v5_count_def)
  moreover have "(length data - 24) div 48 * 48 \<le> length data - 24"
    by (rule div_times_less_eq_dividend)
  ultimately show ?thesis by linarith
qed

lemma parse_v5_packet_eq:
  "parse_v5_packet data ip =
     Inr (map (\<lambda>i. v5_spec ip (v5_header data)
                    (unpack_fields RECORD_STRUCT (drop (24 + i * 48) data))) [0..<v5_count data])"
proof (cases "length data < 24 \<or> v5_header data ! 0 \<noteq> 5 \<or> v5_header data ! 1 = 0")
  case True
  then show ?thesis
    by (auto simp: parse_v5_packet_def unpack_from_ok v5_count_def v5_header_def Let_def)
next
  case False
  then have c: "v5_count data = min (v5_header data ! 1) ((length data - 24) div 48)"
    by (simp add: v5_count_def)
  from False have "24 + v5_count data * 48 \<le> length data" by (simp add: v5_count_fits)
  from v5_records_ok[OF this, of ip "v5_header data"] False c show ?thesis
    by (auto simp: parse_v5_packet_def unpack_from_ok v5_header_def Let_def)
qed

text \<open>
  C2. Decoding a NetFlow v5 datagram never raises, whatever its bytes, and yields exactly as
  many flows as the header announces and the datagram has room for.
\<close>

theorem parse_v5_packet_total:
  "\<exists>flows. parse_v5_packet data ip = Inr flows \<and> length flows = v5_count data"
  by (simp add: parse_v5_packet_eq)

definition v5_packet :: "nat list \<Rightarrow> nat list list \<Rightarrow> byte list" where
  \<comment> \<open>the datagram an exporter sends for a header and its records\<close>
  "v5_packet h rs = pack HEADER_STRUCT h @ concat (map (pack RECORD_STRUCT) rs)"

lemma drop_concat_stride:
  "\<forall>x \<in> set xs. length (f x) = k \<Longrightarrow> i < length xs \<Longrightarrow>
   drop (i * k) (concat (map f xs)) = f (xs ! i) @ drop (Suc i * k) (concat (map f xs))"
proof (induction xs arbitrary: i)
  case (Cons x xs)
  then show ?case
  proof (cases i)
    case (Suc j)
    with Cons.prems Cons.IH[of j] show ?thesis by (simp add: drop_append)
  qed simp
qed simp

lemma length_concat_stride: "\<forall>x \<in> set xs. length (f x) = k \<Longrightarrow> length (concat (map f xs)) = length xs * k"
  by (induction xs) auto

lemma v5_packet_record:
  assumes "fits HEADER_STRUCT h" and "\<forall>r \<in> set rs. fits RECORD_STRUCT r"
    and "i < length rs" and "24 + Suc i * 48 \<le> k"
  shows "unpack_fields RECORD_STRUCT (drop (24 + i * 48) (take k (v5_packet h rs))) = rs ! i"
proof -
  let ?body = "concat (map (pack RECORD_STRUCT) rs)"
  have len: "\<forall>r \<in> set rs. length (pack RECORD_STRUCT r) = 48"
    using assms(2) by (simp add: length_pack)
  have hl: "length (pack HEADER_STRUCT h) = 24" using assms(1) by (simp add: length_pack)
  have "drop (24 + i * 48) (v5_packet h rs) = drop (i * 48) ?body"
    by (simp add: v5_packet_def hl)
  also have "\<dots> = pack RECORD_STRUCT (rs ! i) @ drop (Suc i * 48) ?body"
    using len assms(3) by (rule drop_concat_stride)
  finally have "drop (24 + i * 48) (take k (v5_packet h rs))
      = take (k - (24 + i * 48)) (pack RECORD_STRUCT (rs ! i) @ drop (Suc i * 48) ?body)"
    by (simp add: drop_take)
  also have "\<dots> = pack RECORD_STRUCT (rs ! i) @ take (k - (24 + Suc i * 48)) (drop (Suc i * 48) ?body)"
    using assms(3,4) len by (simp add: take_append)
  finally show ?thesis using assms(2,3) by (simp add: unpack_pack)
qed

lemma v5_packet_header:
  assumes "fits HEADER_STRUCT h" and "24 \<le> k"
  shows "v5_header (take k (v5_packet h rs)) = h"
proof -
  have "length (pack HEADER_STRUCT h) = 24" using assms(1) by (simp add: length_pack)
  with assms show ?thesis by (simp add: v5_header_def v5_packet_def take_append unpack_pack)
qed

lemma v5_packet_length:
  "fits HEADER_STRUCT h \<Longrightarrow> \<forall>r \<in> set rs. fits RECORD_STRUCT r \<Longrightarrow>
   length (v5_packet h rs) = 24 + length rs * 48"
  by (simp add: v5_packet_def length_pack length_concat_stride)

text \<open>
  C3. Round trip with truncation: from a datagram that encodes a version 5 header and its
  records, cut anywhere after the header, the decoder recovers exactly the records that
  arrived complete, in order, and nothing of the one that was cut.
\<close>

theorem parse_v5_packet_encode:
  assumes "fits HEADER_STRUCT h" and "\<forall>r \<in> set rs. fits RECORD_STRUCT r"
    and "h ! 0 = 5" and "h ! 1 = length rs" and "24 \<le> k" and "k \<le> length (v5_packet h rs)"
  shows "parse_v5_packet (take k (v5_packet h rs)) ip
         = Inr (map (v5_spec ip h) (take ((k - 24) div 48) rs))"
proof -
  let ?d = "take k (v5_packet h rs)"
  have len: "length ?d = k" using assms(6) by simp
  have hd: "v5_header ?d = h" using assms(1,5) by (rule v5_packet_header)
  have "length (v5_packet h rs) = 24 + length rs * 48"
    by (rule v5_packet_length[OF assms(1,2)])
  with assms(6) have le: "(k - 24) div 48 \<le> length rs" by (simp add: div_le_mono[of _ "length rs * 48" 48, simplified])
  have cnt: "v5_count ?d = (k - 24) div 48"
    using assms(3,4,5) le len by (simp only: v5_count_def hd) simp
  have "map (\<lambda>i. unpack_fields RECORD_STRUCT (drop (24 + i * 48) ?d)) [0..<(k - 24) div 48]
      = map ((!) rs) [0..<(k - 24) div 48]"
  proof (rule map_cong)
    fix i assume "i \<in> set [0..<(k - 24) div 48]"
    then have i: "i < (k - 24) div 48" by simp
    then have "Suc i * 48 \<le> (k - 24) div 48 * 48" by (intro mult_le_mono1) simp
    also have "\<dots> \<le> k - 24" by (rule div_times_less_eq_dividend)
    finally have "24 + Suc i * 48 \<le> k" using assms(5) by linarith
    with assms(1,2) i le show "unpack_fields RECORD_STRUCT (drop (24 + i * 48) ?d) = rs ! i"
      by (intro v5_packet_record) simp_all
  qed simp
  also have "\<dots> = take ((k - 24) div 48) rs"
    using le by (intro nth_equalityI) simp_all
  finally have "map (v5_spec ip h) (map (\<lambda>i. unpack_fields RECORD_STRUCT (drop (24 + i * 48) ?d))
      [0..<(k - 24) div 48]) = map (v5_spec ip h) (take ((k - 24) div 48) rs)"
    by (rule arg_cong)
  then show ?thesis
    unfolding parse_v5_packet_eq hd cnt by (simp add: comp_def)
qed

theorem parse_v5_packet_encode_witness:
  "parse_v5_packet (take 100 (v5_packet [5, 2, 3600000, 1700000000, 0, 1, 0, 0, 100]
      [[0x0A000001, 0x0A000002, 0, 1, 2, 10, 1500, 3599000, 3600000, 443, 50000, 0, 27, 6, 0, 0, 0, 24, 24, 0],
       [0x0A000003, 0x0A000002, 0, 1, 2, 10, 1500, 3599000, 3600000, 443, 50000, 0, 27, 6, 0, 0, 0, 24, 24, 0]]))
     ''192.0.2.1''
   = Inr [v5_spec ''192.0.2.1'' [5, 2, 3600000, 1700000000, 0, 1, 0, 0, 100]
       [0x0A000001, 0x0A000002, 0, 1, 2, 10, 1500, 3599000, 3600000, 443, 50000, 0, 27, 6, 0, 0, 0, 24, 24, 0]]"
proof -
  let ?h = "[5, 2, 3600000, 1700000000, 0, 1, 0, 0, 100] :: nat list"
  let ?r = "[0x0A000001, 0x0A000002, 0, 1, 2, 10, 1500, 3599000, 3600000, 443, 50000, 0, 27, 6, 0, 0, 0, 24, 24, 0] :: nat list"
  let ?s = "[0x0A000003, 0x0A000002, 0, 1, 2, 10, 1500, 3599000, 3600000, 443, 50000, 0, 27, 6, 0, 0, 0, 24, 24, 0] :: nat list"
  have h: "fits HEADER_STRUCT ?h" by (simp add: HEADER_STRUCT_def)
  have r: "\<forall>r \<in> set [?r, ?s]. fits RECORD_STRUCT r" by (simp add: RECORD_STRUCT_def)
  have "100 \<le> length (v5_packet ?h [?r, ?s])" unfolding v5_packet_length[OF h r] by simp
  with parse_v5_packet_encode[OF h r, of 100 "''192.0.2.1''"] show ?thesis by simp
qed

text \<open>The decoder has no state of its own.\<close>

interpretation v5: flow_decoder
  "\<lambda>(u :: unit) data ip. map_sum id (\<lambda>fs. (fs, u)) (parse_v5_packet data ip)" "\<lambda>_. True" 5
  by unfold_locales
    (auto simp: parse_v5_packet_eq flow_ok_def v5_spec_def v5_flow_def dotted_def join_def
      split: list.splits dest!: arg_cong[where f = length])

end
