(* ===== verification/NetFlow_V9.thy ===== *)
theory NetFlow_V9
  imports Flow_Record
begin

text \<open>
  \<open>monitoring/flow/v9_parser.py\<close>: the stateful NetFlow v9 decoder. A datagram is a header and
  a sequence of flow sets; a template flow set teaches the decoder the record layouts of
  one (exporter, source id), a data flow set is decoded with the template of its id, or
  buffered when that template has not arrived yet.

  \<open>time.time()\<close> is read at several places while a datagram is handled. The model makes each
  reading explicit: \<open>clk n\<close> is the result of the \<open>n\<close>-th reading, and the parser state counts
  the readings made so far.
\<close>

definition V9_HEADER_STRUCT :: "fmt list" where "V9_HEADER_STRUCT = [H, H, I, I, I, I]"
definition FLOWSET_HEADER_STRUCT :: "fmt list" where "FLOWSET_HEADER_STRUCT = [H, H]"

lemma v9_sizes [simp]:
  "calcsize V9_HEADER_STRUCT = 20" "calcsize FLOWSET_HEADER_STRUCT = 4"
  by (simp_all add: V9_HEADER_STRUCT_def FLOWSET_HEADER_STRUCT_def)

definition FT_IN_BYTES :: nat where "FT_IN_BYTES = 1"
definition FT_IN_PKTS :: nat where "FT_IN_PKTS = 2"
definition FT_PROTOCOL :: nat where "FT_PROTOCOL = 4"
definition FT_TCP_FLAGS :: nat where "FT_TCP_FLAGS = 6"
definition FT_L4_SRC_PORT :: nat where "FT_L4_SRC_PORT = 7"
definition FT_IPV4_SRC_ADDR :: nat where "FT_IPV4_SRC_ADDR = 8"
definition FT_INPUT_SNMP :: nat where "FT_INPUT_SNMP = 10"
definition FT_L4_DST_PORT :: nat where "FT_L4_DST_PORT = 11"
definition FT_IPV4_DST_ADDR :: nat where "FT_IPV4_DST_ADDR = 12"
definition FT_OUTPUT_SNMP :: nat where "FT_OUTPUT_SNMP = 14"
definition FT_LAST_SWITCHED :: nat where "FT_LAST_SWITCHED = 21"
definition FT_FIRST_SWITCHED :: nat where "FT_FIRST_SWITCHED = 22"
definition FT_IPV6_SRC_ADDR :: nat where "FT_IPV6_SRC_ADDR = 27"
definition FT_IPV6_DST_ADDR :: nat where "FT_IPV6_DST_ADDR = 28"

lemmas FT_defs = FT_IN_BYTES_def FT_IN_PKTS_def FT_PROTOCOL_def FT_TCP_FLAGS_def
  FT_L4_SRC_PORT_def FT_IPV4_SRC_ADDR_def FT_INPUT_SNMP_def FT_L4_DST_PORT_def
  FT_IPV4_DST_ADDR_def FT_OUTPUT_SNMP_def FT_LAST_SWITCHED_def FT_FIRST_SWITCHED_def
  FT_IPV6_SRC_ADDR_def FT_IPV6_DST_ADDR_def

subsection \<open>State\<close>

record v9_template =
  t_template_id :: nat
  t_fields :: "(nat \<times> nat) list"
  t_total_length :: nat
  t_created_at :: real

definition V9Template :: "nat \<Rightarrow> (nat \<times> nat) list \<Rightarrow> real \<Rightarrow> v9_template" where
  "V9Template template_id flds now =
     \<lparr> t_template_id = template_id, t_fields = flds,
       t_total_length = sum_list (map snd flds), t_created_at = now \<rparr>"

record v9_orphan =
  o_stamp :: real
  o_template_id :: nat
  o_payload :: "byte list"
  o_sys_uptime :: nat
  o_unix_secs :: nat

record v9_parser =
  v9_template_ttl :: real
  v9_orphan_ttl :: real
  v9_templates :: "string \<times> nat \<times> nat \<rightharpoonup> v9_template"
  v9_orphans :: "string \<times> nat \<rightharpoonup> v9_orphan list"
  v9_ticks :: nat

definition V9Parser :: v9_parser where
  "V9Parser = \<lparr> v9_template_ttl = 1800, v9_orphan_ttl = 10,
     v9_templates = Map.empty, v9_orphans = Map.empty, v9_ticks = 0 \<rparr>"

definition v9_now :: "(nat \<Rightarrow> real) \<Rightarrow> v9_parser \<Rightarrow> real \<times> v9_parser" where
  "v9_now clk p = (clk (v9_ticks p), p\<lparr>v9_ticks := Suc (v9_ticks p)\<rparr>)"

definition v9_cleanup_expired :: "real \<Rightarrow> v9_parser \<Rightarrow> v9_parser" where
  "v9_cleanup_expired now p =
     p\<lparr>v9_templates := (\<lambda>k. case v9_templates p k of
          None \<Rightarrow> None
        | Some v \<Rightarrow> if v9_template_ttl p < now - t_created_at v then None else Some v)\<rparr>"

subsection \<open>Decoding a data flow set\<close>

record v9_vars =
  v_src_ip :: "string option"
  v_dst_ip :: "string option"
  v_src_port :: nat
  v_dst_port :: nat
  v_protocol :: nat
  v_octets :: nat
  v_packets :: nat
  v_tcp_flags :: nat
  v_input_if :: nat
  v_output_if :: nat
  v_first_ms :: "nat option"
  v_last_ms :: "nat option"

definition v9_vars0 :: v9_vars where
  "v9_vars0 = \<lparr> v_src_ip = None, v_dst_ip = None, v_src_port = 0, v_dst_port = 0,
     v_protocol = 0, v_octets = 0, v_packets = 0, v_tcp_flags = 0, v_input_if = 0,
     v_output_if = 0, v_first_ms = None, v_last_ms = None \<rparr>"

definition v9_field :: "nat \<Rightarrow> nat \<Rightarrow> byte list \<Rightarrow> v9_vars \<Rightarrow> v9_vars result" where
  "v9_field f_type f_len field_bytes v =
     (if f_type = FT_IPV4_SRC_ADDR \<and> f_len = 4 then
        map_sum id (\<lambda>s. v\<lparr>v_src_ip := Some s\<rparr>) (inet_ntoa field_bytes)
      else if f_type = FT_IPV4_DST_ADDR \<and> f_len = 4 then
        map_sum id (\<lambda>s. v\<lparr>v_dst_ip := Some s\<rparr>) (inet_ntoa field_bytes)
      else if f_type = FT_IPV6_SRC_ADDR \<and> f_len = 16 then
        map_sum id (\<lambda>s. v\<lparr>v_src_ip := Some s\<rparr>) (inet_ntop6 field_bytes)
      else if f_type = FT_IPV6_DST_ADDR \<and> f_len = 16 then
        map_sum id (\<lambda>s. v\<lparr>v_dst_ip := Some s\<rparr>) (inet_ntop6 field_bytes)
      else if f_type = FT_L4_SRC_PORT then Inr (v\<lparr>v_src_port := be_nat field_bytes\<rparr>)
      else if f_type = FT_L4_DST_PORT then Inr (v\<lparr>v_dst_port := be_nat field_bytes\<rparr>)
      else if f_type = FT_PROTOCOL then Inr (v\<lparr>v_protocol := be_nat field_bytes\<rparr>)
      else if f_type = FT_IN_BYTES then Inr (v\<lparr>v_octets := be_nat field_bytes\<rparr>)
      else if f_type = FT_IN_PKTS then Inr (v\<lparr>v_packets := be_nat field_bytes\<rparr>)
      else if f_type = FT_TCP_FLAGS then Inr (v\<lparr>v_tcp_flags := be_nat field_bytes\<rparr>)
      else if f_type = FT_INPUT_SNMP then Inr (v\<lparr>v_input_if := be_nat field_bytes\<rparr>)
      else if f_type = FT_OUTPUT_SNMP then Inr (v\<lparr>v_output_if := be_nat field_bytes\<rparr>)
      else if f_type = FT_FIRST_SWITCHED then Inr (v\<lparr>v_first_ms := Some (be_nat field_bytes)\<rparr>)
      else if f_type = FT_LAST_SWITCHED then Inr (v\<lparr>v_last_ms := Some (be_nat field_bytes)\<rparr>)
      else Inr v)"

fun v9_fields :: "byte list \<Rightarrow> nat \<Rightarrow> (nat \<times> nat) list \<Rightarrow> v9_vars \<Rightarrow> v9_vars result" where
  "v9_fields payload rec_offset [] v = Inr v"
| "v9_fields payload rec_offset ((f_type, f_len) # fs) v =
     (case v9_field f_type f_len (py_slice payload rec_offset (rec_offset + f_len)) v of
        Inl e \<Rightarrow> Inl e
      | Inr v' \<Rightarrow> v9_fields payload (rec_offset + f_len) fs v')"

definition v9_flow :: "string \<Rightarrow> nat \<Rightarrow> nat \<Rightarrow> v9_vars \<Rightarrow> flow list" where
  \<comment> \<open>\<open>if src_ip and dst_ip:\<close> the record's dictionary, else nothing is appended\<close>
  "v9_flow exporter_ip sys_uptime unix_secs v =
     (case (v_src_ip v, v_dst_ip v) of
        (Some src, Some dst) \<Rightarrow>
          if src \<noteq> [] \<and> dst \<noteq> [] then
            [\<lparr> f_version = 9, f_exporter_ip = exporter_ip, f_src_ip = src, f_dst_ip = dst,
               f_src_port = v_src_port v, f_dst_port = v_dst_port v, f_protocol = v_protocol v,
               f_bytes = v_octets v, f_packets = v_packets v, f_tcp_flags = v_tcp_flags v,
               f_input_if = v_input_if v, f_output_if = v_output_if v,
               f_start_time = calc_v9_time sys_uptime unix_secs (v_first_ms v),
               f_end_time = calc_v9_time sys_uptime unix_secs (v_last_ms v) \<rparr>]
          else []
      | _ \<Rightarrow> [])"

function v9_records :: "v9_template \<Rightarrow> byte list \<Rightarrow> string \<Rightarrow> nat \<Rightarrow> nat \<Rightarrow> nat \<Rightarrow> flow list result" where
  \<comment> \<open>the \<open>while offset + tmpl.total_length <= len(payload)\<close> loop; a template of total length 0
     never gets here, so the positive stride is part of the guard\<close>
  "v9_records tmpl payload exporter_ip sys_uptime unix_secs offset =
     (if 0 < t_total_length tmpl \<and> offset + t_total_length tmpl \<le> length payload then
        (case v9_fields payload offset (t_fields tmpl) v9_vars0 of
           Inl e \<Rightarrow> Inl e
         | Inr v \<Rightarrow>
             (case v9_records tmpl payload exporter_ip sys_uptime unix_secs
                     (offset + t_total_length tmpl) of
                Inl e \<Rightarrow> Inl e
              | Inr fs \<Rightarrow> Inr (v9_flow exporter_ip sys_uptime unix_secs v @ fs)))
      else Inr [])"
  by pat_completeness auto
termination
  by (relation "measure (\<lambda>(t, p, e, s, u, off). length p - off)") auto

declare v9_records.simps [simp del]

definition v9_parse_data_flowset ::
  "v9_parser \<Rightarrow> nat \<Rightarrow> byte list \<Rightarrow> string \<Rightarrow> nat \<Rightarrow> nat \<Rightarrow> nat \<Rightarrow> flow list option result" where
  "v9_parse_data_flowset p template_id payload exporter_ip source_id sys_uptime unix_secs =
     (case v9_templates p (exporter_ip, source_id, template_id) of
        None \<Rightarrow> Inr None
      | Some tmpl \<Rightarrow>
          if t_total_length tmpl = 0 then Inr None
          else map_sum id Some (v9_records tmpl payload exporter_ip sys_uptime unix_secs 0))"

subsection \<open>Templates and orphans\<close>

definition v9_drain_orphans ::
  "(nat \<Rightarrow> real) \<Rightarrow> string \<Rightarrow> nat \<Rightarrow> nat \<Rightarrow> flow list \<times> v9_parser \<Rightarrow> (flow list \<times> v9_parser) result" where
  "v9_drain_orphans clk exporter_ip source_id template_id st =
     (let (out_flows, p) = st;
          (now, p) = v9_now clk p
      in case v9_orphans p (exporter_ip, source_id) of
           None \<Rightarrow> Inr (out_flows, p)
         | Some [] \<Rightarrow> Inr (out_flows, p)
         | Some buf \<Rightarrow>
             (case drain_items (\<lambda>x. v9_orphan_ttl p < now - o_stamp x)
                     (\<lambda>x. o_template_id x = template_id)
                     (\<lambda>x. v9_parse_data_flowset p (o_template_id x) (o_payload x) exporter_ip
                            source_id (o_sys_uptime x) (o_unix_secs x))
                     buf out_flows [] of
                Inl e \<Rightarrow> Inl e
              | Inr (out_flows', remaining) \<Rightarrow>
                  Inr (out_flows',
                       p\<lparr>v9_orphans := (v9_orphans p)((exporter_ip, source_id) \<mapsto> remaining)\<rparr>)))"

fun v9_template_fields :: "byte list \<Rightarrow> nat \<Rightarrow> nat \<Rightarrow> ((nat \<times> nat) list \<times> nat) result" where
  \<comment> \<open>the \<open>for _ in range(field_count)\<close> loop: the flds read and the index after them\<close>
  "v9_template_fields payload idx 0 = Inr ([], idx)"
| "v9_template_fields payload idx (Suc n) =
     (if length payload < idx + 4 then Inr ([], idx)
      else
        (case unpack_from [H, H] payload idx of
           Inl e \<Rightarrow> Inl e
         | Inr h \<Rightarrow>
             (case v9_template_fields payload (idx + 4) n of
                Inl e \<Rightarrow> Inl e
              | Inr (flds, idx') \<Rightarrow> Inr ((h ! 0, h ! 1) # flds, idx'))))"

lemma v9_template_fields_idx:
  "v9_template_fields payload idx n = Inr (flds, idx') \<Longrightarrow> idx \<le> idx' \<and> length flds \<le> n"
  by (induction payload idx n arbitrary: flds rule: v9_template_fields.induct)
    (fastforce split: if_splits sum.splits)+

definition v9_learn_template ::
  "(nat \<Rightarrow> real) \<Rightarrow> string \<Rightarrow> nat \<Rightarrow> nat \<Rightarrow> (nat \<times> nat) list \<Rightarrow> flow list \<times> v9_parser \<Rightarrow>
   (flow list \<times> v9_parser) result" where
  "v9_learn_template clk exporter_ip source_id template_id flds st =
     (let (out_flows, p) = st;
          (created, p) = v9_now clk p;
          tmpl = V9Template template_id flds created;
          p = p\<lparr>v9_templates := (v9_templates p)((exporter_ip, source_id, template_id) \<mapsto> tmpl)\<rparr>
      in v9_drain_orphans clk exporter_ip source_id template_id (out_flows, p))"

function v9_template_loop ::
  "(nat \<Rightarrow> real) \<Rightarrow> byte list \<Rightarrow> string \<Rightarrow> nat \<Rightarrow> nat \<Rightarrow> flow list \<times> v9_parser \<Rightarrow>
   (flow list \<times> v9_parser) result" where
  "v9_template_loop clk payload exporter_ip source_id idx st =
     (if idx + 4 \<le> length payload then
        (case unpack_from [H, H] payload idx of
           Inl e \<Rightarrow> Inl e
         | Inr h \<Rightarrow>
             (let template_id = h ! 0; field_count = h ! 1
              in if template_id < 256 then Inr st
                 else
                   (case v9_template_fields payload (idx + 4) field_count of
                      Inl e \<Rightarrow> Inl e
                    | Inr (flds, idx') \<Rightarrow>
                        if length flds \<noteq> field_count then
                          v9_template_loop clk payload exporter_ip source_id idx' st
                        else
                          (case v9_learn_template clk exporter_ip source_id template_id flds st of
                             Inl e \<Rightarrow> Inl e
                           | Inr st' \<Rightarrow> v9_template_loop clk payload exporter_ip source_id idx' st'))))
      else Inr st)"
  by pat_completeness auto
termination
  by (relation "measure (\<lambda>(c, p, e, s, idx, st). length p - idx)")
    (auto dest!: v9_template_fields_idx)

declare v9_template_loop.simps [simp del]

subsection \<open>A datagram\<close>

definition v9_flowset ::
  "(nat \<Rightarrow> real) \<Rightarrow> real \<Rightarrow> string \<Rightarrow> nat \<Rightarrow> nat \<Rightarrow> nat \<Rightarrow> nat \<times> byte list \<Rightarrow> flow list \<times> v9_parser \<Rightarrow>
   (flow list \<times> v9_parser) result" where
  \<comment> \<open>the body of the flow set loop: \<open>(flowset_id, flowset_payload)\<close>\<close>
  "v9_flowset clk now exporter_ip source_id sys_uptime unix_secs fs st =
     (let (flowset_id, payload) = fs; (flows, p) = st
      in if flowset_id = 0 then v9_template_loop clk payload exporter_ip source_id 0 st
         else if flowset_id = 1 then Inr st
         else if 256 \<le> flowset_id then
           (case v9_parse_data_flowset p flowset_id payload exporter_ip source_id sys_uptime unix_secs of
              Inl e \<Rightarrow> Inl e
            | Inr (Some parsed) \<Rightarrow> Inr (flows @ parsed, p)
            | Inr None \<Rightarrow>
                (let q = (case v9_orphans p (exporter_ip, source_id) of None \<Rightarrow> [] | Some q \<Rightarrow> q);
                     item = \<lparr> o_stamp = now, o_template_id = flowset_id, o_payload = payload,
                              o_sys_uptime = sys_uptime, o_unix_secs = unix_secs \<rparr>
                 in Inr (flows, p\<lparr>v9_orphans := (v9_orphans p)
                        ((exporter_ip, source_id) \<mapsto> deque_append ORPHAN_MAX q item)\<rparr>)))
         else Inr st)"

function v9_flowset_loop ::
  "(nat \<Rightarrow> real) \<Rightarrow> real \<Rightarrow> byte list \<Rightarrow> string \<Rightarrow> nat \<Rightarrow> nat \<Rightarrow> nat \<Rightarrow> nat \<Rightarrow>
   flow list \<times> v9_parser \<Rightarrow> (flow list \<times> v9_parser) result" where
  "v9_flowset_loop clk now data exporter_ip source_id sys_uptime unix_secs offset st =
     (if offset + 4 \<le> length data then
        (case unpack_from FLOWSET_HEADER_STRUCT data offset of
           Inl e \<Rightarrow> Inl e
         | Inr h \<Rightarrow>
             (let flowset_id = h ! 0; flowset_len = h ! 1; flowset_end = offset + flowset_len
              in if flowset_len < 4 then Inr st
                 else if length data < flowset_end then Inr st
                 else
                   (case v9_flowset clk now exporter_ip source_id sys_uptime unix_secs
                           (flowset_id, py_slice data (offset + 4) flowset_end) st of
                      Inl e \<Rightarrow> Inl e
                    | Inr st' \<Rightarrow>
                        v9_flowset_loop clk now data exporter_ip source_id sys_uptime unix_secs
                          flowset_end st')))
      else Inr st)"
  by pat_completeness auto
termination
  by (relation "measure (\<lambda>(c, n, d, e, s, su, us, off, st). length d - off)") auto

declare v9_flowset_loop.simps [simp del]

definition v9_parse_packet ::
  "(nat \<Rightarrow> real) \<Rightarrow> v9_parser \<Rightarrow> byte list \<Rightarrow> string \<Rightarrow> (flow list \<times> v9_parser) result" where
  "v9_parse_packet clk p data exporter_ip =
     (let (now, p) = v9_now clk p
      in if length data < calcsize V9_HEADER_STRUCT then Inr ([], p)
         else
           (case unpack_from V9_HEADER_STRUCT data 0 of
              Inl e \<Rightarrow> Inl e
            | Inr h \<Rightarrow>
                (let version = h ! 0; count = h ! 1; sys_uptime = h ! 2; unix_secs = h ! 3;
                     source_id = h ! 5
                 in if version \<noteq> 9 \<or> count = 0 then Inr ([], p)
                    else v9_flowset_loop clk now data exporter_ip source_id sys_uptime unix_secs
                           (calcsize V9_HEADER_STRUCT) ([], v9_cleanup_expired now p))))"

subsection \<open>Decoding never raises\<close>

lemma v9_now_simps [simp]:
  "fst (v9_now clk p) = clk (v9_ticks p)"
  "snd (v9_now clk p) = p\<lparr>v9_ticks := Suc (v9_ticks p)\<rparr>"
  by (simp_all add: v9_now_def)

lemma v9_field_ok: "length bs = l \<Longrightarrow> \<exists>v'. v9_field t l bs v = Inr v'"
  unfolding returns_ex[symmetric] v9_field_def
  by (intro returns_if) (use inet_ntop6_ok[of bs] in \<open>auto simp: returns_ex inet_ntoa_def\<close>)

lemma v9_fields_ok:
  "off + sum_list (map snd fs) \<le> length payload \<Longrightarrow> \<exists>v'. v9_fields payload off fs v = Inr v'"
proof (induction payload off fs v rule: v9_fields.induct)
  case (2 payload off t l fs v)
  have "length (py_slice payload off (off + l)) = l" using "2.prems" by simp
  then obtain v' where "v9_field t l (py_slice payload off (off + l)) v = Inr v'"
    using v9_field_ok by blast
  with "2.IH"[OF this] "2.prems" show ?case by (simp add: add.assoc)
qed simp

definition v9_vars_at :: "(nat \<times> nat) list \<Rightarrow> byte list \<Rightarrow> nat \<Rightarrow> v9_vars" where
  \<comment> \<open>the local variables after the field loop, for the record at an offset\<close>
  "v9_vars_at fs payload off = projr (v9_fields payload off fs v9_vars0)"

definition v9_decoded :: "(nat \<times> nat) list \<Rightarrow> byte list \<Rightarrow> string \<Rightarrow> nat \<Rightarrow> nat \<Rightarrow> flow list" where
  \<comment> \<open>the meaning of a data flow set: one record per complete stride, in order\<close>
  "v9_decoded fs payload ip s u =
     (let n = sum_list (map snd fs)
      in concat (map (\<lambda>i. v9_flow ip s u (v9_vars_at fs payload (i * n))) [0..<length payload div n]))"

definition v9_template_wf :: "nat \<Rightarrow> v9_template \<Rightarrow> bool" where
  "v9_template_wf tid t \<longleftrightarrow>
     256 \<le> tid \<and> t_template_id t = tid \<and> t_total_length t = sum_list (map snd (t_fields t))"

lemma v9_records_eq:
  assumes n: "t_total_length t = sum_list (map snd (t_fields t))" "0 < t_total_length t"
    and "off = k * t_total_length t"
  shows "v9_records t payload ip s u off =
    Inr (concat (map (\<lambda>i. v9_flow ip s u (v9_vars_at (t_fields t) payload (i * t_total_length t)))
                     [k..<length payload div t_total_length t]))"
  using assms
proof (induction t payload ip s u off arbitrary: k rule: v9_records.induct)
  case (1 t payload ip s u off)
  let ?n = "t_total_length t"
  note n = "1.prems"(1,2) and off = "1.prems"(3)
  note stride = less_eq_div_iff_mult_less_eq[OF n(2), of "Suc k" "length payload"]
  show ?case
  proof (cases "off + ?n \<le> length payload")
    case True
    with off stride have k: "k < length payload div ?n" by (simp add: Suc_le_eq add.commute)
    obtain v where v: "v9_fields payload off (t_fields t) v9_vars0 = Inr v"
      using v9_fields_ok[of off "t_fields t" payload] True n(1) by auto
    then have at: "v = v9_vars_at (t_fields t) payload (k * ?n)"
      using off by (simp add: v9_vars_at_def)
    have "v9_records t payload ip s u (off + ?n) = Inr (concat (map (\<lambda>i. v9_flow ip s u
        (v9_vars_at (t_fields t) payload (i * ?n))) [Suc k..<length payload div ?n]))"
      using n off True v by (intro "1.IH") simp_all
    with True n(2) v k show ?thesis
      by (subst v9_records.simps) (simp add: upt_conv_Cons at del: upt_Suc)
  next
    case False
    with off stride have "length payload div ?n < Suc k" by (simp add: add.commute not_le)
    with False show ?thesis by (subst v9_records.simps) simp
  qed
qed

lemma v9_records_decoded:
  assumes "v9_template_wf tid t" and "t_total_length t \<noteq> 0"
  shows "v9_records t payload ip s u 0 = Inr (v9_decoded (t_fields t) payload ip s u)"
  using v9_records_eq[of t 0 0] assms by (simp add: v9_template_wf_def v9_decoded_def Let_def)

definition v9_orphans_wf :: "v9_orphan list \<Rightarrow> bool" where
  "v9_orphans_wf q \<longleftrightarrow> length q \<le> ORPHAN_MAX \<and> (\<forall>x \<in> set q. 256 \<le> o_template_id x)"

definition v9_wf :: "v9_parser \<Rightarrow> bool" where
  "v9_wf p \<longleftrightarrow>
     (\<forall>ip src tid t. v9_templates p (ip, src, tid) = Some t \<longrightarrow> v9_template_wf tid t) \<and>
     (\<forall>k q. v9_orphans p k = Some q \<longrightarrow> v9_orphans_wf q)"

lemma v9_wf_init: "v9_wf V9Parser"
  by (simp add: v9_wf_def V9Parser_def)

lemma v9_wf_ticks [simp]: "v9_wf (p\<lparr>v9_ticks := n\<rparr>) = v9_wf p"
  by (simp add: v9_wf_def)

lemma v9_wf_cleanup: "v9_wf p \<Longrightarrow> v9_wf (v9_cleanup_expired now p)"
  by (auto simp: v9_wf_def v9_cleanup_expired_def split: option.splits if_splits)

lemma v9_wf_put_orphans:
  "v9_wf p \<Longrightarrow> v9_orphans_wf q \<Longrightarrow> v9_wf (p\<lparr>v9_orphans := (v9_orphans p)(k \<mapsto> q)\<rparr>)"
  by (auto simp: v9_wf_def)

lemma v9_wf_tick_orphans:
  "v9_wf p \<Longrightarrow> v9_orphans_wf q \<Longrightarrow> v9_wf (p\<lparr>v9_ticks := n, v9_orphans := (v9_orphans p)(k \<mapsto> q)\<rparr>)"
  by (auto simp: v9_wf_def)

lemma v9_wf_put_template:
  "v9_wf p \<Longrightarrow> v9_template_wf tid t \<Longrightarrow>
   v9_wf (p\<lparr>v9_templates := (v9_templates p)((ip, src, tid) \<mapsto> t)\<rparr>)"
  by (auto simp: v9_wf_def)

lemma V9Template_wf: "256 \<le> tid \<Longrightarrow> v9_template_wf tid (V9Template tid fs now)"
  by (simp add: V9Template_def v9_template_wf_def)

lemma v9_orphans_wf_append:
  "v9_orphans_wf q \<Longrightarrow> 256 \<le> o_template_id x \<Longrightarrow> v9_orphans_wf (deque_append ORPHAN_MAX q x)"
  using set_deque_append[of ORPHAN_MAX q x]
  by (auto simp: v9_orphans_wf_def length_deque_append)

lemma v9_orphans_wf_filter: "v9_orphans_wf q \<Longrightarrow> v9_orphans_wf (filter P q)"
  by (auto simp: v9_orphans_wf_def intro: order_trans[OF length_filter_le])

lemma v9_flow_ok: "f \<in> set (v9_flow ip s u v) \<Longrightarrow> flow_ok 9 ip f"
  by (auto simp: v9_flow_def flow_ok_def split: option.splits if_splits)

lemma v9_decoded_ok: "f \<in> set (v9_decoded fs payload ip s u) \<Longrightarrow> flow_ok 9 ip f"
  by (auto simp: v9_decoded_def Let_def dest: v9_flow_ok)

lemma v9_data_cases:
  assumes "v9_wf p"
  shows "v9_parse_data_flowset p tid payload ip src s u =
    Inr (case v9_templates p (ip, src, tid) of
           None \<Rightarrow> None
         | Some t \<Rightarrow> if t_total_length t = 0 then None
                   else Some (v9_decoded (t_fields t) payload ip s u))"
proof (cases "v9_templates p (ip, src, tid)")
  case (Some t)
  with assms have "v9_template_wf tid t" by (auto simp: v9_wf_def)
  then show ?thesis
    by (simp add: v9_parse_data_flowset_def Some v9_records_decoded)
qed (simp add: v9_parse_data_flowset_def)

text \<open>What one pass over the orphan buffer of a template does, in closed form.\<close>

definition v9_orphans_at :: "v9_parser \<Rightarrow> string \<times> nat \<Rightarrow> v9_orphan list" where
  "v9_orphans_at p k = (case v9_orphans p k of None \<Rightarrow> [] | Some q \<Rightarrow> q)"

definition v9_expired :: "v9_parser \<Rightarrow> real \<Rightarrow> v9_orphan \<Rightarrow> bool" where
  "v9_expired p now x \<longleftrightarrow> v9_orphan_ttl p < now - o_stamp x"

lemma v9_expired_frame [simp]:
  "v9_expired (p\<lparr>v9_ticks := n\<rparr>) = v9_expired p"
  "v9_expired (p\<lparr>v9_ticks := n, v9_templates := ts\<rparr>) = v9_expired p"
  by (simp_all add: v9_expired_def fun_eq_iff)

lemma v9_orphans_at_wf: "v9_wf p \<Longrightarrow> v9_orphans_wf (v9_orphans_at p k)"
  by (cases k) (auto simp: v9_orphans_at_def v9_wf_def v9_orphans_wf_def split: option.splits)

lemma v9_drain_eq:
  assumes wf: "v9_wf p" and t: "v9_templates p (ip, src, tid) = Some t" and "t_total_length t \<noteq> 0"
  shows "\<exists>p'. v9_drain_orphans clk ip src tid (out, p) =
      Inr (out @ drained (v9_expired p (clk (v9_ticks p))) (\<lambda>x. o_template_id x = tid)
              (\<lambda>x. v9_decoded (t_fields t) (o_payload x) ip (o_sys_uptime x) (o_unix_secs x))
              (v9_orphans_at p (ip, src)), p')
    \<and> v9_wf p' \<and> v9_templates p' = v9_templates p \<and> v9_ticks p' = Suc (v9_ticks p)
    \<and> v9_template_ttl p' = v9_template_ttl p \<and> v9_orphan_ttl p' = v9_orphan_ttl p"
proof (cases "v9_orphans_at p (ip, src)")
  case Nil
  then show ?thesis
    using wf by (auto simp: v9_drain_orphans_def v9_now_def drained_def v9_orphans_at_def
        split: option.splits)
next
  case (Cons x xs)
  let ?p = "p\<lparr>v9_ticks := Suc (v9_ticks p)\<rparr>"
  let ?exp = "v9_expired p (clk (v9_ticks p))"
  from Cons have q: "v9_orphans p (ip, src) = Some (x # xs)"
    by (auto simp: v9_orphans_at_def split: option.splits)
  have qwf: "v9_orphans_wf (x # xs)" using v9_orphans_at_wf[OF wf, of "(ip, src)"] Cons by simp
  have "drain_items (\<lambda>x. v9_orphan_ttl ?p < clk (v9_ticks p) - o_stamp x)
      (\<lambda>x. o_template_id x = tid)
      (\<lambda>x. v9_parse_data_flowset ?p (o_template_id x) (o_payload x) ip src (o_sys_uptime x)
             (o_unix_secs x)) (x # xs) out []
    = Inr (out @ drained ?exp (\<lambda>x. o_template_id x = tid)
              (\<lambda>x. v9_decoded (t_fields t) (o_payload x) ip (o_sys_uptime x) (o_unix_secs x)) (x # xs),
           [] @ filter (\<lambda>x. \<not> ?exp x \<and> \<not> o_template_id x = tid) (x # xs))"
    unfolding v9_expired_def using qwf wf t assms(3)
    by (subst drain_items_eq[where fd = "\<lambda>x. v9_decoded (t_fields t) (o_payload x) ip
          (o_sys_uptime x) (o_unix_secs x)"])
      (auto simp: v9_data_cases v9_orphans_wf_def)
  then show ?thesis
    using wf q qwf Cons unfolding v9_drain_orphans_def v9_now_def
    by (simp add: v9_wf_tick_orphans v9_orphans_wf_filter del: drain_items.simps filter.simps)
qed

definition v9_good :: "string \<Rightarrow> flow list \<times> v9_parser \<Rightarrow> bool" where
  "v9_good ip st \<longleftrightarrow> v9_wf (snd st) \<and> (\<forall>f \<in> set (fst st). flow_ok 9 ip f)"

lemma v9_data_returns:
  "v9_wf p \<Longrightarrow> returns (v9_parse_data_flowset p tid payload ip src s u)
     (\<lambda>r. \<forall>fs. r = Some fs \<longrightarrow> (\<forall>f \<in> set fs. flow_ok 9 ip f))"
  by (auto simp: v9_data_cases dest: v9_decoded_ok split: option.splits)

lemma v9_drain_returns:
  assumes "v9_good ip st"
  shows "returns (v9_drain_orphans clk ip src tid st) (v9_good ip)"
proof (cases "v9_orphans_at (snd st) (ip, src)")
  case Nil
  then show ?thesis
    using assms by (cases st) (auto simp: v9_drain_orphans_def v9_now_def v9_orphans_at_def
        v9_good_def split: option.splits)
next
  case (Cons x xs)
  obtain out p where st: "st = (out, p)" by (cases st)
  let ?p = "p\<lparr>v9_ticks := Suc (v9_ticks p)\<rparr>"
  from Cons st have q: "v9_orphans p (ip, src) = Some (x # xs)"
    by (auto simp: v9_orphans_at_def split: option.splits)
  have wf: "v9_wf p" and out: "\<forall>f \<in> set out. flow_ok 9 ip f"
    using assms st by (simp_all add: v9_good_def)
  have "v9_orphans_wf (x # xs)" using v9_orphans_at_wf[OF wf, of "(ip, src)"] Cons st by simp
  then have sub: "set rem \<subseteq> insert x (set xs) \<Longrightarrow> length rem \<le> ORPHAN_MAX \<Longrightarrow> v9_orphans_wf rem" for rem
    by (auto simp: v9_orphans_wf_def)
  have "returns (drain_items (\<lambda>x. v9_orphan_ttl ?p < clk (v9_ticks p) - o_stamp x)
      (\<lambda>x. o_template_id x = tid)
      (\<lambda>x. v9_parse_data_flowset ?p (o_template_id x) (o_payload x) ip src (o_sys_uptime x)
             (o_unix_secs x)) (x # xs) out [])
    (\<lambda>(out', rem'). (\<forall>f \<in> set out'. flow_ok 9 ip f) \<and>
        set rem' \<subseteq> set (x # xs) \<union> set [] \<and> length rem' \<le> ORPHAN_MAX)"
    using wf out by (intro drain_items_returns v9_data_returns) simp_all
  then obtain out' rem' where d: "drain_items (\<lambda>x. v9_orphan_ttl ?p < clk (v9_ticks p) - o_stamp x)
      (\<lambda>x. o_template_id x = tid)
      (\<lambda>x. v9_parse_data_flowset ?p (o_template_id x) (o_payload x) ip src (o_sys_uptime x)
             (o_unix_secs x)) (x # xs) out [] = Inr (out', rem')"
    and "\<forall>f \<in> set out'. flow_ok 9 ip f" and "v9_orphans_wf rem'"
    by (elim returnsE) (use sub in \<open>simp del: drain_items.simps, blast\<close>)
  then show ?thesis
    unfolding v9_drain_orphans_def v9_now_def st
    using wf by (simp add: q v9_good_def v9_wf_tick_orphans del: drain_items.simps)
qed

lemma v9_learn_returns:
  "v9_good ip st \<Longrightarrow> 256 \<le> tid \<Longrightarrow> returns (v9_learn_template clk ip src tid fs st) (v9_good ip)"
  by (cases st) (auto simp: v9_learn_template_def v9_now_def v9_good_def v9_wf_def V9Template_wf
      intro!: v9_drain_returns)

lemma v9_template_fields_returns: "returns (v9_template_fields payload idx n) (\<lambda>_. True)"
proof (induction payload idx n rule: v9_template_fields.induct)
  case (2 payload idx n)
  show ?case
  proof (cases "length payload < idx + 4")
    case False
    then have "unpack_from [H, H] payload idx = Inr (unpack_fields [H, H] (drop idx payload))"
      by (intro unpack_from_ok) simp
    with "2.IH"[OF False this] False show ?thesis by (auto elim!: returnsE)
  qed simp
qed simp

lemma v9_template_loop_returns:
  "v9_good ip st \<Longrightarrow> returns (v9_template_loop clk payload ip src idx st) (v9_good ip)"
proof (induction clk payload ip src idx st rule: v9_template_loop.induct)
  case (1 clk payload ip src idx st)
  show ?case
  proof (cases "idx + 4 \<le> length payload")
    case True
    let ?h = "unpack_fields [H, H] (drop idx payload)"
    have h: "unpack_from [H, H] payload idx = Inr ?h" using True by (simp add: unpack_from_def)
    obtain fs idx' where f: "v9_template_fields payload (idx + 4) (?h ! 1) = Inr (fs, idx')"
      using v9_template_fields_returns[of payload "idx + 4" "?h ! 1"] by (auto elim!: returnsE)
    note IH = "1.IH"[OF True h refl refl _ f refl]
    show ?thesis
    proof (cases "?h ! 0 < 256 \<or> length fs \<noteq> ?h ! 1")
      case True
      with h f \<open>idx + 4 \<le> length payload\<close> IH(1) "1.prems" show ?thesis
        by (subst v9_template_loop.simps) (auto simp: Let_def)
    next
      case False
      obtain st' where "v9_learn_template clk ip src (?h ! 0) fs st = Inr st'" "v9_good ip st'"
        using v9_learn_returns[OF "1.prems", of "?h ! 0" clk src fs] False by (auto elim!: returnsE)
      with h f \<open>idx + 4 \<le> length payload\<close> IH(2) False show ?thesis
        by (subst v9_template_loop.simps) (auto simp: Let_def)
    qed
  qed (use "1.prems" in \<open>subst v9_template_loop.simps, simp\<close>)
qed

lemma v9_flowset_returns:
  assumes "v9_good ip st"
  shows "returns (v9_flowset clk now ip src s u fs st) (v9_good ip)"
proof -
  obtain fid payload flows p where st: "st = (flows, p)" "fs = (fid, payload)"
    by (cases st; cases fs)
  with assms have wf: "v9_wf p" and fl: "\<forall>f \<in> set flows. flow_ok 9 ip f"
    by (simp_all add: v9_good_def)
  have "v9_orphans_wf (deque_append ORPHAN_MAX (v9_orphans_at p (ip, src)) x)"
    if "256 \<le> o_template_id x" for x
    using that v9_orphans_at_wf[OF wf] by (rule v9_orphans_wf_append[rotated])
  then have put: "v9_wf (p\<lparr>v9_orphans := (v9_orphans p)((ip, src) \<mapsto>
      deque_append ORPHAN_MAX (v9_orphans_at p (ip, src)) x)\<rparr>)" if "256 \<le> o_template_id x" for x
    using that by (intro v9_wf_put_orphans wf)
  obtain r where "v9_parse_data_flowset p fid payload ip src s u = Inr r"
    and "\<forall>fs. r = Some fs \<longrightarrow> (\<forall>f \<in> set fs. flow_ok 9 ip f)"
    by (rule returnsE[OF v9_data_returns[OF wf, of fid payload ip src s u]])
  then show ?thesis
    using assms fl wf put v9_template_loop_returns[OF assms, of clk payload src 0]
    by (cases r) (auto simp: v9_flowset_def st Let_def v9_good_def v9_orphans_at_def[symmetric])
qed

lemma v9_flowset_loop_returns:
  "v9_good ip st \<Longrightarrow> returns (v9_flowset_loop clk now data ip src s u off st) (v9_good ip)"
proof (induction clk now data ip src s u off st rule: v9_flowset_loop.induct)
  case (1 clk now data ip src s u off st)
  show ?case
  proof (cases "off + 4 \<le> length data")
    case True
    let ?h = "unpack_fields FLOWSET_HEADER_STRUCT (drop off data)"
    have h: "unpack_from FLOWSET_HEADER_STRUCT data off = Inr ?h"
      using True by (intro unpack_from_ok) simp
    obtain st' where st': "v9_flowset clk now ip src s u
        (?h ! 0, py_slice data (off + 4) (off + ?h ! 1)) st = Inr st'" "v9_good ip st'"
      by (rule returnsE[OF v9_flowset_returns[OF "1.prems"]])
    then show ?thesis
      using True h "1.prems" "1.IH"[OF True h refl refl refl _ _ st'(1)]
      by (subst v9_flowset_loop.simps) (auto simp: Let_def)
  qed (use "1.prems" in \<open>subst v9_flowset_loop.simps, simp\<close>)
qed

lemma v9_parse_packet_good:
  assumes "v9_wf p"
  shows "returns (v9_parse_packet clk p data ip) (\<lambda>(fs, p'). v9_wf p' \<and> (\<forall>f \<in> set fs. flow_ok 9 ip f))"
proof -
  have "returns (v9_parse_packet clk p data ip) (v9_good ip)"
    using assms unfolding v9_parse_packet_def v9_now_def
    by (auto simp: Let_def unpack_from_ok v9_good_def v9_wf_cleanup
        intro!: v9_flowset_loop_returns)
  then show ?thesis by (rule returns_mono) (auto simp: v9_good_def)
qed

interpretation v9: flow_decoder "v9_parse_packet clk" v9_wf 9 for clk
  by unfold_locales (rule v9_parse_packet_good)


subsection \<open>Encoded datagrams\<close>

definition v9_packet :: "nat list \<Rightarrow> (nat \<times> byte list) list \<Rightarrow> byte list" where
  \<comment> \<open>the datagram an exporter sends for a header and its flow sets\<close>
  "v9_packet h ss = pack V9_HEADER_STRUCT h @ sets_bytes ss"

definition template_bytes :: "nat \<Rightarrow> (nat \<times> nat) list \<Rightarrow> byte list" where
  \<comment> \<open>the payload of a template flow set that defines one template\<close>
  "template_bytes tid fs =
     pack [H, H] [tid, length fs] @ concat (map (\<lambda>f. pack [H, H] [fst f, snd f]) fs)"

lemma v9_flowset_loop_walk:
  assumes "\<forall>x \<in> set ss. set_ok x"
  shows "v9_flowset_loop clk now (pre @ sets_bytes ss) ip src s u (length pre) st
       = fold_result (v9_flowset clk now ip src s u) ss st"
  using assms
proof (induction ss arbitrary: pre st)
  case Nil
  then show ?case by (subst v9_flowset_loop.simps) simp
next
  case (Cons x ss)
  let ?data = "pre @ set_bytes x @ sets_bytes ss"
  have hdr: "unpack_from FLOWSET_HEADER_STRUCT ?data (length pre) = Inr [fst x, 4 + length (snd x)]"
    using Cons.prems by (simp add: FLOWSET_HEADER_STRUCT_def unpack_set_header)
  have IH: "v9_flowset_loop clk now ?data ip src s u (length pre + (4 + length (snd x))) st'
      = fold_result (v9_flowset clk now ip src s u) ss st'" for st'
    using Cons.IH[of "pre @ set_bytes x" st'] Cons.prems by (simp add: add.assoc)
  have step: "v9_flowset_loop clk now ?data ip src s u (length pre) st =
      (case v9_flowset clk now ip src s u (fst x, snd x) st of Inl e \<Rightarrow> Inl e
       | Inr st' \<Rightarrow> v9_flowset_loop clk now ?data ip src s u (length pre + (4 + length (snd x))) st')"
    by (subst v9_flowset_loop.simps) (simp add: hdr set_payload del: add_Suc_right)
  show ?case unfolding sets_bytes_simps step IH by simp
qed

lemma v9_template_fields_bytes:
  assumes "\<forall>f \<in> set fs. fst f < 65536 \<and> snd f < 65536"
  shows "v9_template_fields (pre @ concat (map (\<lambda>f. pack [H, H] [fst f, snd f]) fs)) (length pre) (length fs)
       = Inr (fs, length pre + 4 * length fs)"
  using assms
proof (induction fs arbitrary: pre)
  case (Cons f fs)
  let ?rest = "concat (map (\<lambda>f. pack [H, H] [fst f, snd f]) fs)"
  have "unpack_from [H, H] (pre @ pack [H, H] [fst f, snd f] @ ?rest) (length pre) = Inr [fst f, snd f]"
    using Cons.prems by (intro unpack_from_pack) simp
  moreover have "v9_template_fields (pre @ pack [H, H] [fst f, snd f] @ ?rest) (length pre + 4) (length fs)
      = Inr (fs, length pre + 4 + 4 * length fs)"
    using Cons.IH[of "pre @ pack [H, H] [fst f, snd f]"] Cons.prems by simp
  ultimately show ?case by (simp del: pack.simps) (simp add: unpack_from_def)
qed simp

lemma v9_template_loop_bytes:
  assumes "256 \<le> tid" "tid < 65536" "length fs < 65536"
    and "\<forall>f \<in> set fs. fst f < 65536 \<and> snd f < 65536"
  shows "v9_template_loop clk (template_bytes tid fs) ip src 0 st = v9_learn_template clk ip src tid fs st"
proof -
  let ?p = "template_bytes tid fs"
  have hdr: "unpack_from [H, H] ?p 0 = Inr [tid, length fs]"
    using unpack_from_pack[of "[H, H]" "[tid, length fs]" "[]"] assms
    unfolding template_bytes_def by simp
  have flds: "v9_template_fields ?p 4 (length fs) = Inr (fs, 4 + 4 * length fs)"
    using v9_template_fields_bytes[OF assms(4), of "pack [H, H] [tid, length fs]"]
    by (simp add: template_bytes_def)
  have len: "length ?p = 4 + 4 * length fs"
    by (simp add: template_bytes_def length_concat comp_def sum_list_triv mult.commute)
  have "v9_template_loop clk ?p ip src (4 + 4 * length fs) st' = Inr st'" for st'
    by (subst v9_template_loop.simps) (simp add: len)
  with hdr flds len assms(1) show ?thesis
    by (subst v9_template_loop.simps) (simp split: sum.splits)
qed

lemma v9_parse_packet_encode:
  assumes "fits V9_HEADER_STRUCT h" "h ! 0 = 9" "h ! 1 \<noteq> 0" "\<forall>x \<in> set ss. set_ok x"
  shows "v9_parse_packet clk p (v9_packet h ss) ip =
    fold_result (v9_flowset clk (clk (v9_ticks p)) ip (h ! 5) (h ! 2) (h ! 3)) ss
      ([], v9_cleanup_expired (clk (v9_ticks p)) (p\<lparr>v9_ticks := Suc (v9_ticks p)\<rparr>))"
proof -
  have "length (pack V9_HEADER_STRUCT h) = 20" using assms(1) by (simp add: length_pack)
  moreover have "unpack_from V9_HEADER_STRUCT (v9_packet h ss) 0 = Inr h"
    using unpack_from_pack[OF assms(1), of "[]"] by (simp add: v9_packet_def)
  ultimately show ?thesis
    using assms(2,3) v9_flowset_loop_walk[OF assms(4), where pre = "pack V9_HEADER_STRUCT h"]
    by (simp add: v9_parse_packet_def v9_now_def v9_packet_def Let_def)
qed

subsection \<open>A template may arrive after its data\<close>

lemma v9_cleanup_simps [simp]:
  "v9_orphans (v9_cleanup_expired now p) = v9_orphans p"
  "v9_ticks (v9_cleanup_expired now p) = v9_ticks p"
  "v9_template_ttl (v9_cleanup_expired now p) = v9_template_ttl p"
  "v9_orphan_ttl (v9_cleanup_expired now p) = v9_orphan_ttl p"
  "v9_templates p k = None \<Longrightarrow> v9_templates (v9_cleanup_expired now p) k = None"
  by (simp_all add: v9_cleanup_expired_def)

lemma v9_cleanup_fresh:
  "v9_templates p k = Some t \<Longrightarrow> now - t_created_at t \<le> v9_template_ttl p \<Longrightarrow>
   v9_templates (v9_cleanup_expired now p) k = Some t"
  by (simp add: v9_cleanup_expired_def)

lemma V9Template_simps [simp]:
  "t_fields (V9Template tid fs now) = fs" "t_created_at (V9Template tid fs now) = now"
  "t_total_length (V9Template tid fs now) = sum_list (map snd fs)"
  by (simp_all add: V9Template_def)

lemma v9_learn_eq:
  assumes "v9_wf p" "256 \<le> tid" "0 < sum_list (map snd fs)"
  shows "\<exists>p'. v9_learn_template clk ip src tid fs (out, p) =
      Inr (out @ drained (v9_expired p (clk (Suc (v9_ticks p)))) (\<lambda>x. o_template_id x = tid)
              (\<lambda>x. v9_decoded fs (o_payload x) ip (o_sys_uptime x) (o_unix_secs x))
              (v9_orphans_at p (ip, src)), p')
    \<and> v9_wf p' \<and> v9_ticks p' = v9_ticks p + 2
    \<and> v9_templates p' (ip, src, tid) = Some (V9Template tid fs (clk (v9_ticks p)))
    \<and> v9_template_ttl p' = v9_template_ttl p"
proof -
  let ?t = "V9Template tid fs (clk (v9_ticks p))"
  let ?p = "p\<lparr>v9_ticks := Suc (v9_ticks p), v9_templates := (v9_templates p)((ip, src, tid) \<mapsto> ?t)\<rparr>"
  have "v9_wf ?p"
    using v9_wf_put_template[of "p\<lparr>v9_ticks := Suc (v9_ticks p)\<rparr>" tid ?t ip src] assms(1,2)
    by (simp add: V9Template_wf)
  moreover have "v9_templates ?p (ip, src, tid) = Some ?t" by simp
  moreover have "t_total_length ?t \<noteq> 0" unfolding V9Template_simps using assms(3) by linarith
  ultimately show ?thesis
    using v9_drain_eq[of ?p ip src tid ?t clk out]
    by (auto simp: v9_learn_template_def v9_now_def v9_orphans_at_def)
qed



end
