(* ===== verification/IPFIX.thy ===== *)
theory IPFIX
  imports Flow_Record
begin

text \<open>
  \<open>monitoring/flow/ipfix_parser.py\<close>: the IPFIX decoder. It has the shape of the NetFlow v9
  decoder, with its own header (whose length field bounds the walk over the sets), field
  specifiers that may carry an enterprise number, and absolute flow times. Clock readings
  are explicit, as in the v9 model.
\<close>

unbundle bit_operations_syntax

definition IPFIX_HEADER_STRUCT :: "fmt list" where "IPFIX_HEADER_STRUCT = [H, H, I, I, I]"
definition SET_HEADER_STRUCT :: "fmt list" where "SET_HEADER_STRUCT = [H, H]"

lemma ipfix_sizes [simp]:
  "calcsize IPFIX_HEADER_STRUCT = 16" "calcsize SET_HEADER_STRUCT = 4"
  by (simp_all add: IPFIX_HEADER_STRUCT_def SET_HEADER_STRUCT_def)

definition IE_OCTET_DELTA_COUNT :: nat where "IE_OCTET_DELTA_COUNT = 1"
definition IE_PACKET_DELTA_COUNT :: nat where "IE_PACKET_DELTA_COUNT = 2"
definition IE_PROTOCOL_IDENTIFIER :: nat where "IE_PROTOCOL_IDENTIFIER = 4"
definition IE_TCP_CONTROL_BITS :: nat where "IE_TCP_CONTROL_BITS = 6"
definition IE_SOURCE_TRANSPORT_PORT :: nat where "IE_SOURCE_TRANSPORT_PORT = 7"
definition IE_SOURCE_IPV4_ADDRESS :: nat where "IE_SOURCE_IPV4_ADDRESS = 8"
definition IE_INGRESS_INTERFACE :: nat where "IE_INGRESS_INTERFACE = 10"
definition IE_DESTINATION_TRANSPORT_PORT :: nat where "IE_DESTINATION_TRANSPORT_PORT = 11"
definition IE_DESTINATION_IPV4_ADDRESS :: nat where "IE_DESTINATION_IPV4_ADDRESS = 12"
definition IE_EGRESS_INTERFACE :: nat where "IE_EGRESS_INTERFACE = 14"
definition IE_SOURCE_IPV6_ADDRESS :: nat where "IE_SOURCE_IPV6_ADDRESS = 27"
definition IE_DESTINATION_IPV6_ADDRESS :: nat where "IE_DESTINATION_IPV6_ADDRESS = 28"
definition IE_FLOW_START_SECONDS :: nat where "IE_FLOW_START_SECONDS = 150"
definition IE_FLOW_END_SECONDS :: nat where "IE_FLOW_END_SECONDS = 151"
definition IE_FLOW_START_MILLISECONDS :: nat where "IE_FLOW_START_MILLISECONDS = 152"
definition IE_FLOW_END_MILLISECONDS :: nat where "IE_FLOW_END_MILLISECONDS = 153"

subsection \<open>State\<close>

record ipfix_field_spec =
  ie_id :: nat
  ie_length :: nat
  enterprise_number :: "nat option"

record ipfix_template =
  x_template_id :: nat
  x_fields :: "ipfix_field_spec list"
  x_total_length :: nat
  x_created_at :: real

definition IPFIXTemplate :: "nat \<Rightarrow> ipfix_field_spec list \<Rightarrow> real \<Rightarrow> ipfix_template" where
  "IPFIXTemplate template_id flds now =
     \<lparr> x_template_id = template_id, x_fields = flds,
       x_total_length = sum_list (map ie_length flds), x_created_at = now \<rparr>"

record ipfix_orphan =
  xo_stamp :: real
  xo_set_id :: nat
  xo_payload :: "byte list"
  xo_export_time :: nat

record ipfix_parser =
  x_template_ttl :: real
  x_orphan_ttl :: real
  x_templates :: "string \<times> nat \<times> nat \<rightharpoonup> ipfix_template"
  x_orphans :: "string \<times> nat \<rightharpoonup> ipfix_orphan list"
  x_ticks :: nat

definition IPFIXParser :: ipfix_parser where
  "IPFIXParser = \<lparr> x_template_ttl = 1800, x_orphan_ttl = 10,
     x_templates = Map.empty, x_orphans = Map.empty, x_ticks = 0 \<rparr>"

definition ipfix_now :: "(nat \<Rightarrow> real) \<Rightarrow> ipfix_parser \<Rightarrow> real \<times> ipfix_parser" where
  "ipfix_now clk p = (clk (x_ticks p), p\<lparr>x_ticks := Suc (x_ticks p)\<rparr>)"

definition ipfix_cleanup_expired :: "real \<Rightarrow> ipfix_parser \<Rightarrow> ipfix_parser" where
  "ipfix_cleanup_expired now p =
     p\<lparr>x_templates := (\<lambda>k. case x_templates p k of
          None \<Rightarrow> None
        | Some v \<Rightarrow> if x_template_ttl p < now - x_created_at v then None else Some v)\<rparr>"

subsection \<open>Decoding a data set\<close>

record ipfix_vars =
  y_src_ip :: "string option"
  y_dst_ip :: "string option"
  y_src_port :: nat
  y_dst_port :: nat
  y_protocol :: nat
  y_octets :: nat
  y_packets :: nat
  y_tcp_flags :: nat
  y_input_if :: nat
  y_output_if :: nat
  y_start_time :: "real option"
  y_end_time :: "real option"

definition ipfix_vars0 :: ipfix_vars where
  "ipfix_vars0 = \<lparr> y_src_ip = None, y_dst_ip = None, y_src_port = 0, y_dst_port = 0,
     y_protocol = 0, y_octets = 0, y_packets = 0, y_tcp_flags = 0, y_input_if = 0,
     y_output_if = 0, y_start_time = None, y_end_time = None \<rparr>"

definition ipfix_field :: "ipfix_field_spec \<Rightarrow> byte list \<Rightarrow> ipfix_vars \<Rightarrow> ipfix_vars result" where
  "ipfix_field f bs v =
     (if enterprise_number f \<noteq> None then Inr v
      else if ie_id f = IE_SOURCE_IPV4_ADDRESS \<and> ie_length f = 4 then
        map_sum id (\<lambda>s. v\<lparr>y_src_ip := Some s\<rparr>) (inet_ntoa bs)
      else if ie_id f = IE_DESTINATION_IPV4_ADDRESS \<and> ie_length f = 4 then
        map_sum id (\<lambda>s. v\<lparr>y_dst_ip := Some s\<rparr>) (inet_ntoa bs)
      else if ie_id f = IE_SOURCE_IPV6_ADDRESS \<and> ie_length f = 16 then
        map_sum id (\<lambda>s. v\<lparr>y_src_ip := Some s\<rparr>) (inet_ntop6 bs)
      else if ie_id f = IE_DESTINATION_IPV6_ADDRESS \<and> ie_length f = 16 then
        map_sum id (\<lambda>s. v\<lparr>y_dst_ip := Some s\<rparr>) (inet_ntop6 bs)
      else if ie_id f = IE_SOURCE_TRANSPORT_PORT then Inr (v\<lparr>y_src_port := be_nat bs\<rparr>)
      else if ie_id f = IE_DESTINATION_TRANSPORT_PORT then Inr (v\<lparr>y_dst_port := be_nat bs\<rparr>)
      else if ie_id f = IE_PROTOCOL_IDENTIFIER then Inr (v\<lparr>y_protocol := be_nat bs\<rparr>)
      else if ie_id f = IE_OCTET_DELTA_COUNT then Inr (v\<lparr>y_octets := be_nat bs\<rparr>)
      else if ie_id f = IE_PACKET_DELTA_COUNT then Inr (v\<lparr>y_packets := be_nat bs\<rparr>)
      else if ie_id f = IE_TCP_CONTROL_BITS then Inr (v\<lparr>y_tcp_flags := be_nat bs\<rparr>)
      else if ie_id f = IE_INGRESS_INTERFACE then Inr (v\<lparr>y_input_if := be_nat bs\<rparr>)
      else if ie_id f = IE_EGRESS_INTERFACE then Inr (v\<lparr>y_output_if := be_nat bs\<rparr>)
      else if ie_id f = IE_FLOW_START_SECONDS then Inr (v\<lparr>y_start_time := Some (real (be_nat bs))\<rparr>)
      else if ie_id f = IE_FLOW_END_SECONDS then Inr (v\<lparr>y_end_time := Some (real (be_nat bs))\<rparr>)
      else if ie_id f = IE_FLOW_START_MILLISECONDS then
        Inr (v\<lparr>y_start_time := Some (real (be_nat bs) / 1000)\<rparr>)
      else if ie_id f = IE_FLOW_END_MILLISECONDS then
        Inr (v\<lparr>y_end_time := Some (real (be_nat bs) / 1000)\<rparr>)
      else Inr v)"

fun ipfix_fields :: "byte list \<Rightarrow> nat \<Rightarrow> ipfix_field_spec list \<Rightarrow> ipfix_vars \<Rightarrow> ipfix_vars result" where
  "ipfix_fields payload rec_offset [] v = Inr v"
| "ipfix_fields payload rec_offset (f # fs) v =
     (case ipfix_field f (py_slice payload rec_offset (rec_offset + ie_length f)) v of
        Inl e \<Rightarrow> Inl e
      | Inr v' \<Rightarrow> ipfix_fields payload (rec_offset + ie_length f) fs v')"

definition ipfix_flow :: "string \<Rightarrow> nat \<Rightarrow> ipfix_vars \<Rightarrow> flow list" where
  \<comment> \<open>\<open>if src_ip and dst_ip:\<close> the record's dictionary, a missing time being the export time\<close>
  "ipfix_flow exporter_ip export_time v =
     (case (y_src_ip v, y_dst_ip v) of
        (Some src, Some dst) \<Rightarrow>
          if src \<noteq> [] \<and> dst \<noteq> [] then
            [\<lparr> f_version = 10, f_exporter_ip = exporter_ip, f_src_ip = src, f_dst_ip = dst,
               f_src_port = y_src_port v, f_dst_port = y_dst_port v, f_protocol = y_protocol v,
               f_bytes = y_octets v, f_packets = y_packets v, f_tcp_flags = y_tcp_flags v,
               f_input_if = y_input_if v, f_output_if = y_output_if v,
               f_start_time = (case y_start_time v of None \<Rightarrow> real export_time | Some t \<Rightarrow> t),
               f_end_time = (case y_end_time v of None \<Rightarrow> real export_time | Some t \<Rightarrow> t) \<rparr>]
          else []
      | _ \<Rightarrow> [])"

function ipfix_records :: "ipfix_template \<Rightarrow> byte list \<Rightarrow> string \<Rightarrow> nat \<Rightarrow> nat \<Rightarrow> flow list result" where
  \<comment> \<open>the \<open>while offset + tmpl.total_length <= len(payload)\<close> loop; a template of total length 0
     never gets here, so the positive stride is part of the guard\<close>
  "ipfix_records tmpl payload exporter_ip export_time offset =
     (if 0 < x_total_length tmpl \<and> offset + x_total_length tmpl \<le> length payload then
        (case ipfix_fields payload offset (x_fields tmpl) ipfix_vars0 of
           Inl e \<Rightarrow> Inl e
         | Inr v \<Rightarrow>
             (case ipfix_records tmpl payload exporter_ip export_time
                     (offset + x_total_length tmpl) of
                Inl e \<Rightarrow> Inl e
              | Inr fs \<Rightarrow> Inr (ipfix_flow exporter_ip export_time v @ fs)))
      else Inr [])"
  by pat_completeness auto
termination
  by (relation "measure (\<lambda>(t, p, e, u, off). length p - off)") auto

declare ipfix_records.simps [simp del]

definition ipfix_parse_data_set ::
  "ipfix_parser \<Rightarrow> nat \<Rightarrow> byte list \<Rightarrow> string \<Rightarrow> nat \<Rightarrow> nat \<Rightarrow> flow list option result" where
  "ipfix_parse_data_set p template_id payload exporter_ip obs_domain_id export_time =
     (case x_templates p (exporter_ip, obs_domain_id, template_id) of
        None \<Rightarrow> Inr None
      | Some tmpl \<Rightarrow>
          if x_total_length tmpl = 0 then Inr None
          else map_sum id Some (ipfix_records tmpl payload exporter_ip export_time 0))"

subsection \<open>Templates and orphans\<close>

definition ipfix_drain_orphans ::
  "(nat \<Rightarrow> real) \<Rightarrow> string \<Rightarrow> nat \<Rightarrow> nat \<Rightarrow> flow list \<times> ipfix_parser \<Rightarrow>
   (flow list \<times> ipfix_parser) result" where
  "ipfix_drain_orphans clk exporter_ip obs_domain_id template_id st =
     (let (out_flows, p) = st;
          (now, p) = ipfix_now clk p
      in case x_orphans p (exporter_ip, obs_domain_id) of
           None \<Rightarrow> Inr (out_flows, p)
         | Some [] \<Rightarrow> Inr (out_flows, p)
         | Some buf \<Rightarrow>
             (case drain_items (\<lambda>x. x_orphan_ttl p < now - xo_stamp x)
                     (\<lambda>x. xo_set_id x = template_id)
                     (\<lambda>x. ipfix_parse_data_set p (xo_set_id x) (xo_payload x) exporter_ip
                            obs_domain_id (xo_export_time x))
                     buf out_flows [] of
                Inl e \<Rightarrow> Inl e
              | Inr (out_flows', remaining) \<Rightarrow>
                  Inr (out_flows',
                       p\<lparr>x_orphans := (x_orphans p)((exporter_ip, obs_domain_id) \<mapsto> remaining)\<rparr>)))"

fun ipfix_template_fields :: "byte list \<Rightarrow> nat \<Rightarrow> nat \<Rightarrow> (ipfix_field_spec list \<times> nat) result" where
  \<comment> \<open>the \<open>for _ in range(field_count)\<close> loop: the specifiers read and the index after them\<close>
  "ipfix_template_fields payload idx 0 = Inr ([], idx)"
| "ipfix_template_fields payload idx (Suc n) =
     (if length payload < idx + 4 then Inr ([], idx)
      else
        (case unpack_from [H, H] payload idx of
           Inl e \<Rightarrow> Inl e
         | Inr h \<Rightarrow>
             (let raw_ie_id = h ! 0;
                  enterprise_bit = raw_ie_id AND 0x8000 \<noteq> 0;
                  ie = raw_ie_id AND 0x7FFF
              in if enterprise_bit then
                   if length payload < idx + 4 + 4 then Inr ([], idx + 4)
                   else
                     (case unpack_from [I] payload (idx + 4) of
                        Inl e \<Rightarrow> Inl e
                      | Inr en \<Rightarrow>
                          (case ipfix_template_fields payload (idx + 4 + 4) n of
                             Inl e \<Rightarrow> Inl e
                           | Inr (flds, idx') \<Rightarrow>
                               Inr (\<lparr>ie_id = ie, ie_length = h ! 1, enterprise_number = Some (en ! 0)\<rparr>
                                      # flds, idx')))
                 else
                   (case ipfix_template_fields payload (idx + 4) n of
                      Inl e \<Rightarrow> Inl e
                    | Inr (flds, idx') \<Rightarrow>
                        Inr (\<lparr>ie_id = ie, ie_length = h ! 1, enterprise_number = None\<rparr> # flds,
                             idx')))))"

lemma ipfix_template_fields_idx:
  "ipfix_template_fields payload idx n = Inr (flds, idx') \<Longrightarrow> idx \<le> idx' \<and> length flds \<le> n"
proof (induction n arbitrary: idx flds)
  case (Suc n)
  show ?case
    using Suc.prems Suc.IH[of "idx + 4"] Suc.IH[of "idx + 4 + 4"]
    by (fastforce simp: Let_def split: if_splits sum.splits)
qed simp

definition ipfix_learn_template ::
  "(nat \<Rightarrow> real) \<Rightarrow> string \<Rightarrow> nat \<Rightarrow> nat \<Rightarrow> ipfix_field_spec list \<Rightarrow> flow list \<times> ipfix_parser \<Rightarrow>
   (flow list \<times> ipfix_parser) result" where
  "ipfix_learn_template clk exporter_ip obs_domain_id template_id flds st =
     (let (out_flows, p) = st;
          (created, p) = ipfix_now clk p;
          tmpl = IPFIXTemplate template_id flds created;
          p = p\<lparr>x_templates := (x_templates p)((exporter_ip, obs_domain_id, template_id) \<mapsto> tmpl)\<rparr>
      in ipfix_drain_orphans clk exporter_ip obs_domain_id template_id (out_flows, p))"

function ipfix_template_loop ::
  "(nat \<Rightarrow> real) \<Rightarrow> byte list \<Rightarrow> string \<Rightarrow> nat \<Rightarrow> nat \<Rightarrow> flow list \<times> ipfix_parser \<Rightarrow>
   (flow list \<times> ipfix_parser) result" where
  "ipfix_template_loop clk payload exporter_ip obs_domain_id idx st =
     (if idx + 4 \<le> length payload then
        (case unpack_from [H, H] payload idx of
           Inl e \<Rightarrow> Inl e
         | Inr h \<Rightarrow>
             (let template_id = h ! 0; field_count = h ! 1
              in if template_id < 256 then Inr st
                 else
                   (case ipfix_template_fields payload (idx + 4) field_count of
                      Inl e \<Rightarrow> Inl e
                    | Inr (flds, idx') \<Rightarrow>
                        if length flds \<noteq> field_count then
                          ipfix_template_loop clk payload exporter_ip obs_domain_id idx' st
                        else
                          (case ipfix_learn_template clk exporter_ip obs_domain_id template_id flds st of
                             Inl e \<Rightarrow> Inl e
                           | Inr st' \<Rightarrow>
                               ipfix_template_loop clk payload exporter_ip obs_domain_id idx' st'))))
      else Inr st)"
  by pat_completeness auto
termination
  by (relation "measure (\<lambda>(c, p, e, s, idx, st). length p - idx)")
    (auto dest!: ipfix_template_fields_idx)

declare ipfix_template_loop.simps [simp del]

subsection \<open>A datagram\<close>

definition ipfix_set ::
  "(nat \<Rightarrow> real) \<Rightarrow> real \<Rightarrow> string \<Rightarrow> nat \<Rightarrow> nat \<Rightarrow> nat \<times> byte list \<Rightarrow> flow list \<times> ipfix_parser \<Rightarrow>
   (flow list \<times> ipfix_parser) result" where
  \<comment> \<open>the body of the set loop: \<open>(set_id, set_payload)\<close>\<close>
  "ipfix_set clk now exporter_ip obs_domain_id export_time fs st =
     (let (set_id, payload) = fs; (flows, p) = st
      in if set_id = 2 then ipfix_template_loop clk payload exporter_ip obs_domain_id 0 st
         else if set_id = 3 then Inr st
         else if 256 \<le> set_id then
           (case ipfix_parse_data_set p set_id payload exporter_ip obs_domain_id export_time of
              Inl e \<Rightarrow> Inl e
            | Inr (Some parsed) \<Rightarrow> Inr (flows @ parsed, p)
            | Inr None \<Rightarrow>
                (let q = (case x_orphans p (exporter_ip, obs_domain_id) of None \<Rightarrow> [] | Some q \<Rightarrow> q);
                     item = \<lparr> xo_stamp = now, xo_set_id = set_id, xo_payload = payload,
                              xo_export_time = export_time \<rparr>
                 in Inr (flows, p\<lparr>x_orphans := (x_orphans p)
                        ((exporter_ip, obs_domain_id) \<mapsto> deque_append ORPHAN_MAX q item)\<rparr>)))
         else Inr st)"

function ipfix_set_loop ::
  "(nat \<Rightarrow> real) \<Rightarrow> real \<Rightarrow> byte list \<Rightarrow> nat \<Rightarrow> string \<Rightarrow> nat \<Rightarrow> nat \<Rightarrow> nat \<Rightarrow>
   flow list \<times> ipfix_parser \<Rightarrow> (flow list \<times> ipfix_parser) result" where
  "ipfix_set_loop clk now data total_len exporter_ip obs_domain_id export_time offset st =
     (if offset + 4 \<le> total_len then
        (case unpack_from SET_HEADER_STRUCT data offset of
           Inl e \<Rightarrow> Inl e
         | Inr h \<Rightarrow>
             (let set_id = h ! 0; set_len = h ! 1; set_end = offset + set_len
              in if set_len < 4 then Inr st
                 else if total_len < set_end then Inr st
                 else
                   (case ipfix_set clk now exporter_ip obs_domain_id export_time
                           (set_id, py_slice data (offset + 4) set_end) st of
                      Inl e \<Rightarrow> Inl e
                    | Inr st' \<Rightarrow>
                        ipfix_set_loop clk now data total_len exporter_ip obs_domain_id export_time
                          set_end st')))
      else Inr st)"
  by pat_completeness auto
termination
  by (relation "measure (\<lambda>(c, n, d, l, e, s, u, off, st). l - off)") auto

declare ipfix_set_loop.simps [simp del]

definition ipfix_parse_packet ::
  "(nat \<Rightarrow> real) \<Rightarrow> ipfix_parser \<Rightarrow> byte list \<Rightarrow> string \<Rightarrow> (flow list \<times> ipfix_parser) result" where
  "ipfix_parse_packet clk p data exporter_ip =
     (let (now, p) = ipfix_now clk p
      in if length data < calcsize IPFIX_HEADER_STRUCT then Inr ([], p)
         else
           (case unpack_from IPFIX_HEADER_STRUCT data 0 of
              Inl e \<Rightarrow> Inl e
            | Inr h \<Rightarrow>
                (let version = h ! 0; total_len = h ! 1; export_time = h ! 2; obs_domain_id = h ! 4
                 in if version \<noteq> 10 \<or> length data < total_len then Inr ([], p)
                    else ipfix_set_loop clk now data total_len exporter_ip obs_domain_id export_time
                           (calcsize IPFIX_HEADER_STRUCT) ([], ipfix_cleanup_expired now p))))"

subsection \<open>Decoding never raises\<close>

lemma ipfix_now_simps [simp]:
  "fst (ipfix_now clk p) = clk (x_ticks p)"
  "snd (ipfix_now clk p) = p\<lparr>x_ticks := Suc (x_ticks p)\<rparr>"
  by (simp_all add: ipfix_now_def)

lemma ipfix_field_ok: "length bs = ie_length f \<Longrightarrow> \<exists>v'. ipfix_field f bs v = Inr v'"
  unfolding returns_ex[symmetric] ipfix_field_def
  by (intro returns_if) (use inet_ntop6_ok[of bs] in \<open>auto simp: returns_ex inet_ntoa_def\<close>)

lemma ipfix_fields_ok:
  "off + sum_list (map ie_length fs) \<le> length payload \<Longrightarrow> \<exists>v'. ipfix_fields payload off fs v = Inr v'"
proof (induction payload off fs v rule: ipfix_fields.induct)
  case (2 payload off f fs v)
  let ?l = "ie_length f"
  have "length (py_slice payload off (off + ?l)) = ?l" using "2.prems" by simp
  then obtain v' where "ipfix_field f (py_slice payload off (off + ?l)) v = Inr v'"
    using ipfix_field_ok by blast
  with "2.IH"[OF this] "2.prems" show ?case by (simp add: add.assoc)
qed simp

definition ipfix_vars_at :: "ipfix_field_spec list \<Rightarrow> byte list \<Rightarrow> nat \<Rightarrow> ipfix_vars" where
  \<comment> \<open>the local variables after the field loop, for the record at an offset\<close>
  "ipfix_vars_at fs payload off = projr (ipfix_fields payload off fs ipfix_vars0)"

definition ipfix_decoded :: "ipfix_field_spec list \<Rightarrow> byte list \<Rightarrow> string \<Rightarrow> nat \<Rightarrow> flow list" where
  \<comment> \<open>the meaning of a data set: one record per complete stride, in order\<close>
  "ipfix_decoded fs payload ip u =
     (let n = sum_list (map ie_length fs)
      in concat (map (\<lambda>i. ipfix_flow ip u (ipfix_vars_at fs payload (i * n))) [0..<length payload div n]))"

definition ipfix_template_wf :: "nat \<Rightarrow> ipfix_template \<Rightarrow> bool" where
  "ipfix_template_wf tid t \<longleftrightarrow>
     256 \<le> tid \<and> x_template_id t = tid \<and> x_total_length t = sum_list (map ie_length (x_fields t))"

lemma ipfix_records_eq:
  assumes n: "x_total_length t = sum_list (map ie_length (x_fields t))" "0 < x_total_length t"
    and "off = k * x_total_length t"
  shows "ipfix_records t payload ip u off =
    Inr (concat (map (\<lambda>i. ipfix_flow ip u (ipfix_vars_at (x_fields t) payload (i * x_total_length t)))
                     [k..<length payload div x_total_length t]))"
  using assms
proof (induction t payload ip u off arbitrary: k rule: ipfix_records.induct)
  case (1 t payload ip u off)
  let ?n = "x_total_length t"
  note n = "1.prems"(1,2) and off = "1.prems"(3)
  note stride = less_eq_div_iff_mult_less_eq[OF n(2), of "Suc k" "length payload"]
  show ?case
  proof (cases "off + ?n \<le> length payload")
    case True
    with off stride have k: "k < length payload div ?n" by (simp add: Suc_le_eq add.commute)
    obtain v where v: "ipfix_fields payload off (x_fields t) ipfix_vars0 = Inr v"
      using ipfix_fields_ok[of off "x_fields t" payload] True n(1) by auto
    then have at: "v = ipfix_vars_at (x_fields t) payload (k * ?n)"
      using off by (simp add: ipfix_vars_at_def)
    have "ipfix_records t payload ip u (off + ?n) = Inr (concat (map (\<lambda>i. ipfix_flow ip u
        (ipfix_vars_at (x_fields t) payload (i * ?n))) [Suc k..<length payload div ?n]))"
      using n off True v by (intro "1.IH") simp_all
    with True n(2) v k show ?thesis
      by (subst ipfix_records.simps) (simp add: upt_conv_Cons at del: upt_Suc)
  next
    case False
    with off stride have "length payload div ?n < Suc k" by (simp add: add.commute not_le)
    with False show ?thesis by (subst ipfix_records.simps) simp
  qed
qed

lemma ipfix_records_decoded:
  assumes "ipfix_template_wf tid t" and "x_total_length t \<noteq> 0"
  shows "ipfix_records t payload ip u 0 = Inr (ipfix_decoded (x_fields t) payload ip u)"
  using ipfix_records_eq[of t 0 0] assms by (simp add: ipfix_template_wf_def ipfix_decoded_def Let_def)

definition ipfix_orphans_wf :: "ipfix_orphan list \<Rightarrow> bool" where
  "ipfix_orphans_wf q \<longleftrightarrow> length q \<le> ORPHAN_MAX \<and> (\<forall>x \<in> set q. 256 \<le> xo_set_id x)"

definition ipfix_wf :: "ipfix_parser \<Rightarrow> bool" where
  "ipfix_wf p \<longleftrightarrow>
     (\<forall>ip src tid t. x_templates p (ip, src, tid) = Some t \<longrightarrow> ipfix_template_wf tid t) \<and>
     (\<forall>k q. x_orphans p k = Some q \<longrightarrow> ipfix_orphans_wf q)"

lemma ipfix_wf_init: "ipfix_wf IPFIXParser"
  by (simp add: ipfix_wf_def IPFIXParser_def)

lemma ipfix_wf_ticks [simp]: "ipfix_wf (p\<lparr>x_ticks := n\<rparr>) = ipfix_wf p"
  by (simp add: ipfix_wf_def)

lemma ipfix_wf_cleanup: "ipfix_wf p \<Longrightarrow> ipfix_wf (ipfix_cleanup_expired now p)"
  by (auto simp: ipfix_wf_def ipfix_cleanup_expired_def split: option.splits if_splits)

lemma ipfix_wf_put_orphans:
  "ipfix_wf p \<Longrightarrow> ipfix_orphans_wf q \<Longrightarrow> ipfix_wf (p\<lparr>x_orphans := (x_orphans p)(k \<mapsto> q)\<rparr>)"
  by (auto simp: ipfix_wf_def)

lemma ipfix_wf_tick_orphans:
  "ipfix_wf p \<Longrightarrow> ipfix_orphans_wf q \<Longrightarrow> ipfix_wf (p\<lparr>x_ticks := n, x_orphans := (x_orphans p)(k \<mapsto> q)\<rparr>)"
  by (auto simp: ipfix_wf_def)

lemma ipfix_wf_put_template:
  "ipfix_wf p \<Longrightarrow> ipfix_template_wf tid t \<Longrightarrow>
   ipfix_wf (p\<lparr>x_templates := (x_templates p)((ip, src, tid) \<mapsto> t)\<rparr>)"
  by (auto simp: ipfix_wf_def)

lemma IPFIXTemplate_wf: "256 \<le> tid \<Longrightarrow> ipfix_template_wf tid (IPFIXTemplate tid fs now)"
  by (simp add: IPFIXTemplate_def ipfix_template_wf_def)

lemma ipfix_orphans_wf_append:
  "ipfix_orphans_wf q \<Longrightarrow> 256 \<le> xo_set_id x \<Longrightarrow> ipfix_orphans_wf (deque_append ORPHAN_MAX q x)"
  using set_deque_append[of ORPHAN_MAX q x]
  by (auto simp: ipfix_orphans_wf_def length_deque_append)

lemma ipfix_orphans_wf_filter: "ipfix_orphans_wf q \<Longrightarrow> ipfix_orphans_wf (filter P q)"
  by (auto simp: ipfix_orphans_wf_def intro: order_trans[OF length_filter_le])

lemma ipfix_flow_ok: "f \<in> set (ipfix_flow ip u v) \<Longrightarrow> flow_ok 10 ip f"
  by (auto simp: ipfix_flow_def flow_ok_def split: option.splits if_splits)

lemma ipfix_decoded_ok: "f \<in> set (ipfix_decoded fs payload ip u) \<Longrightarrow> flow_ok 10 ip f"
  by (auto simp: ipfix_decoded_def Let_def dest: ipfix_flow_ok)

lemma ipfix_data_cases:
  assumes "ipfix_wf p"
  shows "ipfix_parse_data_set p tid payload ip src u =
    Inr (case x_templates p (ip, src, tid) of
           None \<Rightarrow> None
         | Some t \<Rightarrow> if x_total_length t = 0 then None
                   else Some (ipfix_decoded (x_fields t) payload ip u))"
proof (cases "x_templates p (ip, src, tid)")
  case (Some t)
  with assms have "ipfix_template_wf tid t" by (auto simp: ipfix_wf_def)
  then show ?thesis
    by (simp add: ipfix_parse_data_set_def Some ipfix_records_decoded)
qed (simp add: ipfix_parse_data_set_def)

text \<open>What one pass over the orphan buffer of a template does, in closed form.\<close>

definition ipfix_orphans_at :: "ipfix_parser \<Rightarrow> string \<times> nat \<Rightarrow> ipfix_orphan list" where
  "ipfix_orphans_at p k = (case x_orphans p k of None \<Rightarrow> [] | Some q \<Rightarrow> q)"

definition ipfix_expired :: "ipfix_parser \<Rightarrow> real \<Rightarrow> ipfix_orphan \<Rightarrow> bool" where
  "ipfix_expired p now x \<longleftrightarrow> x_orphan_ttl p < now - xo_stamp x"

lemma ipfix_expired_frame [simp]:
  "ipfix_expired (p\<lparr>x_ticks := n\<rparr>) = ipfix_expired p"
  "ipfix_expired (p\<lparr>x_ticks := n, x_templates := ts\<rparr>) = ipfix_expired p"
  by (simp_all add: ipfix_expired_def fun_eq_iff)

lemma ipfix_orphans_at_wf: "ipfix_wf p \<Longrightarrow> ipfix_orphans_wf (ipfix_orphans_at p k)"
  by (cases k) (auto simp: ipfix_orphans_at_def ipfix_wf_def ipfix_orphans_wf_def split: option.splits)

lemma ipfix_drain_eq:
  assumes wf: "ipfix_wf p" and t: "x_templates p (ip, src, tid) = Some t" and "x_total_length t \<noteq> 0"
  shows "\<exists>p'. ipfix_drain_orphans clk ip src tid (out, p) =
      Inr (out @ drained (ipfix_expired p (clk (x_ticks p))) (\<lambda>x. xo_set_id x = tid)
              (\<lambda>x. ipfix_decoded (x_fields t) (xo_payload x) ip (xo_export_time x))
              (ipfix_orphans_at p (ip, src)), p')
    \<and> ipfix_wf p' \<and> x_templates p' = x_templates p \<and> x_ticks p' = Suc (x_ticks p)
    \<and> x_template_ttl p' = x_template_ttl p \<and> x_orphan_ttl p' = x_orphan_ttl p"
proof (cases "ipfix_orphans_at p (ip, src)")
  case Nil
  then show ?thesis
    using wf by (auto simp: ipfix_drain_orphans_def ipfix_now_def drained_def ipfix_orphans_at_def
        split: option.splits)
next
  case (Cons x xs)
  let ?p = "p\<lparr>x_ticks := Suc (x_ticks p)\<rparr>"
  let ?exp = "ipfix_expired p (clk (x_ticks p))"
  from Cons have q: "x_orphans p (ip, src) = Some (x # xs)"
    by (auto simp: ipfix_orphans_at_def split: option.splits)
  have qwf: "ipfix_orphans_wf (x # xs)" using ipfix_orphans_at_wf[OF wf, of "(ip, src)"] Cons by simp
  have "drain_items (\<lambda>x. x_orphan_ttl ?p < clk (x_ticks p) - xo_stamp x)
      (\<lambda>x. xo_set_id x = tid)
      (\<lambda>x. ipfix_parse_data_set ?p (xo_set_id x) (xo_payload x) ip src (xo_export_time x)) (x # xs) out []
    = Inr (out @ drained ?exp (\<lambda>x. xo_set_id x = tid)
              (\<lambda>x. ipfix_decoded (x_fields t) (xo_payload x) ip (xo_export_time x)) (x # xs),
           [] @ filter (\<lambda>x. \<not> ?exp x \<and> \<not> xo_set_id x = tid) (x # xs))"
    unfolding ipfix_expired_def using qwf wf t assms(3)
    by (subst drain_items_eq[where fd = "\<lambda>x. ipfix_decoded (x_fields t) (xo_payload x) ip
          (xo_export_time x)"])
      (auto simp: ipfix_data_cases ipfix_orphans_wf_def)
  then show ?thesis
    using wf q qwf Cons unfolding ipfix_drain_orphans_def ipfix_now_def
    by (simp add: ipfix_wf_tick_orphans ipfix_orphans_wf_filter del: drain_items.simps filter.simps)
qed

definition ipfix_good :: "string \<Rightarrow> flow list \<times> ipfix_parser \<Rightarrow> bool" where
  "ipfix_good ip st \<longleftrightarrow> ipfix_wf (snd st) \<and> (\<forall>f \<in> set (fst st). flow_ok 10 ip f)"

lemma ipfix_data_returns:
  "ipfix_wf p \<Longrightarrow> returns (ipfix_parse_data_set p tid payload ip src u)
     (\<lambda>r. \<forall>fs. r = Some fs \<longrightarrow> (\<forall>f \<in> set fs. flow_ok 10 ip f))"
  by (auto simp: ipfix_data_cases dest: ipfix_decoded_ok split: option.splits)

lemma ipfix_drain_returns:
  assumes "ipfix_good ip st"
  shows "returns (ipfix_drain_orphans clk ip src tid st) (ipfix_good ip)"
proof (cases "ipfix_orphans_at (snd st) (ip, src)")
  case Nil
  then show ?thesis
    using assms by (cases st) (auto simp: ipfix_drain_orphans_def ipfix_now_def ipfix_orphans_at_def
        ipfix_good_def split: option.splits)
next
  case (Cons x xs)
  obtain out p where st: "st = (out, p)" by (cases st)
  let ?p = "p\<lparr>x_ticks := Suc (x_ticks p)\<rparr>"
  from Cons st have q: "x_orphans p (ip, src) = Some (x # xs)"
    by (auto simp: ipfix_orphans_at_def split: option.splits)
  have wf: "ipfix_wf p" and out: "\<forall>f \<in> set out. flow_ok 10 ip f"
    using assms st by (simp_all add: ipfix_good_def)
  have "ipfix_orphans_wf (x # xs)" using ipfix_orphans_at_wf[OF wf, of "(ip, src)"] Cons st by simp
  then have sub: "set rem \<subseteq> insert x (set xs) \<Longrightarrow> length rem \<le> ORPHAN_MAX \<Longrightarrow> ipfix_orphans_wf rem" for rem
    by (auto simp: ipfix_orphans_wf_def)
  have "returns (drain_items (\<lambda>x. x_orphan_ttl ?p < clk (x_ticks p) - xo_stamp x)
      (\<lambda>x. xo_set_id x = tid)
      (\<lambda>x. ipfix_parse_data_set ?p (xo_set_id x) (xo_payload x) ip src (xo_export_time x)) (x # xs) out [])
    (\<lambda>(out', rem'). (\<forall>f \<in> set out'. flow_ok 10 ip f) \<and>
        set rem' \<subseteq> set (x # xs) \<union> set [] \<and> length rem' \<le> ORPHAN_MAX)"
    using wf out by (intro drain_items_returns ipfix_data_returns) simp_all
  then obtain out' rem' where d: "drain_items (\<lambda>x. x_orphan_ttl ?p < clk (x_ticks p) - xo_stamp x)
      (\<lambda>x. xo_set_id x = tid)
      (\<lambda>x. ipfix_parse_data_set ?p (xo_set_id x) (xo_payload x) ip src (xo_export_time x)) (x # xs) out [] = Inr (out', rem')"
    and "\<forall>f \<in> set out'. flow_ok 10 ip f" and "ipfix_orphans_wf rem'"
    by (elim returnsE) (use sub in \<open>simp del: drain_items.simps, blast\<close>)
  then show ?thesis
    unfolding ipfix_drain_orphans_def ipfix_now_def st
    using wf by (simp add: q ipfix_good_def ipfix_wf_tick_orphans del: drain_items.simps)
qed

lemma ipfix_learn_returns:
  "ipfix_good ip st \<Longrightarrow> 256 \<le> tid \<Longrightarrow> returns (ipfix_learn_template clk ip src tid fs st) (ipfix_good ip)"
  by (cases st) (auto simp: ipfix_learn_template_def ipfix_now_def ipfix_good_def ipfix_wf_def IPFIXTemplate_wf
      intro!: ipfix_drain_returns)

lemma ipfix_template_fields_returns: "returns (ipfix_template_fields payload idx n) (\<lambda>_. True)"
proof (induction n arbitrary: idx)
  case (Suc n)
  show ?case
  proof (cases "length payload < idx + 4")
    case False
    then have "unpack_from [H, H] payload idx = Inr (unpack_fields [H, H] (drop idx payload))"
      by (intro unpack_from_ok) simp
    moreover have "\<not> length payload < idx + 4 + 4 \<Longrightarrow>
        unpack_from [I] payload (idx + 4) = Inr (unpack_fields [I] (drop (idx + 4) payload))"
      by (intro unpack_from_ok) simp
    ultimately show ?thesis
      using Suc.IH[of "idx + 4"] Suc.IH[of "idx + 4 + 4"] False
      by (auto simp: Let_def elim!: returnsE)
  qed simp
qed simp

lemma ipfix_template_loop_returns:
  "ipfix_good ip st \<Longrightarrow> returns (ipfix_template_loop clk payload ip src idx st) (ipfix_good ip)"
proof (induction clk payload ip src idx st rule: ipfix_template_loop.induct)
  case (1 clk payload ip src idx st)
  show ?case
  proof (cases "idx + 4 \<le> length payload")
    case True
    let ?h = "unpack_fields [H, H] (drop idx payload)"
    have h: "unpack_from [H, H] payload idx = Inr ?h" using True by (simp add: unpack_from_def)
    obtain fs idx' where f: "ipfix_template_fields payload (idx + 4) (?h ! 1) = Inr (fs, idx')"
      using ipfix_template_fields_returns[of payload "idx + 4" "?h ! 1"] by (auto elim!: returnsE)
    note IH = "1.IH"[OF True h refl refl _ f refl]
    show ?thesis
    proof (cases "?h ! 0 < 256 \<or> length fs \<noteq> ?h ! 1")
      case True
      with h f \<open>idx + 4 \<le> length payload\<close> IH(1) "1.prems" show ?thesis
        by (subst ipfix_template_loop.simps) (auto simp: Let_def)
    next
      case False
      obtain st' where "ipfix_learn_template clk ip src (?h ! 0) fs st = Inr st'" "ipfix_good ip st'"
        using ipfix_learn_returns[OF "1.prems", of "?h ! 0" clk src fs] False by (auto elim!: returnsE)
      with h f \<open>idx + 4 \<le> length payload\<close> IH(2) False show ?thesis
        by (subst ipfix_template_loop.simps) (auto simp: Let_def)
    qed
  qed (use "1.prems" in \<open>subst ipfix_template_loop.simps, simp\<close>)
qed

lemma ipfix_set_returns:
  assumes "ipfix_good ip st"
  shows "returns (ipfix_set clk now ip src u fs st) (ipfix_good ip)"
proof -
  obtain fid payload flows p where st: "st = (flows, p)" "fs = (fid, payload)"
    by (cases st; cases fs)
  with assms have wf: "ipfix_wf p" and fl: "\<forall>f \<in> set flows. flow_ok 10 ip f"
    by (simp_all add: ipfix_good_def)
  have "ipfix_orphans_wf (deque_append ORPHAN_MAX (ipfix_orphans_at p (ip, src)) x)"
    if "256 \<le> xo_set_id x" for x
    using that ipfix_orphans_at_wf[OF wf] by (rule ipfix_orphans_wf_append[rotated])
  then have put: "ipfix_wf (p\<lparr>x_orphans := (x_orphans p)((ip, src) \<mapsto>
      deque_append ORPHAN_MAX (ipfix_orphans_at p (ip, src)) x)\<rparr>)" if "256 \<le> xo_set_id x" for x
    using that by (intro ipfix_wf_put_orphans wf)
  obtain r where "ipfix_parse_data_set p fid payload ip src u = Inr r"
    and "\<forall>fs. r = Some fs \<longrightarrow> (\<forall>f \<in> set fs. flow_ok 10 ip f)"
    by (rule returnsE[OF ipfix_data_returns[OF wf, of fid payload ip src u]])
  then show ?thesis
    using assms fl wf put ipfix_template_loop_returns[OF assms, of clk payload src 0]
    by (cases r) (auto simp: ipfix_set_def st Let_def ipfix_good_def ipfix_orphans_at_def[symmetric])
qed

lemma ipfix_set_loop_returns:
  "ipfix_good ip st \<Longrightarrow> len \<le> length data \<Longrightarrow>
   returns (ipfix_set_loop clk now data len ip src u off st) (ipfix_good ip)"
proof (induction clk now data len ip src u off st rule: ipfix_set_loop.induct)
  case (1 clk now data len ip src u off st)
  show ?case
  proof (cases "off + 4 \<le> len")
    case True
    let ?h = "unpack_fields SET_HEADER_STRUCT (drop off data)"
    have h: "unpack_from SET_HEADER_STRUCT data off = Inr ?h"
      using True "1.prems"(2) by (intro unpack_from_ok) simp
    obtain st' where st': "ipfix_set clk now ip src u
        (?h ! 0, py_slice data (off + 4) (off + ?h ! 1)) st = Inr st'" "ipfix_good ip st'"
      by (rule returnsE[OF ipfix_set_returns[OF "1.prems"(1)]])
    then show ?thesis
      using True h "1.prems" "1.IH"[OF True h refl refl refl _ _ st'(1)]
      by (subst ipfix_set_loop.simps) (auto simp: Let_def)
  qed (use "1.prems" in \<open>subst ipfix_set_loop.simps, simp\<close>)
qed

lemma ipfix_parse_packet_good:
  assumes "ipfix_wf p"
  shows "returns (ipfix_parse_packet clk p data ip) (\<lambda>(fs, p'). ipfix_wf p' \<and> (\<forall>f \<in> set fs. flow_ok 10 ip f))"
proof -
  have "returns (ipfix_parse_packet clk p data ip) (ipfix_good ip)"
    using assms unfolding ipfix_parse_packet_def ipfix_now_def
    by (auto simp: Let_def unpack_from_ok ipfix_good_def ipfix_wf_cleanup
        intro!: ipfix_set_loop_returns)
  then show ?thesis by (rule returns_mono) (auto simp: ipfix_good_def)
qed

interpretation ipfix: flow_decoder "ipfix_parse_packet clk" ipfix_wf 10 for clk
  by unfold_locales (rule ipfix_parse_packet_good)


text \<open>
  No IPFIX datagram, whatever its bytes, makes the decoder raise: any sequence of
  datagrams is decoded from the start-up state, leaves at most 100 orphans per source, and
  every flow carries version 10 and both addresses.
\<close>

lemma ipfix_parse_stream_total:
  "\<exists>flows p. fold_result (decode_into (ipfix_parse_packet clk)) datagrams ([], IPFIXParser) = Inr (flows, p)
     \<and> (\<forall>k. length (case x_orphans p k of None \<Rightarrow> [] | Some q \<Rightarrow> q) \<le> 100)
     \<and> list_all (\<lambda>f. f_version f = 10 \<and> f_src_ip f \<noteq> [] \<and> f_dst_ip f \<noteq> []) flows"
  using ipfix.decode_stream[OF ipfix_wf_init, of clk datagrams]
  by (auto elim!: returnsE simp: ipfix.good_def flow_ok_def ipfix_wf_def ipfix_orphans_wf_def ORPHAN_MAX_def list_all_iff split: option.splits)

text \<open>
  Variable-length information elements are not understood: their specifiers carry the
  length 65535 (RFC 7011, section 7), which the decoder takes as a width. A template with
  such a field is accepted and occupies its id, but no data set can hold a record of that
  width, so every data set of the template decodes to no flow at all, without being
  reported or kept.
\<close>

lemma ipfix_variable_length_drops:
  assumes "ipfix_wf p" and "x_templates p (ip, src, tid) = Some t"
    and "f \<in> set (x_fields t)" and "ie_length f = 65535" and "length payload < 65532"
  shows "ipfix_parse_data_set p tid payload ip src export_time = Inr (Some [])"
proof -
  have wf: "x_total_length t = sum_list (map ie_length (x_fields t))"
    using assms(1,2) by (auto simp: ipfix_wf_def ipfix_template_wf_def)
  have "65535 \<in> set (map ie_length (x_fields t))" using assms(3,4) by force
  then have "65535 \<le> x_total_length t" unfolding wf by (intro member_le_sum_list) simp_all
  then have big: "length payload < x_total_length t" using assms(5) by simp
  then have "ipfix_records t payload ip export_time 0 = Inr []"
    by (subst ipfix_records.simps) simp
  moreover have "x_total_length t \<noteq> 0" using big by simp
  ultimately have "ipfix_records t payload ip export_time 0 = Inr []" "x_total_length t \<noteq> 0" by blast+
  with assms(2) show ?thesis by (simp add: ipfix_parse_data_set_def)
qed

lemma ipfix_wf_one_template:
  "256 \<le> tid \<Longrightarrow> ipfix_wf (IPFIXParser\<lparr>x_templates := [(ip, src, tid) \<mapsto> IPFIXTemplate tid fs now]\<rparr>)"
  using ipfix_wf_put_template[OF ipfix_wf_init, of tid "IPFIXTemplate tid fs now" ip src]
  by (simp add: IPFIXTemplate_wf IPFIXParser_def)

lemma ipfix_variable_length_drops_witness:
  "ipfix_parse_data_set
     (IPFIXParser\<lparr>x_templates := [(''192.0.2.1'', 7, 256) \<mapsto> IPFIXTemplate 256
        [\<lparr>ie_id = 8, ie_length = 4, enterprise_number = None\<rparr>,
         \<lparr>ie_id = 96, ie_length = 65535, enterprise_number = None\<rparr>] 0]\<rparr>)
     256 [10, 0, 0, 1, 3, 102, 111, 111] ''192.0.2.1'' 7 1700000000 = Inr (Some [])"
  by (rule ipfix_variable_length_drops[OF ipfix_wf_one_template,
        where f = "\<lparr>ie_id = 96, ie_length = 65535, enterprise_number = None\<rparr>"
          and t = "IPFIXTemplate 256 [\<lparr>ie_id = 8, ie_length = 4, enterprise_number = None\<rparr>,
            \<lparr>ie_id = 96, ie_length = 65535, enterprise_number = None\<rparr>] 0"])
    (simp_all add: IPFIXTemplate_def)

subsection \<open>Encoded datagrams\<close>

definition ipfix_packet :: "nat list \<Rightarrow> (nat \<times> byte list) list \<Rightarrow> byte list" where
  \<comment> \<open>the datagram an exporter sends for a header and its sets\<close>
  "ipfix_packet h ss = pack IPFIX_HEADER_STRUCT h @ sets_bytes ss"

definition field_spec_bytes :: "ipfix_field_spec \<Rightarrow> byte list" where
  "field_spec_bytes f =
     (case enterprise_number f of
        None \<Rightarrow> pack [H, H] [ie_id f, ie_length f]
      | Some e \<Rightarrow> pack [H, H, I] [ie_id f + 0x8000, ie_length f, e])"

definition field_spec_ok :: "ipfix_field_spec \<Rightarrow> bool" where
  "field_spec_ok f \<longleftrightarrow> ie_id f < 0x8000 \<and> ie_length f < 65536 \<and>
     (case enterprise_number f of None \<Rightarrow> True | Some e \<Rightarrow> e < 2 ^ 32)"

definition ipfix_template_bytes :: "nat \<Rightarrow> ipfix_field_spec list \<Rightarrow> byte list" where
  "ipfix_template_bytes tid fs = pack [H, H] [tid, length fs] @ concat (map field_spec_bytes fs)"

lemma mask_7FFF: "n AND 0x7FFF = n mod 32768" for n :: nat
proof -
  have "n AND mask 15 = n mod 2 ^ 15" by (simp only: take_bit_eq_mask[symmetric] take_bit_eq_mod)
  then show ?thesis by (simp add: mask_eq_exp_minus_1)
qed

lemma mask_8000: "n AND 0x8000 = 0 \<longleftrightarrow> even (n div 32768)" for n :: nat
proof -
  have "n AND 2 ^ 15 = 0 \<longleftrightarrow> \<not> bit n 15" by (rule and_exp_eq_0_iff_not_bit)
  then show ?thesis by (simp add: bit_iff_odd)
qed

lemma enterprise_bits:
  fixes ie :: nat
  assumes "ie < 0x8000"
  shows "ie AND 0x8000 = 0" "ie AND 0x7FFF = ie"
    "(ie + 0x8000) AND 0x8000 \<noteq> 0" "(ie + 0x8000) AND 0x7FFF = ie"
  using assms by (simp_all add: mask_8000 mask_7FFF)

lemma ipfix_template_fields_bytes:
  assumes "\<forall>f \<in> set fs. field_spec_ok f"
  shows "ipfix_template_fields (pre @ concat (map field_spec_bytes fs) @ rest) (length pre) (length fs)
       = Inr (fs, length pre + length (concat (map field_spec_bytes fs)))"
  using assms
proof (induction fs arbitrary: pre)
  case (Cons f fs)
  let ?rest = "concat (map field_spec_bytes fs) @ rest"
  have ok: "ie_id f < 0x8000" "ie_length f < 65536" using Cons.prems by (simp_all add: field_spec_ok_def)
  note IH = Cons.IH[of "pre @ field_spec_bytes f"]
  show ?case
  proof (cases "enterprise_number f")
    case None
    have b: "field_spec_bytes f = pack [H, H] [ie_id f, ie_length f]"
      by (simp add: field_spec_bytes_def None)
    have "unpack_from [H, H] (pre @ pack [H, H] [ie_id f, ie_length f] @ ?rest) (length pre)
        = Inr [ie_id f, ie_length f]"
      using ok by (intro unpack_from_pack) simp
    moreover have "f = \<lparr>ie_id = ie_id f, ie_length = ie_length f, enterprise_number = None\<rparr>"
      using None by simp
    ultimately show ?thesis
      using IH Cons.prems ok
      by (simp add: b enterprise_bits Let_def add.assoc length_pack del: pack.simps)
  next
    case (Some e)
    let ?b = "pack [H, H] [ie_id f + 0x8000, ie_length f]"
    have e: "e < 2 ^ 32" using Cons.prems Some by (simp add: field_spec_ok_def)
    have b: "field_spec_bytes f = ?b @ pack [I] [e]" by (simp add: field_spec_bytes_def Some)
    have len: "length (pack [I] [e]) = 4" and f: "f = \<lparr>ie_id = ie_id f, ie_length = ie_length f, enterprise_number = Some e\<rparr>"
      using e Some by simp_all
    have "unpack_from [H, H] (pre @ ?b @ pack [I] [e] @ ?rest) (length pre)
        = Inr [ie_id f + 0x8000, ie_length f]"
      using ok by (intro unpack_from_pack) simp
    moreover have "unpack_from [I] ((pre @ ?b) @ pack [I] [e] @ ?rest) (length (pre @ ?b)) = Inr [e]"
      using e by (intro unpack_from_pack) simp
    ultimately show ?thesis
      using Some IH Cons.prems ok f
      by (simp add: b enterprise_bits[OF ok(1), simplified] Let_def add.assoc len length_pack del: pack.simps)
  qed
qed simp

lemma ipfix_template_loop_bytes:
  assumes "\<forall>(tid, fs) \<in> set ts. 256 \<le> tid \<and> tid < 65536 \<and> length fs < 65536 \<and> (\<forall>f \<in> set fs. field_spec_ok f)"
  shows "ipfix_template_loop clk (pre @ concat (map (\<lambda>(tid, fs). ipfix_template_bytes tid fs) ts)) ip src
           (length pre) st
       = fold_result (\<lambda>(tid, fs). ipfix_learn_template clk ip src tid fs) ts st"
  using assms
proof (induction ts arbitrary: pre st)
  case Nil
  then show ?case by (subst ipfix_template_loop.simps) simp
next
  case (Cons t ts)
  obtain tid fs where t: "t = (tid, fs)" by (cases t)
  let ?h = "pack [H, H] [tid, length fs]" and ?f = "concat (map field_spec_bytes fs)"
  let ?rest = "concat (map (\<lambda>(tid, fs). ipfix_template_bytes tid fs) ts)"
  let ?p = "pre @ ipfix_template_bytes tid fs @ ?rest"
  have ok: "256 \<le> tid" "tid < 65536" "length fs < 65536" "\<forall>f \<in> set fs. field_spec_ok f"
    using Cons.prems by (simp_all add: t)
  have len: "length (ipfix_template_bytes tid fs) = 4 + length ?f"
    using ok by (simp add: ipfix_template_bytes_def length_pack)
  have hdr: "unpack_from [H, H] ?p (length pre) = Inr [tid, length fs]"
    unfolding ipfix_template_bytes_def append_assoc using ok by (intro unpack_from_pack) simp
  have flds: "ipfix_template_fields ?p (length pre + 4) (length fs) = Inr (fs, length pre + 4 + length ?f)"
    using ipfix_template_fields_bytes[OF ok(4), of "pre @ ?h" ?rest] ok
    by (simp add: ipfix_template_bytes_def length_pack del: pack.simps)
  have IH: "ipfix_template_loop clk ?p ip src (length pre + 4 + length ?f) st'
      = fold_result (\<lambda>(tid, fs). ipfix_learn_template clk ip src tid fs) ts st'" for st'
    using Cons.IH[of "pre @ ipfix_template_bytes tid fs" st'] Cons.prems len by (simp add: add.assoc)
  have "ipfix_template_loop clk ?p ip src (length pre) st =
      (case ipfix_learn_template clk ip src tid fs st of Inl e \<Rightarrow> Inl e
       | Inr st' \<Rightarrow> ipfix_template_loop clk ?p ip src (length pre + 4 + length ?f) st')"
    using ok(1) by (subst ipfix_template_loop.simps) (simp add: hdr flds len)
  then show ?case unfolding IH by (simp add: t)
qed

lemma ipfix_set_loop_walk:
  assumes "\<forall>x \<in> set ss. set_ok x"
  shows "ipfix_set_loop clk now (pre @ sets_bytes ss) (length pre + length (sets_bytes ss)) ip src u
           (length pre) st
       = fold_result (ipfix_set clk now ip src u) ss st"
  using assms
proof (induction ss arbitrary: pre st)
  case Nil
  then show ?case by (subst ipfix_set_loop.simps) simp
next
  case (Cons x ss)
  let ?data = "pre @ set_bytes x @ sets_bytes ss" and ?n = "length pre + (4 + length (snd x))"
  let ?len = "length pre + (4 + (length (snd x) + length (sets_bytes ss)))"
  have hdr: "unpack_from SET_HEADER_STRUCT ?data (length pre) = Inr [fst x, 4 + length (snd x)]"
    using Cons.prems by (simp add: SET_HEADER_STRUCT_def unpack_set_header)
  have IH: "ipfix_set_loop clk now ?data ?len ip src u ?n st'
      = fold_result (ipfix_set clk now ip src u) ss st'" for st'
    using Cons.IH[of "pre @ set_bytes x" st'] Cons.prems by (simp add: add.assoc)
  have step: "ipfix_set_loop clk now ?data ?len ip src u (length pre) st =
      (case ipfix_set clk now ip src u (fst x, snd x) st of Inl e \<Rightarrow> Inl e
       | Inr st' \<Rightarrow> ipfix_set_loop clk now ?data ?len ip src u ?n st')"
    by (subst ipfix_set_loop.simps) (simp add: hdr set_payload del: add_Suc_right)
  then have "ipfix_set_loop clk now ?data ?len ip src u (length pre) st =
      (case ipfix_set clk now ip src u x st of Inl e \<Rightarrow> Inl e
       | Inr st' \<Rightarrow> fold_result (ipfix_set clk now ip src u) ss st')" unfolding IH by simp
  then show ?case by (simp add: add.assoc)
qed

lemma ipfix_parse_packet_encode:
  assumes "fits IPFIX_HEADER_STRUCT h" "h ! 0 = 10" "h ! 1 = 16 + length (sets_bytes ss)"
    and "\<forall>x \<in> set ss. set_ok x"
  shows "ipfix_parse_packet clk p (ipfix_packet h ss) ip =
    fold_result (ipfix_set clk (clk (x_ticks p)) ip (h ! 4) (h ! 2)) ss
      ([], ipfix_cleanup_expired (clk (x_ticks p)) (p\<lparr>x_ticks := Suc (x_ticks p)\<rparr>))"
proof -
  have len: "length (pack IPFIX_HEADER_STRUCT h) = 16" using assms(1) by (simp add: length_pack)
  moreover have "unpack_from IPFIX_HEADER_STRUCT (ipfix_packet h ss) 0 = Inr h"
    using unpack_from_pack[OF assms(1), of "[]"] by (simp add: ipfix_packet_def)
  ultimately show ?thesis
    using assms(2,3) ipfix_set_loop_walk[OF assms(4), where pre = "pack IPFIX_HEADER_STRUCT h"]
    by (simp add: ipfix_parse_packet_def ipfix_now_def ipfix_packet_def Let_def)
qed

lemma ipfix_drain_templates:
  "ipfix_drain_orphans clk ip src tid (out, p) = Inr (out', p') \<Longrightarrow> x_templates p' = x_templates p"
  by (auto simp: ipfix_drain_orphans_def ipfix_now_def split: option.splits list.splits sum.splits)

lemma ipfix_learn_templates:
  assumes "ipfix_learn_template clk ip src tid fs (out, p) = Inr (out', p')"
  shows "x_templates p' = (x_templates p)((ip, src, tid) \<mapsto> IPFIXTemplate tid fs (clk (x_ticks p)))"
  using assms by (auto simp: ipfix_learn_template_def ipfix_now_def dest!: ipfix_drain_templates)

lemma ipfix_learn_all:
  assumes "ipfix_good ip st" "\<forall>(tid, fs) \<in> set ts. 256 \<le> tid" "distinct (map fst ts)"
  shows "\<exists>st'. fold_result (\<lambda>(tid, fs). ipfix_learn_template clk ip src tid fs) ts st = Inr st'
    \<and> (\<forall>k. k \<notin> (\<lambda>(tid, fs). (ip, src, tid)) ` set ts \<longrightarrow> x_templates (snd st') k = x_templates (snd st) k)
    \<and> (\<forall>(tid, fs) \<in> set ts. \<exists>t. x_templates (snd st') (ip, src, tid) = Some (IPFIXTemplate tid fs t))"
  using assms
proof (induction ts arbitrary: st)
  case (Cons t ts)
  obtain tid fs where t: "t = (tid, fs)" by (cases t)
  obtain st1 where st1: "ipfix_learn_template clk ip src tid fs st = Inr st1" "ipfix_good ip st1"
    using Cons.prems t by (auto elim!: returnsE[OF ipfix_learn_returns[of ip st tid clk src fs]])
  then have tm: "x_templates (snd st1) = (x_templates (snd st))
      ((ip, src, tid) \<mapsto> IPFIXTemplate tid fs (clk (x_ticks (snd st))))"
    by (cases st, cases st1) (auto dest: ipfix_learn_templates)
  obtain st2 where st2: "fold_result (\<lambda>(tid, fs). ipfix_learn_template clk ip src tid fs) ts st1 = Inr st2"
    and other: "\<forall>k. k \<notin> (\<lambda>(tid, fs). (ip, src, tid)) ` set ts \<longrightarrow>
        x_templates (snd st2) k = x_templates (snd st1) k"
    and these: "\<forall>(tid, fs) \<in> set ts. \<exists>t. x_templates (snd st2) (ip, src, tid) = Some (IPFIXTemplate tid fs t)"
    using Cons.IH[OF st1(2)] Cons.prems by auto
  have "(ip, src, tid) \<notin> (\<lambda>(tid, fs). (ip, src, tid)) ` set ts"
    using Cons.prems(3) t by force
  with other tm have "x_templates (snd st2) (ip, src, tid)
      = Some (IPFIXTemplate tid fs (clk (x_ticks (snd st))))" by simp
  with st1 st2 other these tm show ?case by (intro exI[of _ st2]) (auto simp: t)
qed simp



end
