(* ===== verification/Py_Dict.thy ===== *)
theory Py_Dict
  imports Lnmp_Prelude
begin

text \<open>
  Insertion-ordered dictionaries. A Python \<open>dict\<close> is an association list whose keys are
  distinct: assignment replaces the value in place or appends, \<open>del\<close> removes the entry, and
  iteration follows the list. The order is part of the model because the code iterates over
  its dictionaries to build batches and lets the first entry of a group win. The lemmas are
  about sums over a dictionary, which the accumulators of the flow pipeline are made of.
\<close>

type_synonym ('k, 'v) dict = "('k \<times> 'v) list"

abbreviation get :: "('k, 'v) dict \<Rightarrow> 'k \<Rightarrow> 'v option" where "get d k \<equiv> map_of d k"
abbreviation put :: "'k \<Rightarrow> 'v \<Rightarrow> ('k, 'v) dict \<Rightarrow> ('k, 'v) dict" where "put \<equiv> AList.update"
abbreviation del :: "'k \<Rightarrow> ('k, 'v) dict \<Rightarrow> ('k, 'v) dict" where "del \<equiv> AList.delete"
abbreviation keys :: "('k, 'v) dict \<Rightarrow> 'k list" where "keys d \<equiv> map fst d"

definition dict_ok :: "('k, 'v) dict \<Rightarrow> bool" where "dict_ok d \<longleftrightarrow> distinct (keys d)"

lemma dict_ok_Nil [simp]: "dict_ok []" by (simp add: dict_ok_def)

lemma dict_ok_put [wf_intros, simp]: "dict_ok d \<Longrightarrow> dict_ok (put k v d)"
  unfolding dict_ok_def by (rule distinct_update)

lemma dict_ok_del [wf_intros, simp]: "dict_ok d \<Longrightarrow> dict_ok (del k d)"
  unfolding dict_ok_def by (rule distinct_delete)

lemma get_put [simp]: "get (put k v d) k' = (if k' = k then Some v else get d k')"
  by (simp add: update_conv')

lemma get_del [simp]: "get (del k d) k' = (if k' = k then None else get d k')"
  by (simp add: delete_conv')

lemma dict_ok_Cons: "dict_ok (e # d) \<longleftrightarrow> get d (fst e) = None \<and> dict_ok d"
  by (auto simp: dict_ok_def map_of_eq_None_iff)

lemma dict_ok_map: "dict_ok (map (\<lambda>(k, v). (k, f k v)) d) \<longleftrightarrow> dict_ok d"
  by (simp add: dict_ok_def comp_def case_prod_unfold)

lemma get_in_set: "get d k = Some v \<Longrightarrow> (k, v) \<in> set d"
  by (rule map_of_SomeD)

lemma dict_ok_get: "dict_ok d \<Longrightarrow> (k, v) \<in> set d \<longleftrightarrow> get d k = Some v"
  by (simp add: dict_ok_def)

text \<open>The sum of an integer measure over the entries of a dictionary.\<close>

definition dict_sum :: "('k \<Rightarrow> 'v \<Rightarrow> int) \<Rightarrow> ('k, 'v) dict \<Rightarrow> int" where
  "dict_sum f d = sum_list (map (\<lambda>(k, v). f k v) d)"

lemma dict_sum_simps [simp]:
  "dict_sum f [] = 0" "dict_sum f ((k, v) # d) = f k v + dict_sum f d" "dict_sum f (d @ d') = dict_sum f d + dict_sum f d'"
  by (simp_all add: dict_sum_def)

lemma dict_sum_put:
  "dict_ok d \<Longrightarrow>
   dict_sum f (put k v d) = dict_sum f d + f k v - (case get d k of None \<Rightarrow> 0 | Some w \<Rightarrow> f k w)"
  by (induction d) (auto simp: dict_ok_Cons split: option.splits)

lemma dict_sum_del:
  "dict_ok d \<Longrightarrow> dict_sum f (del k d) = dict_sum f d - (case get d k of None \<Rightarrow> 0 | Some w \<Rightarrow> f k w)"
proof (induction d)
  case (Cons e d)
  have "get d k = None \<Longrightarrow> del k d = d" by (simp add: delete_id map_of_eq_None_iff)
  with Cons show ?case by (cases e) (auto simp: dict_ok_Cons split: option.splits)
qed simp

lemma dict_sum_add: "dict_sum (\<lambda>k v. f k v + g k v) d = dict_sum f d + dict_sum g d"
  by (induction d) auto

lemma dict_sum_0 [simp]: "dict_sum (\<lambda>k v. 0) d = 0"
  by (induction d) auto

lemma dict_sum_nonneg: "\<forall>(k, v) \<in> set d. 0 \<le> f k v \<Longrightarrow> 0 \<le> dict_sum f d"
  by (induction d) auto

lemma dict_sum_cong: "(\<And>k v. (k, v) \<in> set d \<Longrightarrow> f k v = g k v) \<Longrightarrow> dict_sum f d = dict_sum g d"
  unfolding dict_sum_def by (rule arg_cong[where f = sum_list]) auto

end
