(* ===== verification/Correlator.thy ===== *)
theory Correlator
  imports Py_Dict "HOL-Library.Product_Lexorder" "HOL-Library.List_Lexorder" "HOL-Library.Char_ord"
begin

text \<open>
  \<open>FlowCorrelator\<close> (\<open>monitoring/flow/correlator.py\<close>): the two in-memory routing tables from
  addresses to endpoints, their rebuild from the endpoint table, and the record of exporters
  that match no endpoint, locally (rate limited) and in Redis (a pruned, bounded sorted set).
  A Redis sorted set is the list of its \<open>(score, member)\<close> pairs in Redis' order: by score,
  then by member.
\<close>

record correlator =
  c_redis :: bool
  c_exporter_map :: "string \<rightharpoonup> uuid"
  c_participant_map :: "string \<rightharpoonup> uuid"
  c_unmatched_local :: "string \<rightharpoonup> real"

definition FlowCorrelator :: "bool \<Rightarrow> correlator" where
  "FlowCorrelator redis_client = \<lparr> c_redis = redis_client, c_exporter_map = Map.empty,
     c_participant_map = Map.empty, c_unmatched_local = Map.empty \<rparr>"

subsection \<open>Lookups\<close>

text \<open>A task \<open>(ip, now)\<close> stands for the call of \<open>_async_record_redis_unmatched\<close> it schedules.\<close>

definition record_unmatched_exporter ::
  "real \<Rightarrow> string \<Rightarrow> correlator \<Rightarrow> correlator \<times> (string \<times> real) list" where
  "record_unmatched_exporter now ip c =
     (let last_recorded = (case c_unmatched_local c ip of None \<Rightarrow> 0 | Some t \<Rightarrow> t)
      in if 10 < now - last_recorded then
           (c\<lparr>c_unmatched_local := (c_unmatched_local c)(ip \<mapsto> now)\<rparr>,
            if c_redis c then [(ip, now)] else [])
         else (c, []))"

type_synonym correlation = "uuid option \<times> uuid option \<times> uuid option"

definition correlate ::
  "real \<Rightarrow> correlator \<Rightarrow> string \<Rightarrow> string \<Rightarrow> string \<Rightarrow> correlation \<times> correlator \<times> (string \<times> real) list" where
  "correlate now c exporter_ip src_ip dst_ip =
     (let exp_clean = clean_ip exporter_ip; src_clean = clean_ip src_ip; dst_clean = clean_ip dst_ip;
          exporter_id = c_exporter_map c exp_clean;
          src_endpoint_id = c_participant_map c src_clean;
          dst_endpoint_id = c_participant_map c dst_clean;
          (c', tasks) = (if exporter_id = None then record_unmatched_exporter now exp_clean c else (c, []))
      in ((exporter_id, src_endpoint_id, dst_endpoint_id), c', tasks))"

subsection \<open>The routing tables\<close>

record endpoint_row =
  er_id :: uuid
  er_ip_address :: string
  er_flow_exporter_ips :: "string list option"
  er_deleted_at :: "instant option"
  er_endpoint_status :: string

definition clean_aliases :: "endpoint_row \<Rightarrow> string list" where
  \<comment> \<open>the aliases that \<open>if clean_alias\<close> lets through\<close>
  "clean_aliases ep =
     filter (\<lambda>a. a \<noteq> []) (map clean_ip (case er_flow_exporter_ips ep of None \<Rightarrow> [] | Some xs \<Rightarrow> xs))"

definition map_endpoint ::
  "endpoint_row \<Rightarrow> (string \<rightharpoonup> uuid) \<times> (string \<rightharpoonup> uuid) \<Rightarrow> (string \<rightharpoonup> uuid) \<times> (string \<rightharpoonup> uuid)" where
  "map_endpoint ep maps =
     (let (exporter_map, participant_map) = maps;
          primary_ip = clean_ip (er_ip_address ep);
          participant_map = participant_map(primary_ip \<mapsto> er_id ep);
          exporter_map = exporter_map(primary_ip \<mapsto> er_id ep)
      in (fold (\<lambda>a m. m(a \<mapsto> er_id ep)) (clean_aliases ep) exporter_map, participant_map))"

definition active_endpoints :: "endpoint_row list \<Rightarrow> endpoint_row list" where
  "active_endpoints table =
     filter (\<lambda>ep. er_deleted_at ep = None \<and> er_endpoint_status ep \<noteq> ''DELETED'') table"

definition refresh_from_db :: "endpoint_row list \<Rightarrow> correlator \<Rightarrow> correlator" where
  "refresh_from_db table c =
     (let (em, pm) = fold map_endpoint (active_endpoints table) (Map.empty, Map.empty)
      in c\<lparr>c_exporter_map := em, c_participant_map := pm\<rparr>)"

subsection \<open>Unmatched exporters in Redis\<close>

record unmatched_store =
  us_keys :: "string \<rightharpoonup> real \<times> nat" \<comment> \<open>\<open>flow:unmatched:<ip>\<close>: value and TTL in seconds\<close>
  us_set :: "string set"
  us_zset :: "(real \<times> string) list"

definition zadd :: "real \<Rightarrow> string \<Rightarrow> (real \<times> string) list \<Rightarrow> (real \<times> string) list" where
  "zadd score m z = insort (score, m) (filter (\<lambda>(_, x). x \<noteq> m) z)"

definition zremrangebyscore_upto :: "real \<Rightarrow> (real \<times> string) list \<Rightarrow> (real \<times> string) list" where
  "zremrangebyscore_upto cutoff z = filter (\<lambda>(s, _). \<not> s \<le> cutoff) z"

definition zremrangebyrank_upto :: "nat \<Rightarrow> (real \<times> string) list \<Rightarrow> (real \<times> string) list" where
  \<comment> \<open>\<open>zremrangebyrank(key, 0, k)\<close>\<close>
  "zremrangebyrank_upto k z = drop (Suc k) z"

definition unmatched_commands :: "string \<Rightarrow> real \<Rightarrow> (unmatched_store \<Rightarrow> unmatched_store) list" where
  "unmatched_commands ip timestamp =
     [\<lambda>r. r\<lparr>us_keys := (us_keys r)(ip \<mapsto> (timestamp, 900))\<rparr>,
      \<lambda>r. r\<lparr>us_set := insert ip (us_set r)\<rparr>,
      \<lambda>r. r\<lparr>us_zset := zadd timestamp ip (us_zset r)\<rparr>,
      \<lambda>r. r\<lparr>us_zset := zremrangebyscore_upto (timestamp - 86400) (us_zset r)\<rparr>,
      \<lambda>r. (let card = length (us_zset r)
           in if 1000 < card then r\<lparr>us_zset := zremrangebyrank_upto (card - 1001) (us_zset r)\<rparr> else r)]"

definition async_record_redis_unmatched ::
  "nat \<Rightarrow> string \<Rightarrow> real \<Rightarrow> unmatched_store \<Rightarrow> unmatched_store" where
  \<comment> \<open>\<open>done\<close> of the commands succeed; an exception in the next one is logged and ends the task\<close>
  "async_record_redis_unmatched succeeded ip timestamp r =
     fold (\<lambda>f. f) (take succeeded (unmatched_commands ip timestamp)) r"

subsection \<open>Rate limit\<close>

definition lookups :: "(real \<times> string \<times> string \<times> string) list \<Rightarrow> correlator \<Rightarrow>
    correlator \<times> (string \<times> real) list" where
  \<comment> \<open>a run of lookups, with the recording tasks they schedule\<close>
  "lookups qs c = fold (\<lambda>(now, e, s, d) (c, ts). let (_, c', ts') = correlate now c e s d in (c', ts @ ts'))
     qs (c, [])"

lemma record_unmatched_frame:
  "record_unmatched_exporter now ip c = (c', ts) \<Longrightarrow>
   c_exporter_map c' = c_exporter_map c \<and> c_participant_map c' = c_participant_map c \<and> c_redis c' = c_redis c"
  by (auto simp: record_unmatched_exporter_def Let_def split: if_splits)

lemma correlate_result:
  "fst (correlate now c e s d)
   = (c_exporter_map c (clean_ip e), c_participant_map c (clean_ip s), c_participant_map c (clean_ip d))"
  by (simp add: correlate_def Let_def split: prod.splits)

lemma correlate_frame:
  "correlate now c e s d = (r, c', ts) \<Longrightarrow>
   c_exporter_map c' = c_exporter_map c \<and> c_participant_map c' = c_participant_map c \<and> c_redis c' = c_redis c"
  by (auto simp: correlate_def Let_def split: if_splits prod.splits dest: record_unmatched_frame)

definition spaced :: "(string \<times> real) list \<Rightarrow> bool" where
  "spaced ts \<longleftrightarrow> sorted_wrt (\<lambda>(ip, t) (ip', t'). ip = ip' \<longrightarrow> t + 10 < t') ts"

definition tasks_ok :: "correlator \<times> (string \<times> real) list \<Rightarrow> bool" where
  "tasks_ok s \<longleftrightarrow> spaced (snd s) \<and>
     (\<forall>(ip, t) \<in> set (snd s). \<exists>u. c_unmatched_local (fst s) ip = Some u \<and> t \<le> u)"

lemma tasks_ok_correlate:
  assumes "tasks_ok (c, ts)" "correlate now c e s d = (r, c', ts')"
  shows "tasks_ok (c', ts @ ts')"
proof (cases "c_exporter_map c (clean_ip e) = None \<and>
    10 < now - (case c_unmatched_local c (clean_ip e) of None \<Rightarrow> 0 | Some t \<Rightarrow> t)")
  case True
  let ?ip = "clean_ip e"
  have c': "c' = c\<lparr>c_unmatched_local := (c_unmatched_local c)(?ip \<mapsto> now)\<rparr>"
    and ts': "ts' = [(?ip, now)] \<or> ts' = []"
    using assms(2) True by (auto simp: correlate_def record_unmatched_exporter_def Let_def split: if_splits)
  have "t + 10 < now" if "(?ip, t) \<in> set ts" for t
    using assms(1) that True by (force simp: tasks_ok_def)
  then show ?thesis
    using assms(1) ts' unfolding c' tasks_ok_def spaced_def by (fastforce simp: sorted_wrt_append)
next
  case False
  then have "c' = c" "ts' = []"
    using assms(2) by (auto simp: correlate_def record_unmatched_exporter_def Let_def split: if_splits)
  with assms(1) show ?thesis by simp
qed

lemma tasks_ok_lookups: "tasks_ok s \<Longrightarrow> tasks_ok
    (fold (\<lambda>(now, e, s, d) (c, ts). let (_, c', ts') = correlate now c e s d in (c', ts @ ts')) qs s)"
proof (induction qs arbitrary: s)
  case (Cons q qs)
  obtain now e a d where q: "q = (now, e, a, d)" by (cases q)
  obtain c ts where s: "s = (c, ts)" by (cases s)
  obtain r c' ts' where co: "correlate now c e a d = (r, c', ts')" by (cases "correlate now c e a d")
  have "tasks_ok (c', ts @ ts')" using tasks_ok_correlate[OF _ co] Cons.prems s by simp
  with Cons.IH show ?case by (simp add: q s co)
qed simp

lemma sorted_wrt_of_key:
  "sorted_wrt (\<lambda>(k, x) (k', y). k = k' \<longrightarrow> R x y) es \<Longrightarrow> sorted_wrt R (map snd (filter (\<lambda>(k, x). k = a) es))"
  by (induction es) auto

text \<open>
  However many flows come from exporters that no endpoint claims, each such exporter is
  recorded in Redis at most once every ten seconds: two recordings of one address are more
  than ten seconds apart, whatever the clock readings of the lookups.
\<close>

lemma unmatched_rate_limit:
  "sorted_wrt (\<lambda>t t'. t + 10 < t')
     (map snd (filter (\<lambda>(exporter, t). exporter = ip) (snd (lookups qs (FlowCorrelator redis_client)))))"
  using tasks_ok_lookups[of "(FlowCorrelator redis_client, [])" qs]
  by (intro sorted_wrt_of_key) (simp add: lookups_def tasks_ok_def spaced_def)

subsection \<open>Routing\<close>

lemma fold_upd_same: "fold (\<lambda>a m. m(a \<mapsto> v)) as m k = (if k \<in> set as then Some v else m k)"
  by (induction as arbitrary: m) auto

lemma map_endpoint_maps:
  "fst (map_endpoint ep (em, pm)) k
     = (if k = clean_ip (er_ip_address ep) \<or> k \<in> set (clean_aliases ep) then Some (er_id ep) else em k)"
  "snd (map_endpoint ep (em, pm)) k = (if k = clean_ip (er_ip_address ep) then Some (er_id ep) else pm k)"
  by (simp_all add: map_endpoint_def Let_def fold_upd_same)

definition exporter_names :: "endpoint_row \<Rightarrow> string set" where
  "exporter_names ep = insert (clean_ip (er_ip_address ep)) (set (clean_aliases ep))"

definition last_claim :: "(endpoint_row \<Rightarrow> bool) \<Rightarrow> endpoint_row list \<Rightarrow> uuid option" where
  \<comment> \<open>the id of the last endpoint that satisfies the predicate\<close>
  "last_claim P eps = (let es = filter P eps in if es = [] then None else Some (er_id (last es)))"

lemma last_claim_Nil [simp]: "last_claim P [] = None"
  by (simp add: last_claim_def)

lemma last_claim_snoc [simp]:
  "last_claim P (eps @ [ep]) = (if P ep then Some (er_id ep) else last_claim P eps)"
  by (simp add: last_claim_def Let_def)

lemma fold_map_endpoint:
  "fst (fold map_endpoint eps (Map.empty, Map.empty)) k = last_claim (\<lambda>ep. k \<in> exporter_names ep) eps
   \<and> snd (fold map_endpoint eps (Map.empty, Map.empty)) k
     = last_claim (\<lambda>ep. k = clean_ip (er_ip_address ep)) eps"
proof (induction eps rule: rev_induct)
  case (snoc ep eps)
  then show ?case
    by (cases "fold map_endpoint eps (Map.empty, Map.empty)")
      (simp add: map_endpoint_maps exporter_names_def)
qed simp

lemma refresh_maps:
  "c_exporter_map (refresh_from_db table c) k
     = last_claim (\<lambda>ep. k \<in> exporter_names ep) (active_endpoints table)"
  "c_participant_map (refresh_from_db table c) k
     = last_claim (\<lambda>ep. k = clean_ip (er_ip_address ep)) (active_endpoints table)"
  using fold_map_endpoint[of "active_endpoints table" k]
  by (cases "fold map_endpoint (active_endpoints table) (Map.empty, Map.empty)",
      simp add: refresh_from_db_def)+

text \<open>
  After a refresh, an exporter address resolves to the last active endpoint that carries
  it as primary address or alias, and a participant address only to the last active endpoint
  whose primary address it is: aliases never make an endpoint a traffic participant, deleted
  endpoints resolve to nothing, and a prefix length or blanks in the query do not matter.
\<close>

lemma correlate_after_refresh:
  "fst (correlate now (refresh_from_db table c) exporter_ip src_ip dst_ip) =
     (last_claim (\<lambda>ep. clean_ip exporter_ip \<in> insert (clean_ip (er_ip_address ep)) (set (clean_aliases ep)))
        (filter (\<lambda>ep. er_deleted_at ep = None \<and> er_endpoint_status ep \<noteq> ''DELETED'') table),
      last_claim (\<lambda>ep. clean_ip src_ip = clean_ip (er_ip_address ep))
        (filter (\<lambda>ep. er_deleted_at ep = None \<and> er_endpoint_status ep \<noteq> ''DELETED'') table),
      last_claim (\<lambda>ep. clean_ip dst_ip = clean_ip (er_ip_address ep))
        (filter (\<lambda>ep. er_deleted_at ep = None \<and> er_endpoint_status ep \<noteq> ''DELETED'') table))"
  by (simp add: correlate_result refresh_maps exporter_names_def active_endpoints_def)

subsection \<open>The bounded set\<close>

definition zset_ok :: "(real \<times> string) list \<Rightarrow> bool" where
  "zset_ok z \<longleftrightarrow> sorted z \<and> distinct (map snd z)"

lemma zadd_ok: "zset_ok z \<Longrightarrow> zset_ok (zadd s m z)"
proof -
  assume "zset_ok z"
  then have "sorted (filter (\<lambda>(_, x). x \<noteq> m) z)" "distinct (map snd (filter (\<lambda>(_, x). x \<noteq> m) z))"
    by (auto simp: zset_ok_def sorted_wrt_filter distinct_map_filter)
  moreover have "set (map snd (insort (s, m) (filter (\<lambda>(_, x). x \<noteq> m) z)))
      = insert m (set (map snd (filter (\<lambda>(_, x). x \<noteq> m) z)))" by (auto simp: set_insort_key)
  ultimately show ?thesis
    by (auto simp: zset_ok_def zadd_def sorted_insort distinct_map distinct_insort inj_on_def set_insort_key)
qed

lemma zset_ok_filter: "zset_ok z \<Longrightarrow> zset_ok (filter P z)"
  by (auto simp: zset_ok_def sorted_wrt_filter distinct_map_filter)

lemma zset_ok_drop: "zset_ok z \<Longrightarrow> zset_ok (drop n z)"
  by (simp add: zset_ok_def sorted_wrt_drop drop_map[symmetric] distinct_drop)

lemma record_all:
  "us_zset (async_record_redis_unmatched 5 ip ts r) =
     (let z = zremrangebyscore_upto (ts - 86400) (zadd ts ip (us_zset r)) in drop (length z - 1000) z)"
proof -
  have "1000 < n \<Longrightarrow> Suc (n - 1001) = n - 1000" for n :: nat by simp
  then show ?thesis
    by (simp add: async_record_redis_unmatched_def unmatched_commands_def Let_def zremrangebyrank_upto_def)
qed

lemma insort_last: "\<forall>y \<in> set xs. y < x \<Longrightarrow> insort x xs = xs @ [x]"
  by (induction xs) auto

text \<open>
  Once its commands have run, the set of unmatched exporters holds at most a thousand
  addresses, each once, all recorded within the last 24 hours; and the address just recorded
  is among them when the earlier recordings carry earlier times.
\<close>

lemma unmatched_set_bounded:
  assumes "zset_ok (us_zset r)" and "\<forall>(t, m) \<in> set (us_zset r). t < ts"
    and "z = us_zset (async_record_redis_unmatched 5 ip ts r)"
  shows "zset_ok z \<and> length z \<le> 1000 \<and> (\<forall>(t, m) \<in> set z. ts - 86400 < t \<and> t \<le> ts) \<and> (ts, ip) \<in> set z"
proof -
  let ?a = "zadd ts ip (us_zset r)"
  let ?z = "zremrangebyscore_upto (ts - 86400) ?a"
  have z: "z = drop (length ?z - 1000) ?z" unfolding assms(3) record_all by (simp add: Let_def)
  have ok: "zset_ok ?z" unfolding zremrangebyscore_upto_def using assms(1) by (intro zset_ok_filter zadd_ok)
  have set: "\<forall>(t, m) \<in> set ?z. ts - 86400 < t \<and> t \<le> ts"
    using assms(2) by (auto simp: zremrangebyscore_upto_def zadd_def set_insort_key)
  have "?a = filter (\<lambda>(_, x). x \<noteq> ip) (us_zset r) @ [(ts, ip)]"
    unfolding zadd_def using assms(2) by (intro insort_last) auto
  then have "last ?z = (ts, ip)" "?z \<noteq> []" by (simp_all add: zremrangebyscore_upto_def)
  moreover from this(2) have "length ?z - 1000 < length ?z" by (cases ?z) auto
  ultimately have "last z = (ts, ip)" "z \<noteq> []"
    unfolding z by (simp_all only: last_drop drop_eq_Nil not_le simp_thms)
  then have "(ts, ip) \<in> set z" using last_in_set[of z] by simp
  with ok set show ?thesis unfolding z by (auto simp: zset_ok_drop dest: in_set_dropD)
qed

lemma unmatched_set_bounded_witness:
  "zset_ok (us_zset (async_record_redis_unmatched 5 ''192.0.2.9'' 100000
      \<lparr>us_keys = Map.empty, us_set = {''10.0.0.1''}, us_zset = [(10, ''10.0.0.1''), (50000, ''10.0.0.2'')]\<rparr>))
   \<and> (100000, ''192.0.2.9'') \<in> set (us_zset (async_record_redis_unmatched 5 ''192.0.2.9'' 100000
      \<lparr>us_keys = Map.empty, us_set = {''10.0.0.1''}, us_zset = [(10, ''10.0.0.1''), (50000, ''10.0.0.2'')]\<rparr>))"
  using unmatched_set_bounded[of "\<lparr>us_keys = Map.empty, us_set = {''10.0.0.1''},
      us_zset = [(10, ''10.0.0.1''), (50000, ''10.0.0.2'')]\<rparr>" 100000, OF _ _ refl, of "''192.0.2.9''"]
  by (simp add: zset_ok_def)

end
