(* ===== verification/Py_Address.thy ===== *)
theory Py_Address
  imports Py_Bytes
begin

text \<open>
  Textual IP addresses, as the standard module \<open>ipaddress\<close> (Python 3.11) reads them:
  \<open>ip_address(s)\<close> tries the four decimal octets of IPv4 and then the hextets of IPv6, with
  one \<open>::\<close>, an embedded IPv4 tail and a scope id. The classification predicates are those
  the collector, the rate limiter and the diagnostics ask for. The round-trip lemma ties the
  parser to the dotted form that the flow decoders print.
\<close>

datatype ip_addr = V4 nat | V6 nat "string option"

subsection \<open>IPv4\<close>

definition all_digits :: "string \<Rightarrow> bool" where
  "all_digits s \<longleftrightarrow> s \<noteq> [] \<and> (\<forall>c \<in> set s. digit_val c \<noteq> None)"

definition parse_octet :: "string \<Rightarrow> nat result" where
  "parse_octet s =
     (if \<not> all_digits s \<or> 3 < length s then Inl ValueError
      else if s \<noteq> ''0'' \<and> hd s = CHR ''0'' then Inl ValueError
      else (case digits_val 0 s of
              None \<Rightarrow> Inl ValueError
            | Some n \<Rightarrow> if 255 < n then Inl ValueError else Inr n))"

fun parse_octets :: "string list \<Rightarrow> nat \<Rightarrow> nat result" where
  "parse_octets [] a = Inr a"
| "parse_octets (s # ss) a =
     (case parse_octet s of Inl e \<Rightarrow> Inl e | Inr n \<Rightarrow> parse_octets ss (a * 256 + n))"

definition parse_ipv4 :: "string \<Rightarrow> nat result" where
  "parse_ipv4 s =
     (if CHR ''/'' \<in> set s then Inl ValueError
      else (let octets = split_on CHR ''.'' s
            in if length octets \<noteq> 4 then Inl ValueError else parse_octets octets 0))"

subsection \<open>IPv6\<close>

definition hex_val :: "char \<Rightarrow> nat option" where
  "hex_val c =
     (let k = of_char c :: nat
      in if 48 \<le> k \<and> k \<le> 57 then Some (k - 48)
         else if 97 \<le> k \<and> k \<le> 102 then Some (k - 87)
         else if 65 \<le> k \<and> k \<le> 70 then Some (k - 55) else None)"

definition parse_hextet :: "string \<Rightarrow> nat result" where
  "parse_hextet s =
     (if s = [] \<or> 4 < length s \<or> (\<exists>c \<in> set s. hex_val c = None) then Inl ValueError
      else Inr (foldl (\<lambda>a c. a * 16 + the (hex_val c)) 0 s))"

fun parse_hextets :: "string list \<Rightarrow> nat \<Rightarrow> nat result" where
  "parse_hextets [] a = Inr a"
| "parse_hextets (s # ss) a =
     (case parse_hextet s of Inl e \<Rightarrow> Inl e | Inr n \<Rightarrow> parse_hextets ss (a * 65536 + n))"

definition embed_ipv4 :: "string list \<Rightarrow> string list result" where
  \<comment> \<open>an IPv4 tail is replaced by the two hextets it stands for\<close>
  "embed_ipv4 parts =
     (if CHR ''.'' \<notin> set (last parts) then Inr parts
      else (case parse_ipv4 (last parts) of
              Inl e \<Rightarrow> Inl e
            | Inr n \<Rightarrow> Inr (butlast parts @ [hex (n div 65536 mod 65536), hex (n mod 65536)])))"

definition skip_indices :: "string list \<Rightarrow> nat list" where
  "skip_indices parts = filter (\<lambda>i. parts ! i = []) [1..<length parts - 1]"

definition parse_ipv6_parts :: "string list \<Rightarrow> nat result" where
  "parse_ipv6_parts parts =
     (case skip_indices parts of
        [] \<Rightarrow> if length parts \<noteq> 8 \<or> hd parts = [] \<or> last parts = [] then Inl ValueError
              else parse_hextets parts 0
      | [skip_index] \<Rightarrow>
          (let lead = hd parts = []; trail = last parts = [];
               parts_hi = (if lead then skip_index - 1 else skip_index);
               parts_lo = (if trail then length parts - skip_index - 2 else length parts - skip_index - 1)
           in if (lead \<and> parts_hi \<noteq> 0) \<or> (trail \<and> parts_lo \<noteq> 0) \<or> 8 < parts_hi + parts_lo + 1
              then Inl ValueError
              else (case parse_hextets (take parts_hi parts) 0 of
                      Inl e \<Rightarrow> Inl e
                    | Inr n \<Rightarrow> parse_hextets (drop (length parts - parts_lo) parts)
                                 (n * 65536 ^ (8 - (parts_hi + parts_lo)))))
      | _ \<Rightarrow> Inl ValueError)"

definition parse_ipv6 :: "string \<Rightarrow> (nat \<times> string option) result" where
  "parse_ipv6 s =
     (if CHR ''/'' \<in> set s then Inl ValueError
      else
        (let addr = takeWhile (\<lambda>c. c \<noteq> CHR ''%'') s;
             rest = dropWhile (\<lambda>c. c \<noteq> CHR ''%'') s
         in if rest \<noteq> [] \<and> (tl rest = [] \<or> CHR ''%'' \<in> set (tl rest)) then Inl ValueError
            else if addr = [] then Inl ValueError
            else (let parts = split_on CHR '':'' addr
                  in if length parts < 3 then Inl ValueError
                     else (case embed_ipv4 parts of
                             Inl e \<Rightarrow> Inl e
                           | Inr parts' \<Rightarrow>
                               if 9 < length parts' then Inl ValueError
                               else map_sum id (\<lambda>n. (n, if rest = [] then None else Some (tl rest)))
                                      (parse_ipv6_parts parts')))))"

definition ip_address :: "string \<Rightarrow> ip_addr result" where
  "ip_address s =
     (case parse_ipv4 s of
        Inr n \<Rightarrow> Inr (V4 n)
      | Inl _ \<Rightarrow>
          (case parse_ipv6 s of
             Inr (n, scope) \<Rightarrow> Inr (V6 n scope)
           | Inl _ \<Rightarrow> Inl ValueError))"

subsection \<open>Classification\<close>

definition in_net :: "nat \<Rightarrow> nat \<Rightarrow> nat \<Rightarrow> nat \<Rightarrow> bool" where
  \<comment> \<open>\<open>n\<close> lies in the network of \<open>k\<close> prefix bits of the \<open>w\<close>-bit address \<open>net\<close>\<close>
  "in_net w k net n \<longleftrightarrow> n div 2 ^ (w - k) = net div 2 ^ (w - k)"

fun is_multicast :: "ip_addr \<Rightarrow> bool" where
  "is_multicast (V4 n) = in_net 32 4 0xE0000000 n"
| "is_multicast (V6 n _) = in_net 128 8 (0xFF * 2 ^ 120) n"

fun is_loopback :: "ip_addr \<Rightarrow> bool" where
  "is_loopback (V4 n) = in_net 32 8 0x7F000000 n"
| "is_loopback (V6 n _) = (n = 1)"

fun is_unspecified :: "ip_addr \<Rightarrow> bool" where
  "is_unspecified (V4 n) = (n = 0)"
| "is_unspecified (V6 n _) = (n = 0)"

definition ipv6_reserved_networks :: "(nat \<times> nat) list" where
  \<comment> \<open>prefix length and leading 16 bits of \<open>_IPv6Constants._reserved_networks\<close>\<close>
  "ipv6_reserved_networks =
     [(8, 0x0000), (8, 0x0100), (7, 0x0200), (6, 0x0400), (5, 0x0800), (4, 0x1000), (3, 0x4000),
      (3, 0x6000), (3, 0x8000), (3, 0xA000), (3, 0xC000), (4, 0xE000), (5, 0xF000), (6, 0xF800),
      (9, 0xFE00)]"

fun is_reserved :: "ip_addr \<Rightarrow> bool" where
  "is_reserved (V4 n) = in_net 32 4 0xF0000000 n"
| "is_reserved (V6 n _) = (\<exists>(k, net) \<in> set ipv6_reserved_networks. in_net 128 k (net * 2 ^ 112) n)"

datatype ip_network = Net4 nat nat | Net6 nat nat \<comment> \<open>address and prefix length\<close>

fun ip_in_network :: "ip_addr \<Rightarrow> ip_network \<Rightarrow> bool" where
  "ip_in_network (V4 a) (Net4 n p) = in_net 32 p n a"
| "ip_in_network (V6 a scope) (Net6 n p) = in_net 128 p n a"
| "ip_in_network _ _ = False"

text \<open>The networks that are not globally reachable, and the exceptions within them (prefix length
  and network), as from Python 3.11.10 on.\<close>

definition ipv4_private_networks :: "(nat \<times> nat) list" where
  "ipv4_private_networks =
     [(8, 0), (8, 0x0A000000), (8, 0x7F000000), (16, 0xA9FE0000), (12, 0xAC100000), (24, 0xC0000000),
      (31, 0xC00000AA), (24, 0xC0000200), (16, 0xC0A80000), (15, 0xC6120000), (24, 0xC6336400),
      (24, 0xCB007100), (4, 0xF0000000), (32, 0xFFFFFFFF)]"

definition ipv4_private_exceptions :: "(nat \<times> nat) list" where
  "ipv4_private_exceptions = [(32, 0xC0000009), (32, 0xC000000A)]"

definition ipv6_private_networks :: "(nat \<times> nat) list" where
  "ipv6_private_networks =
     [(128, 1), (128, 0), (96, 0xFFFF * 2 ^ 32), (48, 0x64FF9B0001 * 2 ^ 80), (64, 0x100 * 2 ^ 112),
      (23, 0x2001 * 2 ^ 112), (32, 0x20010DB8 * 2 ^ 96), (16, 0x2002 * 2 ^ 112), (7, 0xFC00 * 2 ^ 112),
      (10, 0xFE80 * 2 ^ 112)]"

definition ipv6_private_exceptions :: "(nat \<times> nat) list" where
  "ipv6_private_exceptions =
     [(128, 0x20010001 * 2 ^ 96 + 1), (128, 0x20010001 * 2 ^ 96 + 2), (32, 0x20010003 * 2 ^ 96),
      (48, 0x200100040112 * 2 ^ 80), (28, 0x20010020 * 2 ^ 96), (28, 0x20010030 * 2 ^ 96)]"

definition in_nets :: "nat \<Rightarrow> (nat \<times> nat) list \<Rightarrow> nat \<Rightarrow> bool" where
  "in_nets w nets n = list_ex (\<lambda>(k, net). in_net w k net n) nets"

fun ipv4_mapped :: "ip_addr \<Rightarrow> nat option" where
  "ipv4_mapped (V4 n) = None"
| "ipv4_mapped (V6 n _) = (if n div 2 ^ 32 = 0xFFFF then Some (n mod 2 ^ 32) else None)"

definition ipv4_private :: "nat \<Rightarrow> bool" where
  "ipv4_private n \<longleftrightarrow> in_nets 32 ipv4_private_networks n \<and> \<not> in_nets 32 ipv4_private_exceptions n"

fun is_private :: "ip_addr \<Rightarrow> bool" where
  "is_private (V4 n) = ipv4_private n"
| "is_private (V6 n s) =
     (case ipv4_mapped (V6 n s) of
        Some m \<Rightarrow> ipv4_private m
      | None \<Rightarrow> in_nets 128 ipv6_private_networks n \<and> \<not> in_nets 128 ipv6_private_exceptions n)"

fun is_global :: "ip_addr \<Rightarrow> bool" where
  \<comment> \<open>the shared address space \<open>100.64.0.0/10\<close> is neither private nor global\<close>
  "is_global (V4 n) = (\<not> in_net 32 10 0x64400000 n \<and> \<not> is_private (V4 n))"
| "is_global (V6 n s) = (\<not> is_private (V6 n s))"

fun is_link_local :: "ip_addr \<Rightarrow> bool" where
  "is_link_local (V4 n) = in_net 32 16 0xA9FE0000 n"
| "is_link_local (V6 n _) = in_net 128 10 (0xFE80 * 2 ^ 112) n"

subsection \<open>Dotted addresses are read back\<close>

lemma split_on_append: "c \<notin> set w \<Longrightarrow> split_on c (w @ c # s) = w # split_on c s"
  by (induction w) auto

lemma split_on_id: "c \<notin> set w \<Longrightarrow> split_on c w = [w]"
  by (induction w) auto

lemma split_on_join: "\<forall>w \<in> set ws. c \<notin> set w \<Longrightarrow> ws \<noteq> [] \<Longrightarrow> split_on c (join [c] ws) = ws"
proof (induction ws)
  case (Cons w ws)
  then show ?case
    by (cases ws) (auto simp: join_def split_on_id split_on_append)
qed simp

lemma all_digits_dec: "all_digits (dec n)"
  using dec_digits by (auto simp: all_digits_def)

lemma dec_cases: "n < 10 \<Longrightarrow> dec n = [digit n]" "\<not> n < 10 \<Longrightarrow> dec n = dec (n div 10) @ [digit (n mod 10)]"
  by (subst dec.simps, simp)+

lemma digit_0: "d < 10 \<Longrightarrow> digit d = CHR ''0'' \<longleftrightarrow> d = 0"
proof -
  assume d: "d < 10"
  have z: "CHR ''0'' = digit 0" by (simp add: digit_def char_of_def bit_iff_odd)
  show ?thesis unfolding z using digit_val_digit[OF d] digit_val_digit[of 0] by auto
qed

lemma hd_dec: "0 < n \<Longrightarrow> hd (dec n) \<noteq> CHR ''0''"
proof (induction n rule: dec.induct)
  case (1 n)
  then show ?case by (cases "n < 10") (auto simp: dec_cases digit_0)
qed

lemma length_dec_octet: "n < 256 \<Longrightarrow> length (dec n) \<le> 3"
  by (cases "n < 10"; cases "n div 10 < 10") (auto simp: dec_cases)

lemma parse_octet_dec: "n < 256 \<Longrightarrow> parse_octet (dec n) = Inr n"
proof -
  assume n: "n < 256"
  have "dec n \<noteq> ''0'' \<longrightarrow> hd (dec n) \<noteq> CHR ''0''"
    using hd_dec[of n] by (cases "n = 0") (auto simp: dec_cases digit_def)
  then show ?thesis
    using n length_dec_octet[OF n] by (auto simp: parse_octet_def all_digits_dec digits_val_dec)
qed

lemma parse_octets_dotted:
  "parse_octets (map (\<lambda>b. dec (unat b)) bs) a = Inr (foldl (\<lambda>a b. a * 256 + unat b) a bs)"
  for bs :: "byte list"
  by (induction bs arbitrary: a) (simp_all add: parse_octet_dec unat_byte_less)

lemma dotted_chars: "c \<in> set (dotted bs) \<Longrightarrow> digit_val c \<noteq> None \<or> c = CHR ''.''"
  by (cases bs) (auto simp: dotted_def join_def dest: dec_digits split: if_splits)

lemma dotted_no: "digit_val c = None \<Longrightarrow> c \<noteq> CHR ''.'' \<Longrightarrow> c \<notin> set (dotted bs)"
  using dotted_chars by blast

lemma dotted_no_space: "c \<in> set (dotted bs) \<Longrightarrow> \<not> is_space c"
  using dotted_chars decimal_no_space by blast

lemma strip_dotted [simp]: "strip (dotted bs) = dotted bs"
  by (rule strip_id) (auto dest: dotted_no_space)

lemma split_dotted: "bs \<noteq> [] \<Longrightarrow> split_on CHR ''.'' (dotted bs) = map (\<lambda>b. dec (unat b)) bs"
  unfolding dotted_def by (rule split_on_join) (auto simp: digit_val_def)

lemma parse_ipv4_dotted: "length bs = 4 \<Longrightarrow> parse_ipv4 (dotted bs) = Inr (be_nat bs)"
proof -
  assume n: "length bs = 4"
  then have "bs \<noteq> []" by auto
  with n show ?thesis
    by (simp add: parse_ipv4_def dotted_no digit_val_def split_dotted parse_octets_dotted be_nat_def)
qed

lemma ip_address_dotted: "length bs = 4 \<Longrightarrow> ip_address (dotted bs) = Inr (V4 (be_nat bs))"
  by (simp add: ip_address_def parse_ipv4_dotted)

lemma clean_ip_dotted [simp]: "clean_ip (dotted bs) = dotted bs"
  by (rule clean_ip_id) (auto simp: dotted_no digit_val_def dest: dotted_no_space)

lemma dotted_nonempty: "bs \<noteq> [] \<Longrightarrow> dotted bs \<noteq> []"
  by (cases bs) (auto simp: dotted_def join_def)

end
