(* ===== verification/Py_Number.thy ===== *)
theory Py_Number
  imports Lnmp_Prelude
begin

text \<open>
  Floating-point text and time stamps. Floats are real numbers here; what the code does with
  them at its boundaries is written out: \<open>f"{x:.3f}"\<close> rounds half to even at three decimals,
  \<open>float(s)\<close> reads a decimal literal, and \<open>datetime.fromtimestamp\<close> rounds to microseconds and
  raises outside the years 1 to 9999. The round trip through the text of a stream entry is
  exact for a time that is a whole number of milliseconds.
\<close>

definition round_half_even :: "real \<Rightarrow> int" where
  "round_half_even x =
     (let n = \<lfloor>x\<rfloor>; d = x - of_int n
      in if d < 1 / 2 then n else if 1 / 2 < d then n + 1 else if even n then n else n + 1)"

lemma round_half_even_int [simp]: "round_half_even (of_int n) = n"
  by (simp add: round_half_even_def)

lemma round_half_even_nonneg: "0 \<le> x \<Longrightarrow> 0 \<le> round_half_even x"
  by (simp add: round_half_even_def Let_def)

lemma round_half_even_mono_int: "real_of_int m \<le> x \<Longrightarrow> m \<le> round_half_even x"
proof -
  assume "real_of_int m \<le> x"
  then have "m \<le> \<lfloor>x\<rfloor>" by (simp add: le_floor_iff)
  then show ?thesis by (auto simp: round_half_even_def Let_def)
qed

lemma round_half_even_le_int: "x \<le> real_of_int m \<Longrightarrow> round_half_even x \<le> m"
proof (cases "x = of_int m")
  case False
  assume "x \<le> of_int m"
  with False have "x < of_int m" by simp
  then have "\<lfloor>x\<rfloor> < m" by (simp add: floor_less_iff)
  then show ?thesis by (auto simp: round_half_even_def Let_def)
qed simp

definition round2 :: "real \<Rightarrow> real" where
  \<comment> \<open>\<open>round(x, 2)\<close>\<close>
  "round2 x = of_int (round_half_even (100 * x)) / 100"

lemma round2_bounds: "0 \<le> x \<Longrightarrow> x \<le> 100 \<Longrightarrow> 0 \<le> round2 x \<and> round2 x \<le> 100"
  using round_half_even_mono_int[of 0 "100 * x"] round_half_even_le_int[of "100 * x" 10000]
  by (simp add: round2_def)

subsection \<open>Three decimals\<close>

definition fmt3 :: "real \<Rightarrow> string" where
  "fmt3 x =
     (let n = nat \<bar>round_half_even (1000 * x)\<bar>; m = n mod 1000
      in (if x < 0 then ''-'' else []) @ dec (n div 1000) @ ''.'' @
         [digit (m div 100), digit (m div 10 mod 10), digit (m mod 10)])"

definition count_digits :: "string \<Rightarrow> nat" where
  "count_digits s = length (filter (\<lambda>c. digit_val c \<noteq> None) s)"

definition mantissa_val :: "string \<Rightarrow> real option" where
  "mantissa_val s =
     (case split_on CHR ''.'' s of
        [i] \<Rightarrow> map_option real (nat_literal i)
      | [i, f] \<Rightarrow>
          (if i = [] \<and> f = [] then None
           else (case (if i = [] then Some 0 else nat_literal i, if f = [] then Some 0 else nat_literal f) of
                   (Some a, Some b) \<Rightarrow> Some (real a + real b / 10 ^ count_digits f)
                 | _ \<Rightarrow> None))
      | _ \<Rightarrow> None)"

definition exponent_val :: "string \<Rightarrow> real option" where
  "exponent_val s =
     (case s of
        [] \<Rightarrow> None
      | c # cs \<Rightarrow>
          if c = CHR ''-'' then map_option (\<lambda>n. 1 / 10 ^ n) (nat_literal cs)
          else if c = CHR ''+'' then map_option (\<lambda>n. 10 ^ n) (nat_literal cs)
          else map_option (\<lambda>n. 10 ^ n) (nat_literal s))"

definition unsigned_float :: "string \<Rightarrow> real option" where
  "unsigned_float s =
     (let is_e = (\<lambda>c. c = CHR ''e'' \<or> c = CHR ''E'');
          mant = takeWhile (\<lambda>c. \<not> is_e c) s;
          rest = dropWhile (\<lambda>c. \<not> is_e c) s
      in if rest = [] then mantissa_val mant
         else (case (mantissa_val mant, exponent_val (tl rest)) of
                 (Some m, Some e) \<Rightarrow> Some (m * e)
               | _ \<Rightarrow> None))"

text \<open>
  \<open>float(s)\<close>. The words \<open>inf\<close> and \<open>nan\<close>, which \<open>float\<close> also accepts, are errors here: the one
  caller hands the result to \<open>fromtimestamp\<close> inside the same \<open>try\<close>, which refuses them.
\<close>

definition py_float :: "string \<Rightarrow> real result" where
  "py_float s =
     (let t = strip s;
          signed = (\<lambda>f ds. case unsigned_float ds of None \<Rightarrow> Inl ValueError | Some x \<Rightarrow> Inr (f x))
      in case t of
           [] \<Rightarrow> Inl ValueError
         | c # ds \<Rightarrow> if c = CHR ''-'' then signed uminus ds
                    else if c = CHR ''+'' then signed id ds else signed id t)"

lemma split_on_skip: "c \<notin> set w \<Longrightarrow> split_on c (w @ c # s) = w # split_on c s"
  by (induction w) auto

lemma split_on_none: "c \<notin> set w \<Longrightarrow> split_on c w = [w]"
  by (induction w) auto

lemma digit_not: "digit_val c = None \<Longrightarrow> d < 10 \<Longrightarrow> digit d \<noteq> c"
  using digit_val_digit[of d] by auto

lemma digits_val_digits3:
  assumes "a < 10" "b < 10" "c < 10"
  shows "nat_literal [digit a, digit b, digit c] = Some (a * 100 + b * 10 + c)"
  using assms by (simp add: nat_literal_def)

lemma three_digits: "m = m div 100 * 100 + m div 10 mod 10 * 10 + m mod 10" for m :: nat
proof -
  have "m = m div 10 * 10 + m mod 10" by simp
  moreover have "m div 10 = m div 10 div 10 * 10 + m div 10 mod 10" by simp
  moreover have "m div 10 div 10 = m div 100" by (simp add: div_mult2_eq[symmetric])
  ultimately show ?thesis by linarith
qed

lemma fmt3_parts:
  assumes "0 \<le> x" and n: "n = nat (round_half_even (1000 * x))"
  shows "unsigned_float (fmt3 x) = Some (real n / 1000)"
    and "strip (fmt3 x) = fmt3 x" and "\<exists>c cs. fmt3 x = c # cs \<and> digit_val c \<noteq> None"
proof -
  let ?m = "n mod 1000"
  let ?f = "[digit (?m div 100), digit (?m div 10 mod 10), digit (?m mod 10)]"
  have abs: "nat \<bar>round_half_even (1000 * x)\<bar> = n"
    using assms by (simp add: round_half_even_nonneg)
  have s: "fmt3 x = dec (n div 1000) @ CHR ''.'' # ?f"
    using assms(1) by (simp add: fmt3_def Let_def abs)
  have lt: "?m div 100 < 10" "?m div 10 mod 10 < 10" "?m mod 10 < 10" by auto
  have split: "split_on CHR ''.'' (fmt3 x) = [dec (n div 1000), ?f]"
    unfolding s using lt by (subst split_on_skip) (auto simp: digit_val_def digit_not)
  have m: "?m = ?m div 100 * 100 + ?m div 10 mod 10 * 10 + ?m mod 10" by (rule three_digits)
  have frac: "nat_literal ?f = Some ?m" using digits_val_digits3[OF lt] m by metis
  have "mantissa_val (fmt3 x) = Some (real (n div 1000) + real ?m / 1000)"
    unfolding mantissa_val_def split by (simp add: frac count_digits_def lt)
  also have "real (n div 1000) + real ?m / 1000 = real n / 1000"
  proof -
    have "real n = real (n div 1000 * 1000 + n mod 1000)" by simp
    then show ?thesis by (simp only: of_nat_add of_nat_mult) (simp add: add_divide_distrib)
  qed
  finally have mant: "mantissa_val (fmt3 x) = Some (real n / 1000)" .
  have chars: "c \<in> set (fmt3 x) \<Longrightarrow> digit_val c \<noteq> None \<or> c = CHR ''.''" for c
    unfolding s using lt by (auto dest: dec_digits)
  then have noe: "\<forall>c \<in> set (fmt3 x). \<not> (c = CHR ''e'' \<or> c = CHR ''E'')"
    by (force simp: digit_val_def)
  then have "takeWhile (\<lambda>c. \<not> (c = CHR ''e'' \<or> c = CHR ''E'')) (fmt3 x) = fmt3 x"
    "dropWhile (\<lambda>c. \<not> (c = CHR ''e'' \<or> c = CHR ''E'')) (fmt3 x) = []"
    by (simp_all only: takeWhile_eq_all_conv dropWhile_eq_Nil_conv)
  then show "unsigned_float (fmt3 x) = Some (real n / 1000)"
    unfolding unsigned_float_def Let_def by (simp only: mant if_True simp_thms)
  show "strip (fmt3 x) = fmt3 x"
    using chars decimal_no_space by (intro strip_id) blast
  show "\<exists>c cs. fmt3 x = c # cs \<and> digit_val c \<noteq> None"
    unfolding s using dec_digits[of _ "n div 1000"] by (cases "dec (n div 1000)") auto
qed

lemma py_float_fmt3:
  assumes "0 \<le> x"
  shows "py_float (fmt3 x) = Inr (of_int (round_half_even (1000 * x)) / 1000)"
proof -
  obtain c cs where c: "fmt3 x = c # cs" "digit_val c \<noteq> None" using fmt3_parts(3)[OF assms refl] by auto
  then have "c \<noteq> CHR ''-''" "c \<noteq> CHR ''+''" by (auto simp: digit_val_def)
  moreover have "unsigned_float (c # cs) = Some (of_int (round_half_even (1000 * x)) / 1000)"
    using fmt3_parts(1)[OF assms refl] assms by (simp add: c(1) round_half_even_nonneg)
  moreover have "strip (fmt3 x) = c # cs" using fmt3_parts(2)[OF assms refl] c(1) by simp
  ultimately show ?thesis by (simp add: py_float_def)
qed

lemma py_float_fmt3_ms:
  assumes "0 \<le> x" and "1000 * x \<in> \<int>"
  shows "py_float (fmt3 x) = Inr x"
proof -
  from assms(2) obtain n where "1000 * x = of_int n" by (auto elim: Ints_cases)
  then show ?thesis using py_float_fmt3[OF assms(1)] by simp
qed

subsection \<open>Time stamps\<close>

definition fromtimestamp :: "real \<Rightarrow> instant result" where
  "fromtimestamp t =
     (let us = round_half_even (1000000 * t)
      in if us < -62135596800 * 1000000 \<or> 253402300800 * 1000000 \<le> us then Inl ValueError else Inr us)"

definition minute_of :: "instant \<Rightarrow> instant" where
  \<comment> \<open>\<open>dt.replace(second=0, microsecond=0)\<close> for a UTC instant\<close>
  "minute_of t = t - t mod 60000000"

lemma minute_of_bounds: "minute_of t \<le> t" "t < minute_of t + 60000000" "minute_of t mod 60000000 = 0"
proof -
  have "0 \<le> t mod 60000000" "t mod 60000000 < 60000000" by simp_all
  then show "minute_of t \<le> t" "t < minute_of t + 60000000" unfolding minute_of_def by linarith+
  show "minute_of t mod 60000000 = 0" by (simp add: minute_of_def mod_diff_right_eq)
qed

end
