(* ===== verification/Aggregator.thy ===== *)
theory Aggregator
  imports Correlator Py_Address Py_Number
begin

text \<open>
  \<open>FlowAggregator\<close> (\<open>monitoring/flow/aggregator.py\<close>): the consumer of the raw flow stream,
  the two in-memory accumulators, and the flush that groups them into rows, upserts the rows
  in one transaction, deducts what was committed and acknowledges the stream messages. A
  flush awaits the database, so the consumer runs between its snapshot and its deduction:
  the model splits a flush into \<open>flush_begin\<close> and \<open>flush_end\<close>, and the theorems hold for every
  interleaving of the two with the consumption of messages.

  The two tables are those of \<open>app/models/flow_rollup.py\<close> with their column types. PostgreSQL's
  cast of text to \<open>inet\<close> is the parameter \<open>inet\<close>; a transaction that raises leaves the tables
  as they were, unless the connection is lost after the commit (\<open>Lost_after_commit\<close>).
\<close>

definition SENTINEL_UUID :: uuid where "SENTINEL_UUID = 0"

definition normalize_service_port :: "int \<Rightarrow> int \<Rightarrow> int" where
  "normalize_service_port src_port dst_port =
     (if src_port < 1024 \<and> 1024 \<le> dst_port then src_port
      else if src_port \<in> {8080, 8443, 3306, 5432, 6379, 9200} \<and> 10000 < dst_port then src_port
      else dst_port)"

text \<open>
  The service port of a conversation does not depend on the direction of the flow: when
  one side uses a well-known port and the other does not, or one side one of the listed
  service ports and the other a high port, both directions are filed under that port.
\<close>

lemma normalize_port_direction:
  assumes "(p < 1024 \<and> 1024 \<le> q) \<or> (p \<in> {8080, 8443, 3306, 5432, 6379, 9200} \<and> 10000 < q)"
  shows "normalize_service_port p q = p \<and> normalize_service_port q p = p"
  using assms by (auto simp: normalize_service_port_def)

type_synonym acc_key =
  "instant \<times> uuid \<times> uuid option \<times> uuid option \<times> string \<times> string \<times> int \<times> int"
type_synonym acc_val = "int \<times> int \<times> int" \<comment> \<open>bytes, packets, flow count\<close>
type_synonym if_key = "instant \<times> uuid \<times> int"
type_synonym if_val = "int \<times> int \<times> int \<times> int \<times> int"
  \<comment> \<open>bytes in, bytes out, packets in, packets out, flow count\<close>

record aggregator =
  a_redis :: bool
  a_correlator :: correlator
  a_accumulator :: "(acc_key, acc_val) dict"
  a_interface_accumulator :: "(if_key, if_val) dict"
  a_active_interfaces :: "(uuid \<times> int) set"
  a_pending_msg_ids :: "string list"

definition FlowAggregator :: "bool \<Rightarrow> correlator \<Rightarrow> aggregator" where
  "FlowAggregator redis_client c =
     \<lparr> a_redis = redis_client, a_correlator = c, a_accumulator = [], a_interface_accumulator = [],
       a_active_interfaces = {}, a_pending_msg_ids = [] \<rparr>"

definition check_circuit_breaker :: "bool \<Rightarrow> (int \<times> int) result \<Rightarrow> bool" where
  \<comment> \<open>the second argument: \<open>used_memory\<close> and \<open>maxmemory\<close> of \<open>INFO memory\<close>, or its failure\<close>
  "check_circuit_breaker redis_client info =
     (if \<not> redis_client then True
      else (case info of
              Inl _ \<Rightarrow> True
            | Inr (used, maxmem) \<Rightarrow>
                \<not> (0 < maxmem \<and> 0.85 < real_of_int used / real_of_int maxmem)))"

subsection \<open>Accumulation\<close>

definition valid_interface :: "int \<Rightarrow> bool" where
  "valid_interface i \<longleftrightarrow> 0 < i \<and> i \<le> 2147483647"

definition accumulate_ingress :: "instant \<Rightarrow> uuid \<Rightarrow> int \<Rightarrow> int \<Rightarrow> int \<Rightarrow> aggregator \<Rightarrow> aggregator" where
  "accumulate_ingress bucket exporter_id in_if flow_bytes flow_packets a =
     (if \<not> valid_interface in_if then a
      else
        (let key_in = (bucket, exporter_id, in_if)
         in a\<lparr>a_interface_accumulator := put key_in
                (case get (a_interface_accumulator a) key_in of
                   None \<Rightarrow> (flow_bytes, 0, flow_packets, 0, 1)
                 | Some (ib, ob, ip, op, fc) \<Rightarrow> (ib + flow_bytes, ob, ip + flow_packets, op, fc + 1))
                (a_interface_accumulator a),
              a_active_interfaces := insert (exporter_id, in_if) (a_active_interfaces a)\<rparr>))"

definition accumulate_egress ::
  "instant \<Rightarrow> uuid \<Rightarrow> int \<Rightarrow> int \<Rightarrow> int \<Rightarrow> int \<Rightarrow> aggregator \<Rightarrow> aggregator" where
  "accumulate_egress bucket exporter_id in_if out_if flow_bytes flow_packets a =
     (if \<not> valid_interface out_if then a
      else
        (let key_out = (bucket, exporter_id, out_if);
             is_diff = (out_if \<noteq> in_if)
         in a\<lparr>a_interface_accumulator := put key_out
                (case get (a_interface_accumulator a) key_out of
                   None \<Rightarrow> (0, flow_bytes, 0, flow_packets, if is_diff then 1 else 0)
                 | Some (ib, ob, ip, op, fc) \<Rightarrow>
                     (ib, ob + flow_bytes, ip, op + flow_packets, if is_diff then fc + 1 else fc))
                (a_interface_accumulator a),
              a_active_interfaces := insert (exporter_id, out_if) (a_active_interfaces a)\<rparr>))"

definition accumulate_interface_flow ::
  "instant \<Rightarrow> uuid option \<Rightarrow> int \<Rightarrow> int \<Rightarrow> int \<Rightarrow> int \<Rightarrow> aggregator \<Rightarrow> aggregator" where
  "accumulate_interface_flow bucket exporter_id in_if out_if flow_bytes flow_packets a =
     (case exporter_id of
        None \<Rightarrow> a
      | Some eid \<Rightarrow>
          if eid = SENTINEL_UUID then a
          else accumulate_egress bucket eid in_if out_if flow_bytes flow_packets
                 (accumulate_ingress bucket eid in_if flow_bytes flow_packets a))"

text \<open>The arguments of \<open>accumulate_flow\<close>.\<close>

record flow_msg =
  g_exporter_ip :: string
  g_src_ip :: string
  g_dst_ip :: string
  g_src_port :: int
  g_dst_port :: int
  g_protocol :: int
  g_bytes :: int
  g_packets :: int
  g_start_time_unix :: real
  g_in_if :: int
  g_out_if :: int

definition valid_ip :: "string \<Rightarrow> bool" where
  "valid_ip s \<longleftrightarrow> (case ip_address (strip s) of Inl _ \<Rightarrow> False | Inr _ \<Rightarrow> True)"

text \<open>
  \<open>accumulate_flow\<close> returns the new state, the recording tasks of the correlator, and whether
  \<open>fromtimestamp\<close> raised: it does so after the lookup, whose effect on the correlator stays.
\<close>

definition accumulate_flow ::
  "real \<Rightarrow> flow_msg \<Rightarrow> aggregator \<Rightarrow> aggregator \<times> (string \<times> real) list \<times> unit result" where
  "accumulate_flow now g a =
     (if g_src_ip g = [] \<or> g_dst_ip g = [] then (a, [], Inr ())
      else if \<not> valid_ip (g_src_ip g) \<or> \<not> valid_ip (g_dst_ip g) then (a, [], Inr ())
      else
        (let ((exporter_id, src_ep_id, dst_ep_id), c, tasks) =
               correlate now (a_correlator a) (g_exporter_ip g) (g_src_ip g) (g_dst_ip g);
             a = a\<lparr>a_correlator := c\<rparr>;
             resolved_exporter = (case exporter_id of None \<Rightarrow> SENTINEL_UUID | Some e \<Rightarrow> e)
         in case fromtimestamp (g_start_time_unix g) of
              Inl e \<Rightarrow> (a, tasks, Inl e)
            | Inr dt \<Rightarrow>
                (let bucket = minute_of dt;
                     normalized_port = normalize_service_port (g_src_port g) (g_dst_port g);
                     key = (bucket, resolved_exporter, src_ep_id, dst_ep_id, g_src_ip g, g_dst_ip g,
                            g_protocol g, normalized_port);
                     a = a\<lparr>a_accumulator := put key
                            (case get (a_accumulator a) key of
                               None \<Rightarrow> (g_bytes g, g_packets g, 1)
                             | Some (b, p, n) \<Rightarrow> (b + g_bytes g, p + g_packets g, n + 1))
                            (a_accumulator a)\<rparr>
                 in (if exporter_id \<noteq> None \<and> exporter_id \<noteq> Some SENTINEL_UUID
                     then accumulate_interface_flow bucket exporter_id (g_in_if g) (g_out_if g)
                            (g_bytes g) (g_packets g) a
                     else a, tasks, Inr ()))))"

subsection \<open>Consuming the stream\<close>

text \<open>A stream message is a map from field names to text; a missing field has a default.\<close>

definition text_field :: "(string \<rightharpoonup> string) \<Rightarrow> string \<Rightarrow> string" where
  "text_field m k = (case m k of None \<Rightarrow> [] | Some s \<Rightarrow> s)"

definition int_field :: "(string \<rightharpoonup> string) \<Rightarrow> string \<Rightarrow> int result" where
  "int_field m k = (case m k of None \<Rightarrow> Inr 0 | Some s \<Rightarrow> py_int s)"

definition int_fields :: "(string \<rightharpoonup> string) \<Rightarrow> string list \<Rightarrow> int list result" where
  "int_fields m ks =
     foldr (\<lambda>k r. case int_field m k of Inl e \<Rightarrow> Inl e | Inr n \<Rightarrow> map_sum id ((#) n) r) ks (Inr [])"

definition float_field :: "real \<Rightarrow> (string \<rightharpoonup> string) \<Rightarrow> string \<Rightarrow> real result" where
  "float_field dflt m k = (case m k of None \<Rightarrow> Inr dflt | Some s \<Rightarrow> py_float s)"

definition parse_message :: "real \<Rightarrow> (string \<rightharpoonup> string) \<Rightarrow> flow_msg option result" where
  \<comment> \<open>\<open>Inr None\<close>: skipped with \<open>continue\<close>; \<open>Inl\<close>: an exception, logged as a corrupted message\<close>
  "parse_message ts_now m =
     (let src_ip = text_field m ''src''; dst_ip = text_field m ''dst''
      in if src_ip = [] \<or> dst_ip = [] then Inr None
         else if \<not> valid_ip src_ip \<or> \<not> valid_ip dst_ip then Inr None
         else
           (case int_fields m [''sport'', ''dport'', ''proto'', ''b'', ''p''] of
              Inl e \<Rightarrow> Inl e
            | Inr ns \<Rightarrow>
                (case float_field ts_now m ''ts_start'' of
                   Inl e \<Rightarrow> Inl e
                 | Inr ts_start \<Rightarrow>
                     (case int_fields m [''in_if'', ''out_if''] of
                        Inl e \<Rightarrow> Inl e
                      | Inr ifs \<Rightarrow>
                          (let raw_in_if = ifs ! 0; raw_out_if = ifs ! 1;
                               valid_in_if = (if valid_interface raw_in_if then raw_in_if else 0);
                               valid_out_if = (if valid_interface raw_out_if then raw_out_if else 0)
                           in Inr (Some \<lparr>
                                g_exporter_ip = text_field m ''exp'', g_src_ip = src_ip, g_dst_ip = dst_ip,
                                g_src_port = ns ! 0, g_dst_port = ns ! 1, g_protocol = ns ! 2,
                                g_bytes = ns ! 3, g_packets = ns ! 4, g_start_time_unix = ts_start,
                                g_in_if = valid_in_if, g_out_if = valid_out_if \<rparr>))))))"

definition consume_message ::
  "real \<Rightarrow> real \<Rightarrow> string \<times> (string \<rightharpoonup> string) \<Rightarrow> aggregator \<Rightarrow> aggregator \<times> (string \<times> real) list" where
  "consume_message ts_now now msg a =
     (let (raw_id, m) = msg;
          a = a\<lparr>a_pending_msg_ids := a_pending_msg_ids a @ [raw_id]\<rparr>
      in case parse_message ts_now m of
           Inl _ \<Rightarrow> (a, [])
         | Inr None \<Rightarrow> (a, [])
         | Inr (Some g) \<Rightarrow> (let (a, tasks, _) = accumulate_flow now g a in (a, tasks)))"

definition consume_stream_iteration ::
  "(int \<times> int) result \<Rightarrow> (real \<times> real \<times> string \<times> (string \<rightharpoonup> string)) list result \<Rightarrow> aggregator \<Rightarrow>
   aggregator \<times> (string \<times> real) list" where
  \<comment> \<open>one turn of the \<open>while\<close> loop: the answers of \<open>INFO\<close> and \<open>XREADGROUP\<close>, the messages with the
     clock readings at their processing\<close>
  "consume_stream_iteration info entries a =
     (if \<not> a_redis a then (a, [])
      else if \<not> check_circuit_breaker (a_redis a) info then (a, [])
      else (case entries of
              Inl _ \<Rightarrow> (a, [])
            | Inr ms \<Rightarrow>
                fold (\<lambda>(ts_now, now, msg) (a, ts). let (a, ts') = consume_message ts_now now msg a in (a, ts @ ts'))
                  ms (a, [])))"

subsection \<open>Rows\<close>

record rollup_row =
  r_bucket :: instant
  r_exporter_id :: uuid
  r_src_endpoint_id :: "uuid option"
  r_dst_endpoint_id :: "uuid option"
  r_src_ip :: string
  r_dst_ip :: string
  r_protocol :: int
  r_dst_port :: int
  r_bytes :: int
  r_packets :: int
  r_flow_count :: int

type_synonym row_key = "instant \<times> uuid \<times> string \<times> string \<times> int \<times> int"

fun row_key_of :: "acc_key \<Rightarrow> row_key" where
  "row_key_of (bucket, exp_id, src_ep, dst_ep, src_ip, dst_ip, proto, port) =
     (bucket, exp_id, src_ip, dst_ip, proto, port)"

fun group_row :: "acc_key \<times> acc_val \<Rightarrow> (row_key, rollup_row) dict \<Rightarrow> (row_key, rollup_row) dict" where
  "group_row (key, vals) grouped =
     (let (bucket, exp_id, src_ep_id, dst_ep_id, src_ip, dst_ip, proto, d_port) = key;
          (bytes_val, pkts_val, count_val) = vals;
          pk = (bucket, exp_id, src_ip, dst_ip, proto, d_port)
      in put pk
           (case get grouped pk of
              None \<Rightarrow>
                \<lparr> r_bucket = bucket, r_exporter_id = exp_id, r_src_endpoint_id = src_ep_id,
                  r_dst_endpoint_id = dst_ep_id, r_src_ip = src_ip, r_dst_ip = dst_ip,
                  r_protocol = proto, r_dst_port = d_port,
                  r_bytes = bytes_val, r_packets = pkts_val, r_flow_count = count_val \<rparr>
            | Some ex \<Rightarrow>
                ex\<lparr> r_bytes := r_bytes ex + bytes_val, r_packets := r_packets ex + pkts_val,
                    r_flow_count := r_flow_count ex + count_val,
                    r_src_endpoint_id :=
                      (if r_src_endpoint_id ex = None \<and> src_ep_id \<noteq> None then src_ep_id else r_src_endpoint_id ex),
                    r_dst_endpoint_id :=
                      (if r_dst_endpoint_id ex = None \<and> dst_ep_id \<noteq> None then dst_ep_id else r_dst_endpoint_id ex) \<rparr>)
           grouped)"

definition group_rows :: "(acc_key, acc_val) dict \<Rightarrow> rollup_row list" where
  "group_rows snapshot = map snd (fold group_row snapshot [])"

fun group_if_row :: "if_key \<times> if_val \<Rightarrow> (if_key, if_val) dict \<Rightarrow> (if_key, if_val) dict" where
  "group_if_row (pk, (in_b, out_b, in_p, out_p, fc)) grouped =
     put pk
       (case get grouped pk of
          None \<Rightarrow> (in_b, out_b, in_p, out_p, fc)
        | Some (ib, ob, ip, op, n) \<Rightarrow> (ib + in_b, ob + out_b, ip + in_p, op + out_p, n + fc))
       grouped"

definition group_if_rows :: "(if_key, if_val) dict \<Rightarrow> (if_key \<times> if_val) list" where
  "group_if_rows snapshot = fold group_if_row snapshot []"

subsection \<open>The tables\<close>

type_synonym 'i rollup_key = "instant \<times> uuid \<times> 'i \<times> 'i \<times> int \<times> int"
type_synonym rollup_val = "acc_val \<times> uuid option \<times> uuid option"
  \<comment> \<open>bytes, packets, flow count; source and destination endpoint\<close>

record 'i flow_db =
  d_rollups :: "('i rollup_key, rollup_val) dict"
  d_interfaces :: "(if_key, if_val) dict"

definition smallint :: "int \<Rightarrow> bool" where "smallint n \<longleftrightarrow> - (2 ^ 15) \<le> n \<and> n < 2 ^ 15"
definition integer :: "int \<Rightarrow> bool" where "integer n \<longleftrightarrow> - (2 ^ 31) \<le> n \<and> n < 2 ^ 31"
definition bigint :: "int \<Rightarrow> bool" where "bigint n \<longleftrightarrow> - (2 ^ 63) \<le> n \<and> n < 2 ^ 63"

fun columns_ok :: "acc_val \<Rightarrow> bool" where
  "columns_ok (b, p, n) \<longleftrightarrow> bigint b \<and> bigint p \<and> integer n"

fun if_columns_ok :: "if_val \<Rightarrow> bool" where
  "if_columns_ok (ib, ob, ip, op, n) \<longleftrightarrow> bigint ib \<and> bigint ob \<and> bigint ip \<and> bigint op \<and> integer n"

definition insert_rollup ::
  "(string \<Rightarrow> 'i option) \<Rightarrow> rollup_row \<Rightarrow> ('i rollup_key, rollup_val) dict \<Rightarrow>
   ('i rollup_key, rollup_val) dict result" where
  \<comment> \<open>\<open>insert_sql\<close>: a value outside its column's type, in the row or in a sum, raises\<close>
  "insert_rollup inet r table =
     (case (inet (r_src_ip r), inet (r_dst_ip r)) of
        (Some src, Some dst) \<Rightarrow>
          (let v = (r_bytes r, r_packets r, r_flow_count r);
               pk = (r_bucket r, r_exporter_id r, src, dst, r_protocol r, r_dst_port r);
               new = (case get table pk of
                        None \<Rightarrow> (v, r_src_endpoint_id r, r_dst_endpoint_id r)
                      | Some ((b, p, n), se, de) \<Rightarrow>
                          ((b + r_bytes r, p + r_packets r, n + r_flow_count r),
                           (case se of None \<Rightarrow> r_src_endpoint_id r | _ \<Rightarrow> se),
                           (case de of None \<Rightarrow> r_dst_endpoint_id r | _ \<Rightarrow> de)))
           in if \<not> smallint (r_protocol r) \<or> \<not> integer (r_dst_port r) \<or> \<not> columns_ok v
                \<or> \<not> columns_ok (fst new) then Inl DbError
              else Inr (put pk new table))
      | _ \<Rightarrow> Inl DbError)"

fun insert_if :: "if_key \<times> if_val \<Rightarrow> (if_key, if_val) dict \<Rightarrow> (if_key, if_val) dict result" where
  \<comment> \<open>\<open>insert_if_sql\<close>\<close>
  "insert_if (pk, (in_b, out_b, in_p, out_p, fc)) table =
     (let new = (case get table pk of
                   None \<Rightarrow> (in_b, out_b, in_p, out_p, fc)
                 | Some (ib, ob, ip, op, n) \<Rightarrow> (ib + in_b, ob + out_b, ip + in_p, op + out_p, n + fc))
      in if \<not> integer (snd (snd pk)) \<or> \<not> if_columns_ok (in_b, out_b, in_p, out_p, fc) \<or> \<not> if_columns_ok new
         then Inl DbError else Inr (put pk new table))"

function chunks :: "nat \<Rightarrow> 'a list \<Rightarrow> 'a list list" where
  \<comment> \<open>\<open>xs[i : i + n] for i in range(0, len(xs), n)\<close>\<close>
  "chunks n xs = (if xs = [] \<or> n = 0 then [] else take n xs # chunks n (drop n xs))"
  by pat_completeness auto
termination by (relation "measure (\<lambda>(n, xs). length xs)") auto

declare chunks.simps [simp del]

datatype db_fault = No_fault | Lost_before_commit | Lost_after_commit

definition write_rollups ::
  "(string \<Rightarrow> 'i option) \<Rightarrow> db_fault \<Rightarrow> rollup_row list \<Rightarrow> (if_key \<times> if_val) list \<Rightarrow> 'i flow_db \<Rightarrow>
   unit result \<times> 'i flow_db" where
  \<comment> \<open>the session of the flush: the two batched statements and the commit\<close>
  "write_rollups inet fault rows if_rows db =
     (case fold_result (fold_result (insert_rollup inet)) (chunks 1000 rows) (d_rollups db) of
        Inl e \<Rightarrow> (Inl e, db)
      | Inr t \<Rightarrow>
          (case fold_result (fold_result insert_if) (chunks 1000 if_rows) (d_interfaces db) of
             Inl e \<Rightarrow> (Inl e, db)
           | Inr t' \<Rightarrow>
               (let db' = db\<lparr>d_rollups := t, d_interfaces := t'\<rparr>
                in case fault of
                     No_fault \<Rightarrow> (Inr (), db')
                   | Lost_before_commit \<Rightarrow> (Inl DbError, db)
                   | Lost_after_commit \<Rightarrow> (Inl DbError, db'))))"

subsection \<open>The flush\<close>

record snapshot =
  sn_accumulator :: "(acc_key, acc_val) dict"
  sn_interfaces :: "(if_key, if_val) dict"
  sn_active :: "(uuid \<times> int) set"
  sn_pending :: "string list"

definition flush_begin :: "aggregator \<Rightarrow> snapshot option" where
  "flush_begin a =
     (if a_accumulator a = [] \<and> a_interface_accumulator a = [] \<and> a_pending_msg_ids a = [] then None
      else Some \<lparr> sn_accumulator = a_accumulator a, sn_interfaces = a_interface_accumulator a,
                  sn_active = a_active_interfaces a, sn_pending = a_pending_msg_ids a \<rparr>)"

definition deduct_one ::
  "('v \<Rightarrow> 'v \<Rightarrow> 'v) \<Rightarrow> ('v \<Rightarrow> int) \<Rightarrow> 'k \<times> 'v \<Rightarrow> ('k, 'v) dict \<Rightarrow> ('k, 'v) dict" where
  \<comment> \<open>subtract the flushed values; an entry whose flow count reaches zero is deleted\<close>
  "deduct_one sub cnt kv acc =
     (case get acc (fst kv) of
        None \<Rightarrow> acc
      | Some v \<Rightarrow> (let v' = sub v (snd kv) in if cnt v' \<le> 0 then del (fst kv) acc else put (fst kv) v' acc))"

fun sub3 :: "acc_val \<Rightarrow> acc_val \<Rightarrow> acc_val" where
  "sub3 (b, p, n) (b', p', n') = (b - b', p - p', n - n')"

fun sub5 :: "if_val \<Rightarrow> if_val \<Rightarrow> if_val" where
  "sub5 (ib, ob, ip, op, n) (ib', ob', ip', op', n') = (ib - ib', ob - ob', ip - ip', op - op', n - n')"

fun count3 :: "acc_val \<Rightarrow> int" where "count3 (b, p, n) = n"
fun count5 :: "if_val \<Rightarrow> int" where "count5 (ib, ob, ip, op, n) = n"

definition deduct :: "(acc_key, acc_val) dict \<Rightarrow> (acc_key, acc_val) dict \<Rightarrow> (acc_key, acc_val) dict" where
  "deduct snap acc = fold (deduct_one sub3 count3) snap acc"

definition deduct_if :: "(if_key, if_val) dict \<Rightarrow> (if_key, if_val) dict \<Rightarrow> (if_key, if_val) dict" where
  "deduct_if snap acc = fold (deduct_one sub5 count5) snap acc"

definition ack_pending :: "nat \<Rightarrow> string list \<Rightarrow> aggregator \<Rightarrow> aggregator \<times> string list" where
  \<comment> \<open>\<open>acked_chunks\<close> of the \<open>XACK\<close> calls succeed before one raises; the ids acknowledged are returned\<close>
  "ack_pending acked_chunks pending_ack a =
     (let batches = chunks 500 pending_ack
      in if acked_chunks < length batches then (a, concat (take acked_chunks batches))
         else (a\<lparr>a_pending_msg_ids := drop (length pending_ack) (a_pending_msg_ids a)\<rparr>, concat batches))"

definition flush_end ::
  "(string \<Rightarrow> 'i option) \<Rightarrow> db_fault \<Rightarrow> bool \<Rightarrow> nat \<Rightarrow> snapshot \<Rightarrow> aggregator \<times> 'i flow_db \<Rightarrow>
   (aggregator \<times> 'i flow_db) \<times> string list" where
  "flush_end inet fault pipe_ok acked_chunks sn st =
     (let (a, db) = st;
          rows = group_rows (sn_accumulator sn);
          if_rows = group_if_rows (sn_interfaces sn);
          ack = (\<lambda>a db. if sn_pending sn \<noteq> [] \<and> a_redis a
                        then (let (a, ids) = ack_pending acked_chunks (sn_pending sn) a in ((a, db), ids))
                        else ((a, db), []))
      in if rows \<noteq> [] \<or> if_rows \<noteq> [] then
           (case write_rollups inet fault rows if_rows db of
              (Inl _, db) \<Rightarrow> ((a, db), [])
            | (Inr _, db) \<Rightarrow>
                (let a = (if rows \<noteq> [] then a\<lparr>a_accumulator := deduct (sn_accumulator sn) (a_accumulator a)\<rparr> else a);
                     a = (if if_rows \<noteq> [] then a\<lparr>a_interface_accumulator :=
                              deduct_if (sn_interfaces sn) (a_interface_accumulator a)\<rparr> else a);
                     a = (if a_redis a \<and> sn_active sn \<noteq> {} \<and> pipe_ok
                          then a\<lparr>a_active_interfaces := a_active_interfaces a - sn_active sn\<rparr> else a)
                 in ack a db))
         else ack a db)"

end
