(* ===== verification/Flush_Proofs.thy ===== *)
theory Flush_Proofs
  imports Aggregator
begin

text \<open>
  What a flush commits. The accumulators, the snapshots and the tables are compared through
  arbitrary linear measures of their entries (weights for bytes, packets and flow counts,
  restricted to a set of keys), which makes every step a matter of sums. The invariant of the
  system of consumer and flush says that the tables hold exactly a prefix of the messages
  consumed, and the accumulators the rest.
\<close>

subsection \<open>Chunks\<close>

lemma chunks_Nil [simp]: "chunks n [] = []"
  by (subst chunks.simps) simp

lemma concat_chunks [simp]: "0 < n \<Longrightarrow> concat (chunks n xs) = xs"
  by (induction n xs rule: chunks.induct) (subst chunks.simps, auto)

lemma fold_result_append:
  "fold_result f (xs @ ys) s = (case fold_result f xs s of Inl e \<Rightarrow> Inl e | Inr s' \<Rightarrow> fold_result f ys s')"
  by (induction xs arbitrary: s) (auto split: sum.splits)

lemma fold_result_concat: "fold_result (fold_result f) xss s = fold_result f (concat xss) s"
  by (induction xss arbitrary: s) (auto simp: fold_result_append split: sum.splits)

lemma fold_chunks: "0 < n \<Longrightarrow> fold_result (fold_result f) (chunks n xs) s = fold_result f xs s"
  by (simp add: fold_result_concat)

subsection \<open>Adding to and deducting from a dictionary\<close>

definition add_to :: "('v \<Rightarrow> 'v \<Rightarrow> 'v) \<Rightarrow> 'k \<times> 'v \<Rightarrow> ('k, 'v) dict \<Rightarrow> ('k, 'v) dict" where
  "add_to add kv d = put (fst kv) (case get d (fst kv) of None \<Rightarrow> snd kv | Some w \<Rightarrow> add w (snd kv)) d"

lemma dict_ok_add_to [simp]: "dict_ok d \<Longrightarrow> dict_ok (add_to add kv d)"
  by (simp add: add_to_def)

lemma dict_ok_fold_add_to [simp]: "dict_ok d \<Longrightarrow> dict_ok (fold (add_to add) kvs d)"
  by (induction kvs arbitrary: d) auto

lemma dict_sum_add_to:
  assumes "dict_ok d" and "\<And>k x y. f k (add x y) = f k x + f k y"
  shows "dict_sum f (add_to add kv d) = dict_sum f d + f (fst kv) (snd kv)"
  using assms by (auto simp: add_to_def dict_sum_put split: option.splits)

lemma dict_sum_fold_add_to:
  assumes "dict_ok d" and "\<And>k x y. f k (add x y) = f k x + f k y"
  shows "dict_sum f (fold (add_to add) kvs d) = dict_sum f d + dict_sum f kvs"
  using assms(1)
  by (induction kvs arbitrary: d) (auto simp: dict_sum_add_to[OF _ assms(2)])

text \<open>\<open>grown cnt snap acc\<close>: since the snapshot was taken, every entry of it was only added to,
  and an entry whose flow count did not grow did not change.\<close>

definition grown :: "('v \<Rightarrow> int) \<Rightarrow> ('k, 'v) dict \<Rightarrow> ('k, 'v) dict \<Rightarrow> bool" where
  "grown cnt snap acc \<longleftrightarrow> (\<forall>k fl. get snap k = Some fl \<longrightarrow>
     (\<exists>v. get acc k = Some v \<and> cnt fl \<le> cnt v \<and> (cnt v = cnt fl \<longrightarrow> v = fl)))"

lemma grown_refl: "grown cnt d d"
  by (simp add: grown_def)

lemma grown_add_to:
  assumes "grown cnt snap acc" and "\<And>x y. cnt (add x y) = cnt x + cnt y" and "0 < cnt (snd kv)"
  shows "grown cnt snap (add_to add kv acc)"
  using assms(1,3) unfolding grown_def add_to_def by (fastforce simp: assms(2))

lemma grown_add_two:
  assumes "grown cnt snap acc" and "\<And>x y. cnt (add x y) = cnt x + cnt y" and "0 < cnt v" "cnt u = 0"
  shows "grown cnt snap (add_to add (k, u) (add_to add (k, v) acc))"
  using assms(1,3,4) unfolding grown_def add_to_def by (fastforce simp: assms(2))

lemma deduct_fold:
  assumes "dict_ok acc" "dict_ok snap" "grown cnt snap acc"
    and "\<And>x y. cnt (sub x y) = cnt x - cnt y" and "\<And>k x y. f k (sub x y) = f k x - f k y"
  shows "dict_ok (fold (deduct_one sub cnt) snap acc) \<and>
    dict_sum f (fold (deduct_one sub cnt) snap acc) = dict_sum f acc - dict_sum f snap"
  using assms(1-3)
proof (induction snap arbitrary: acc)
  case (Cons kv snap)
  obtain k fl where kv: "kv = (k, fl)" by (cases kv)
  let ?acc = "deduct_one sub cnt (k, fl) acc"
  obtain v where v: "get acc k = Some v" "cnt fl \<le> cnt v" "cnt v = cnt fl \<longrightarrow> v = fl"
    using Cons.prems(3) unfolding kv grown_def by (metis fun_upd_same map_of.simps(2) fst_conv snd_conv)
  have ok: "dict_ok ?acc" using Cons.prems(1) v by (simp add: deduct_one_def Let_def)
  have zero: "f k (sub fl fl) = 0" using assms(5) by simp
  have sum: "dict_sum f ?acc = dict_sum f acc - f k fl"
  proof (cases "cnt (sub v fl) \<le> 0")
    case True
    then have "v = fl" using v by (simp add: assms(4))
    with True v Cons.prems(1) show ?thesis by (simp add: deduct_one_def Let_def dict_sum_del)
  next
    case False
    with v Cons.prems(1) show ?thesis by (simp add: deduct_one_def Let_def dict_sum_put assms(5))
  qed
  have other: "get ?acc k' = get acc k'" if "k' \<noteq> k" for k'
    using that v by (simp add: deduct_one_def Let_def)
  have nk: "get snap k = None" "dict_ok snap" using Cons.prems(2) kv by (simp_all add: dict_ok_Cons)
  have "grown cnt snap ?acc"
    unfolding grown_def
  proof (intro allI impI)
    fix k' fl' assume g: "get snap k' = Some fl'"
    then have "k' \<noteq> k" using nk by auto
    with g other Cons.prems(3) kv
    show "\<exists>v. get ?acc k' = Some v \<and> cnt fl' \<le> cnt v \<and> (cnt v = cnt fl' \<longrightarrow> v = fl')"
      by (auto simp: grown_def)
  qed
  with Cons.IH[OF ok nk(2)] sum kv show ?case by simp
qed simp

subsection \<open>Measures\<close>

fun add3 :: "acc_val \<Rightarrow> acc_val \<Rightarrow> acc_val" where
  "add3 (b, p, n) (b', p', n') = (b + b', p + p', n + n')"

fun add5 :: "if_val \<Rightarrow> if_val \<Rightarrow> if_val" where
  "add5 (ib, ob, ip, op, n) (ib', ob', ip', op', n') = (ib + ib', ob + ob', ip + ip', op + op', n + n')"

fun dot3 :: "acc_val \<Rightarrow> acc_val \<Rightarrow> int" where
  "dot3 (x, y, z) (b, p, n) = x * b + y * p + z * n"

fun dot5 :: "if_val \<Rightarrow> if_val \<Rightarrow> int" where
  "dot5 (x, y, z, u, v) (ib, ob, ip, op, n) = x * ib + y * ob + z * ip + u * op + v * n"

lemma dot3_linear [simp]:
  "dot3 w (add3 x y) = dot3 w x + dot3 w y" "dot3 w (sub3 x y) = dot3 w x - dot3 w y"
  by (cases w; cases x; cases y; simp add: algebra_simps)+

lemma dot5_linear [simp]:
  "dot5 w (add5 x y) = dot5 w x + dot5 w y" "dot5 w (sub5 x y) = dot5 w x - dot5 w y"
  by (cases w; cases x; cases y; simp add: algebra_simps)+

lemma count_linear [simp]:
  "count3 (add3 x y) = count3 x + count3 y" "count3 (sub3 x y) = count3 x - count3 y"
  "count5 (add5 a b) = count5 a + count5 b" "count5 (sub5 a b) = count5 a - count5 b"
  by (cases x, cases y, cases a, cases b, simp)+

definition db_key :: "(string \<Rightarrow> 'i option) \<Rightarrow> row_key \<Rightarrow> 'i rollup_key option" where
  "db_key inet pk =
     (let (bucket, exp_id, src_ip, dst_ip, proto, port) = pk
      in case (inet src_ip, inet dst_ip) of
           (Some s, Some d) \<Rightarrow> Some (bucket, exp_id, s, d, proto, port)
         | _ \<Rightarrow> None)"

text \<open>A measure of a table key is one of a row key, through the cast of its addresses.\<close>

definition row_measure ::
  "(string \<Rightarrow> 'i option) \<Rightarrow> ('i rollup_key \<Rightarrow> acc_val) \<Rightarrow> row_key \<Rightarrow> acc_val \<Rightarrow> int" where
  "row_measure inet w pk v = (case db_key inet pk of None \<Rightarrow> 0 | Some p \<Rightarrow> dot3 (w p) v)"

definition acc_measure ::
  "(string \<Rightarrow> 'i option) \<Rightarrow> ('i rollup_key \<Rightarrow> acc_val) \<Rightarrow> acc_key \<Rightarrow> acc_val \<Rightarrow> int" where
  "acc_measure inet w k v = row_measure inet w (row_key_of k) v"

definition if_measure :: "(if_key \<Rightarrow> if_val) \<Rightarrow> if_key \<Rightarrow> if_val \<Rightarrow> int" where
  "if_measure u k v = dot5 (u k) v"

definition table_measure :: "('i rollup_key \<Rightarrow> acc_val) \<Rightarrow> 'i rollup_key \<Rightarrow> rollup_val \<Rightarrow> int" where
  "table_measure w p v = dot3 (w p) (fst v)"

lemma measures_linear [simp]:
  "acc_measure inet w k (add3 x y) = acc_measure inet w k x + acc_measure inet w k y"
  "acc_measure inet w k (sub3 x y) = acc_measure inet w k x - acc_measure inet w k y"
  "if_measure u q (add5 a b) = if_measure u q a + if_measure u q b"
  "if_measure u q (sub5 a b) = if_measure u q a - if_measure u q b"
  by (simp_all add: acc_measure_def row_measure_def if_measure_def split: option.splits)

subsection \<open>Grouping keeps the sums\<close>

fun row_vals :: "rollup_row \<Rightarrow> acc_val" where
  "row_vals r = (r_bytes r, r_packets r, r_flow_count r)"

definition row_pk :: "rollup_row \<Rightarrow> row_key" where
  "row_pk r = (r_bucket r, r_exporter_id r, r_src_ip r, r_dst_ip r, r_protocol r, r_dst_port r)"

definition grouped_ok :: "(row_key, rollup_row) dict \<Rightarrow> bool" where
  "grouped_ok g \<longleftrightarrow> dict_ok g \<and> (\<forall>(pk, r) \<in> set g. row_pk r = pk)"

lemma grouped_ok_Nil [simp]: "grouped_ok []" by (simp add: grouped_ok_def)

lemma grouped_get: "grouped_ok g \<Longrightarrow> get g pk = Some r \<Longrightarrow> row_pk r = pk"
  by (auto simp: grouped_ok_def dest!: get_in_set)

lemma set_put: "set (put k v d) \<subseteq> insert (k, v) (set d)"
  by (induction d) auto

lemma group_row_ok:
  assumes "grouped_ok g"
  shows "grouped_ok (group_row kv g)"
    and "dict_sum (\<lambda>pk r. row_measure inet w pk (row_vals r)) (group_row kv g)
       = dict_sum (\<lambda>pk r. row_measure inet w pk (row_vals r)) g + acc_measure inet w (fst kv) (snd kv)"
proof -
  obtain bucket eid se de src dst proto port b p n where
    kv: "kv = ((bucket, eid, se, de, src, dst, proto, port), (b, p, n))" by (metis prod.exhaust)
  let ?pk = "(bucket, eid, src, dst, proto, port)"
  obtain r where r: "group_row kv g = put ?pk r g" "row_pk r = ?pk"
    "row_vals r = (case get g ?pk of None \<Rightarrow> (b, p, n) | Some x \<Rightarrow> add3 (row_vals x) (b, p, n))"
    using grouped_get[OF assms, of ?pk] unfolding kv group_row.simps Let_def prod.case
    by (cases "get g ?pk") (auto simp: row_pk_def)
  show "grouped_ok (group_row kv g)"
    using assms set_put[of ?pk r g] unfolding r(1) grouped_ok_def by (auto simp: r(2))
  have "row_measure inet w ?pk (row_vals r)
      = (case get g ?pk of None \<Rightarrow> 0 | Some x \<Rightarrow> row_measure inet w ?pk (row_vals x))
        + row_measure inet w ?pk (b, p, n)"
    unfolding r(3) by (auto simp: row_measure_def simp del: row_vals.simps split: option.splits)
  then show "dict_sum (\<lambda>pk r. row_measure inet w pk (row_vals r)) (group_row kv g)
       = dict_sum (\<lambda>pk r. row_measure inet w pk (row_vals r)) g + acc_measure inet w (fst kv) (snd kv)"
    using assms unfolding r(1)
    by (auto simp: dict_sum_put grouped_ok_def acc_measure_def kv simp del: row_vals.simps split: option.splits)
qed

lemma group_rows_sum:
  "grouped_ok (fold group_row snap [])
   \<and> sum_list (map (\<lambda>r. row_measure inet w (row_pk r) (row_vals r)) (group_rows snap))
     = dict_sum (acc_measure inet w) snap"
proof -
  have gen: "grouped_ok g \<Longrightarrow> grouped_ok (fold group_row snap g) \<and>
      dict_sum (\<lambda>pk r. row_measure inet w pk (row_vals r)) (fold group_row snap g)
      = dict_sum (\<lambda>pk r. row_measure inet w pk (row_vals r)) g + dict_sum (acc_measure inet w) snap" for g
    by (induction snap arbitrary: g) (auto simp: group_row_ok simp del: row_vals.simps)
  have "dict_sum (\<lambda>pk r. row_measure inet w pk (row_vals r)) g
      = sum_list (map (\<lambda>r. row_measure inet w (row_pk r) (row_vals r)) (map snd g))"
    if "grouped_ok g" for g
    using that unfolding dict_sum_def map_map grouped_ok_def
    by (intro arg_cong[where f = sum_list]) (auto simp del: row_vals.simps)
  from this[of "fold group_row snap []"] gen[of "[]"] show ?thesis
    unfolding group_rows_def by (simp del: row_vals.simps map_map)
qed

lemma group_if_row_add: "group_if_row kv g = add_to add5 kv g"
  by (cases kv) (auto simp: add_to_def split: option.splits prod.splits)

lemma group_if_rows_sum:
  "dict_sum (if_measure u) (group_if_rows snap) = dict_sum (if_measure u) snap"
proof -
  have "fold group_if_row snap [] = fold (add_to add5) snap []"
    by (rule arg_cong[where f = "\<lambda>f. fold f snap []"]) (simp add: group_if_row_add fun_eq_iff)
  then show ?thesis
    unfolding group_if_rows_def using dict_sum_fold_add_to[of "[]" "if_measure u" add5 snap] by simp
qed

lemma group_row_keys: "set (keys (group_row kv g)) = insert (row_key_of (fst kv)) (set (keys g))"
proof -
  obtain bucket eid se de src dst proto port b p n where
    "kv = ((bucket, eid, se, de, src, dst, proto, port), (b, p, n))" by (metis prod.exhaust)
  then show ?thesis by (simp add: Let_def dom_update del: set_map) (simp add: dom_update)
qed

lemma group_rows_keys: "row_pk ` set (group_rows snap) = row_key_of ` set (keys snap)"
proof -
  have "set (keys (fold group_row snap g)) = row_key_of ` set (keys snap) \<union> set (keys g)" for g
    by (induction snap arbitrary: g) (auto simp del: group_row.simps set_map simp: group_row_keys)
  moreover have "grouped_ok (fold group_row snap [])" using group_rows_sum by blast
  then have "row_pk ` snd ` set (fold group_row snap []) = fst ` set (fold group_row snap [])"
    unfolding image_image grouped_ok_def by (intro image_cong) auto
  ultimately show ?thesis by (simp add: group_rows_def)
qed

lemma group_if_rows_keys: "set (keys (group_if_rows snap)) = set (keys snap)"
proof -
  have "set (keys (fold group_if_row snap g)) = set (keys snap) \<union> set (keys g)" for g
    by (induction snap arbitrary: g) (auto simp: group_if_row_add add_to_def dom_update)
  then show ?thesis by (simp add: group_if_rows_def)
qed

subsection \<open>Writing the rows\<close>

lemma insert_rollup_sum:
  assumes "insert_rollup inet r t = Inr t'" "dict_ok t"
  shows "dict_ok t' \<and> dict_sum (table_measure w) t'
    = dict_sum (table_measure w) t + row_measure inet w (row_pk r) (row_vals r)"
proof -
  obtain s d where sd: "inet (r_src_ip r) = Some s" "inet (r_dst_ip r) = Some d"
    using assms(1) by (auto simp: insert_rollup_def split: option.splits)
  let ?pk = "(r_bucket r, r_exporter_id r, s, d, r_protocol r, r_dst_port r)"
  have key: "db_key inet (row_pk r) = Some ?pk" by (simp add: db_key_def row_pk_def sd)
  obtain new where t': "t' = put ?pk new t"
    "fst new = (case get t ?pk of None \<Rightarrow> row_vals r | Some old \<Rightarrow> add3 (fst old) (row_vals r))"
    using assms(1) unfolding insert_rollup_def sd Let_def
    by (auto split: option.splits if_splits)
  have "table_measure w ?pk new = (case get t ?pk of None \<Rightarrow> 0 | Some old \<Rightarrow> table_measure w ?pk old)
      + row_measure inet w (row_pk r) (row_vals r)"
    unfolding table_measure_def row_measure_def key t'(2)
    by (auto simp del: row_vals.simps split: option.splits)
  then show ?thesis
    using assms(2) unfolding t'(1) by (auto simp: dict_sum_put simp del: row_vals.simps split: option.splits)
qed

lemma insert_rollups_sum:
  "fold_result (insert_rollup inet) rs t = Inr t' \<Longrightarrow> dict_ok t \<Longrightarrow>
   dict_ok t' \<and> dict_sum (table_measure w) t'
     = dict_sum (table_measure w) t + sum_list (map (\<lambda>r. row_measure inet w (row_pk r) (row_vals r)) rs)"
proof (induction rs arbitrary: t)
  case (Cons r rs)
  then obtain t1 where t1: "insert_rollup inet r t = Inr t1" "fold_result (insert_rollup inet) rs t1 = Inr t'"
    by (auto split: sum.splits)
  show ?case
    using insert_rollup_sum[OF t1(1) Cons.prems(2), of w] Cons.IH[OF t1(2)] by (simp del: row_vals.simps)
qed simp

lemma insert_if_add: "insert_if kv t = Inr t' \<Longrightarrow> t' = add_to add5 kv t"
proof (induction kv t rule: insert_if.induct)
  case (1 pk ib ob ip op n t)
  then show ?case by (cases "get t pk") (auto simp: add_to_def Let_def split: if_splits)
qed

lemma insert_ifs_add: "fold_result insert_if kvs t = Inr t' \<Longrightarrow> t' = fold (add_to add5) kvs t"
  by (induction kvs arbitrary: t) (auto split: sum.splits dest: insert_if_add)

definition db_ok :: "'i flow_db \<Rightarrow> bool" where
  "db_ok db \<longleftrightarrow> dict_ok (d_rollups db) \<and> dict_ok (d_interfaces db)"

definition db_amount :: "('i rollup_key \<Rightarrow> acc_val) \<Rightarrow> (if_key \<Rightarrow> if_val) \<Rightarrow> 'i flow_db \<Rightarrow> int" where
  "db_amount w u db = dict_sum (table_measure w) (d_rollups db) + dict_sum (if_measure u) (d_interfaces db)"

definition amount ::
  "(string \<Rightarrow> 'i option) \<Rightarrow> ('i rollup_key \<Rightarrow> acc_val) \<Rightarrow> (if_key \<Rightarrow> if_val) \<Rightarrow>
   (acc_key, acc_val) dict \<Rightarrow> (if_key, if_val) dict \<Rightarrow> int" where
  "amount inet w u acc ifs = dict_sum (acc_measure inet w) acc + dict_sum (if_measure u) ifs"

lemma write_rollups_ok:
  assumes "write_rollups inet fault (group_rows acc) (group_if_rows ifs) db = (Inr (), db')" "db_ok db"
  shows "db_ok db' \<and> db_amount w u db' = db_amount w u db + amount inet w u acc ifs"
proof -
  obtain t t' where t: "fold_result (insert_rollup inet) (group_rows acc) (d_rollups db) = Inr t"
    and t': "fold_result insert_if (group_if_rows ifs) (d_interfaces db) = Inr t'"
    and db': "db' = db\<lparr>d_rollups := t, d_interfaces := t'\<rparr>"
    using assms(1) by (auto simp: write_rollups_def fold_chunks Let_def split: sum.splits db_fault.splits)
  have ok: "dict_ok (d_rollups db)" "dict_ok (d_interfaces db)" using assms(2) by (simp_all add: db_ok_def)
  have "dict_sum (if_measure u) t' = dict_sum (if_measure u) (d_interfaces db) + dict_sum (if_measure u) ifs"
    using dict_sum_fold_add_to[OF ok(2), of "if_measure u" add5 "group_if_rows ifs"]
    by (simp add: insert_ifs_add[OF t'] group_if_rows_sum)
  moreover have "dict_ok t'" using ok(2) by (simp add: insert_ifs_add[OF t'])
  moreover have "dict_ok t \<and> dict_sum (table_measure w) t
      = dict_sum (table_measure w) (d_rollups db) + dict_sum (acc_measure inet w) acc"
    using insert_rollups_sum[OF t ok(1), of w] group_rows_sum[of acc inet w] by simp
  ultimately show ?thesis by (simp add: db' db_ok_def db_amount_def amount_def)
qed

lemma write_rollups_failed:
  "write_rollups inet fault rows if_rows db = (Inl e, db') \<Longrightarrow> fault \<noteq> Lost_after_commit \<Longrightarrow> db' = db"
  by (auto simp: write_rollups_def Let_def split: sum.splits db_fault.splits)

subsection \<open>What a flow contributes\<close>

definition if_credits :: "instant \<Rightarrow> uuid option \<Rightarrow> int \<Rightarrow> int \<Rightarrow> int \<Rightarrow> int \<Rightarrow> (if_key \<times> if_val) list" where
  "if_credits bucket exporter_id in_if out_if b p =
     (case exporter_id of
        None \<Rightarrow> []
      | Some e \<Rightarrow>
          if e = SENTINEL_UUID then []
          else (if valid_interface in_if then [((bucket, e, in_if), (b, 0, p, 0, 1))] else []) @
               (if valid_interface out_if
                then [((bucket, e, out_if), (0, b, 0, p, if out_if = in_if then 0 else 1))] else []))"

definition flow_credits :: "correlator \<Rightarrow> flow_msg \<Rightarrow> (acc_key \<times> acc_val) list \<times> (if_key \<times> if_val) list" where
  "flow_credits c g =
     (if g_src_ip g = [] \<or> g_dst_ip g = [] \<or> \<not> valid_ip (g_src_ip g) \<or> \<not> valid_ip (g_dst_ip g) then ([], [])
      else (case fromtimestamp (g_start_time_unix g) of
              Inl _ \<Rightarrow> ([], [])
            | Inr dt \<Rightarrow>
                (let e = c_exporter_map c (clean_ip (g_exporter_ip g))
                 in ([((minute_of dt, case e of None \<Rightarrow> SENTINEL_UUID | Some i \<Rightarrow> i,
                        c_participant_map c (clean_ip (g_src_ip g)),
                        c_participant_map c (clean_ip (g_dst_ip g)),
                        g_src_ip g, g_dst_ip g, g_protocol g,
                        normalize_service_port (g_src_port g) (g_dst_port g)),
                       (g_bytes g, g_packets g, 1))],
                     if_credits (minute_of dt) e (g_in_if g) (g_out_if g) (g_bytes g) (g_packets g)))))"

definition message_credits ::
  "real \<Rightarrow> correlator \<Rightarrow> (string \<rightharpoonup> string) \<Rightarrow> (acc_key \<times> acc_val) list \<times> (if_key \<times> if_val) list" where
  "message_credits ts_now c m =
     (case parse_message ts_now m of Inr (Some g) \<Rightarrow> flow_credits c g | _ \<Rightarrow> ([], []))"

lemma accumulate_interface_adds:
  "a_interface_accumulator (accumulate_interface_flow bucket e i out b p a)
     = fold (add_to add5) (if_credits bucket e i out b p) (a_interface_accumulator a)"
  "a_accumulator (accumulate_interface_flow bucket e i out b p a) = a_accumulator a"
  "a_pending_msg_ids (accumulate_interface_flow bucket e i out b p a) = a_pending_msg_ids a"
  "a_redis (accumulate_interface_flow bucket e i out b p a) = a_redis a"
  by (auto simp: accumulate_interface_flow_def accumulate_ingress_def accumulate_egress_def if_credits_def
      add_to_def Let_def split: option.splits prod.splits)

lemma accumulate_flow_adds:
  assumes "accumulate_flow now g a = (a', tasks, r)"
  shows "a_accumulator a' = fold (add_to add3) (fst (flow_credits (a_correlator a) g)) (a_accumulator a)"
    and "a_interface_accumulator a'
       = fold (add_to add5) (snd (flow_credits (a_correlator a) g)) (a_interface_accumulator a)"
    and "a_pending_msg_ids a' = a_pending_msg_ids a" "a_redis a' = a_redis a"
proof -
  obtain c tasks' where co: "correlate now (a_correlator a) (g_exporter_ip g) (g_src_ip g) (g_dst_ip g)
      = ((c_exporter_map (a_correlator a) (clean_ip (g_exporter_ip g)),
          c_participant_map (a_correlator a) (clean_ip (g_src_ip g)),
          c_participant_map (a_correlator a) (clean_ip (g_dst_ip g))), c, tasks')"
    using correlate_result[of now "a_correlator a" "g_exporter_ip g" "g_src_ip g" "g_dst_ip g"]
    by (metis surjective_pairing)
  note defs = accumulate_flow_def flow_credits_def co Let_def
  show "a_accumulator a' = fold (add_to add3) (fst (flow_credits (a_correlator a) g)) (a_accumulator a)"
    using assms unfolding defs
    by (auto simp: accumulate_interface_adds add_to_def split: if_splits sum.splits option.splits)
  show "a_interface_accumulator a'
       = fold (add_to add5) (snd (flow_credits (a_correlator a) g)) (a_interface_accumulator a)"
    using assms unfolding defs
    by (auto simp: accumulate_interface_adds if_credits_def split: if_splits sum.splits option.splits)
  show "a_pending_msg_ids a' = a_pending_msg_ids a" "a_redis a' = a_redis a"
    using assms unfolding defs
    by (auto simp: accumulate_interface_adds split: if_splits sum.splits option.splits)
qed

lemma consume_message_adds:
  assumes "consume_message ts_now now (mid, m) a = (a', tasks)"
  shows "a_accumulator a' = fold (add_to add3) (fst (message_credits ts_now (a_correlator a) m)) (a_accumulator a)"
    and "a_interface_accumulator a'
       = fold (add_to add5) (snd (message_credits ts_now (a_correlator a) m)) (a_interface_accumulator a)"
    and "a_pending_msg_ids a' = a_pending_msg_ids a @ [mid]" "a_redis a' = a_redis a"
  using assms
  by (auto simp: consume_message_def message_credits_def Let_def
      dest: accumulate_flow_adds split: sum.splits option.splits prod.splits)

lemma grown_if_credits:
  assumes "grown count5 sni ifs"
  shows "grown count5 sni (fold (add_to add5) (if_credits bucket e i out b p) ifs)"
proof (cases "out = i \<and> valid_interface i")
  case True
  with assms show ?thesis by (auto simp: if_credits_def split: option.splits intro!: grown_add_two)
next
  case False
  with assms show ?thesis by (auto simp: if_credits_def split: option.splits intro!: grown_add_to)
qed

lemma grown_flow_credits:
  "grown count3 sn acc \<Longrightarrow> grown count3 sn (fold (add_to add3) (fst (flow_credits c g)) acc)"
  "grown count5 sni ifs \<Longrightarrow> grown count5 sni (fold (add_to add5) (snd (flow_credits c g)) ifs)"
  by (auto simp: flow_credits_def Let_def split: sum.splits intro!: grown_add_to grown_if_credits)

lemma grown_message_credits:
  "grown count3 sn acc \<Longrightarrow> grown count3 sn (fold (add_to add3) (fst (message_credits t c m)) acc)"
  "grown count5 sni ifs \<Longrightarrow> grown count5 sni (fold (add_to add5) (snd (message_credits t c m)) ifs)"
  using grown_flow_credits by (auto simp: message_credits_def split: sum.splits option.splits)

end
