(* ===== verification/Flow_System.thy ===== *)
theory Flow_System
  imports Flush_Proofs
begin

text \<open>
  The aggregator as a running system: the consumer, the flush (one at a time, under its lock,
  but with messages consumed between its snapshot and its end), the refreshes of the routing
  tables and the faults of database and Redis, as a sequence of events. A ghost log keeps,
  per message consumed, its stream id and what it contributes to the rollups.
\<close>

record 'i flow_system =
  fs_agg :: aggregator
  fs_db :: "'i flow_db"
  fs_flight :: "snapshot option" \<comment> \<open>the snapshot of the flush that holds \<open>_flush_lock\<close>\<close>
  fs_acked :: "string list"

datatype flow_event =
    Consume real real "string \<times> (string \<rightharpoonup> string)"
  | Flush_begin
  | Flush_end db_fault bool nat
  | Refresh "endpoint_row list"

type_synonym log_entry = "string \<times> (acc_key \<times> acc_val) list \<times> (if_key \<times> if_val) list"

fun flow_step ::
  "(string \<Rightarrow> 'i option) \<Rightarrow> flow_event \<Rightarrow> 'i flow_system \<times> log_entry list \<Rightarrow>
   'i flow_system \<times> log_entry list" where
  "flow_step inet (Consume ts_now now msg) (s, lg) =
     (if a_redis (fs_agg s) then
        (s\<lparr>fs_agg := fst (consume_message ts_now now msg (fs_agg s))\<rparr>,
         lg @ [(fst msg, message_credits ts_now (a_correlator (fs_agg s)) (snd msg))])
      else (s, lg))"
| "flow_step inet Flush_begin (s, lg) =
     (case fs_flight s of
        None \<Rightarrow> (s\<lparr>fs_flight := flush_begin (fs_agg s)\<rparr>, lg)
      | Some _ \<Rightarrow> (s, lg))"
| "flow_step inet (Flush_end fault pipe_ok acked_chunks) (s, lg) =
     (case fs_flight s of
        None \<Rightarrow> (s, lg)
      | Some sn \<Rightarrow>
          (let ((a, db), ids) = flush_end inet fault pipe_ok acked_chunks sn (fs_agg s, fs_db s)
           in (s\<lparr>fs_agg := a, fs_db := db, fs_flight := None, fs_acked := fs_acked s @ ids\<rparr>, lg)))"
| "flow_step inet (Refresh table) (s, lg) =
     (s\<lparr>fs_agg := (fs_agg s)\<lparr>a_correlator := refresh_from_db table (a_correlator (fs_agg s))\<rparr>\<rparr>, lg)"

definition flow_run ::
  "(string \<Rightarrow> 'i option) \<Rightarrow> flow_event list \<Rightarrow> 'i flow_system \<times> log_entry list \<Rightarrow>
   'i flow_system \<times> log_entry list" where
  "flow_run inet evs s = fold (flow_step inet) evs s"

definition flow_start :: "correlator \<Rightarrow> 'i flow_system" where
  "flow_start c = \<lparr> fs_agg = FlowAggregator True c, fs_db = \<lparr>d_rollups = [], d_interfaces = []\<rparr>,
     fs_flight = None, fs_acked = [] \<rparr>"

subsection \<open>Sums over the log\<close>

definition row_log :: "log_entry list \<Rightarrow> (acc_key \<times> acc_val) list" where
  "row_log lg = concat (map (\<lambda>e. fst (snd e)) lg)"

definition if_log :: "log_entry list \<Rightarrow> (if_key \<times> if_val) list" where
  "if_log lg = concat (map (\<lambda>e. snd (snd e)) lg)"

definition log_amount ::
  "(string \<Rightarrow> 'i option) \<Rightarrow> ('i rollup_key \<Rightarrow> acc_val) \<Rightarrow> (if_key \<Rightarrow> if_val) \<Rightarrow> log_entry list \<Rightarrow> int" where
  "log_amount inet w u lg = amount inet w u (row_log lg) (if_log lg)"

lemma logs_simps [simp]:
  "row_log [] = []" "row_log (xs @ ys) = row_log xs @ row_log ys" "row_log [e] = fst (snd e)"
  "if_log [] = []" "if_log (xs @ ys) = if_log xs @ if_log ys" "if_log [e] = snd (snd e)"
  by (simp_all add: row_log_def if_log_def)

lemma log_amount_append [simp]:
  "log_amount inet w u (xs @ ys) = log_amount inet w u xs + log_amount inet w u ys"
  "log_amount inet w u [] = 0"
  by (simp_all add: log_amount_def amount_def)

lemma take_drop_split: "n \<le> k \<Longrightarrow> take k xs = take n xs @ drop n (take k xs)"
  by (metis append_take_drop_id min.absorb1 take_take)

lemma drop_drop_split: "n \<le> k \<Longrightarrow> drop n xs = drop n (take k xs) @ drop k xs"
proof -
  assume "n \<le> k"
  have "drop n (take k xs @ drop k xs) = drop n (take k xs) @ drop (n - length (take k xs)) (drop k xs)"
    by (rule drop_append)
  moreover have "drop (n - length (take k xs)) (drop k xs) = drop k xs"
    using \<open>n \<le> k\<close> by (cases "length xs \<le> k") auto
  ultimately show ?thesis by simp
qed

subsection \<open>The invariant\<close>

definition flight_inv ::
  "(string \<Rightarrow> 'i option) \<Rightarrow> aggregator \<Rightarrow> log_entry list \<Rightarrow> nat \<Rightarrow> nat \<Rightarrow> snapshot \<Rightarrow> bool" where
  "flight_inv inet a lg j n sn \<longleftrightarrow>
     dict_ok (sn_accumulator sn) \<and> dict_ok (sn_interfaces sn) \<and>
     grown count3 (sn_accumulator sn) (a_accumulator a) \<and>
     grown count5 (sn_interfaces sn) (a_interface_accumulator a) \<and>
     (\<exists>k. n \<le> k \<and> k \<le> length lg \<and> sn_pending sn = map fst (drop j (take k lg)) \<and>
        (\<forall>w u. amount inet w u (sn_accumulator sn) (sn_interfaces sn) = log_amount inet w u (drop n (take k lg))))"

definition flow_inv_at ::
  "(string \<Rightarrow> 'i option) \<Rightarrow> 'i flow_system \<Rightarrow> log_entry list \<Rightarrow> nat \<Rightarrow> nat \<Rightarrow> bool" where
  "flow_inv_at inet s lg j n \<longleftrightarrow>
     (let a = fs_agg s
      in j \<le> n \<and> n \<le> length lg \<and>
         db_ok (fs_db s) \<and> dict_ok (a_accumulator a) \<and> dict_ok (a_interface_accumulator a) \<and>
         a_pending_msg_ids a = map fst (drop j lg) \<and> set (fs_acked s) \<subseteq> fst ` set (take n lg) \<and>
         (\<forall>w u. db_amount w u (fs_db s) = log_amount inet w u (take n lg)) \<and>
         (\<forall>w u. amount inet w u (a_accumulator a) (a_interface_accumulator a) = log_amount inet w u (drop n lg)) \<and>
         (case fs_flight s of None \<Rightarrow> True | Some sn \<Rightarrow> flight_inv inet a lg j n sn))"

definition flow_inv :: "(string \<Rightarrow> 'i option) \<Rightarrow> 'i flow_system \<times> log_entry list \<Rightarrow> bool" where
  "flow_inv inet sl \<longleftrightarrow> (\<exists>j n. flow_inv_at inet (fst sl) (snd sl) j n)"

lemma flow_inv_start: "flow_inv inet (flow_start c, [])"
  unfolding flow_inv_def flow_inv_at_def
  by (intro exI[of _ 0]) (simp add: flow_start_def FlowAggregator_def db_ok_def db_amount_def amount_def)

lemma flow_inv_consume:
  assumes "flow_inv_at inet s lg j n" and "a_redis (fs_agg s)"
  shows "flow_inv_at inet (fst (flow_step inet (Consume t now msg) (s, lg)))
           (snd (flow_step inet (Consume t now msg) (s, lg))) j n"
proof -
  obtain mid m where msg: "msg = (mid, m)" by (cases msg)
  let ?a = "fs_agg s"
  let ?cr = "message_credits t (a_correlator ?a) m"
  obtain a' tasks where c: "consume_message t now (mid, m) ?a = (a', tasks)"
    by (cases "consume_message t now (mid, m) ?a")
  note adds = consume_message_adds[OF c]
  have sums: "dict_ok (a_accumulator a')" "dict_ok (a_interface_accumulator a')"
    "amount inet w u (a_accumulator a') (a_interface_accumulator a')
      = amount inet w u (a_accumulator ?a) (a_interface_accumulator ?a) + amount inet w u (fst ?cr) (snd ?cr)"
    for w u
    using assms(1) by (simp_all add: adds flow_inv_at_def Let_def amount_def dict_sum_fold_add_to)
  have grow: "grown count3 sn (a_accumulator ?a) \<Longrightarrow> grown count3 sn (a_accumulator a')"
    "grown count5 sni (a_interface_accumulator ?a) \<Longrightarrow> grown count5 sni (a_interface_accumulator a')" for sn sni
    unfolding adds by (rule grown_message_credits, assumption)+
  have flight: "flight_inv inet ?a lg j n sn \<Longrightarrow> flight_inv inet a' (lg @ [(mid, ?cr)]) j n sn" for sn
    unfolding flight_inv_def using grow by (fastforce intro: exI)
  have last: "log_amount inet w u [(mid, ?cr)] = amount inet w u (fst ?cr) (snd ?cr)" for w u
    by (simp add: log_amount_def)
  show ?thesis
    using assms sums flight
    by (auto simp: flow_inv_at_def Let_def msg c adds(3) last split: option.splits)
qed

lemma flow_inv_begin:
  assumes "flow_inv_at inet s lg j n"
  shows "flow_inv_at inet (fst (flow_step inet Flush_begin (s, lg))) lg j n"
proof (cases "fs_flight s = None \<and> flush_begin (fs_agg s) \<noteq> None")
  case True
  then obtain sn where sn: "flush_begin (fs_agg s) = Some sn" by auto
  then have eq: "sn_accumulator sn = a_accumulator (fs_agg s)"
    "sn_interfaces sn = a_interface_accumulator (fs_agg s)" "sn_pending sn = a_pending_msg_ids (fs_agg s)"
    by (auto simp: flush_begin_def split: if_splits)
  have "flight_inv inet (fs_agg s) lg j n sn"
    using assms unfolding flight_inv_def eq flow_inv_at_def Let_def
    by (auto simp: grown_refl intro!: exI[of _ "length lg"])
  with assms True sn show ?thesis by (auto simp: flow_inv_at_def Let_def)
qed (use assms in \<open>auto simp: flow_inv_at_def Let_def split: option.splits\<close>)

lemma ack_pending_ids:
  assumes "ack_pending k ids a = (a', acked)"
  shows "set acked \<subseteq> set ids" and "a_accumulator a' = a_accumulator a"
    and "a_interface_accumulator a' = a_interface_accumulator a"
    and "a_pending_msg_ids a' = a_pending_msg_ids a
       \<or> a_pending_msg_ids a' = drop (length ids) (a_pending_msg_ids a)"
proof -
  have "x \<in> set xa \<Longrightarrow> xa \<in> set (chunks 500 ids) \<Longrightarrow> x \<in> set ids" for x xa
    using concat_chunks[of 500 ids] by (metis UN_I set_concat zero_less_numeral)
  then show "set acked \<subseteq> set ids"
    using assms by (auto simp: ack_pending_def Let_def split: if_splits) (meson in_set_takeD)
qed (use assms in \<open>auto simp: ack_pending_def Let_def split: if_splits\<close>)

text \<open>The two outcomes of a flush: nothing happens, or the rows are committed and deducted.\<close>

definition flushed :: "snapshot \<Rightarrow> aggregator \<Rightarrow> aggregator" where
  "flushed sn a =
     (let rows = group_rows (sn_accumulator sn); if_rows = group_if_rows (sn_interfaces sn);
          a = (if rows \<noteq> [] then a\<lparr>a_accumulator := deduct (sn_accumulator sn) (a_accumulator a)\<rparr> else a)
      in if if_rows \<noteq> [] then a\<lparr>a_interface_accumulator :=
             deduct_if (sn_interfaces sn) (a_interface_accumulator a)\<rparr> else a)"

lemma flushed_ok:
  assumes "flight_inv inet a lg j n sn" "dict_ok (a_accumulator a)" "dict_ok (a_interface_accumulator a)"
  shows "dict_ok (a_accumulator (flushed sn a))" "dict_ok (a_interface_accumulator (flushed sn a))"
    "amount inet w u (a_accumulator (flushed sn a)) (a_interface_accumulator (flushed sn a))
      = amount inet w u (a_accumulator a) (a_interface_accumulator a)
        - amount inet w u (sn_accumulator sn) (sn_interfaces sn)"
    "a_pending_msg_ids (flushed sn a) = a_pending_msg_ids a"
proof -
  let ?acc = "if group_rows (sn_accumulator sn) \<noteq> [] then deduct (sn_accumulator sn) (a_accumulator a) else a_accumulator a"
  let ?ifs = "if group_if_rows (sn_interfaces sn) \<noteq> []
    then deduct_if (sn_interfaces sn) (a_interface_accumulator a) else a_interface_accumulator a"
  have eq: "a_accumulator (flushed sn a) = ?acc" "a_interface_accumulator (flushed sn a) = ?ifs"
    by (simp_all add: flushed_def Let_def)
  have sn: "dict_ok (sn_accumulator sn)" "dict_ok (sn_interfaces sn)"
    "grown count3 (sn_accumulator sn) (a_accumulator a)"
    "grown count5 (sn_interfaces sn) (a_interface_accumulator a)"
    using assms(1) by (simp_all add: flight_inv_def)
  have d3: "dict_ok (deduct (sn_accumulator sn) (a_accumulator a)) \<and>
      dict_sum (acc_measure inet w) (deduct (sn_accumulator sn) (a_accumulator a))
      = dict_sum (acc_measure inet w) (a_accumulator a) - dict_sum (acc_measure inet w) (sn_accumulator sn)"
    unfolding deduct_def using sn assms(2) by (intro deduct_fold) simp_all
  have d5: "dict_ok (deduct_if (sn_interfaces sn) (a_interface_accumulator a)) \<and>
      dict_sum (if_measure u) (deduct_if (sn_interfaces sn) (a_interface_accumulator a))
      = dict_sum (if_measure u) (a_interface_accumulator a) - dict_sum (if_measure u) (sn_interfaces sn)"
    unfolding deduct_if_def using sn assms(3) by (intro deduct_fold) simp_all
  have "group_rows (sn_accumulator sn) = [] \<Longrightarrow> dict_sum (acc_measure inet w) (sn_accumulator sn) = 0"
    using group_rows_sum[of "sn_accumulator sn" inet w] by simp
  moreover have "group_if_rows (sn_interfaces sn) = [] \<Longrightarrow> dict_sum (if_measure u) (sn_interfaces sn) = 0"
    using group_if_rows_sum[of u "sn_interfaces sn"] by simp
  ultimately show "amount inet w u (a_accumulator (flushed sn a)) (a_interface_accumulator (flushed sn a))
      = amount inet w u (a_accumulator a) (a_interface_accumulator a)
        - amount inet w u (sn_accumulator sn) (sn_interfaces sn)"
    unfolding eq amount_def using d3 d5 by simp
  show "dict_ok (a_accumulator (flushed sn a))" "dict_ok (a_interface_accumulator (flushed sn a))"
    unfolding eq using d3 d5 assms(2,3) by simp_all
  show "a_pending_msg_ids (flushed sn a) = a_pending_msg_ids a" by (simp add: flushed_def Let_def)
qed

lemma flush_end_cases:
  assumes "flush_end inet fault pipe_ok k sn (a, db) = ((a', db'), ids)" "fault \<noteq> Lost_after_commit" "db_ok db"
  shows "(a' = a \<and> db' = db \<and> ids = []) \<or>
    (db_ok db' \<and> (\<forall>w u. db_amount w u db' = db_amount w u db + amount inet w u (sn_accumulator sn) (sn_interfaces sn))
     \<and> a_accumulator a' = a_accumulator (flushed sn a)
     \<and> a_interface_accumulator a' = a_interface_accumulator (flushed sn a)
     \<and> set ids \<subseteq> set (sn_pending sn)
     \<and> (a_pending_msg_ids a' = a_pending_msg_ids a
        \<or> a_pending_msg_ids a' = drop (length (sn_pending sn)) (a_pending_msg_ids a)))"
proof -
  let ?rows = "group_rows (sn_accumulator sn)" and ?ifs = "group_if_rows (sn_interfaces sn)"
  let ?ack = "\<lambda>a db. if sn_pending sn \<noteq> [] \<and> a_redis a
      then (let (a, ids) = ack_pending k (sn_pending sn) a in ((a, db), ids)) else ((a, db), [])"
  let ?act = "\<lambda>a. if a_redis a \<and> sn_active sn \<noteq> {} \<and> pipe_ok
      then a\<lparr>a_active_interfaces := a_active_interfaces a - sn_active sn\<rparr> else a"
  have ack: "?ack b db1 = ((a', db'), ids) \<Longrightarrow> db' = db1 \<and> a_accumulator a' = a_accumulator b
      \<and> a_interface_accumulator a' = a_interface_accumulator b \<and> set ids \<subseteq> set (sn_pending sn)
      \<and> (a_pending_msg_ids a' = a_pending_msg_ids b
         \<or> a_pending_msg_ids a' = drop (length (sn_pending sn)) (a_pending_msg_ids b))" for b db1
    using ack_pending_ids[of k "sn_pending sn" b] by (fastforce split: if_splits prod.splits)
  show ?thesis
  proof (cases "?rows = [] \<and> ?ifs = []")
    case True
    then have "amount inet w u (sn_accumulator sn) (sn_interfaces sn) = 0" for w u
      using group_rows_sum[of "sn_accumulator sn" inet w] group_if_rows_sum[of u "sn_interfaces sn"]
      by (simp add: amount_def)
    moreover have "flushed sn a = a" using True by (simp add: flushed_def)
    moreover have "?ack a db = ((a', db'), ids)" using assms(1) True by (simp add: flush_end_def)
    ultimately show ?thesis using ack[of a db] assms(3) by simp
  next
    case False
    obtain r db1 where w: "write_rollups inet fault ?rows ?ifs db = (r, db1)" by (cases "write_rollups inet fault ?rows ?ifs db")
    show ?thesis
    proof (cases r)
      case (Inl e)
      then have "db1 = db" using write_rollups_failed w assms(2) by blast
      then show ?thesis using assms(1) False w Inl by (auto simp: flush_end_def Let_def)
    next
      case (Inr x)
      have "?ack (?act (flushed sn a)) db1 = ((a', db'), ids)"
        using assms(1) False w Inr unfolding flush_end_def flushed_def Let_def by simp
      from ack[OF this] have "db' = db1" "a_accumulator a' = a_accumulator (flushed sn a)"
        "a_interface_accumulator a' = a_interface_accumulator (flushed sn a)" "set ids \<subseteq> set (sn_pending sn)"
        "a_pending_msg_ids a' = a_pending_msg_ids a
         \<or> a_pending_msg_ids a' = drop (length (sn_pending sn)) (a_pending_msg_ids a)"
        by (auto simp: flushed_def Let_def split: if_splits)
      moreover have "db_ok db1 \<and> db_amount w u db1 = db_amount w u db
          + amount inet w u (sn_accumulator sn) (sn_interfaces sn)" for w u
        using write_rollups_ok w Inr assms(3) by (metis (full_types) unit.exhaust)
      ultimately show ?thesis by auto
    qed
  qed
qed

lemma flow_inv_end:
  assumes inv: "flow_inv_at inet s lg j n" and fl: "fs_flight s = Some sn" and "fault \<noteq> Lost_after_commit"
  shows "\<exists>j n. flow_inv_at inet (fst (flow_step inet (Flush_end fault pipe_ok c) (s, lg))) lg j n"
proof -
  let ?a = "fs_agg s" and ?db = "fs_db s"
  obtain a' db' ids where e: "flush_end inet fault pipe_ok c sn (?a, ?db) = ((a', db'), ids)" by (metis surj_pair)
  then have step: "fst (flow_step inet (Flush_end fault pipe_ok c) (s, lg))
      = s\<lparr>fs_agg := a', fs_db := db', fs_flight := None, fs_acked := fs_acked s @ ids\<rparr>"
    by (simp add: fl)
  have jn: "j \<le> n" "n \<le> length lg" and ok: "db_ok ?db" "dict_ok (a_accumulator ?a)" "dict_ok (a_interface_accumulator ?a)"
    and pend: "a_pending_msg_ids ?a = map fst (drop j lg)" and ack: "set (fs_acked s) \<subseteq> fst ` set (take n lg)"
    and dbs: "\<And>w u. db_amount w u ?db = log_amount inet w u (take n lg)"
    and accs: "\<And>w u. amount inet w u (a_accumulator ?a) (a_interface_accumulator ?a) = log_amount inet w u (drop n lg)"
    and flight: "flight_inv inet ?a lg j n sn"
    using inv fl by (simp_all add: flow_inv_at_def Let_def)
  obtain k where k: "n \<le> k" "k \<le> length lg" "sn_pending sn = map fst (drop j (take k lg))"
    and sns: "\<And>w u. amount inet w u (sn_accumulator sn) (sn_interfaces sn) = log_amount inet w u (drop n (take k lg))"
    using flight by (auto simp: flight_inv_def)
  note new = flushed_ok[OF flight ok(2,3)]
  have len: "length (sn_pending sn) = k - j" using k by simp
  have sub: "set (take n lg) \<subseteq> set (take k lg)" using k(1) by (rule set_take_subset_set_take)
  have acked: "set (sn_pending sn) \<subseteq> fst ` set (take k lg)" unfolding k(3) by (auto dest: in_set_dropD)
  consider "a' = ?a" "db' = ?db" "ids = []"
    | (flushed) "db_ok db'" "\<And>w u. db_amount w u db' = db_amount w u ?db + amount inet w u (sn_accumulator sn) (sn_interfaces sn)"
      "a_accumulator a' = a_accumulator (flushed sn ?a)"
      "a_interface_accumulator a' = a_interface_accumulator (flushed sn ?a)" "set ids \<subseteq> set (sn_pending sn)"
      "a_pending_msg_ids a' = a_pending_msg_ids ?a \<or> a_pending_msg_ids a' = drop (k - j) (a_pending_msg_ids ?a)"
    using flush_end_cases[OF e assms(3) ok(1)] unfolding len by auto
  then show ?thesis
  proof cases
    case 1
    then have "flow_inv_at inet (s\<lparr>fs_agg := a', fs_db := db', fs_flight := None, fs_acked := fs_acked s @ ids\<rparr>) lg j n"
      using inv by (simp add: flow_inv_at_def Let_def)
    then show ?thesis unfolding step by blast
  next
    case flushed
    have d: "db_amount w u db' = log_amount inet w u (take k lg)" for w u
      using take_drop_split[OF k(1), of lg] log_amount_append(1)[of inet w u "take n lg" "drop n (take k lg)"]
      by (simp add: flushed(2) dbs sns)
    have m: "amount inet w u (a_accumulator a') (a_interface_accumulator a') = log_amount inet w u (drop k lg)" for w u
      using drop_drop_split[OF k(1), of lg] log_amount_append(1)[of inet w u "drop n (take k lg)" "drop k lg"]
      by (simp add: flushed(3,4) new(3) accs sns)
    have "a_pending_msg_ids a' = map fst (drop j lg) \<or> a_pending_msg_ids a' = map fst (drop k lg)"
      using flushed(6) jn(1) k(1) by (auto simp: pend drop_map)
    then obtain j' where j': "j' \<le> k" "a_pending_msg_ids a' = map fst (drop j' lg)"
      using jn(1) k(1) by (meson le_trans order_refl)
    have "set (fs_acked s @ ids) \<subseteq> fst ` set (take k lg)"
      using ack sub flushed(5) acked by auto
    then have "flow_inv_at inet (s\<lparr>fs_agg := a', fs_db := db', fs_flight := None, fs_acked := fs_acked s @ ids\<rparr>) lg j' k"
      using flushed(1,3,4) new(1,2) j' k(2) d m by (simp add: flow_inv_at_def Let_def)
    then show ?thesis unfolding step by blast
  qed
qed

lemma flow_inv_refresh:
  "flow_inv_at inet s lg j n \<Longrightarrow> flow_inv_at inet (fst (flow_step inet (Refresh t) (s, lg))) lg j n"
  by (auto simp: flow_inv_at_def flight_inv_def Let_def split: option.splits)

definition commit_known :: "flow_event \<Rightarrow> bool" where
  \<comment> \<open>the event is not the loss of the connection between a commit and its confirmation\<close>
  "commit_known ev \<longleftrightarrow> (case ev of Flush_end fault _ _ \<Rightarrow> fault \<noteq> Lost_after_commit | _ \<Rightarrow> True)"

lemma flow_inv_step: "flow_inv inet sl \<Longrightarrow> commit_known ev \<Longrightarrow> flow_inv inet (flow_step inet ev sl)"
proof -
  assume inv: "flow_inv inet sl" and known: "commit_known ev"
  obtain s lg where sl: "sl = (s, lg)" by (cases sl)
  obtain j n where at: "flow_inv_at inet s lg j n" using inv by (auto simp: flow_inv_def sl)
  show "flow_inv inet (flow_step inet ev sl)"
  proof (cases ev)
    case (Consume t now msg)
    show ?thesis
    proof (cases "a_redis (fs_agg s)")
      case True
      from flow_inv_consume[OF at True, of t now msg] show ?thesis
        unfolding flow_inv_def sl Consume by blast
    qed (use inv in \<open>simp add: sl Consume\<close>)
  next
    case Flush_begin
    have "snd (flow_step inet Flush_begin (s, lg)) = lg" by (simp split: option.splits)
    with flow_inv_begin[OF at] show ?thesis unfolding flow_inv_def sl Flush_begin by auto
  next
    case (Flush_end fault pipe_ok c)
    show ?thesis
    proof (cases "fs_flight s")
      case (Some sn)
      have "snd (flow_step inet (Flush_end fault pipe_ok c) (s, lg)) = lg"
        by (simp add: Some split: prod.splits)
      with flow_inv_end[OF at Some, of fault pipe_ok c] known show ?thesis
        unfolding flow_inv_def sl Flush_end commit_known_def by auto
    qed (use inv in \<open>simp add: sl Flush_end\<close>)
  next
    case (Refresh t)
    with flow_inv_refresh[OF at, of t] show ?thesis unfolding flow_inv_def sl by auto
  qed
qed

lemma flow_inv_run: "flow_inv inet sl \<Longrightarrow> \<forall>ev \<in> set evs. commit_known ev \<Longrightarrow> flow_inv inet (flow_run inet evs sl)"
  unfolding flow_run_def by (induction evs arbitrary: sl) (simp, metis flow_inv_step fold_simps(2) list.set_intros)

subsection \<open>Exactly the first messages\<close>

definition sum3 :: "acc_val list \<Rightarrow> acc_val" where "sum3 vs = foldr add3 vs (0, 0, 0)"
definition sum5 :: "if_val list \<Rightarrow> if_val" where "sum5 vs = foldr add5 vs (0, 0, 0, 0, 0)"

definition stored :: "'i flow_db \<Rightarrow> 'i rollup_key \<Rightarrow> acc_val" where
  "stored db p = (case get (d_rollups db) p of None \<Rightarrow> (0, 0, 0) | Some (v, _) \<Rightarrow> v)"

definition stored_if :: "'i flow_db \<Rightarrow> if_key \<Rightarrow> if_val" where
  "stored_if db q = (case get (d_interfaces db) q of None \<Rightarrow> (0, 0, 0, 0, 0) | Some v \<Rightarrow> v)"

definition rows_for ::
  "(string \<Rightarrow> 'i option) \<Rightarrow> 'i rollup_key \<Rightarrow> (acc_key \<times> acc_val) list \<Rightarrow> acc_val list" where
  "rows_for inet p kvs = map snd (filter (\<lambda>kv. db_key inet (row_key_of (fst kv)) = Some p) kvs)"

definition ifs_for :: "if_key \<Rightarrow> (if_key \<times> if_val) list \<Rightarrow> if_val list" where
  "ifs_for q kvs = map snd (filter (\<lambda>kv. fst kv = q) kvs)"

lemma dot3_zero [simp]: "dot3 (0, 0, 0) v = 0" "dot3 w (0, 0, 0) = 0" "dot5 (0, 0, 0, 0, 0) x = 0" "dot5 y (0, 0, 0, 0, 0) = 0"
  by (cases v, simp, cases w, simp, cases x, simp, cases y, simp)

lemma dot3_eqI: "(\<And>w. dot3 w x = dot3 w y) \<Longrightarrow> x = y"
proof -
  assume a: "\<And>w. dot3 w x = dot3 w y"
  show ?thesis
    using a[of "(1, 0, 0)"] a[of "(0, 1, 0)"] a[of "(0, 0, 1)"] by (cases x; cases y) simp
qed

lemma dot5_eqI: "(\<And>w. dot5 w x = dot5 w y) \<Longrightarrow> x = y"
proof -
  assume a: "\<And>w. dot5 w x = dot5 w y"
  show ?thesis
    using a[of "(1, 0, 0, 0, 0)"] a[of "(0, 1, 0, 0, 0)"] a[of "(0, 0, 1, 0, 0)"] a[of "(0, 0, 0, 1, 0)"]
      a[of "(0, 0, 0, 0, 1)"] by (cases x; cases y) simp
qed

lemma amount_rows_for:
  "amount inet (\<lambda>q. if q = p then w else (0, 0, 0)) (\<lambda>_. (0, 0, 0, 0, 0)) acc ifs = dot3 w (sum3 (rows_for inet p acc))"
proof -
  have "dict_sum (acc_measure inet (\<lambda>q. if q = p then w else (0, 0, 0))) acc = dot3 w (sum3 (rows_for inet p acc))"
    by (induction acc)
      (auto simp: rows_for_def sum3_def acc_measure_def row_measure_def split: option.splits)
  moreover have "dict_sum (if_measure (\<lambda>_. (0, 0, 0, 0, 0))) ifs = 0"
    by (induction ifs) (auto simp: if_measure_def)
  ultimately show ?thesis by (simp add: amount_def)
qed

lemma amount_ifs_for:
  "amount inet (\<lambda>_. (0, 0, 0)) (\<lambda>k. if k = q then u else (0, 0, 0, 0, 0)) acc ifs = dot5 u (sum5 (ifs_for q ifs))"
proof -
  have "dict_sum (acc_measure inet (\<lambda>_. (0, 0, 0))) acc = 0"
    by (induction acc) (auto simp: acc_measure_def row_measure_def split: option.splits)
  moreover have "dict_sum (if_measure (\<lambda>k. if k = q then u else (0, 0, 0, 0, 0))) ifs = dot5 u (sum5 (ifs_for q ifs))"
    by (induction ifs) (auto simp: ifs_for_def sum5_def if_measure_def)
  ultimately show ?thesis by (simp add: amount_def)
qed

lemma dict_sum_at: "dict_ok d \<Longrightarrow> dict_sum (\<lambda>k v. if k = p then f v else 0) d = (case get d p of None \<Rightarrow> 0 | Some v \<Rightarrow> f v)"
proof (induction d)
  case (Cons e d)
  have "get d p = None \<Longrightarrow> dict_sum (\<lambda>k v. if k = p then f v else 0) d = 0"
    using Cons by (simp add: dict_ok_Cons)
  with Cons show ?case by (cases e) (auto simp: dict_ok_Cons)
qed simp

lemma db_amount_at:
  assumes "db_ok db"
  shows "db_amount (\<lambda>q. if q = p then w else (0, 0, 0)) (\<lambda>_. (0, 0, 0, 0, 0)) db = dot3 w (stored db p)"
    and "db_amount (\<lambda>_. (0, 0, 0)) (\<lambda>k. if k = q then u else (0, 0, 0, 0, 0)) db = dot5 u (stored_if db q)"
proof -
  have ok: "dict_ok (d_rollups db)" "dict_ok (d_interfaces db)" using assms by (simp_all add: db_ok_def)
  have 1: "table_measure (\<lambda>q. if q = p then w else (0, 0, 0)) = (\<lambda>k v. if k = p then dot3 w (fst v) else 0)"
    "if_measure (\<lambda>_. (0, 0, 0, 0, 0)) = (\<lambda>k v. 0)"
    by (auto simp: table_measure_def if_measure_def fun_eq_iff)
  have 2: "table_measure (\<lambda>_ :: 'a rollup_key. (0, 0, 0)) = (\<lambda>k v. 0)"
    "if_measure (\<lambda>k. if k = q then u else (0, 0, 0, 0, 0)) = (\<lambda>k v. if k = q then dot5 u v else 0)"
    by (auto simp: table_measure_def if_measure_def fun_eq_iff)
  show "db_amount (\<lambda>q. if q = p then w else (0, 0, 0)) (\<lambda>_. (0, 0, 0, 0, 0)) db = dot3 w (stored db p)"
    unfolding db_amount_def 1 using dict_sum_at[OF ok(1), of p "\<lambda>v. dot3 w (fst v)"]
    by (auto simp: stored_def split: option.splits)
  show "db_amount (\<lambda>_. (0, 0, 0)) (\<lambda>k. if k = q then u else (0, 0, 0, 0, 0)) db = dot5 u (stored_if db q)"
    unfolding db_amount_def 2 using dict_sum_at[OF ok(2), of q "dot5 u"]
    by (auto simp: stored_if_def split: option.splits)
qed

text \<open>
  C12. Whatever the interleaving of consumption, flushes, refreshes, refused transactions and
  failing acknowledgements, the rollup tables hold exactly the contributions of some first
  messages of the stream, each counted once; the accumulators hold exactly the rest; and
  only messages whose contributions are committed have been acknowledged. The one exception
  is a connection lost between a commit and its confirmation.
\<close>

theorem persisted_exactly_once:
  assumes "\<forall>ev \<in> set evs. commit_known ev"
    and "flow_run inet evs (flow_start c, []) = (s, lg)"
  shows "\<exists>n \<le> length lg.
      (\<forall>p. stored (fs_db s) p = sum3 (rows_for inet p (row_log (take n lg)))) \<and>
      (\<forall>q. stored_if (fs_db s) q = sum5 (ifs_for q (if_log (take n lg)))) \<and>
      (\<forall>p. sum3 (rows_for inet p (a_accumulator (fs_agg s))) = sum3 (rows_for inet p (row_log (drop n lg)))) \<and>
      (\<forall>q. sum5 (ifs_for q (a_interface_accumulator (fs_agg s))) = sum5 (ifs_for q (if_log (drop n lg)))) \<and>
      set (fs_acked s) \<subseteq> fst ` set (take n lg)"
proof -
  have "flow_inv inet (s, lg)" using flow_inv_run[OF flow_inv_start assms(1), of inet c] assms(2) by simp
  then obtain j n where inv: "flow_inv_at inet s lg j n" by (auto simp: flow_inv_def)
  then have n: "n \<le> length lg" "set (fs_acked s) \<subseteq> fst ` set (take n lg)" and ok: "db_ok (fs_db s)"
    and db: "\<And>w u. db_amount w u (fs_db s) = log_amount inet w u (take n lg)"
    and acc: "\<And>w u. amount inet w u (a_accumulator (fs_agg s)) (a_interface_accumulator (fs_agg s))
      = log_amount inet w u (drop n lg)"
    by (simp_all add: flow_inv_at_def Let_def)
  note at = amount_rows_for amount_ifs_for
  have "stored (fs_db s) p = sum3 (rows_for inet p (row_log (take n lg)))" for p
    by (rule dot3_eqI) (simp only: db_amount_at(1)[OF ok, symmetric] db log_amount_def at)
  moreover have "stored_if (fs_db s) q = sum5 (ifs_for q (if_log (take n lg)))" for q
    by (rule dot5_eqI) (simp only: db_amount_at(2)[OF ok, symmetric] db log_amount_def at)
  moreover have "sum3 (rows_for inet p (a_accumulator (fs_agg s))) = sum3 (rows_for inet p (row_log (drop n lg)))" for p
    by (rule dot3_eqI) (rule trans[OF at(1)[symmetric] trans[OF acc trans[OF log_amount_def at(1)]]])
  moreover have "sum5 (ifs_for q (a_interface_accumulator (fs_agg s))) = sum5 (ifs_for q (if_log (drop n lg)))" for q
    by (rule dot5_eqI) (rule trans[OF at(2)[symmetric] trans[OF acc trans[OF log_amount_def at(2)]]])
  ultimately show ?thesis using n by blast
qed

theorem persisted_exactly_once_witness:
  "\<exists>n \<le> length (snd (flow_run Some
       [Consume 0 100 (''1-0'', [''src'' \<mapsto> ''10.0.0.1'', ''dst'' \<mapsto> ''10.0.0.2'', ''b'' \<mapsto> ''1500'']),
        Flush_begin, Consume 0 101 (''2-0'', [''src'' \<mapsto> ''10.0.0.1'']),
        Flush_end No_fault True 1] (flow_start (FlowCorrelator True), []))).
     set (fs_acked (fst (flow_run Some
       [Consume 0 100 (''1-0'', [''src'' \<mapsto> ''10.0.0.1'', ''dst'' \<mapsto> ''10.0.0.2'', ''b'' \<mapsto> ''1500'']),
        Flush_begin, Consume 0 101 (''2-0'', [''src'' \<mapsto> ''10.0.0.1'']),
        Flush_end No_fault True 1] (flow_start (FlowCorrelator True), []))))
     \<subseteq> fst ` set (take n (snd (flow_run Some
       [Consume 0 100 (''1-0'', [''src'' \<mapsto> ''10.0.0.1'', ''dst'' \<mapsto> ''10.0.0.2'', ''b'' \<mapsto> ''1500'']),
        Flush_begin, Consume 0 101 (''2-0'', [''src'' \<mapsto> ''10.0.0.1'']),
        Flush_end No_fault True 1] (flow_start (FlowCorrelator True), []))))"
  using persisted_exactly_once[OF _ prod.collapse[symmetric], of
      "[Consume 0 100 (''1-0'', [''src'' \<mapsto> ''10.0.0.1'', ''dst'' \<mapsto> ''10.0.0.2'', ''b'' \<mapsto> ''1500'']),
        Flush_begin, Consume 0 101 (''2-0'', [''src'' \<mapsto> ''10.0.0.1'']), Flush_end No_fault True 1]"
      Some "FlowCorrelator True"]
  by (simp only: list.set ball_simps) (simp only: commit_known_def flow_event.case; blast)

subsection \<open>A quiet flush empties the accumulators\<close>

lemma deduct_self:
  assumes "\<And>x y. cnt (sub x y) = cnt x - cnt y" and "dict_ok d"
  shows "fold (deduct_one sub cnt) d d = []"
  using assms(2)
proof (induction d)
  case (Cons kv d)
  have "del (fst kv) d = d" using Cons.prems by (simp add: dict_ok_Cons delete_id map_of_eq_None_iff)
  then have "deduct_one sub cnt kv (kv # d) = d" by (simp add: deduct_one_def assms(1))
  with Cons show ?case by (simp add: dict_ok_Cons)
qed simp

text \<open>
  A flush during which no message arrives, whose transaction commits and whose
  acknowledgements succeed, leaves both accumulators and the list of pending messages empty.
\<close>

lemma quiet_flush_empties:
  assumes "dict_ok (a_accumulator a)" "dict_ok (a_interface_accumulator a)" "a_redis a"
    and "flush_begin a = Some sn"
    and "fst (write_rollups inet No_fault (group_rows (sn_accumulator sn)) (group_if_rows (sn_interfaces sn)) db) = Inr ()"
    and "flush_end inet No_fault pipe_ok (length (a_pending_msg_ids a)) sn (a, db) = ((a', db'), ids)"
  shows "a_accumulator a' = [] \<and> a_interface_accumulator a' = [] \<and> a_pending_msg_ids a' = []
    \<and> ids = a_pending_msg_ids a"
proof -
  have sn: "sn_accumulator sn = a_accumulator a" "sn_interfaces sn = a_interface_accumulator a"
    "sn_pending sn = a_pending_msg_ids a"
    using assms(4) by (auto simp: flush_begin_def split: if_splits)
  have d: "deduct (a_accumulator a) (a_accumulator a) = []"
    "deduct_if (a_interface_accumulator a) (a_interface_accumulator a) = []"
    unfolding deduct_def deduct_if_def using assms(1,2) by (simp_all add: deduct_self)
  have len: "length (chunks n xs) \<le> length xs" for n and xs :: "string list"
    by (induction n xs rule: chunks.induct) (subst chunks.simps, auto simp: neq_Nil_conv)
  have ack: "ack_pending (length (a_pending_msg_ids a)) (a_pending_msg_ids a) b
      = (b\<lparr>a_pending_msg_ids := drop (length (a_pending_msg_ids a)) (a_pending_msg_ids b)\<rparr>, a_pending_msg_ids a)" for b
    using len[of 500 "a_pending_msg_ids a"] by (simp add: ack_pending_def Let_def not_less)
  have "group_rows (a_accumulator a) = [] \<Longrightarrow> a_accumulator a = []"
    "group_if_rows (a_interface_accumulator a) = [] \<Longrightarrow> a_interface_accumulator a = []"
    using group_rows_keys[of "a_accumulator a"] group_if_rows_keys[of "a_interface_accumulator a"] by auto
  then show ?thesis
    using assms(3,5,6) d ack
    by (cases "write_rollups inet No_fault (group_rows (a_accumulator a)) (group_if_rows (a_interface_accumulator a)) db")
      (auto simp: flush_end_def sn Let_def split: if_splits prod.splits)
qed

lemma quiet_flush_empties_witness:
  "a_accumulator (fst (fst (flush_end Some No_fault True 1
     \<lparr>sn_accumulator = [((60, 0, None, None, ''10.0.0.1'', ''10.0.0.2'', 6, 443), (1500, 10, 1))], sn_interfaces = [],
      sn_active = {}, sn_pending = [''1-0'']\<rparr>
     ((FlowAggregator True (FlowCorrelator True))
        \<lparr>a_accumulator := [((60, 0, None, None, ''10.0.0.1'', ''10.0.0.2'', 6, 443), (1500, 10, 1))],
         a_pending_msg_ids := [''1-0'']\<rparr>, \<lparr>d_rollups = [], d_interfaces = []\<rparr>)))) = []"
proof -
  let ?k = "((60, 0, None, None, ''10.0.0.1'', ''10.0.0.2'', 6, 443), (1500, 10, 1))"
  let ?a = "(FlowAggregator True (FlowCorrelator True))\<lparr>a_accumulator := [?k], a_pending_msg_ids := [''1-0'']\<rparr>"
  have "fst (write_rollups Some No_fault (group_rows [?k]) (group_if_rows []) \<lparr>d_rollups = [], d_interfaces = []\<rparr>) = Inr ()"
    by (simp add: write_rollups_def group_rows_def group_if_rows_def chunks.simps insert_rollup_def
        smallint_def integer_def bigint_def Let_def)
  moreover obtain a' db' ids where "flush_end Some No_fault True (length (a_pending_msg_ids ?a))
      \<lparr>sn_accumulator = [?k], sn_interfaces = [], sn_active = {}, sn_pending = [''1-0'']\<rparr>
      (?a, \<lparr>d_rollups = [], d_interfaces = []\<rparr>) = ((a', db'), ids)"
    by (metis prod.exhaust)
  ultimately show ?thesis
    using quiet_flush_empties[where a = ?a and inet = Some and pipe_ok = True and a' = a' and db' = db' and ids = ids
        and db = "\<lparr>d_rollups = [], d_interfaces = []\<rparr>"
        and sn = "\<lparr>sn_accumulator = [?k], sn_interfaces = [], sn_active = {}, sn_pending = [''1-0'']\<rparr>"]
    by (simp add: flush_begin_def FlowAggregator_def dict_ok_def)
qed

subsection \<open>One row that the table refuses\<close>

lemma fold_result_stuck:
  "x \<in> set xs \<Longrightarrow> (\<And>s. \<exists>e. f x s = Inl e) \<Longrightarrow> \<exists>e. fold_result f xs s = Inl e"
  by (induction xs arbitrary: s) (auto split: sum.splits, metis Inl_Inr_False)

definition unstorable :: "acc_key \<Rightarrow> bool" where
  \<comment> \<open>the protocol number does not fit its \<open>SmallInteger\<close> column\<close>
  "unstorable k \<longleftrightarrow> (case k of (_, _, _, _, _, _, proto, _) \<Rightarrow> \<not> smallint proto)"

lemma write_rollups_refused:
  assumes "k \<in> set (keys acc)" "unstorable k"
  shows "\<exists>e. write_rollups inet fault (group_rows acc) if_rows db = (Inl e, db)"
proof -
  have "row_key_of k \<in> row_pk ` set (group_rows acc)"
    unfolding group_rows_keys using assms(1) by (rule imageI)
  then obtain r where r: "r \<in> set (group_rows acc)" "row_pk r = row_key_of k" by (elim imageE) simp
  have "\<not> smallint (r_protocol r)"
    using r(2) assms(2) by (cases k) (auto simp: row_pk_def unstorable_def)
  then have "\<exists>e. insert_rollup inet r t = Inl e" for t
    by (auto simp: insert_rollup_def Let_def split: option.splits)
  then have "\<exists>e. fold_result (insert_rollup inet) (group_rows acc) (d_rollups db) = Inl e"
    using r(1) by (intro fold_result_stuck)
  then show ?thesis by (auto simp: write_rollups_def fold_chunks)
qed

definition stuck :: "acc_key \<Rightarrow> 'i flow_system \<Rightarrow> bool" where
  "stuck k s \<longleftrightarrow> k \<in> set (keys (a_accumulator (fs_agg s))) \<and>
     (case fs_flight s of None \<Rightarrow> True | Some sn \<Rightarrow> k \<in> set (keys (sn_accumulator sn)))"

lemma keys_fold_add_to: "set (keys d) \<subseteq> set (keys (fold (add_to add) kvs d))"
proof (induction kvs arbitrary: d)
  case (Cons kv kvs)
  have "set (keys d) \<subseteq> set (keys (add_to add kv d))" by (simp add: add_to_def dom_update subset_insertI)
  also have "\<dots> \<subseteq> set (keys (fold (add_to add) (kv # kvs) d))" using Cons.IH by (simp del: set_map)
  finally show ?case .
qed simp

lemma stuck_step:
  assumes "stuck k s" "unstorable k" "flow_step inet ev (s, lg) = (s', lg')"
  shows "stuck k s' \<and> fs_db s' = fs_db s \<and> fs_acked s' = fs_acked s"
proof (cases ev)
  case (Consume t now msg)
  obtain mid m where msg: "msg = (mid, m)" by (cases msg)
  obtain a' tasks where c: "consume_message t now (mid, m) (fs_agg s) = (a', tasks)"
    by (cases "consume_message t now (mid, m) (fs_agg s)")
  have "set (keys (a_accumulator (fs_agg s))) \<subseteq> set (keys (a_accumulator a'))"
    unfolding consume_message_adds(1)[OF c] by (rule keys_fold_add_to)
  then have "k \<in> set (keys (a_accumulator a'))" using assms(1) unfolding stuck_def by blast
  with assms(1,3) show ?thesis
    by (simp add: Consume msg c stuck_def del: set_map split: if_splits option.splits)
      (auto simp del: set_map)
next
  case Flush_begin
  with assms(1,3) show ?thesis
    by (auto simp: stuck_def flush_begin_def simp del: set_map split: option.splits if_splits)
next
  case (Flush_end fault pipe_ok c)
  show ?thesis
  proof (cases "fs_flight s")
    case (Some sn)
    then have k: "k \<in> set (keys (sn_accumulator sn))" using assms(1) by (simp add: stuck_def)
    obtain e where "write_rollups inet fault (group_rows (sn_accumulator sn)) (group_if_rows (sn_interfaces sn)) (fs_db s)
        = (Inl e, fs_db s)"
      using write_rollups_refused[OF k assms(2)] by blast
    moreover have "group_rows (sn_accumulator sn) \<noteq> []"
      using group_rows_keys[of "sn_accumulator sn"] k by auto
    ultimately have "flush_end inet fault pipe_ok c sn (fs_agg s, fs_db s) = ((fs_agg s, fs_db s), [])"
      by (simp add: flush_end_def Let_def)
    with assms(1,3) Some show ?thesis by (auto simp: Flush_end stuck_def)
  qed (use assms(1,3) in \<open>simp add: Flush_end\<close>)
next
  case (Refresh t)
  with assms(1,3) show ?thesis by (auto simp: stuck_def)
qed

text \<open>
  C14. One flow that the table cannot store stops the persistence of all flows for good: once
  an entry whose protocol number exceeds the column's 16 bits is accumulated, no later flush,
  whatever else arrives and whatever the database does, writes a row or acknowledges a
  message. (A NetFlow v9 or IPFIX template may declare the field wide enough.)
\<close>

theorem unstorable_flow_stalls:
  assumes "k \<in> set (keys (a_accumulator (fs_agg s)))" "unstorable k" "fs_flight s = None"
    and "flow_run inet evs (s, lg) = (s', lg')"
  shows "fs_db s' = fs_db s \<and> fs_acked s' = fs_acked s \<and> k \<in> set (keys (a_accumulator (fs_agg s')))"
proof -
  have "stuck k s \<Longrightarrow> fold (flow_step inet) evs (s, lg) = (s', lg') \<Longrightarrow>
      stuck k s' \<and> fs_db s' = fs_db s \<and> fs_acked s' = fs_acked s" for s lg
  proof (induction evs arbitrary: s lg)
    case (Cons ev evs)
    obtain s1 lg1 where s1: "flow_step inet ev (s, lg) = (s1, lg1)" by (cases "flow_step inet ev (s, lg)")
    with Cons show ?case using stuck_step[OF Cons.prems(1) assms(2) s1] by auto
  qed simp
  from this[of s lg] assms(1,3,4) show ?thesis by (simp add: stuck_def flow_run_def)
qed

theorem unstorable_flow_stalls_witness:
  "fs_db (fst (flow_run Some
       [Flush_begin, Flush_end No_fault True 1,
        Consume 0 100 (''1-0'', [''src'' \<mapsto> ''10.0.0.1'', ''dst'' \<mapsto> ''10.0.0.2'']), Flush_begin, Flush_end No_fault True 1]
       ((flow_start (FlowCorrelator True))\<lparr>fs_agg := (FlowAggregator True (FlowCorrelator True))
          \<lparr>a_accumulator := [((0, 0, None, None, ''10.0.0.1'', ''10.0.0.2'', 40000, 53), (100, 1, 1))]\<rparr>\<rparr>, [])))
     = \<lparr>d_rollups = [], d_interfaces = []\<rparr>"
  using unstorable_flow_stalls[OF _ _ _ prod.collapse[symmetric],
      of "(0, 0, None, None, ''10.0.0.1'', ''10.0.0.2'', 40000, 53)"
        "(flow_start (FlowCorrelator True))\<lparr>fs_agg := (FlowAggregator True (FlowCorrelator True))
          \<lparr>a_accumulator := [((0, 0, None, None, ''10.0.0.1'', ''10.0.0.2'', 40000, 53), (100, 1, 1))]\<rparr>\<rparr>"
        Some "[Flush_begin, Flush_end No_fault True 1,
        Consume 0 100 (''1-0'', [''src'' \<mapsto> ''10.0.0.1'', ''dst'' \<mapsto> ''10.0.0.2'']), Flush_begin, Flush_end No_fault True 1]" "[]"]
  by (simp add: unstorable_def smallint_def flow_start_def del: flow_step.simps)

end
