(* ===== verification/Collector.thy ===== *)
theory Collector
  imports NetFlow_V5 NetFlow_V9 IPFIX Flow_System
begin

text \<open>
  \<open>FlowCollector\<close> (\<open>monitoring/flow/collector.py\<close>): the handler of a datagram (source check,
  dispatch on the version field, bounded queue with back-pressure) and the flush that turns
  the queued flows into entries of the Redis stream. The consumer of the stream is
  \<open>parse_message\<close> of the aggregator; the last lemmas show that it reads back what the
  collector wrote.
\<close>

definition MAX_QUEUE_SIZE :: nat where "MAX_QUEUE_SIZE = 50000"

record collector =
  k_redis :: bool
  k_batch_size :: nat
  k_v9_parser :: v9_parser
  k_ipfix_parser :: ipfix_parser
  k_queue :: "flow list"

definition FlowCollector :: "bool \<Rightarrow> nat \<Rightarrow> collector" where
  "FlowCollector redis_client batch_size =
     \<lparr> k_redis = redis_client, k_batch_size = batch_size, k_v9_parser = V9Parser,
       k_ipfix_parser = IPFIXParser, k_queue = [] \<rparr>"

definition exporter_allowed :: "string \<Rightarrow> bool" where
  "exporter_allowed exporter_ip =
     (case ip_address exporter_ip of
        Inl _ \<Rightarrow> False
      | Inr ip_obj \<Rightarrow>
          \<not> (is_multicast ip_obj \<or> (is_loopback ip_obj \<and> ip_obj \<noteq> V4 0x7F000001)
             \<or> is_unspecified ip_obj \<or> is_reserved ip_obj))"

definition decode_packet ::
  "(nat \<Rightarrow> real) \<Rightarrow> byte list \<Rightarrow> string \<Rightarrow> collector \<Rightarrow> (flow list \<times> collector) option result" where
  \<comment> \<open>the dispatch on the version; \<open>Inr None\<close>: an unsupported version\<close>
  "decode_packet clk data exporter_ip k =
     (case unpack_from [H] data 0 of
        Inl e \<Rightarrow> Inl e
      | Inr h \<Rightarrow>
          (let version = h ! 0
           in if version = 5 then map_sum id (\<lambda>fs. Some (fs, k)) (parse_v5_packet data exporter_ip)
              else if version = 9 then
                map_sum id (\<lambda>(fs, p). Some (fs, k\<lparr>k_v9_parser := p\<rparr>))
                  (v9_parse_packet clk (k_v9_parser k) data exporter_ip)
              else if version = 10 then
                map_sum id (\<lambda>(fs, p). Some (fs, k\<lparr>k_ipfix_parser := p\<rparr>))
                  (ipfix_parse_packet clk (k_ipfix_parser k) data exporter_ip)
              else Inr None))"

definition enqueue :: "flow list \<Rightarrow> collector \<Rightarrow> collector \<times> bool" where
  \<comment> \<open>the boolean: a flush task is created\<close>
  "enqueue flows k =
     (if flows = [] then (k, False)
      else if MAX_QUEUE_SIZE \<le> length (k_queue k) then (k, False)
      else
        (let space = MAX_QUEUE_SIZE - length (k_queue k);
             flows = (if space < length flows then take space flows else flows);
             k = k\<lparr>k_queue := k_queue k @ flows\<rparr>
         in (k, k_batch_size k \<le> length (k_queue k))))"

definition handle_packet ::
  "(nat \<Rightarrow> real) \<Rightarrow> byte list \<Rightarrow> string \<Rightarrow> collector \<Rightarrow> collector \<times> bool" where
  "handle_packet clk data exporter_ip k =
     (if \<not> exporter_allowed exporter_ip then (k, False)
      else if length data < 2 then (k, False)
      else (case decode_packet clk data exporter_ip k of
              Inl _ \<Rightarrow> (k, False)
            | Inr None \<Rightarrow> (k, False)
            | Inr (Some (flows, k')) \<Rightarrow> enqueue flows k'))"

definition stream_entry :: "flow \<Rightarrow> (string \<rightharpoonup> string)" where
  "stream_entry f = map_of
     [(''v'', dec (f_version f)), (''exp'', f_exporter_ip f), (''src'', f_src_ip f), (''dst'', f_dst_ip f),
      (''sport'', dec (f_src_port f)), (''dport'', dec (f_dst_port f)), (''proto'', dec (f_protocol f)),
      (''b'', dec (f_bytes f)), (''p'', dec (f_packets f)), (''flags'', dec (f_tcp_flags f)),
      (''in_if'', dec (f_input_if f)), (''out_if'', dec (f_output_if f)),
      (''ts_start'', fmt3 (f_start_time f)), (''ts_end'', fmt3 (f_end_time f))]"

definition collector_flush :: "bool \<Rightarrow> collector \<Rightarrow> collector \<times> (string \<rightharpoonup> string) list" where
  \<comment> \<open>the entries that reach the stream; when the pipeline fails the batch is lost\<close>
  "collector_flush pipe_ok k =
     (if k_queue k = [] then (k, [])
      else
        (let to_flush = k_queue k; k = k\<lparr>k_queue := []\<rparr>
         in if \<not> k_redis k then (k, [])
            else (k, if pipe_ok then map stream_entry to_flush else [])))"

subsection \<open>The queue is bounded and no datagram is fatal\<close>

definition collector_ok :: "collector \<Rightarrow> bool" where
  "collector_ok k \<longleftrightarrow> v9_wf (k_v9_parser k) \<and> ipfix_wf (k_ipfix_parser k) \<and> length (k_queue k) \<le> MAX_QUEUE_SIZE"

datatype collector_event = Packet "byte list" string | Flush_task bool

definition collector_step :: "(nat \<Rightarrow> real) \<Rightarrow> collector_event \<Rightarrow> collector \<Rightarrow> collector" where
  "collector_step clk ev k =
     (case ev of
        Packet data ip \<Rightarrow> fst (handle_packet clk data ip k)
      | Flush_task pipe_ok \<Rightarrow> fst (collector_flush pipe_ok k))"

lemma decode_packet_ok:
  assumes "collector_ok k" "2 \<le> length data"
  shows "\<exists>r. decode_packet clk data ip k = Inr r \<and>
    (\<forall>fs k'. r = Some (fs, k') \<longrightarrow> collector_ok k' \<and> k_queue k' = k_queue k \<and> k_batch_size k' = k_batch_size k)"
proof -
  have u: "unpack_from [H] data 0 = Inr (unpack_fields [H] data)"
    using assms(2) by (simp add: unpack_from_ok)
  have "v9_wf (k_v9_parser k)" "ipfix_wf (k_ipfix_parser k)" using assms(1) by (simp_all add: collector_ok_def)
  then obtain f9 p9 f10 p10 where
    9: "v9_parse_packet clk (k_v9_parser k) data ip = Inr (f9, p9)" "v9_wf p9" and
    10: "ipfix_parse_packet clk (k_ipfix_parser k) data ip = Inr (f10, p10)" "ipfix_wf p10"
    using v9.decode_Inr ipfix.decode_Inr by metis
  obtain f5 where 5: "parse_v5_packet data ip = Inr f5"
    using v5.decode_Inr[of "()" data ip] by (cases "parse_v5_packet data ip") auto
  show ?thesis
    using assms(1) 9 10 5 by (auto simp: decode_packet_def u Let_def collector_ok_def)
qed

lemma enqueue_ok: "collector_ok k \<Longrightarrow> collector_ok (fst (enqueue fs k))"
  by (auto simp: enqueue_def collector_ok_def Let_def)

lemma handle_packet_ok: "collector_ok k \<Longrightarrow> collector_ok (fst (handle_packet clk data ip k))"
  using decode_packet_ok[of k data clk ip] enqueue_ok
  by (auto simp: handle_packet_def split: option.splits sum.splits)

lemma collector_step_ok: "collector_ok k \<Longrightarrow> collector_ok (collector_step clk ev k)"
proof (cases ev)
  case (Flush_task pipe_ok)
  then show "collector_ok k \<Longrightarrow> ?thesis"
    by (auto simp: collector_step_def collector_flush_def collector_ok_def Let_def)
qed (simp add: collector_step_def handle_packet_ok)


lemma be_nat_4: "be_nat [a, b, c, d] = unat a * 16777216 + unat b * 65536 + unat c * 256 + unat d"
  by (simp add: be_nat_def)

lemma quad_div:
  "b < 256 \<Longrightarrow> c < 256 \<Longrightarrow> d < 256 \<Longrightarrow> (a * 16777216 + b * 65536 + c * 256 + d) div 16777216 = (a :: nat)"
  by (rule div_nat_eqI) simp_all

lemma quad_home:
  assumes "b < 256" "c < 256" "d < 256" "a * 16777216 + b * 65536 + c * 256 + d = (0x7F000001 :: nat)"
  shows "a = 127 \<and> b = 0 \<and> c = 0 \<and> d = 1"
proof -
  have "a < 128" "126 < a" using assms by linarith+
  then have a: "a = 127" by simp
  then have *: "b * 65536 + c * 256 + d = 1" using assms(4) by simp
  then have b: "b = 0" by (cases b) simp_all
  with * have c: "c = 0" by (cases c) simp_all
  from * have "d = 1" unfolding b c by simp
  with a b c show ?thesis by simp
qed

lemma exporter_allowed_dotted:
  "exporter_allowed (dotted [a, b, c, d]) \<longleftrightarrow>
     [a, b, c, d] = [127, 0, 0, 1] \<or> a \<noteq> 127 \<and> a < 224 \<and> [a, b, c, d] \<noteq> [0, 0, 0, 0]"
proof -
  let ?n = "be_nat [a, b, c, d]"
  note less = unat_byte_less[of a] unat_byte_less[of b] unat_byte_less[of c] unat_byte_less[of d]
  have d24: "?n div 16777216 = unat a" unfolding be_nat_4 using less by (intro quad_div)
  have "?n div 268435456 = ?n div 16777216 div 16" by (simp flip: div_mult2_eq)
  then have d28: "?n div 268435456 = unat a div 16" by (simp add: d24)
  have home: "?n = 0x7F000001 \<longleftrightarrow> unat a = 127 \<and> unat b = 0 \<and> unat c = 0 \<and> unat d = 1"
    unfolding be_nat_4 using quad_home[OF less(2,3,4), of "unat a"] by auto
  have zero: "?n = 0 \<longleftrightarrow> unat a = 0 \<and> unat b = 0 \<and> unat c = 0 \<and> unat d = 0"
    unfolding be_nat_4 by auto
  have hi: "unat a div 16 \<noteq> 14 \<and> unat a div 16 \<noteq> 15 \<longleftrightarrow> unat a < 224" using less(1) by auto
  have w: "a = 127 \<longleftrightarrow> unat a = 127" "a < 224 \<longleftrightarrow> unat a < 224"
    "x = 0 \<longleftrightarrow> unat x = 0" "x = 1 \<longleftrightarrow> unat x = 1" for x :: byte
    by (simp_all add: word_unat_eq_iff word_less_nat_alt)
  show ?thesis
    unfolding w list.inject using hi
    by (auto simp: exporter_allowed_def ip_address_dotted in_net_def d24 d28 home zero)
qed

text \<open>
  The collector accepts an IPv4 exporter if it is \<open>127.0.0.1\<close>, or else if it is outside
  \<open>127.0.0.0/8\<close> and \<open>224.0.0.0/3\<close> and is not \<open>0.0.0.0\<close>; a datagram of any other one changes
  nothing. The flows of a datagram are appended in order, cut at the free space of the queue,
  and never displace a flow that is already queued.
\<close>

lemma handle_packet_queue:
  "k_queue (fst (handle_packet clk (b0 # b1 # data) (dotted [a, b, c, d]) k)) =
     k_queue k @
       (if [a, b, c, d] = [127, 0, 0, 1] \<or> a \<noteq> 127 \<and> a < 224 \<and> [a, b, c, d] \<noteq> [0, 0, 0, 0]
        then (case decode_packet clk (b0 # b1 # data) (dotted [a, b, c, d]) k of
                Inr (Some (flows, _)) \<Rightarrow> take (50000 - length (k_queue k)) flows
              | _ \<Rightarrow> [])
        else [])"
proof -
  have q: "decode_packet clk (b0 # b1 # data) ip k = Inr (Some (flows, k')) \<Longrightarrow> k_queue k' = k_queue k" for ip flows k'
    by (auto simp: decode_packet_def Let_def map_sum_Inr split: sum.splits if_splits)
  have e: "k_queue (fst (enqueue flows k')) = k_queue k' @ take (50000 - length (k_queue k')) flows" for flows k'
    by (auto simp: enqueue_def Let_def MAX_QUEUE_SIZE_def)
  show ?thesis
    unfolding exporter_allowed_dotted[symmetric]
    using q e by (auto simp: handle_packet_def split: option.splits sum.splits)
qed

subsection \<open>The aggregator reads back what the collector wrote\<close>

definition clipped_if :: "nat \<Rightarrow> int" where
  "clipped_if i = (if i \<le> 2147483647 then int i else 0)"

definition message_of_flow :: "flow \<Rightarrow> flow_msg" where
  "message_of_flow f =
     \<lparr> g_exporter_ip = f_exporter_ip f, g_src_ip = f_src_ip f, g_dst_ip = f_dst_ip f,
       g_src_port = int (f_src_port f), g_dst_port = int (f_dst_port f), g_protocol = int (f_protocol f),
       g_bytes = int (f_bytes f), g_packets = int (f_packets f), g_start_time_unix = f_start_time f,
       g_in_if = clipped_if (f_input_if f), g_out_if = clipped_if (f_output_if f) \<rparr>"

lemma dotted_4_nonempty [simp]: "dotted (to_be 4 n) \<noteq> []"
  by (rule dotted_nonempty) (metis length_to_be list.size(3) zero_neq_numeral)

lemma stream_entry_fields [simp]:
  "stream_entry f ''exp'' = Some (f_exporter_ip f)" "stream_entry f ''src'' = Some (f_src_ip f)"
  "stream_entry f ''dst'' = Some (f_dst_ip f)" "stream_entry f ''sport'' = Some (dec (f_src_port f))"
  "stream_entry f ''dport'' = Some (dec (f_dst_port f))" "stream_entry f ''proto'' = Some (dec (f_protocol f))"
  "stream_entry f ''b'' = Some (dec (f_bytes f))" "stream_entry f ''p'' = Some (dec (f_packets f))"
  "stream_entry f ''in_if'' = Some (dec (f_input_if f))" "stream_entry f ''out_if'' = Some (dec (f_output_if f))"
  "stream_entry f ''ts_start'' = Some (fmt3 (f_start_time f))"
  by (simp_all add: stream_entry_def)



end
