(* ===== verification/Ping.thy ===== *)
theory Ping
  imports Py_Number
begin

text \<open>
  Ping cycles (\<open>monitoring/ping.py\<close>): the result of a cycle and its health score, the chain of
  fallbacks from the privileged socket over the unprivileged one to the system command, the
  reading of that command's output, and the classification of a result into states. The
  ICMP library (\<open>async_ping\<close>) and the spawned process are parameters: each answers or raises.
\<close>

record ping_result =
  success_count :: nat
  failed_count :: nat
  avg_rtt_ms :: "real option"

definition total_count :: "ping_result \<Rightarrow> nat" where
  "total_count r = success_count r + failed_count r"

definition health_score :: "ping_result \<Rightarrow> real" where
  "health_score r =
     (let n = total_count r in if n = 0 then 0 else round2 (real (success_count r) / real n * 100))"

subsection \<open>Classification\<close>

definition classify_ping_result ::
  "ping_result \<Rightarrow> real option \<Rightarrow> real option \<Rightarrow> real \<Rightarrow> string \<times> string" where
  "classify_ping_result r baseline_mean baseline_stddev k =
     (if total_count r = 0 \<or> success_count r = 0 then (''DOWN'', ''DOWN'')
      else
        (let ratio = real (success_count r) / real (total_count r)
         in if 1 \<le> ratio then
              (case (baseline_mean, baseline_stddev, avg_rtt_ms r) of
                 (Some mean, Some stddev, Some rtt) \<Rightarrow>
                   (let safe_stddev = max stddev 2; threshold = mean + k * safe_stddev
                    in if threshold < rtt then (''UP'', ''UP-UNSTABLE'') else (''UP'', ''UP''))
               | _ \<Rightarrow> (''UP'', ''UP''))
            else if 0.6 \<le> ratio then (''UP'', ''UP-UNSTABLE'')
            else if 0 < ratio then (''DOWN'', ''DOWN-UNSTABLE'')
            else (''DOWN'', ''DOWN'')))"

subsection \<open>The output of the system command\<close>

text \<open>
  The regular expressions, as functions on the text at a position: the character classes they
  repeat never contain the character that follows, so the greedy match is the only one.
\<close>

definition is_digit :: "char \<Rightarrow> bool" where "is_digit c \<longleftrightarrow> digit_val c \<noteq> None"

definition many1 :: "(char \<Rightarrow> bool) \<Rightarrow> string \<Rightarrow> (string \<times> string) option" where
  "many1 P s = (let w = takeWhile P s in if w = [] then None else Some (w, dropWhile P s))"

definition literal :: "string \<Rightarrow> string \<Rightarrow> string option" where
  "literal w s = (if take (length w) s = w then Some (drop (length w) s) else None)"

definition spaces :: "string \<Rightarrow> string option" where
  "spaces s = map_option snd (many1 is_space s)"

fun search :: "(string \<Rightarrow> 'a option) \<Rightarrow> string \<Rightarrow> 'a option" where
  \<comment> \<open>\<open>re.search\<close>: the leftmost match\<close>
  "search m [] = m []"
| "search m (c # cs) = (case m (c # cs) of Some x \<Rightarrow> Some x | None \<Rightarrow> search m cs)"

definition int_of_digits :: "string \<Rightarrow> nat" where
  "int_of_digits w = the (digits_val 0 w)"

definition match_received :: "string \<Rightarrow> nat option" where
  \<comment> \<open>\<open>(\d+)\s+(packets\s+)?received\<close>\<close>
  "match_received s =
     (case many1 is_digit s of
        None \<Rightarrow> None
      | Some (rx, s1) \<Rightarrow>
          (case spaces s1 of
             None \<Rightarrow> None
           | Some s2 \<Rightarrow>
               (let after_packets = (case literal ''packets'' s2 of None \<Rightarrow> None | Some s3 \<Rightarrow> spaces s3);
                    s4 = (case after_packets of None \<Rightarrow> s2 | Some t \<Rightarrow> t)
                in if literal ''received'' s4 = None then None else Some (int_of_digits rx))))"

definition match_stats :: "string \<Rightarrow> (nat \<times> nat) option" where
  \<comment> \<open>\<open>(\d+) packets transmitted,\s+(\d+)\s+(packets\s+)?received\<close>\<close>
  "match_stats s =
     (case many1 is_digit s of
        None \<Rightarrow> None
      | Some (tx, s1) \<Rightarrow>
          (case literal '' packets transmitted,'' s1 of
             None \<Rightarrow> None
           | Some s2 \<Rightarrow>
               (case spaces s2 of
                  None \<Rightarrow> None
                | Some s3 \<Rightarrow> map_option (\<lambda>rx. (int_of_digits tx, rx)) (match_received s3))))"

definition match_transmitted :: "string \<Rightarrow> nat option" where
  \<comment> \<open>\<open>(\d+)\s+packets transmitted\<close>\<close>
  "match_transmitted s =
     (case many1 is_digit s of
        None \<Rightarrow> None
      | Some (tx, s1) \<Rightarrow>
          (case spaces s1 of
             None \<Rightarrow> None
           | Some s2 \<Rightarrow> if literal ''packets transmitted'' s2 = None then None else Some (int_of_digits tx)))"

definition match_rtt :: "string \<Rightarrow> string \<Rightarrow> string \<Rightarrow> string option" where
  \<comment> \<open>\<open>name\s+columns\s+=\s+[\d\.]+/(?P<avg>[\d\.]+)/\<close>\<close>
  "match_rtt name columns s =
     (let number = many1 (\<lambda>c. is_digit c \<or> c = CHR ''.'')
      in case Option.bind (literal name s) spaces of
           None \<Rightarrow> None
         | Some s1 \<Rightarrow>
             (case Option.bind (Option.bind (Option.bind (literal columns s1) spaces) (literal ''='')) spaces of
                None \<Rightarrow> None
              | Some s2 \<Rightarrow>
                  (case Option.bind (map_option snd (number s2)) (literal ''/'') of
                     None \<Rightarrow> None
                   | Some s3 \<Rightarrow>
                       (case number s3 of
                          None \<Rightarrow> None
                        | Some (avg, s4) \<Rightarrow> if literal ''/'' s4 = None then None else Some avg))))"

definition rtt_of :: "string \<Rightarrow> real option result" where
  "rtt_of stdout =
     (case search (match_rtt ''rtt'' ''min/avg/max/mdev'') stdout of
        Some avg \<Rightarrow> map_sum id Some (py_float avg)
      | None \<Rightarrow>
          (case search (match_rtt ''round-trip'' ''min/avg/max'') stdout of
             Some avg \<Rightarrow> map_sum id Some (py_float avg)
           | None \<Rightarrow> Inr None))"

definition run_system_ping_fallback :: "nat \<Rightarrow> string result \<Rightarrow> ping_result" where
  \<comment> \<open>the second argument: the output of the process, or the failure to run it\<close>
  "run_system_ping_fallback count stdout =
     (let failure = \<lparr>success_count = 0, failed_count = count, avg_rtt_ms = None\<rparr>
      in case stdout of
           Inl _ \<Rightarrow> failure
         | Inr out \<Rightarrow>
             (let (transmitted, received) =
                    (case search match_stats out of
                       Some (tx, rx) \<Rightarrow> (tx, rx)
                     | None \<Rightarrow>
                         (case search match_transmitted out of None \<Rightarrow> 0 | Some tx \<Rightarrow> tx,
                          case search match_received out of None \<Rightarrow> 0 | Some rx \<Rightarrow> rx));
                  transmitted = (if transmitted = 0 then count else transmitted)
              in case rtt_of out of
                   Inl _ \<Rightarrow> failure
                 | Inr avg_rtt \<Rightarrow>
                     \<lparr>success_count = received, failed_count = transmitted - received, avg_rtt_ms = avg_rtt\<rparr>))"

subsection \<open>The chain of fallbacks\<close>

record host =
  packets_sent :: nat
  packets_received :: nat
  host_avg_rtt :: real

definition result_of_host :: "host \<Rightarrow> ping_result" where
  "result_of_host h =
     \<lparr>success_count = packets_received h, failed_count = packets_sent h - packets_received h,
      avg_rtt_ms = (if 0 < packets_received h then Some (host_avg_rtt h) else None)\<rparr>"

definition run_ping_cycle ::
  "(bool \<Rightarrow> host result) \<Rightarrow> string result \<Rightarrow> nat \<Rightarrow> bool \<Rightarrow> ping_result" where
  \<comment> \<open>\<open>async_ping privileged\<close> and the output of the system command are the environment's answers\<close>
  "run_ping_cycle async_ping stdout count privileged =
     (case async_ping privileged of
        Inr h \<Rightarrow> result_of_host h
      | Inl _ \<Rightarrow>
          if privileged then
            (case async_ping False of
               Inr h \<Rightarrow> result_of_host h
             | Inl _ \<Rightarrow> run_system_ping_fallback count stdout)
          else run_system_ping_fallback count stdout)"

subsection \<open>Properties\<close>

lemma health_score_bounds: "0 \<le> health_score r" "health_score r \<le> 100"
proof -
  have "0 \<le> health_score r \<and> health_score r \<le> 100"
  proof (cases "total_count r = 0")
    case False
    have "real (success_count r) / real (total_count r) * 100 \<le> 100"
      using False by (auto simp: total_count_def divide_simps)
    from round2_bounds[OF _ this] False show ?thesis by (simp add: health_score_def Let_def)
  qed (simp add: health_score_def)
  then show "0 \<le> health_score r" "health_score r \<le> 100" by simp_all
qed

text \<open>
  The classification by integer arithmetic: no reply is DOWN; all replies are UP, or
  UP-UNSTABLE when a baseline is known and the round-trip time exceeds the mean by more than
  three deviations (at least two milliseconds each); at least three in five replies are
  UP-UNSTABLE, fewer are DOWN-UNSTABLE. The operational state is UP exactly from three in
  five on.
\<close>

lemma classify_ping_result_spec:
  "classify_ping_result r mean stddev 3 =
     (let s = success_count r; f = failed_count r;
          slow = (\<exists>m d t. mean = Some m \<and> stddev = Some d \<and> avg_rtt_ms r = Some t \<and> m + 3 * max d 2 < t)
      in (if s \<noteq> 0 \<and> 3 * f \<le> 2 * s then ''UP'' else ''DOWN'',
          if s = 0 then ''DOWN'' else if f = 0 then (if slow then ''UP-UNSTABLE'' else ''UP'')
          else if 3 * f \<le> 2 * s then ''UP-UNSTABLE'' else ''DOWN-UNSTABLE''))"
proof (cases "success_count r = 0")
  case False
  let ?s = "success_count r" and ?f = "failed_count r"
  have pos: "0 < real ?s + real ?f" using False by simp
  have one: "1 \<le> real ?s / real (total_count r) \<longleftrightarrow> ?f = 0"
    using pos by (simp add: total_count_def le_divide_eq)
  have six: "0.6 \<le> real ?s / real (total_count r) \<longleftrightarrow> 3 * ?f \<le> 2 * ?s"
  proof -
    have "0.6 \<le> real ?s / real (total_count r) \<longleftrightarrow> 0.6 * (real ?s + real ?f) \<le> real ?s"
      using pos by (simp add: total_count_def le_divide_eq)
    also have "\<dots> \<longleftrightarrow> 3 * real ?f \<le> 2 * real ?s" by (simp add: field_simps)
    also have "\<dots> \<longleftrightarrow> 3 * ?f \<le> 2 * ?s" by (metis of_nat_le_iff of_nat_mult of_nat_numeral)
    finally show ?thesis .
  qed
  obtain q where q: "real ?s / real (total_count r) = q" by simp
  have "0 < q" using False pos q[symmetric] by (simp add: total_count_def)
  moreover have "total_count r \<noteq> 0" using False by (simp add: total_count_def)
  ultimately show ?thesis
    using False one six unfolding classify_ping_result_def Let_def q
    by (auto split: option.splits)
qed (simp add: classify_ping_result_def)

text \<open>
  A ping cycle always yields a result, whatever the ICMP library and the system command
  do: the privileged socket's answer if there is one, else the unprivileged one's, else the
  reading of the command's output; when all of them fail every ping counts as lost. Its
  health score lies between 0 and 100.
\<close>

lemma run_ping_cycle_total:
  "run_ping_cycle async_ping stdout count True =
     (case (async_ping True, async_ping False, stdout) of
        (Inr h, _, _) \<Rightarrow> result_of_host h
      | (Inl _, Inr h, _) \<Rightarrow> result_of_host h
      | (Inl _, Inl _, Inl _) \<Rightarrow> \<lparr>success_count = 0, failed_count = count, avg_rtt_ms = None\<rparr>
      | (Inl _, Inl _, Inr out) \<Rightarrow> run_system_ping_fallback count (Inr out))
   \<and> 0 \<le> health_score (run_ping_cycle async_ping stdout count privileged)
   \<and> health_score (run_ping_cycle async_ping stdout count privileged) \<le> 100"
  using health_score_bounds
  by (auto simp: run_ping_cycle_def run_system_ping_fallback_def split: sum.splits)

end
