(* ===== verification/Event_Store.thy ===== *)
theory Event_Store
  imports Ping
begin

text \<open>
  The table \<open>endpoint_events\<close> (\<open>app/models/endpoint_event.py\<close>) and the statements the
  monitoring engine runs on it, each as a function on the list of rows. Row ids, which the
  database generates, are parameters. \<open>EXTRACT(EPOCH FROM d)::integer\<close> rounds to the nearest
  second, halves away from zero; \<open>Numeric(_, 2)\<close> columns round likewise.
\<close>

record event =
  ev_id :: uuid
  ev_endpoint_id :: uuid
  ev_operational_state :: string
  ev_detailed_state :: string
  ev_success_count :: nat
  ev_failed_count :: nat
  ev_health_score :: real
  ev_avg_rtt_ms :: "real option"
  ev_is_split_event :: bool
  ev_start_time :: instant
  ev_end_time :: "instant option"
  ev_duration_seconds :: int
  ev_monitoring_cycle_count :: nat

type_synonym event_table = "event list"

definition round_away :: "real \<Rightarrow> int" where
  "round_away x = (if 0 \<le> x then \<lfloor>x + 1 / 2\<rfloor> else - \<lfloor>- x + 1 / 2\<rfloor>)"

definition numeric2 :: "real \<Rightarrow> real" where
  "numeric2 x = of_int (round_away (100 * x)) / 100"

definition epoch_seconds :: "instant \<Rightarrow> int" where
  "epoch_seconds d = round_away (of_int d / 1000000)"

lemma round_away_int [simp]: "round_away (of_int n) = n"
  by (simp add: round_away_def)

lemma epoch_seconds_sec [simp]: "epoch_seconds (sec n) = n"
  by (simp add: epoch_seconds_def)

lemma epoch_seconds_zero [simp]: "epoch_seconds 0 = 0"
  using epoch_seconds_sec[of 0] by simp

lemma epoch_seconds_nonneg: "0 \<le> d \<Longrightarrow> 0 \<le> epoch_seconds d"
  by (simp add: epoch_seconds_def round_away_def)

lemma epoch_seconds_mono: "0 \<le> a \<Longrightarrow> a \<le> b \<Longrightarrow> epoch_seconds a \<le> epoch_seconds b"
  by (simp add: epoch_seconds_def round_away_def floor_mono divide_right_mono)

subsection \<open>Statements\<close>

definition is_open :: "event \<Rightarrow> bool" where "is_open e \<longleftrightarrow> ev_end_time e = None"

definition insert_event ::
  "uuid \<Rightarrow> uuid \<Rightarrow> string \<Rightarrow> string \<Rightarrow> ping_result \<Rightarrow> bool \<Rightarrow> instant \<Rightarrow> event_table \<Rightarrow> event_table" where
  \<comment> \<open>the \<open>INSERT\<close> that opens an event; its result \<open>RETURNING id\<close> is the first argument\<close>
  "insert_event new_id endpoint_id operational_state detailed_state result split start_time tbl =
     tbl @ [\<lparr> ev_id = new_id, ev_endpoint_id = endpoint_id,
              ev_operational_state = operational_state, ev_detailed_state = detailed_state,
              ev_success_count = success_count result, ev_failed_count = failed_count result,
              ev_health_score = numeric2 (health_score result),
              ev_avg_rtt_ms = map_option numeric2 (avg_rtt_ms result),
              ev_is_split_event = split, ev_start_time = start_time, ev_end_time = None,
              ev_duration_seconds = 0, ev_monitoring_cycle_count = 1 \<rparr>]"

definition update_where :: "(event \<Rightarrow> bool) \<Rightarrow> (event \<Rightarrow> event) \<Rightarrow> event_table \<Rightarrow> event_table \<times> nat" where
  \<comment> \<open>\<open>UPDATE ... SET f WHERE P\<close>: the table and the row count\<close>
  "update_where P f tbl = (map (\<lambda>e. if P e then f e else e) tbl, length (filter P tbl))"

definition set_duration :: "instant \<Rightarrow> event \<Rightarrow> event" where
  "set_duration now e = e\<lparr>ev_duration_seconds := epoch_seconds (now - ev_start_time e)\<rparr>"

definition count_cycle :: "ping_result \<Rightarrow> event \<Rightarrow> event" where
  "count_cycle result e =
     e\<lparr> ev_monitoring_cycle_count := ev_monitoring_cycle_count e + 1,
        ev_success_count := ev_success_count e + success_count result,
        ev_failed_count := ev_failed_count e + failed_count result,
        ev_avg_rtt_ms := map_option numeric2 (avg_rtt_ms result),
        ev_health_score := numeric2 (health_score result) \<rparr>"

definition close_at :: "instant \<Rightarrow> event \<Rightarrow> event" where
  "close_at now e = (set_duration now e)\<lparr>ev_end_time := Some now\<rparr>"

definition touch_active :: "uuid \<Rightarrow> instant \<Rightarrow> ping_result \<Rightarrow> event_table \<Rightarrow> event_table \<times> nat" where
  "touch_active active now result =
     update_where (\<lambda>e. ev_id e = active \<and> is_open e) (\<lambda>e. count_cycle result (set_duration now e))"

definition rollover_active :: "uuid \<Rightarrow> instant \<Rightarrow> ping_result \<Rightarrow> event_table \<Rightarrow> event_table" where
  "rollover_active active now result tbl =
     fst (update_where (\<lambda>e. ev_id e = active \<and> is_open e) (\<lambda>e. count_cycle result (close_at now e)) tbl)"

definition close_open_events :: "uuid \<Rightarrow> instant \<Rightarrow> event_table \<Rightarrow> event_table" where
  "close_open_events ep now tbl =
     fst (update_where (\<lambda>e. ev_endpoint_id e = ep \<and> is_open e) (close_at now) tbl)"

definition active_duration :: "uuid \<Rightarrow> instant \<Rightarrow> event_table \<Rightarrow> int option" where
  \<comment> \<open>\<open>SELECT EXTRACT(EPOCH FROM (:now - start_time))::integer ... WHERE id = ... AND end_time IS NULL\<close>\<close>
  "active_duration active now tbl =
     (case filter (\<lambda>e. ev_id e = active \<and> is_open e) tbl of
        [] \<Rightarrow> None
      | e # _ \<Rightarrow> Some (epoch_seconds (now - ev_start_time e)))"

fun latest :: "event list \<Rightarrow> event option" where
  \<comment> \<open>\<open>ORDER BY start_time DESC LIMIT 1\<close>\<close>
  "latest [] = None"
| "latest (e # es) =
     (case latest es of
        None \<Rightarrow> Some e
      | Some e' \<Rightarrow> if ev_start_time e' \<le> ev_start_time e then Some e else Some e')"

definition latest_event :: "uuid \<Rightarrow> event_table \<Rightarrow> event option" where
  "latest_event ep tbl = latest (filter (\<lambda>e. ev_endpoint_id e = ep) tbl)"

subsection \<open>Facts\<close>

definition open_events :: "uuid \<Rightarrow> event_table \<Rightarrow> event list" where
  "open_events ep tbl = filter (\<lambda>e. ev_endpoint_id e = ep \<and> is_open e) tbl"

definition other_events :: "uuid \<Rightarrow> event_table \<Rightarrow> event list" where
  "other_events ep tbl = filter (\<lambda>e. ev_endpoint_id e \<noteq> ep) tbl"

definition ids_ok :: "event_table \<Rightarrow> bool" where "ids_ok tbl \<longleftrightarrow> distinct (map ev_id tbl)"

lemma row_ops_frame [simp]:
  "ev_id (set_duration t e) = ev_id e" "ev_id (count_cycle r e) = ev_id e" "ev_id (close_at t e) = ev_id e"
  "ev_endpoint_id (set_duration t e) = ev_endpoint_id e" "ev_endpoint_id (count_cycle r e) = ev_endpoint_id e"
  "ev_endpoint_id (close_at t e) = ev_endpoint_id e"
  "ev_detailed_state (set_duration t e) = ev_detailed_state e"
  "ev_detailed_state (count_cycle r e) = ev_detailed_state e" "ev_detailed_state (close_at t e) = ev_detailed_state e"
  "ev_operational_state (set_duration t e) = ev_operational_state e"
  "ev_operational_state (count_cycle r e) = ev_operational_state e"
  "ev_operational_state (close_at t e) = ev_operational_state e"
  "ev_start_time (set_duration t e) = ev_start_time e" "ev_start_time (count_cycle r e) = ev_start_time e"
  "ev_start_time (close_at t e) = ev_start_time e"
  "ev_end_time (set_duration t e) = ev_end_time e" "ev_end_time (count_cycle r e) = ev_end_time e"
  "ev_end_time (close_at t e) = Some t"
  "ev_success_count (set_duration t e) = ev_success_count e" "ev_success_count (close_at t e) = ev_success_count e"
  "ev_success_count (count_cycle r e) = ev_success_count e + success_count r"
  "ev_monitoring_cycle_count (set_duration t e) = ev_monitoring_cycle_count e"
  "ev_monitoring_cycle_count (close_at t e) = ev_monitoring_cycle_count e"
  "ev_monitoring_cycle_count (count_cycle r e) = ev_monitoring_cycle_count e + 1"
  by (simp_all add: set_duration_def count_cycle_def close_at_def)

lemma is_open_ops [simp]:
  "is_open (set_duration t e) = is_open e" "is_open (count_cycle r e) = is_open e" "\<not> is_open (close_at t e)"
  by (simp_all add: is_open_def)

lemma filter_map_frame:
  "(\<And>e. P e \<Longrightarrow> \<not> Q e) \<Longrightarrow> (\<And>e. P e \<Longrightarrow> \<not> Q (f e)) \<Longrightarrow>
   filter Q (map (\<lambda>e. if P e then f e else e) tbl) = filter Q tbl"
  by (induction tbl) auto

lemma open_close [simp]: "open_events ep (close_open_events ep now tbl) = []"
  unfolding open_events_def close_open_events_def update_where_def fst_conv
  by (induction tbl) simp_all

lemma other_close [simp]: "other_events ep (close_open_events ep now tbl) = other_events ep tbl"
  unfolding other_events_def close_open_events_def update_where_def fst_conv
  by (rule filter_map_frame) auto

lemma insert_events [simp]:
  "other_events ep (insert_event i ep op det r s t tbl) = other_events ep tbl"
  by (simp add: other_events_def insert_event_def)

lemma ids_update: "(\<And>e. ev_id (f e) = ev_id e) \<Longrightarrow> map ev_id (fst (update_where P f tbl)) = map ev_id tbl"
  by (simp add: update_where_def)

lemma ids_ok_ops [simp]:
  "ids_ok (fst (touch_active a t r tbl)) = ids_ok tbl" "ids_ok (rollover_active a t r tbl) = ids_ok tbl"
  "ids_ok (close_open_events ep t tbl) = ids_ok tbl"
  by (simp_all add: touch_active_def rollover_active_def close_open_events_def ids_ok_def ids_update)

lemma ids_ops [simp]:
  "ev_id ` set (fst (touch_active a t r tbl)) = ev_id ` set tbl"
  "ev_id ` set (rollover_active a t r tbl) = ev_id ` set tbl"
  "ev_id ` set (close_open_events ep t tbl) = ev_id ` set tbl"
  unfolding set_map[symmetric]
  by (simp_all only: touch_active_def rollover_active_def close_open_events_def ids_update row_ops_frame)

lemma ids_ok_insert [simp]:
  "ids_ok (insert_event i ep op det r s t tbl) \<longleftrightarrow> ids_ok tbl \<and> i \<notin> ev_id ` set tbl"
  by (auto simp: insert_event_def ids_ok_def)

lemma ids_notin: "i \<notin> ev_id ` set tbl \<Longrightarrow> e \<in> set tbl \<Longrightarrow> ev_id e \<noteq> i"
  by auto

lemma ids_ok_filter: "ids_ok tbl \<Longrightarrow> distinct (map ev_id (filter P tbl))"
  by (simp add: ids_ok_def distinct_map_filter)

lemma filter_id_distinct:
  "ids_ok tbl \<Longrightarrow> e \<in> set tbl \<Longrightarrow> ev_id e = i \<Longrightarrow> P e \<Longrightarrow> filter (\<lambda>e. ev_id e = i \<and> P e) tbl = [e]"
proof (induction tbl)
  case (Cons x tbl)
  show ?case
  proof (cases "x = e")
    case True
    have "i \<notin> set (map ev_id tbl)" using True Cons.prems unfolding ids_ok_def by auto
    then have "\<forall>y \<in> set tbl. ev_id y \<noteq> i" unfolding set_map by (metis imageI)
    with True Cons.prems(3,4) show ?thesis by simp
  next
    case False
    with Cons.prems have "ev_id x \<noteq> i" by (auto simp: ids_ok_def)
    with False Cons show ?thesis by (simp add: ids_ok_def)
  qed
qed simp

end
