(* ===== verification/State_Machine.thy ===== *)
theory State_Machine
  imports Event_Store
begin

text \<open>
  The monitoring state machine (\<open>monitoring/state_machine.py\<close>): the confirmation of a state
  change over N cycles, the effects of a confirmed transition, and the life of the rows in
  \<open>endpoint_events\<close>. A cycle takes the answers of its environment (clock, baseline, topology
  node, endpoint row, the id the database generates) and returns the new state, the new table
  and the background tasks it started, in order.
\<close>

record endpoint_state =
  s_endpoint_id :: uuid
  s_active_event_id :: uuid
  s_confirmed_operational_state :: string
  s_confirmed_detailed_state :: string
  s_pending_detailed_state :: "string option"
  s_pending_cycle_count :: int
  s_hostname :: "string option"
  s_ip_address :: "string option"

subsection \<open>The identity of an endpoint\<close>

record identity_sources =
  is_node :: "(string option \<times> string option \<times> string option) option"
    \<comment> \<open>label, hostname and address of the topology node; \<open>None\<close>: no node, or an exception\<close>
  is_row :: "(string option \<times> string option) option"
    \<comment> \<open>hostname and address of the endpoint's row; \<open>None\<close>: no row, or an exception\<close>

definition truthy :: "string option \<Rightarrow> bool" where
  "truthy x \<longleftrightarrow> x \<noteq> None \<and> x \<noteq> Some []"

definition py_or :: "string option \<Rightarrow> string option \<Rightarrow> string option" where
  "py_or x y = (if truthy x then x else y)"

definition resolve_endpoint_identity :: "identity_sources \<Rightarrow> string option \<times> string option" where
  "resolve_endpoint_identity src =
     (let (ep_hostname, ep_ip) =
            (case is_node src of
               None \<Rightarrow> (None, None)
             | Some (label, hostname, ip) \<Rightarrow> (py_or label hostname, ip))
      in if \<not> truthy ep_hostname \<or> \<not> truthy ep_ip then
           (case is_row src of
              None \<Rightarrow> (ep_hostname, ep_ip)
            | Some (row_hostname, row_ip) \<Rightarrow> (py_or ep_hostname row_hostname, py_or ep_ip row_ip))
         else (ep_hostname, ep_ip))"

subsection \<open>Starting up\<close>

definition initialize_endpoint :: "uuid \<Rightarrow> identity_sources \<Rightarrow> event_table \<Rightarrow> endpoint_state option" where
  "initialize_endpoint ep src tbl =
     (case latest_event ep tbl of
        None \<Rightarrow> None
      | Some row \<Rightarrow>
          (let (ep_hostname, ep_ip) = resolve_endpoint_identity src
           in Some \<lparr> s_endpoint_id = ep, s_active_event_id = ev_id row,
                s_confirmed_operational_state = ev_operational_state row,
                s_confirmed_detailed_state = ev_detailed_state row,
                s_pending_detailed_state = None, s_pending_cycle_count = 0,
                s_hostname = ep_hostname, s_ip_address = ep_ip \<rparr>))"

definition classify_with :: "(real \<times> real) option \<Rightarrow> ping_result \<Rightarrow> string \<times> string" where
  "classify_with baseline result =
     classify_ping_result result (map_option fst baseline) (map_option snd baseline) 3"

definition create_initial_event ::
  "uuid \<Rightarrow> ping_result \<Rightarrow> (real \<times> real) option \<Rightarrow> identity_sources \<Rightarrow> instant \<Rightarrow> uuid \<Rightarrow> event_table \<Rightarrow>
   endpoint_state \<times> event_table" where
  "create_initial_event ep result baseline src start_time new_id tbl =
     (let (operational_state, detailed_state) = classify_with baseline result;
          tbl = insert_event new_id ep operational_state detailed_state result False start_time tbl;
          (ep_hostname, ep_ip) = resolve_endpoint_identity src
      in (\<lparr> s_endpoint_id = ep, s_active_event_id = new_id,
            s_confirmed_operational_state = operational_state, s_confirmed_detailed_state = detailed_state,
            s_pending_detailed_state = None, s_pending_cycle_count = 0,
            s_hostname = ep_hostname, s_ip_address = ep_ip \<rparr>, tbl))"

subsection \<open>Confirmation\<close>

definition confirm :: "int \<Rightarrow> string \<times> string \<Rightarrow> endpoint_state \<Rightarrow> endpoint_state \<times> bool" where
  \<comment> \<open>the next state before its identity is refreshed; the boolean: a transition is confirmed\<close>
  "confirm threshold new st =
     (let (new_operational_state, new_detailed_state) = new
      in if new_detailed_state = s_confirmed_detailed_state st then
           (st\<lparr>s_pending_detailed_state := None, s_pending_cycle_count := 0\<rparr>, False)
         else if s_pending_detailed_state st = Some new_detailed_state then
           (let new_pending_count = s_pending_cycle_count st + 1
            in if new_pending_count < threshold then
                 (st\<lparr>s_pending_detailed_state := Some new_detailed_state,
                     s_pending_cycle_count := new_pending_count\<rparr>, False)
               else
                 (st\<lparr>s_confirmed_operational_state := new_operational_state,
                     s_confirmed_detailed_state := new_detailed_state,
                     s_pending_detailed_state := None, s_pending_cycle_count := 0\<rparr>, True))
         else
           (st\<lparr>s_pending_detailed_state := Some new_detailed_state, s_pending_cycle_count := 1\<rparr>, False))"

record transition =
  tr_endpoint_id :: uuid
  tr_hostname :: "string option"
  tr_ip_address :: "string option"
  tr_operational_state :: string
  tr_detailed_state :: string
  tr_avg_rtt_ms :: "real option"
  tr_health_score :: real
  tr_timestamp :: instant

datatype effect =
    Update_node_status uuid string
  | Sse_node_state_change uuid string
  | Sse_state_transition transition
  | Broker_node_state_change uuid string
  | Broker_state_transition transition
  | Run_differential_rca uuid
  | Handle_endpoint_recovery uuid string

record cycle_env =
  en_baseline :: "(real \<times> real) option"
  en_identity :: identity_sources
  en_event_broker :: bool
  en_now :: instant
  en_enable_rca :: "bool option" \<comment> \<open>of the endpoint's row, if there is one\<close>
  en_recovery_ip :: "string option" \<comment> \<open>the address in the endpoint's row, if any\<close>
  en_execution_time :: instant
  en_new_id :: uuid

definition transition_identity :: "cycle_env \<Rightarrow> endpoint_state \<Rightarrow> string option \<times> string option" where
  "transition_identity env st =
     (if \<not> truthy (s_hostname st) \<or> \<not> truthy (s_ip_address st)
      then resolve_endpoint_identity (en_identity env)
      else (s_hostname st, s_ip_address st))"

definition rca_effects :: "cycle_env \<Rightarrow> endpoint_state \<Rightarrow> string \<Rightarrow> effect list" where
  "rca_effects env st new_operational_state =
     (if s_confirmed_operational_state st = new_operational_state then []
      else if new_operational_state = ''DOWN'' then
        (if en_enable_rca env = Some True then [Run_differential_rca (s_endpoint_id st)] else [])
      else if new_operational_state = ''UP'' then
        (if truthy (en_recovery_ip env)
         then [Handle_endpoint_recovery (s_endpoint_id st) (the (en_recovery_ip env))] else [])
      else [])"

definition transition_effects ::
  "cycle_env \<Rightarrow> endpoint_state \<Rightarrow> ping_result \<Rightarrow> string \<times> string \<Rightarrow> effect list" where
  "transition_effects env st result new =
     (let (new_operational_state, new_detailed_state) = new;
          ep = s_endpoint_id st;
          (ep_hostname, ep_ip) = transition_identity env st;
          payload = \<lparr> tr_endpoint_id = ep, tr_hostname = ep_hostname, tr_ip_address = ep_ip,
                      tr_operational_state = new_operational_state, tr_detailed_state = new_detailed_state,
                      tr_avg_rtt_ms = avg_rtt_ms result, tr_health_score = health_score result,
                      tr_timestamp = en_now env \<rparr>
      in [Update_node_status ep new_detailed_state, Sse_node_state_change ep new_detailed_state,
          Sse_state_transition payload]
         @ (if en_event_broker env
            then [Broker_node_state_change ep new_detailed_state, Broker_state_transition payload] else [])
         @ rca_effects env st new_operational_state)"

subsection \<open>The event rows\<close>

definition rollover_due :: "endpoint_state \<Rightarrow> instant \<Rightarrow> event_table \<Rightarrow> bool" where
  "rollover_due st now tbl =
     (case active_duration (s_active_event_id st) now tbl of None \<Rightarrow> False | Some dur \<Rightarrow> 86400 \<le> dur)"

definition persist_rollover ::
  "cycle_env \<Rightarrow> ping_result \<Rightarrow> endpoint_state \<Rightarrow> event_table \<Rightarrow> endpoint_state \<times> event_table" where
  "persist_rollover env result st tbl =
     (let now = en_execution_time env;
          tbl = rollover_active (s_active_event_id st) now result tbl;
          tbl = insert_event (en_new_id env) (s_endpoint_id st) (s_confirmed_operational_state st)
                  (s_confirmed_detailed_state st) result True now tbl
      in (st\<lparr>s_active_event_id := en_new_id env\<rparr>, tbl))"

definition persist_same ::
  "cycle_env \<Rightarrow> ping_result \<Rightarrow> endpoint_state \<Rightarrow> event_table \<Rightarrow> endpoint_state \<times> event_table" where
  "persist_same env result st tbl =
     (let now = en_execution_time env;
          (tbl, rowcount) = touch_active (s_active_event_id st) now result tbl
      in if rowcount = 0 then
           (st\<lparr>s_active_event_id := en_new_id env\<rparr>,
            insert_event (en_new_id env) (s_endpoint_id st) (s_confirmed_operational_state st)
              (s_confirmed_detailed_state st) result False now tbl)
         else (st, tbl))"

definition persist_change ::
  "cycle_env \<Rightarrow> ping_result \<Rightarrow> endpoint_state \<Rightarrow> event_table \<Rightarrow> endpoint_state \<times> event_table" where
  "persist_change env result st tbl =
     (let now = en_execution_time env;
          tbl = close_open_events (s_endpoint_id st) now tbl
      in (st\<lparr>s_active_event_id := en_new_id env\<rparr>,
          insert_event (en_new_id env) (s_endpoint_id st) (s_confirmed_operational_state st)
            (s_confirmed_detailed_state st) result False now tbl))"

definition process_cycle ::
  "int \<Rightarrow> cycle_env \<Rightarrow> ping_result \<Rightarrow> endpoint_state \<Rightarrow> event_table \<Rightarrow>
   endpoint_state \<times> event_table \<times> effect list" where
  "process_cycle threshold env result st tbl =
     (let new = classify_with (en_baseline env) result;
          (next_state, confirmed) = confirm threshold new st;
          (next_state, effects) =
            (if confirmed then
               (let (h, ip) = transition_identity env st
                in (next_state\<lparr>s_hostname := h, s_ip_address := ip\<rparr>, transition_effects env st result new))
             else (next_state, []));
          (next_state, tbl) =
            (if s_confirmed_detailed_state st = s_confirmed_detailed_state next_state then
               (if rollover_due st (en_execution_time env) tbl
                then persist_rollover env result next_state tbl
                else persist_same env result next_state tbl)
             else persist_change env result next_state tbl)
      in (next_state, tbl, effects))"

text \<open>A small environment for the concrete instances below.\<close>

definition plain_env :: "instant \<Rightarrow> uuid \<Rightarrow> cycle_env" where
  "plain_env t i = \<lparr> en_baseline = None, en_identity = \<lparr>is_node = None, is_row = None\<rparr>,
     en_event_broker = False, en_now = t, en_enable_rca = Some True, en_recovery_ip = None,
     en_execution_time = t, en_new_id = i \<rparr>"

definition all_lost :: ping_result where
  "all_lost = \<lparr>success_count = 0, failed_count = 5, avg_rtt_ms = None\<rparr>"

definition all_back :: ping_result where
  "all_back = \<lparr>success_count = 5, failed_count = 0, avg_rtt_ms = Some 12\<rparr>"

definition plain_state :: endpoint_state where
  "plain_state = \<lparr> s_endpoint_id = 1, s_active_event_id = 10, s_confirmed_operational_state = ''UP'',
     s_confirmed_detailed_state = ''UP'', s_pending_detailed_state = None, s_pending_cycle_count = 0,
     s_hostname = Some ''core-sw'', s_ip_address = Some ''10.0.0.1'' \<rparr>"

subsection \<open>N-cycle confirmation\<close>

lemma confirm_frame [simp]:
  "s_endpoint_id (fst (confirm n new st)) = s_endpoint_id st"
  "s_active_event_id (fst (confirm n new st)) = s_active_event_id st"
  by (auto simp: confirm_def Let_def split: prod.splits)

lemma confirm_changes:
  "snd (confirm n new st) \<longleftrightarrow> s_confirmed_detailed_state (fst (confirm n new st)) \<noteq> s_confirmed_detailed_state st"
  "snd (confirm n new st) \<Longrightarrow> s_confirmed_detailed_state (fst (confirm n new st)) = snd new \<and>
     s_confirmed_operational_state (fst (confirm n new st)) = fst new"
  "\<not> snd (confirm n new st) \<Longrightarrow>
     s_confirmed_operational_state (fst (confirm n new st)) = s_confirmed_operational_state st"
  by (auto simp: confirm_def Let_def split: prod.splits if_splits)

definition confirm_all :: "int \<Rightarrow> (string \<times> string) list \<Rightarrow> endpoint_state \<Rightarrow> endpoint_state" where
  "confirm_all n news st = fold (\<lambda>new st. fst (confirm n new st)) news st"

definition last_are :: "nat \<Rightarrow> 'a \<Rightarrow> 'a list \<Rightarrow> bool" where
  \<comment> \<open>the list has at least \<open>k\<close> elements and its last \<open>k\<close> are all \<open>x\<close>\<close>
  "last_are k x xs \<longleftrightarrow> k \<le> length xs \<and> (\<forall>y \<in> set (drop (length xs - k) xs). y = x)"

lemma last_are_Suc: "last_are (Suc k) x (xs @ [y]) \<longleftrightarrow> y = x \<and> last_are k x xs"
  by (auto simp: last_are_def)

lemma last_are_0 [simp]: "last_are 0 x xs" by (simp add: last_are_def)

lemma last_are_last: "0 < k \<Longrightarrow> last_are k x xs \<Longrightarrow> xs \<noteq> [] \<and> last xs = x"
  by (cases xs rule: rev_cases; cases k) (auto simp: last_are_Suc, simp_all add: last_are_def)

lemma last_are_two: "last_are j x xs \<Longrightarrow> last_are k y xs \<Longrightarrow> 0 < j \<Longrightarrow> 0 < k \<Longrightarrow> x = y"
  using last_are_last by metis

text \<open>What the pending fields say about the detailed states seen so far.\<close>

definition pending_inv :: "int \<Rightarrow> string list \<Rightarrow> endpoint_state \<Rightarrow> bool" where
  "pending_inv n ds st \<longleftrightarrow>
     (case s_pending_detailed_state st of
        None \<Rightarrow> ds = [] \<or> last ds = s_confirmed_detailed_state st
      | Some p \<Rightarrow> p \<noteq> s_confirmed_detailed_state st \<and>
          (\<exists>c. s_pending_cycle_count st = int c \<and> 1 \<le> c \<and> int c < max 2 n \<and>
             last_are c p ds \<and> \<not> last_are (Suc c) p ds))"

lemma confirm_step:
  assumes "pending_inv n ds st"
  shows "pending_inv n (ds @ [snd new]) (fst (confirm n new st))"
    and "snd (confirm n new st) \<longleftrightarrow> snd new \<noteq> s_confirmed_detailed_state st \<and>
      last_are (nat (max 2 n)) (snd new) (ds @ [snd new])"
proof -
  let ?d = "snd new" and ?C = "s_confirmed_detailed_state st"
  obtain k where k: "nat (max 2 n) = Suc k" "1 \<le> k" by (cases "nat (max 2 n)") auto
  have "pending_inv n (ds @ [?d]) (fst (confirm n new st)) \<and>
    (snd (confirm n new st) \<longleftrightarrow> ?d \<noteq> ?C \<and> last_are (nat (max 2 n)) ?d (ds @ [?d]))"
  proof (cases "?d = ?C")
    case True
    then show ?thesis by (simp add: confirm_def case_prod_beta pending_inv_def)
  next
    case False
    show ?thesis
    proof (cases "s_pending_detailed_state st = Some ?d")
      case True
      then obtain c where c: "s_pending_cycle_count st = int c" "1 \<le> c" "int c < max 2 n"
        "last_are c ?d ds" "\<not> last_are (Suc c) ?d ds"
        using assms by (auto simp: pending_inv_def)
      show ?thesis
      proof (cases "int c + 1 < n")
        case less: True
        have "\<not> last_are k ?d ds"
        proof
          assume a: "last_are k ?d ds"
          have "Suc c \<le> k" using less k by linarith
          then have "set (drop (length ds - Suc c) ds) \<subseteq> set (drop (length ds - k) ds)"
            by (intro set_drop_subset_set_drop) linarith
          with a \<open>Suc c \<le> k\<close> have "last_are (Suc c) ?d ds" by (auto simp: last_are_def)
          with c(5) show False by simp
        qed
        with less c False True k show ?thesis
          by (auto simp: confirm_def case_prod_beta Let_def pending_inv_def last_are_Suc intro!: exI[of _ "Suc c"])
      next
        case geq: False
        then have "k = c" using c k by linarith
        with geq c False True k show ?thesis
          by (simp add: confirm_def case_prod_beta Let_def pending_inv_def last_are_Suc)
      qed
    next
      case no: False
      have "\<not> last_are 1 ?d ds"
      proof
        assume a: "last_are 1 ?d ds"
        show False
        proof (cases "s_pending_detailed_state st")
          case None
          with assms a False show ?thesis using last_are_last[of 1 ?d ds] by (auto simp: pending_inv_def)
        next
          case (Some p)
          with assms obtain c where "1 \<le> c" "last_are c p ds" by (auto simp: pending_inv_def)
          with a Some no show ?thesis using last_are_two[of 1 ?d ds c p] by simp
        qed
      qed
      moreover have "last_are k ?d ds \<Longrightarrow> last_are 1 ?d ds"
      proof -
        assume a: "last_are k ?d ds"
        have "set (drop (length ds - 1) ds) \<subseteq> set (drop (length ds - k) ds)"
          using k by (intro set_drop_subset_set_drop) linarith
        with a k show ?thesis by (auto simp: last_are_def)
      qed
      ultimately show ?thesis
        using False no k
        by (auto simp: confirm_def case_prod_beta Let_def pending_inv_def last_are_Suc intro!: exI[of _ 1])
    qed
  qed
  then show "pending_inv n (ds @ [?d]) (fst (confirm n new st))"
    "snd (confirm n new st) \<longleftrightarrow> ?d \<noteq> ?C \<and> last_are (nat (max 2 n)) ?d (ds @ [?d])" by simp_all
qed

lemma confirm_all_inv:
  "pending_inv n [] st \<Longrightarrow> pending_inv n (map snd news) (confirm_all n news st)"
  unfolding confirm_all_def
  by (induction news rule: rev_induct) (auto dest: confirm_step(1))

lemma pending_inv_updates [simp]:
  "pending_inv n ds (st\<lparr>s_active_event_id := i\<rparr>) = pending_inv n ds st"
  "pending_inv n ds (st\<lparr>s_hostname := h, s_ip_address := a\<rparr>) = pending_inv n ds st"
  by (simp_all add: pending_inv_def split: option.splits)

text \<open>The three ways in which the rows are updated.\<close>

definition confirmed_state :: "int \<Rightarrow> cycle_env \<Rightarrow> ping_result \<Rightarrow> endpoint_state \<Rightarrow> endpoint_state" where
  \<comment> \<open>the next state before the table is touched\<close>
  "confirmed_state n env result st =
     (let new = classify_with (en_baseline env) result; (nx, c) = confirm n new st
      in if c then nx\<lparr>s_hostname := fst (transition_identity env st), s_ip_address := snd (transition_identity env st)\<rparr>
         else nx)"

lemma confirmed_state_simps:
  "s_endpoint_id (confirmed_state n env r st) = s_endpoint_id st"
  "s_active_event_id (confirmed_state n env r st) = s_active_event_id st"
  "s_confirmed_detailed_state (confirmed_state n env r st)
     = s_confirmed_detailed_state (fst (confirm n (classify_with (en_baseline env) r) st))"
  "s_confirmed_operational_state (confirmed_state n env r st)
     = s_confirmed_operational_state (fst (confirm n (classify_with (en_baseline env) r) st))"
  "pending_inv m ds (confirmed_state n env r st) = pending_inv m ds (fst (confirm n (classify_with (en_baseline env) r) st))"
  using confirm_frame[of n "classify_with (en_baseline env) r" st]
  by (simp_all add: confirmed_state_def Let_def case_prod_beta)

lemma process_cycle_eq:
  "process_cycle n env r st tbl =
     (let nx = confirmed_state n env r st; new = classify_with (en_baseline env) r;
          (nx, tbl) =
            (if s_confirmed_detailed_state nx \<noteq> s_confirmed_detailed_state st then persist_change env r nx tbl
             else if rollover_due st (en_execution_time env) tbl then persist_rollover env r nx tbl
             else persist_same env r nx tbl)
      in (nx, tbl, if snd (confirm n new st) then transition_effects env st r new else []))"
  by (auto simp: process_cycle_def confirmed_state_def Let_def case_prod_beta)

lemma process_cycle_core:
  assumes "process_cycle n env r st tbl = (st', tbl', es)"
  shows "s_endpoint_id st' = s_endpoint_id st"
    and "s_confirmed_detailed_state st' = s_confirmed_detailed_state (confirmed_state n env r st)"
    and "s_confirmed_operational_state st' = s_confirmed_operational_state (confirmed_state n env r st)"
    and "pending_inv m ds st' = pending_inv m ds (confirmed_state n env r st)"
  using assms
  by (auto simp: process_cycle_eq Let_def persist_change_def persist_rollover_def persist_same_def
      confirmed_state_simps case_prod_beta split: if_splits)

definition run_cycles ::
  "int \<Rightarrow> (cycle_env \<times> ping_result) list \<Rightarrow> endpoint_state \<times> event_table \<Rightarrow> endpoint_state \<times> event_table" where
  "run_cycles n cs s =
     fold (\<lambda>(env, r) (st, tbl). let (st, tbl, _) = process_cycle n env r st tbl in (st, tbl)) cs s"

definition detailed_states :: "(cycle_env \<times> ping_result) list \<Rightarrow> string list" where
  "detailed_states cs = map (\<lambda>(env, r). snd (classify_with (en_baseline env) r)) cs"

lemma run_cycles_snoc:
  "run_cycles n (cs @ [(env, r)]) s =
     (let (st, tbl) = run_cycles n cs s; (st, tbl, _) = process_cycle n env r st tbl in (st, tbl))"
  by (simp add: run_cycles_def case_prod_beta)

lemma run_cycles_pending:
  assumes "s_pending_detailed_state (fst s) = None"
  shows "pending_inv n (detailed_states cs) (fst (run_cycles n cs s))"
proof (induction cs rule: rev_induct)
  case Nil
  with assms show ?case by (simp add: run_cycles_def detailed_states_def pending_inv_def)
next
  case (snoc c cs)
  obtain env r where c: "c = (env, r)" by (cases c)
  obtain st1 tbl1 where s1: "run_cycles n cs s = (st1, tbl1)" by (cases "run_cycles n cs s")
  obtain st2 tbl2 es where s2: "process_cycle n env r st1 tbl1 = (st2, tbl2, es)"
    by (cases "process_cycle n env r st1 tbl1")
  have "pending_inv n (detailed_states cs @ [snd (classify_with (en_baseline env) r)]) st2"
    using confirm_step(1) snoc s1 unfolding process_cycle_core(4)[OF s2] confirmed_state_simps by simp
  then show ?case by (simp add: c run_cycles_snoc s1 s2 detailed_states_def)
qed

text \<open>
  C21. A state change is confirmed exactly when the last \<open>max 2 N\<close> cycles, the current one
  included, all gave the same detailed state and that state is not the confirmed one: no
  shorter streak, and no interrupted one, changes the state. (A threshold of 1, which should
  confirm at once, behaves like 2.)
\<close>

theorem n_cycle_confirmation:
  assumes "s_pending_detailed_state st = None"
    and "run_cycles n cs (st, tbl) = (st1, tbl1)" and "process_cycle n env r st1 tbl1 = (st2, tbl2, es)"
    and "d = snd (classify_with (en_baseline env) r)"
  shows "s_confirmed_detailed_state st2 \<noteq> s_confirmed_detailed_state st1 \<longleftrightarrow>
    d \<noteq> s_confirmed_detailed_state st1 \<and> last_are (nat (max 2 n)) d (detailed_states cs @ [d])"
proof -
  have "pending_inv n (detailed_states cs) st1"
    using run_cycles_pending[of "(st, tbl)" n cs] assms(1,2) by simp
  from confirm_step(2)[OF this] show ?thesis
    unfolding process_cycle_core(2)[OF assms(3)] confirmed_state_simps assms(4)
      confirm_changes(1)[symmetric] .
qed

theorem n_cycle_confirmation_witness:
  "let cs = [(plain_env (sec 60) 11, all_lost), (plain_env (sec 120) 12, all_lost)];
       s = run_cycles 3 cs (plain_state, []);
       st2 = fst (process_cycle 3 (plain_env (sec 180) 13) all_lost (fst s) (snd s))
   in s_confirmed_detailed_state st2 \<noteq> s_confirmed_detailed_state (fst s) \<longleftrightarrow>
      ''DOWN'' \<noteq> s_confirmed_detailed_state (fst s) \<and> last_are 3 ''DOWN'' [''DOWN'', ''DOWN'', ''DOWN'']"
  using n_cycle_confirmation[OF _ prod.collapse[symmetric] triple_collapse refl, where st = plain_state and n = 3
      and cs = "[(plain_env (sec 60) 11, all_lost), (plain_env (sec 120) 12, all_lost)]" and tbl = "[]"
      and env = "plain_env (sec 180) 13" and r = all_lost]
  by (simp add: Let_def plain_state_def detailed_states_def classify_with_def classify_ping_result_def all_lost_def
      plain_env_def)

subsection \<open>One open event\<close>

definition sm_inv :: "endpoint_state \<Rightarrow> event_table \<Rightarrow> bool" where
  "sm_inv st tbl \<longleftrightarrow> ids_ok tbl \<and>
     (\<forall>e \<in> set tbl. ev_id e = s_active_event_id st \<longrightarrow> ev_endpoint_id e = s_endpoint_id st) \<and>
     (\<forall>e \<in> set (open_events (s_endpoint_id st) tbl). ev_id e = s_active_event_id st \<and>
        ev_detailed_state e = s_confirmed_detailed_state st \<and>
        ev_operational_state e = s_confirmed_operational_state st)"

definition one_open :: "endpoint_state \<Rightarrow> event_table \<Rightarrow> bool" where
  "one_open st tbl \<longleftrightarrow> (\<exists>e. open_events (s_endpoint_id st) tbl = [e] \<and> ev_id e = s_active_event_id st \<and>
     ev_detailed_state e = s_confirmed_detailed_state st \<and>
     ev_operational_state e = s_confirmed_operational_state st)"

lemma open_insert:
  "open_events ep (insert_event i ep op det r s t tbl) = open_events ep tbl @
     [\<lparr> ev_id = i, ev_endpoint_id = ep, ev_operational_state = op, ev_detailed_state = det,
        ev_success_count = success_count r, ev_failed_count = failed_count r,
        ev_health_score = numeric2 (health_score r), ev_avg_rtt_ms = map_option numeric2 (avg_rtt_ms r),
        ev_is_split_event = s, ev_start_time = t, ev_end_time = None,
        ev_duration_seconds = 0, ev_monitoring_cycle_count = 1 \<rparr>]"
  by (simp add: open_events_def insert_event_def is_open_def)

lemma sm_inv_insert:
  assumes "ids_ok tbl" "i \<notin> ev_id ` set tbl" "open_events (s_endpoint_id st) tbl = []" "s_active_event_id st = i"
  shows "sm_inv st (insert_event i (s_endpoint_id st) (s_confirmed_operational_state st)
           (s_confirmed_detailed_state st) r s t tbl)"
    and "one_open st (insert_event i (s_endpoint_id st) (s_confirmed_operational_state st)
           (s_confirmed_detailed_state st) r s t tbl)"
proof -
  show "one_open st (insert_event i (s_endpoint_id st) (s_confirmed_operational_state st)
           (s_confirmed_detailed_state st) r s t tbl)"
    using assms by (simp add: one_open_def open_insert)
  show "sm_inv st (insert_event i (s_endpoint_id st) (s_confirmed_operational_state st)
           (s_confirmed_detailed_state st) r s t tbl)"
    using assms(1,2,4) by (simp add: sm_inv_def open_insert assms(3)) (auto simp: insert_event_def dest: ids_notin)
qed

lemma active_update_open:
  assumes "sm_inv st tbl" "open_events (s_endpoint_id st) tbl = es"
  shows "open_events (s_endpoint_id st) (rollover_active (s_active_event_id st) t r tbl) = []"
    and "open_events (s_endpoint_id st) (fst (touch_active (s_active_event_id st) t r tbl))
       = map (\<lambda>e. count_cycle r (set_duration t e)) es"
    and "snd (touch_active (s_active_event_id st) t r tbl) = length es"
proof -
  let ?a = "s_active_event_id st" and ?ep = "s_endpoint_id st"
  have iff: "ev_id e = ?a \<and> is_open e \<longleftrightarrow> ev_endpoint_id e = ?ep \<and> is_open e" if "e \<in> set tbl" for e
    using assms(1) that by (auto simp: sm_inv_def open_events_def)
  then have eq: "map (\<lambda>e. if ev_id e = ?a \<and> is_open e then f e else e) tbl
      = map (\<lambda>e. if ev_endpoint_id e = ?ep \<and> is_open e then f e else e) tbl" for f
    by (intro map_cong) simp_all
  show "open_events ?ep (rollover_active ?a t r tbl) = []"
    unfolding rollover_active_def update_where_def fst_conv eq open_events_def
    by (induction tbl) simp_all
  show "open_events ?ep (fst (touch_active ?a t r tbl)) = map (\<lambda>e. count_cycle r (set_duration t e)) es"
    unfolding touch_active_def update_where_def fst_conv eq open_events_def assms(2)[symmetric]
    by (induction tbl) simp_all
  have "filter (\<lambda>e. ev_id e = ?a \<and> is_open e) tbl = es"
    unfolding assms(2)[symmetric] open_events_def using iff by (intro filter_cong) simp_all
  then show "snd (touch_active ?a t r tbl) = length es"
    by (simp add: touch_active_def update_where_def)
qed

lemma other_active:
  assumes "sm_inv st tbl"
  shows "other_events (s_endpoint_id st) (rollover_active (s_active_event_id st) t r tbl) = other_events (s_endpoint_id st) tbl"
    and "other_events (s_endpoint_id st) (fst (touch_active (s_active_event_id st) t r tbl)) = other_events (s_endpoint_id st) tbl"
proof -
  have "\<forall>e \<in> set tbl. ev_id e = s_active_event_id st \<longrightarrow> ev_endpoint_id e = s_endpoint_id st"
    using assms by (simp add: sm_inv_def)
  then show "other_events (s_endpoint_id st) (rollover_active (s_active_event_id st) t r tbl) = other_events (s_endpoint_id st) tbl"
    "other_events (s_endpoint_id st) (fst (touch_active (s_active_event_id st) t r tbl)) = other_events (s_endpoint_id st) tbl"
    unfolding rollover_active_def touch_active_def update_where_def fst_conv other_events_def
    by (induction tbl) simp_all
qed

lemma sm_inv_core: "s_endpoint_id st' = s_endpoint_id st \<Longrightarrow> s_active_event_id st' = s_active_event_id st \<Longrightarrow>
   s_confirmed_detailed_state st' = s_confirmed_detailed_state st \<Longrightarrow>
   s_confirmed_operational_state st' = s_confirmed_operational_state st \<Longrightarrow> sm_inv st' tbl = sm_inv st tbl"
  by (simp add: sm_inv_def)

lemma process_cycle_events:
  assumes "sm_inv st tbl" "en_new_id env \<notin> ev_id ` set tbl"
    and "process_cycle n env r st tbl = (st', tbl', es)"
  shows "sm_inv st' tbl' \<and> one_open st' tbl' \<and>
    other_events (s_endpoint_id st) tbl' = other_events (s_endpoint_id st) tbl"
proof -
  let ?nx = "confirmed_state n env r st" and ?t = "en_execution_time env"
  note nx = confirmed_state_simps(1-4)[of n env r st]
  have ids: "ids_ok tbl" using assms(1) by (simp add: sm_inv_def)
  consider (change) "s_confirmed_detailed_state ?nx \<noteq> s_confirmed_detailed_state st"
    | (roll) "s_confirmed_detailed_state ?nx = s_confirmed_detailed_state st" "rollover_due st ?t tbl"
    | (same) "s_confirmed_detailed_state ?nx = s_confirmed_detailed_state st" "\<not> rollover_due st ?t tbl" by blast
  then show ?thesis
  proof cases
    case change
    then have eq: "st' = ?nx\<lparr>s_active_event_id := en_new_id env\<rparr>"
      "tbl' = insert_event (en_new_id env) (s_endpoint_id st') (s_confirmed_operational_state st')
         (s_confirmed_detailed_state st') r False ?t (close_open_events (s_endpoint_id st') ?t tbl)"
      using assms(3) by (auto simp: process_cycle_eq persist_change_def Let_def)
    have "s_endpoint_id st' = s_endpoint_id st" by (simp add: eq(1) nx)
    with sm_inv_insert[of "close_open_events (s_endpoint_id st') ?t tbl" "en_new_id env" st' r False ?t] ids assms(2)
    show ?thesis unfolding eq(2) by (simp add: eq(1) nx)
  next
    case roll
    then have eq: "st' = ?nx\<lparr>s_active_event_id := en_new_id env\<rparr>"
      "tbl' = insert_event (en_new_id env) (s_endpoint_id st') (s_confirmed_operational_state st')
         (s_confirmed_detailed_state st') r True ?t (rollover_active (s_active_event_id st) ?t r tbl)"
      using assms(3) by (auto simp: process_cycle_eq persist_rollover_def Let_def nx)
    have "s_endpoint_id st' = s_endpoint_id st" by (simp add: eq(1) nx)
    with sm_inv_insert[of "rollover_active (s_active_event_id st) ?t r tbl" "en_new_id env" st' r True ?t]
      ids assms(2) active_update_open(1)[OF assms(1) refl] other_active(1)[OF assms(1)]
    show ?thesis unfolding eq(2) by (simp add: eq(1) nx)
  next
    case same
    have conf: "s_confirmed_detailed_state ?nx = s_confirmed_detailed_state st"
      "s_confirmed_operational_state ?nx = s_confirmed_operational_state st"
      using same(1) confirm_changes(1,3)[of n "classify_with (en_baseline env) r" st] by (auto simp: nx)
    let ?touched = "fst (touch_active (s_active_event_id st) ?t r tbl)"
    note up = active_update_open(2,3)[OF assms(1) refl, of ?t r]
    show ?thesis
    proof (cases "open_events (s_endpoint_id st) tbl")
      case Nil
      then have eq: "st' = ?nx\<lparr>s_active_event_id := en_new_id env\<rparr>"
        "tbl' = insert_event (en_new_id env) (s_endpoint_id st') (s_confirmed_operational_state st')
           (s_confirmed_detailed_state st') r False ?t ?touched"
        using assms(3) same up by (auto simp: process_cycle_eq persist_same_def Let_def nx case_prod_beta)
      have "s_endpoint_id st' = s_endpoint_id st" by (simp add: eq(1) nx)
      with sm_inv_insert[of ?touched "en_new_id env" st' r False ?t] ids assms(2) up Nil other_active(2)[OF assms(1)]
      show ?thesis unfolding eq(2) by (simp add: eq(1) nx)
    next
      case (Cons e0 rest)
      have "\<forall>e \<in> set (open_events (s_endpoint_id st) tbl). ev_id e = s_active_event_id st" "ids_ok tbl"
        using assms(1) by (auto simp: sm_inv_def)
      then have "rest = []"
        using Cons ids_ok_filter[of tbl "\<lambda>e. ev_endpoint_id e = s_endpoint_id st \<and> is_open e"]
        by (cases rest) (auto simp: open_events_def[symmetric])
      then have e0: "open_events (s_endpoint_id st) tbl = [e0]" using Cons by simp
      have eq: "st' = ?nx" "tbl' = ?touched"
        using assms(3) same up e0 by (auto simp: process_cycle_eq persist_same_def Let_def nx case_prod_beta)
      have e: "ev_id e0 = s_active_event_id st" "ev_detailed_state e0 = s_confirmed_detailed_state st"
        "ev_operational_state e0 = s_confirmed_operational_state st"
        using assms(1) e0 by (simp_all add: sm_inv_def)
      have "one_open st' tbl'"
        unfolding one_open_def eq nx(1,2) conf using up(1) e0 e by simp
      moreover have "\<forall>e \<in> set ?touched. ev_id e = s_active_event_id st \<longrightarrow> ev_endpoint_id e = s_endpoint_id st"
        using assms(1) by (auto simp: sm_inv_def touch_active_def update_where_def)
      then have "sm_inv st' tbl'"
        unfolding sm_inv_def eq nx(1,2) conf using ids up(1) e0 e by simp
      ultimately show ?thesis using other_active(2)[OF assms(1)] by (simp add: eq)
    qed
  qed
qed

lemma open_at_most_one:
  assumes "sm_inv st tbl"
  shows "open_events (s_endpoint_id st) tbl = [] \<or> one_open st tbl"
proof (cases "open_events (s_endpoint_id st) tbl")
  case (Cons e0 rest)
  have "\<forall>e \<in> set (open_events (s_endpoint_id st) tbl). ev_id e = s_active_event_id st"
    using assms by (simp add: sm_inv_def)
  moreover have "distinct (map ev_id (open_events (s_endpoint_id st) tbl))"
    unfolding open_events_def using assms by (intro ids_ok_filter) (simp add: sm_inv_def)
  ultimately have "rest = []" using Cons by (cases rest) auto
  with assms Cons show ?thesis by (simp add: sm_inv_def one_open_def)
qed simp

definition table_ids :: "event_table \<Rightarrow> uuid set" where "table_ids tbl = ev_id ` set tbl"

lemma table_ids_ops [simp]:
  "table_ids (insert_event i ep op det r s t u) = insert i (table_ids u)"
  "table_ids (fst (touch_active a t r u)) = table_ids u" "table_ids (rollover_active a t r u) = table_ids u"
  "table_ids (close_open_events ep t u) = table_ids u"
  unfolding table_ids_def by (simp_all only: ids_ops) (simp add: insert_event_def)

lemma process_cycle_ids:
  assumes "process_cycle n env r st tbl = (st', tbl', es)"
  shows "table_ids tbl' \<subseteq> insert (en_new_id env) (table_ids tbl)"
proof -
  have "table_ids tbl' = table_ids tbl \<or> table_ids tbl' = insert (en_new_id env) (table_ids tbl)"
    using assms
    by (auto simp del: set_eq_subset simp: process_cycle_eq persist_change_def persist_rollover_def persist_same_def
        Let_def case_prod_beta split: if_splits)
  then show ?thesis by blast
qed

lemma run_cycles_events:
  assumes "sm_inv st tbl" "one_open st tbl"
    and "distinct (map (\<lambda>c. en_new_id (fst c)) cs)" "(\<lambda>c. en_new_id (fst c)) ` set cs \<inter> table_ids tbl = {}"
  shows "case run_cycles n cs (st, tbl) of (st', tbl') \<Rightarrow> sm_inv st' tbl' \<and> one_open st' tbl' \<and>
    s_endpoint_id st' = s_endpoint_id st \<and>
    other_events (s_endpoint_id st) tbl' = other_events (s_endpoint_id st) tbl \<and>
    table_ids tbl' \<subseteq> (\<lambda>c. en_new_id (fst c)) ` set cs \<union> table_ids tbl"
  using assms(3,4)
proof (induction cs rule: rev_induct)
  case Nil
  with assms show ?case by (simp add: run_cycles_def)
next
  case (snoc c cs)
  obtain env r where c: "c = (env, r)" by (cases c)
  obtain st1 tbl1 where s1: "run_cycles n cs (st, tbl) = (st1, tbl1)" by (cases "run_cycles n cs (st, tbl)")
  obtain st2 tbl2 es where s2: "process_cycle n env r st1 tbl1 = (st2, tbl2, es)"
    by (cases "process_cycle n env r st1 tbl1")
  have IH: "sm_inv st1 tbl1" "s_endpoint_id st1 = s_endpoint_id st"
    "other_events (s_endpoint_id st) tbl1 = other_events (s_endpoint_id st) tbl"
    "table_ids tbl1 \<subseteq> (\<lambda>c. en_new_id (fst c)) ` set cs \<union> table_ids tbl"
    using snoc s1 by auto
  have "en_new_id env \<notin> ev_id ` set tbl1"
    using IH(4) snoc.prems unfolding table_ids_def[symmetric] by (auto simp: c)
  from process_cycle_events[OF IH(1) this s2] process_cycle_core(1)[OF s2] process_cycle_ids[OF s2] IH
  show ?case by (auto simp: c run_cycles_snoc s1 s2)
qed

text \<open>
  C22. From the first event of an endpoint on, and through any cycles, the endpoint has exactly
  one open event: the active one, in the confirmed state. The rows of other endpoints are
  never touched.
\<close>

theorem one_open_event:
  assumes "ids_ok tbl" "\<forall>e \<in> set tbl. ev_endpoint_id e \<noteq> ep"
    and "create_initial_event ep result baseline src t i tbl = (st, tbl1)"
    and "distinct (i # map (\<lambda>c. en_new_id (fst c)) cs)"
    and "(\<lambda>e. ev_id e) ` set tbl \<inter> set (i # map (\<lambda>c. en_new_id (fst c)) cs) = {}"
    and "run_cycles n cs (st, tbl1) = (st', tbl')"
  shows "(\<exists>e. open_events ep tbl' = [e] \<and> ev_id e = s_active_event_id st' \<and>
      ev_detailed_state e = s_confirmed_detailed_state st' \<and>
      ev_operational_state e = s_confirmed_operational_state st') \<and>
    other_events ep tbl' = other_events ep tbl"
proof -
  have ep: "s_endpoint_id st = ep" "s_active_event_id st = i"
    and tbl1: "tbl1 = insert_event i (s_endpoint_id st) (s_confirmed_operational_state st)
      (s_confirmed_detailed_state st) result False t tbl"
    using assms(3) by (auto simp: create_initial_event_def Let_def case_prod_beta)
  have "open_events (s_endpoint_id st) tbl = []" using assms(2) ep by (simp add: open_events_def)
  with sm_inv_insert[of tbl i st result False t] assms(1,5) ep
  have "sm_inv st tbl1" "one_open st tbl1" unfolding tbl1 by auto
  moreover have "(\<lambda>c. en_new_id (fst c)) ` set cs \<inter> table_ids tbl1 = {}"
    using assms(4,5) by (auto simp: tbl1 table_ids_def insert_event_def)
  moreover have "other_events ep tbl1 = other_events ep tbl" by (simp add: tbl1 ep)
  ultimately show ?thesis
    using run_cycles_events[of st tbl1 cs n] assms(4,6) ep by (auto simp: one_open_def)
qed

theorem one_open_event_witness:
  "let (st, tbl1) = create_initial_event 1 all_back None \<lparr>is_node = None, is_row = None\<rparr> 0 10 [];
       (st', tbl') = run_cycles 3 [(plain_env (sec 60) 11, all_lost), (plain_env (sec 120) 12, all_lost),
         (plain_env (sec 180) 13, all_lost)] (st, tbl1)
   in \<exists>e. open_events 1 tbl' = [e] \<and> ev_id e = s_active_event_id st'"
  using one_open_event[OF _ _ prod.collapse[symmetric] _ _ prod.collapse[symmetric], where tbl = "[]" and ep = 1
      and result = all_back and baseline = None and src = "\<lparr>is_node = None, is_row = None\<rparr>" and t = 0 and i = 10
      and cs = "[(plain_env (sec 60) 11, all_lost), (plain_env (sec 120) 12, all_lost), (plain_env (sec 180) 13, all_lost)]"
      and n = 3]
  by (simp add: ids_ok_def plain_env_def case_prod_beta) blast

definition day_old_event :: event where
  "day_old_event = \<lparr> ev_id = 10, ev_endpoint_id = 1, ev_operational_state = ''UP'', ev_detailed_state = ''UP'',
     ev_success_count = 100, ev_failed_count = 0, ev_health_score = 100, ev_avg_rtt_ms = Some 12,
     ev_is_split_event = False, ev_start_time = 0, ev_end_time = None, ev_duration_seconds = 86340,
     ev_monitoring_cycle_count = 20 \<rparr>"

lemma day_old_inv: "sm_inv plain_state [day_old_event]" "open_events 1 [day_old_event] = [day_old_event]"
  by (simp_all add: sm_inv_def ids_ok_def open_events_def is_open_def day_old_event_def plain_state_def)

subsection \<open>The time line\<close>

lemma active_open_row:
  assumes "sm_inv st tbl" "open_events (s_endpoint_id st) tbl = [e0]"
  shows "filter (\<lambda>e. ev_id e = s_active_event_id st \<and> is_open e) tbl = [e0]" "e0 \<in> set tbl" "is_open e0"
    "ev_id e0 = s_active_event_id st"
proof -
  have "e0 \<in> set (open_events (s_endpoint_id st) tbl)" using assms(2) by simp
  then show m: "e0 \<in> set tbl" "is_open e0" by (simp_all add: open_events_def)
  show i: "ev_id e0 = s_active_event_id st" using assms by (simp add: sm_inv_def)
  show "filter (\<lambda>e. ev_id e = s_active_event_id st \<and> is_open e) tbl = [e0]"
    using assms(1) m i by (intro filter_id_distinct) (simp_all add: sm_inv_def)
qed

text \<open>
  C23. The events of an endpoint form a gapless time line: a cycle either keeps the open event
  and its start, and then the event is less than 24 hours old, or it closes the event at the
  cycle's instant, with the duration that follows from its start, and opens the next one at
  the same instant.
\<close>

theorem event_timeline:
  assumes "sm_inv st tbl" "open_events (s_endpoint_id st) tbl = [e0]" "en_new_id env \<notin> ev_id ` set tbl"
    and "process_cycle n env r st tbl = (st', tbl', es)" "t = en_execution_time env"
  shows "\<exists>e. open_events (s_endpoint_id st) tbl' = [e] \<and>
    ((ev_id e = ev_id e0 \<and> ev_start_time e = ev_start_time e0 \<and> epoch_seconds (t - ev_start_time e) < 86400) \<or>
     (ev_id e = en_new_id env \<and> ev_start_time e = t \<and>
      (\<exists>c \<in> set tbl'. ev_id c = ev_id e0 \<and> ev_start_time c = ev_start_time e0 \<and> ev_end_time c = Some t \<and>
         ev_duration_seconds c = epoch_seconds (t - ev_start_time e0))))"
proof -
  let ?nx = "confirmed_state n env r st"
  note nx = confirmed_state_simps(1-4)[of n env r st]
  note row = active_open_row[OF assms(1,2)]
  have due: "rollover_due st t tbl \<longleftrightarrow> 86400 \<le> epoch_seconds (t - ev_start_time e0)"
    using row(1) by (simp add: rollover_due_def active_duration_def)
  have ep0: "ev_endpoint_id e0 = s_endpoint_id st" using assms(1) row by (simp add: sm_inv_def)
  consider (change) "s_confirmed_detailed_state ?nx \<noteq> s_confirmed_detailed_state st"
    | (roll) "s_confirmed_detailed_state ?nx = s_confirmed_detailed_state st" "rollover_due st t tbl"
    | (same) "s_confirmed_detailed_state ?nx = s_confirmed_detailed_state st" "\<not> rollover_due st t tbl" by blast
  then show ?thesis
  proof cases
    case change
    then have tbl': "tbl' = insert_event (en_new_id env) (s_endpoint_id st) (s_confirmed_operational_state ?nx)
        (s_confirmed_detailed_state ?nx) r False t (close_open_events (s_endpoint_id st) t tbl)"
      using assms(4,5) by (auto simp: process_cycle_eq persist_change_def Let_def nx)
    have "close_at t e0 \<in> set (close_open_events (s_endpoint_id st) t tbl)"
      using row ep0 by (force simp: close_open_events_def update_where_def)
    then have c: "close_at t e0 \<in> set tbl'" by (simp add: tbl' insert_event_def)
    have "\<exists>c \<in> set tbl'. ev_id c = ev_id e0 \<and> ev_start_time c = ev_start_time e0 \<and> ev_end_time c = Some t \<and>
         ev_duration_seconds c = epoch_seconds (t - ev_start_time e0)"
      by (rule bexI[OF _ c]) (simp add: close_at_def set_duration_def)
    moreover have "\<exists>e. open_events (s_endpoint_id st) tbl' = [e] \<and> ev_id e = en_new_id env \<and> ev_start_time e = t"
      by (simp add: tbl' open_insert)
    ultimately show ?thesis by blast
  next
    case roll
    then have tbl': "tbl' = insert_event (en_new_id env) (s_endpoint_id st) (s_confirmed_operational_state ?nx)
        (s_confirmed_detailed_state ?nx) r True t (rollover_active (s_active_event_id st) t r tbl)"
      using assms(4,5) by (auto simp: process_cycle_eq persist_rollover_def Let_def nx)
    let ?c = "count_cycle r (close_at t e0)"
    have "?c \<in> set (rollover_active (s_active_event_id st) t r tbl)"
      using row by (force simp: rollover_active_def update_where_def)
    then have c: "?c \<in> set tbl'" by (simp add: tbl' insert_event_def)
    have "\<exists>c \<in> set tbl'. ev_id c = ev_id e0 \<and> ev_start_time c = ev_start_time e0 \<and> ev_end_time c = Some t \<and>
         ev_duration_seconds c = epoch_seconds (t - ev_start_time e0)"
      by (rule bexI[OF _ c]) (simp add: close_at_def set_duration_def count_cycle_def)
    moreover have "\<exists>e. open_events (s_endpoint_id st) tbl' = [e] \<and> ev_id e = en_new_id env \<and> ev_start_time e = t"
      using active_update_open(1)[OF assms(1) refl, of t r] by (simp add: tbl' open_insert)
    ultimately show ?thesis by blast
  next
    case same
    then have "tbl' = fst (touch_active (s_active_event_id st) t r tbl)"
      using assms(4,5) active_update_open(3)[OF assms(1,2), of t r]
      by (auto simp: process_cycle_eq persist_same_def Let_def nx case_prod_beta)
    then have "open_events (s_endpoint_id st) tbl' = [count_cycle r (set_duration t e0)]"
      using active_update_open(2)[OF assms(1,2), of t r] by simp
    with same(2) due show ?thesis by simp
  qed
qed

theorem event_timeline_witness:
  "\<exists>e. open_events 1 (fst (snd (process_cycle 3 (plain_env (sec 86400) 11) all_back plain_state [day_old_event]))) = [e]"
  using event_timeline[OF day_old_inv(1) _ _ triple_collapse refl, of day_old_event "plain_env (sec 86400) 11" 3 all_back]
  by (simp add: day_old_inv(2) plain_state_def[THEN arg_cong[where f = s_endpoint_id]])
    (auto simp: day_old_event_def plain_env_def)

subsection \<open>Counting\<close>

definition tally :: "(event \<Rightarrow> nat) \<Rightarrow> uuid \<Rightarrow> event_table \<Rightarrow> nat" where
  "tally g ep tbl = sum_list (map g (filter (\<lambda>e. ev_endpoint_id e = ep) tbl))"

lemma tally_update:
  assumes "\<And>e. g (f e) = g e + k" "\<And>e. ev_endpoint_id (f e) = ev_endpoint_id e"
  shows "tally g ep (map (\<lambda>e. if P e then f e else e) tbl)
    = tally g ep tbl + k * length (filter (\<lambda>e. P e \<and> ev_endpoint_id e = ep) tbl)"
  by (induction tbl) (auto simp: tally_def assms)

lemma tally_insert:
  "tally g ep (insert_event i ep op det r s t tbl) = tally g ep tbl + g (last (insert_event i ep op det r s t tbl))"
  by (simp add: tally_def insert_event_def)

lemma active_rows:
  assumes "sm_inv st tbl"
  shows "filter (\<lambda>e. (ev_id e = s_active_event_id st \<and> is_open e) \<and> ev_endpoint_id e = s_endpoint_id st) tbl
    = open_events (s_endpoint_id st) tbl"
  unfolding open_events_def using assms
  by (intro filter_cong) (auto simp: sm_inv_def open_events_def)

text \<open>
  Every cycle adds its replies, and one cycle, to the events of its endpoint exactly once,
  except that the cycle of a 24-hour rollover is counted twice: in the event it closes and in
  the event it opens.
\<close>

lemma cycle_accounting:
  assumes "sm_inv st tbl" "process_cycle n env r st tbl = (st', tbl', es)"
    and "k = (if s_confirmed_detailed_state st' = s_confirmed_detailed_state st
              \<and> rollover_due st (en_execution_time env) tbl then 2 else 1)"
  shows "tally ev_success_count (s_endpoint_id st) tbl'
      = tally ev_success_count (s_endpoint_id st) tbl + k * success_count r \<and>
    tally ev_monitoring_cycle_count (s_endpoint_id st) tbl'
      = tally ev_monitoring_cycle_count (s_endpoint_id st) tbl + k"
proof -
  let ?nx = "confirmed_state n env r st" and ?t = "en_execution_time env" and ?ep = "s_endpoint_id st"
  note nx = confirmed_state_simps(1-4)[of n env r st]
  have ins: "tally ev_success_count ep (insert_event i ep op det r s t u) = tally ev_success_count ep u + success_count r"
    "tally ev_monitoring_cycle_count ep (insert_event i ep op det r s t u) = tally ev_monitoring_cycle_count ep u + 1"
    for i ep op det s t u
    by (simp_all add: tally_insert) (simp_all add: insert_event_def)
  have upd: "tally ev_success_count ?ep (map (\<lambda>e. if ev_id e = s_active_event_id st \<and> is_open e then f e else e) tbl)
      = tally ev_success_count ?ep tbl + success_count r * length (open_events ?ep tbl)"
    "tally ev_monitoring_cycle_count ?ep (map (\<lambda>e. if ev_id e = s_active_event_id st \<and> is_open e then f e else e) tbl)
      = tally ev_monitoring_cycle_count ?ep tbl + length (open_events ?ep tbl)"
    if "f = (\<lambda>e. count_cycle r (close_at ?t e)) \<or> f = (\<lambda>e. count_cycle r (set_duration ?t e))" for f
    using that tally_update[of ev_success_count f "success_count r" ?ep "\<lambda>e. ev_id e = s_active_event_id st \<and> is_open e" tbl]
      tally_update[of ev_monitoring_cycle_count f 1 ?ep "\<lambda>e. ev_id e = s_active_event_id st \<and> is_open e" tbl]
      active_rows[OF assms(1)] by auto
  consider (change) "s_confirmed_detailed_state ?nx \<noteq> s_confirmed_detailed_state st"
    | (roll) "s_confirmed_detailed_state ?nx = s_confirmed_detailed_state st" "rollover_due st ?t tbl"
    | (same) "s_confirmed_detailed_state ?nx = s_confirmed_detailed_state st" "\<not> rollover_due st ?t tbl" by blast
  then show ?thesis
  proof cases
    case change
    then have "tbl' = insert_event (en_new_id env) ?ep (s_confirmed_operational_state ?nx)
        (s_confirmed_detailed_state ?nx) r False ?t (close_open_events ?ep ?t tbl)"
      using assms(2) by (auto simp: process_cycle_eq persist_change_def Let_def nx)
    moreover have "k = 1" using change assms(3) process_cycle_core(2)[OF assms(2)] by simp
    moreover have "tally ev_success_count ?ep (close_open_events ?ep ?t tbl) = tally ev_success_count ?ep tbl"
      "tally ev_monitoring_cycle_count ?ep (close_open_events ?ep ?t tbl) = tally ev_monitoring_cycle_count ?ep tbl"
      unfolding close_open_events_def update_where_def fst_conv
      using tally_update[of ev_success_count "close_at ?t" 0] tally_update[of ev_monitoring_cycle_count "close_at ?t" 0]
      by simp_all
    ultimately show ?thesis by (simp add: ins)
  next
    case roll
    then have "tbl' = insert_event (en_new_id env) ?ep (s_confirmed_operational_state ?nx)
        (s_confirmed_detailed_state ?nx) r True ?t (rollover_active (s_active_event_id st) ?t r tbl)"
      using assms(2) by (auto simp: process_cycle_eq persist_rollover_def Let_def nx)
    moreover have "k = 2" using roll assms(3) process_cycle_core(2)[OF assms(2)] by simp
    moreover have "length (open_events ?ep tbl) = 1"
    proof -
      have "filter (\<lambda>e. ev_id e = s_active_event_id st \<and> is_open e) tbl \<noteq> []"
        using roll(2) by (auto simp: rollover_due_def active_duration_def)
      then obtain e where "e \<in> set tbl" "ev_id e = s_active_event_id st" "is_open e"
        by (auto simp: filter_empty_conv)
      then have "e \<in> set (open_events ?ep tbl)" using assms(1) by (simp add: open_events_def sm_inv_def)
      then have "open_events ?ep tbl \<noteq> []" by auto
      with open_at_most_one[OF assms(1)] show ?thesis by (auto simp: one_open_def)
    qed
    ultimately show ?thesis
      by (simp add: ins rollover_active_def update_where_def upd)
  next
    case same
    have k: "k = 1" using same assms(3) process_cycle_core(2)[OF assms(2)] by simp
    show ?thesis
    proof (cases "open_events ?ep tbl")
      case Nil
      then have "tbl' = insert_event (en_new_id env) ?ep (s_confirmed_operational_state ?nx)
          (s_confirmed_detailed_state ?nx) r False ?t (fst (touch_active (s_active_event_id st) ?t r tbl))"
        using assms(2) same active_update_open(3)[OF assms(1) Nil, of ?t r]
        by (auto simp: process_cycle_eq persist_same_def Let_def nx case_prod_beta)
      with Nil show ?thesis by (simp add: k ins touch_active_def update_where_def upd)
    next
      case (Cons e0 rest)
      then have one: "length (open_events ?ep tbl) = 1" using open_at_most_one[OF assms(1)] by (auto simp: one_open_def)
      then have "tbl' = fst (touch_active (s_active_event_id st) ?t r tbl)"
        using assms(2) same active_update_open(3)[OF assms(1) refl, of ?t r]
        by (auto simp: process_cycle_eq persist_same_def Let_def nx case_prod_beta)
      with one show ?thesis by (simp add: k touch_active_def update_where_def upd)
    qed
  qed
qed

lemma cycle_accounting_witness:
  "tally ev_success_count 1 (fst (snd (process_cycle 3 (plain_env (sec 86400) 11) all_back plain_state [day_old_event])))
   = 110"
proof -
  have same: "s_confirmed_detailed_state (fst (process_cycle 3 (plain_env (sec 86400) 11) all_back plain_state [day_old_event]))
      = s_confirmed_detailed_state plain_state"
    unfolding process_cycle_core(2)[OF triple_collapse] confirmed_state_simps
    by (simp add: confirm_def classify_with_def classify_ping_result_def all_back_def total_count_def plain_state_def plain_env_def)
  have due: "rollover_due plain_state (en_execution_time (plain_env (sec 86400) 11)) [day_old_event]"
    using epoch_seconds_sec[of 86400]
    by (simp add: rollover_due_def active_duration_def is_open_def day_old_event_def plain_state_def plain_env_def)
  have "s_endpoint_id plain_state = 1" by (simp add: plain_state_def)
  with cycle_accounting[OF day_old_inv(1) triple_collapse refl, of 3 "plain_env (sec 86400) 11" all_back] same due
  show ?thesis by (simp add: tally_def day_old_event_def all_back_def)
qed

text \<open>
  A root-cause analysis is started exactly when a cycle takes the endpoint from a confirmed
  operational state other than DOWN to DOWN and the endpoint's row enables it; a change
  between detailed states of one operational state never starts one.
\<close>

lemma rca_on_confirmed_down:
  assumes "process_cycle n env r st tbl = (st', tbl', es)"
  shows "Run_differential_rca ep \<in> set es \<longleftrightarrow>
    ep = s_endpoint_id st \<and> s_confirmed_operational_state st \<noteq> ''DOWN'' \<and>
    s_confirmed_operational_state st' = ''DOWN'' \<and> en_enable_rca env = Some True"
proof -
  let ?new = "classify_with (en_baseline env) r"
  have es: "es = (if snd (confirm n ?new st) then transition_effects env st r ?new else [])"
    using assms by (auto simp: process_cycle_eq Let_def case_prod_beta)
  have op: "s_confirmed_operational_state st' =
      (if snd (confirm n ?new st) then fst ?new else s_confirmed_operational_state st)"
    unfolding process_cycle_core(3)[OF assms] confirmed_state_simps(4)
    using confirm_changes(2,3)[of n ?new st] by simp
  show ?thesis
    unfolding es op by (auto simp: transition_effects_def rca_effects_def Let_def case_prod_beta)
qed

lemma rca_on_confirmed_down_witness:
  "Run_differential_rca 1 \<in> set (snd (snd (process_cycle 3 (plain_env (sec 180) 13) all_lost
      (plain_state\<lparr>s_pending_detailed_state := Some ''DOWN'', s_pending_cycle_count := 2\<rparr>) [day_old_event])))"
proof -
  let ?st = "plain_state\<lparr>s_pending_detailed_state := Some ''DOWN'', s_pending_cycle_count := 2\<rparr>"
  let ?p = "process_cycle 3 (plain_env (sec 180) 13) all_lost ?st [day_old_event]"
  have "s_confirmed_operational_state (fst ?p) = ''DOWN''"
    unfolding process_cycle_core(3)[OF triple_collapse] confirmed_state_simps
    by (simp add: confirm_def classify_with_def classify_ping_result_def all_lost_def plain_state_def plain_env_def)
  then show ?thesis
    using rca_on_confirmed_down[OF triple_collapse, of 1 3 "plain_env (sec 180) 13" all_lost ?st "[day_old_event]"]
    by (simp add: plain_state_def plain_env_def)
qed

end
