(* ===== verification/Baseline.thy ===== *)
theory Baseline
  imports State_Machine
begin

text \<open>
  The latency baselines (\<open>app/services/baseline_service.py\<close>): per endpoint an array of 168
  hourly statistics of the week, filled from a view whose weekdays count from Sunday and
  looked up with weekdays that count from Monday, with defaults for what is missing or too
  young. The engine hands the result to the classification of ping results.
\<close>

definition DEFAULT_MEAN_MS :: real where "DEFAULT_MEAN_MS = 50"
definition DEFAULT_STDDEV_MS :: real where "DEFAULT_STDDEV_MS = 15"
definition GRACE_PERIOD_DAYS :: real where "GRACE_PERIOD_DAYS = 7"

type_synonym baseline = "real \<times> real \<times> int" \<comment> \<open>mean, deviation, sample count\<close>

definition default_baseline :: baseline where
  "default_baseline = (DEFAULT_MEAN_MS, DEFAULT_STDDEV_MS, 0)"

record baseline_cache =
  bc_cache :: "uuid \<rightharpoonup> baseline option list"
  bc_onboarded :: "uuid \<rightharpoonup> instant"

record baseline_row =
  bl_endpoint_id :: uuid
  bl_day_of_week :: int
  bl_hour_of_day :: int
  bl_mean :: "real option"
  bl_stddev :: "real option"

definition cache_row ::
  "baseline_row \<Rightarrow> (uuid \<rightharpoonup> baseline option list) \<Rightarrow> (uuid \<rightharpoonup> baseline option list)" where
  \<comment> \<open>the query selects no sample count, so that \<open>getattr\<close> yields the default 100\<close>
  "cache_row row cache =
     (let pg_dow = bl_day_of_week row; hour = bl_hour_of_day row;
          dow = (if 0 \<le> pg_dow \<and> pg_dow \<le> 6 then (pg_dow - 1) mod 7 else 0);
          idx = dow * 24 + hour
      in if \<not> (0 \<le> idx \<and> idx < 168) then cache
         else
           (let mean = (case bl_mean row of Some m \<Rightarrow> m | None \<Rightarrow> DEFAULT_MEAN_MS);
                stddev = (case bl_stddev row of Some s \<Rightarrow> s | None \<Rightarrow> DEFAULT_STDDEV_MS);
                arr = (case cache (bl_endpoint_id row) of None \<Rightarrow> replicate 168 None | Some a \<Rightarrow> a)
            in cache(bl_endpoint_id row \<mapsto> arr[nat idx := Some (mean, stddev, 100)])))"

definition refresh_baselines ::
  "(uuid \<times> instant) list \<Rightarrow> baseline_row list \<Rightarrow> baseline_cache" where
  "refresh_baselines endpoints rows =
     \<lparr> bc_cache = fold cache_row rows Map.empty,
       bc_onboarded = fold (\<lambda>(i, t) m. m(i \<mapsto> t)) endpoints Map.empty \<rparr>"

text \<open>The arguments of a lookup: nothing, a weekday and hour, or a \<open>datetime\<close> (its weekday and hour).\<close>

datatype lookup_time = Now | At int int | At_datetime int int

definition weekday :: "instant \<Rightarrow> int" where \<comment> \<open>Monday is 0; the epoch was a Thursday\<close>
  "weekday t = (t div sec 86400 + 3) mod 7"

definition hour_of :: "instant \<Rightarrow> int" where "hour_of t = t div sec 3600 mod 24"

definition get_baseline :: "instant \<Rightarrow> uuid \<Rightarrow> lookup_time \<Rightarrow> baseline_cache \<Rightarrow> baseline" where
  "get_baseline now_utc ep wh c =
     (let young = (case bc_onboarded c ep of
                     None \<Rightarrow> False
                   | Some created_at \<Rightarrow> of_int (now_utc - created_at) / 1000000 / 86400 < GRACE_PERIOD_DAYS);
          (dow, hour) = (case wh of Now \<Rightarrow> (weekday now_utc, hour_of now_utc)
                         | At d h \<Rightarrow> (d, h) | At_datetime d h \<Rightarrow> (d, h))
      in if young then default_baseline
         else if \<not> (0 \<le> dow \<and> dow \<le> 6 \<and> 0 \<le> hour \<and> hour \<le> 23) then default_baseline
         else
           (let index = nat (dow * 24 + hour)
            in case bc_cache c ep of
                 None \<Rightarrow> default_baseline
               | Some arr \<Rightarrow>
                   if arr = [] \<or> length arr \<le> index then default_baseline
                   else (case arr ! index of
                           None \<Rightarrow> default_baseline
                         | Some (mean, stddev, count) \<Rightarrow>
                             (mean, if 0 < stddev then stddev else DEFAULT_STDDEV_MS, count))))"

definition calculate_z_score :: "real \<Rightarrow> real \<Rightarrow> real option \<Rightarrow> real" where
  "calculate_z_score latency_ms mean_ms stddev_ms =
     (let safe_stddev = (case stddev_ms of Some s \<Rightarrow> if 0 < s then s else DEFAULT_STDDEV_MS | None \<Rightarrow> DEFAULT_STDDEV_MS)
      in (latency_ms - mean_ms) / safe_stddev)"

definition is_latency_degraded :: "real option \<Rightarrow> real \<Rightarrow> real option \<Rightarrow> real \<Rightarrow> bool" where
  "is_latency_degraded latency_ms mean_ms stddev_ms k =
     (case latency_ms of
        None \<Rightarrow> False
      | Some l \<Rightarrow>
          (let safe_stddev = (case stddev_ms of Some s \<Rightarrow> if 0 < s then s else DEFAULT_STDDEV_MS | None \<Rightarrow> DEFAULT_STDDEV_MS);
               threshold = mean_ms + k * safe_stddev
           in threshold < l))"

lemma z_score_degraded: "is_latency_degraded (Some l) m s k \<longleftrightarrow> k < calculate_z_score l m s"
  by (auto simp: is_latency_degraded_def calculate_z_score_def Let_def DEFAULT_STDDEV_MS_def field_simps
      split: option.splits)

subsection \<open>Rows are found where they were filed\<close>

definition row_ok :: "baseline_row \<Rightarrow> bool" where
  "row_ok row \<longleftrightarrow> 0 \<le> bl_day_of_week row \<and> bl_day_of_week row \<le> 6 \<and> 0 \<le> bl_hour_of_day row \<and> bl_hour_of_day row \<le> 23"

definition row_slot :: "baseline_row \<Rightarrow> nat" where
  "row_slot row = nat ((bl_day_of_week row - 1) mod 7 * 24 + bl_hour_of_day row)"

definition row_value :: "baseline_row \<Rightarrow> baseline" where
  "row_value row =
     ((case bl_mean row of Some m \<Rightarrow> m | None \<Rightarrow> DEFAULT_MEAN_MS),
      (case bl_stddev row of Some s \<Rightarrow> s | None \<Rightarrow> DEFAULT_STDDEV_MS), 100)"

lemma row_slot_less: "row_ok row \<Longrightarrow> row_slot row < 168"
proof -
  assume ok: "row_ok row"
  have "0 \<le> (bl_day_of_week row - 1) mod 7" "(bl_day_of_week row - 1) mod 7 < 7" by simp_all
  with ok show ?thesis unfolding row_slot_def row_ok_def by linarith
qed

lemma cache_row_ok:
  "row_ok row \<Longrightarrow> cache_row row cache = cache(bl_endpoint_id row \<mapsto>
     (case cache (bl_endpoint_id row) of None \<Rightarrow> replicate 168 None | Some a \<Rightarrow> a)
       [row_slot row := Some (row_value row)])"
proof -
  assume ok: "row_ok row"
  have "0 \<le> (bl_day_of_week row - 1) mod 7" "(bl_day_of_week row - 1) mod 7 < 7" by simp_all
  with ok show ?thesis
    by (simp add: cache_row_def row_ok_def Let_def row_slot_def row_value_def) linarith
qed

definition cached :: "uuid \<Rightarrow> nat \<Rightarrow> baseline_row list \<Rightarrow> baseline option" where
  \<comment> \<open>the last row of the endpoint for the slot\<close>
  "cached ep slot rows =
     (let rs = filter (\<lambda>r. bl_endpoint_id r = ep \<and> row_slot r = slot) rows
      in if rs = [] then None else Some (row_value (last rs)))"

lemma refresh_cached:
  assumes "\<forall>r \<in> set rows. row_ok r" "slot < 168"
  shows "case fold cache_row rows Map.empty ep of
      None \<Rightarrow> cached ep slot rows = None
    | Some arr \<Rightarrow> length arr = 168 \<and> arr ! slot = cached ep slot rows"
  using assms(1)
proof (induction rows rule: rev_induct)
  case (snoc r rows)
  let ?c = "fold cache_row rows Map.empty"
  have ok: "row_ok r" using snoc.prems by simp
  note lt = row_slot_less[OF ok]
  have IH: "case ?c ep of None \<Rightarrow> cached ep slot rows = None
    | Some arr \<Rightarrow> length arr = 168 \<and> arr ! slot = cached ep slot rows" using snoc by simp
  have new: "cached ep slot (rows @ [r]) = (if bl_endpoint_id r = ep \<and> row_slot r = slot
      then Some (row_value r) else cached ep slot rows)"
    by (simp add: cached_def Let_def)
  have fold: "fold cache_row (rows @ [r]) Map.empty = cache_row r ?c" by simp
  show ?case
  proof (cases "bl_endpoint_id r = ep")
    case True
    then show ?thesis
      using IH lt assms(2) unfolding new fold cache_row_ok[OF ok]
      by (cases "?c ep"; cases "row_slot r = slot") auto
  next
    case False
    then show ?thesis using IH unfolding new fold cache_row_ok[OF ok] by simp
  qed
qed (simp add: cached_def)

lemma weekday_hour_range: "0 \<le> weekday t" "weekday t \<le> 6" "0 \<le> hour_of t" "hour_of t \<le> 23"
  using pos_mod_bound[of 7 "t div sec 86400 + 3"] pos_mod_bound[of 24 "t div sec 3600"]
  by (simp_all add: weekday_def hour_of_def)

lemma base24_iff:
  "0 \<le> k \<Longrightarrow> k \<le> 23 \<Longrightarrow> 0 \<le> h \<Longrightarrow> h \<le> 23 \<Longrightarrow> a * 24 + k = w * 24 + h \<longleftrightarrow> a = w \<and> k = (h::int)"
proof (rule iffI)
  assume *: "0 \<le> k" "k \<le> 23" "0 \<le> h" "h \<le> 23" "a * 24 + k = w * 24 + h"
  then have "a < w + 1" "w < a + 1" by linarith+
  with * show "a = w \<and> k = h" by linarith
qed simp

lemma shift_weekday:
  "0 \<le> d \<Longrightarrow> d \<le> 6 \<Longrightarrow> 0 \<le> w \<Longrightarrow> w \<le> 6 \<Longrightarrow> (d - 1) mod 7 = w \<longleftrightarrow> d = (w + 1) mod (7::int)"
proof -
  assume "0 \<le> d" "d \<le> 6" "0 \<le> w" "w \<le> 6"
  then have "d = 0 \<or> d = 1 \<or> d = 2 \<or> d = 3 \<or> d = 4 \<or> d = 5 \<or> d = 6"
    "w = 0 \<or> w = 1 \<or> w = 2 \<or> w = 3 \<or> w = 4 \<or> w = 5 \<or> w = 6" by linarith+
  then show ?thesis by (elim disjE) simp_all
qed

lemma slot_iff:
  assumes "row_ok r" "0 \<le> w" "w \<le> 6" "0 \<le> h" "h \<le> 23"
  shows "row_slot r = nat (w * 24 + h) \<longleftrightarrow> bl_day_of_week r = (w + 1) mod 7 \<and> bl_hour_of_day r = h"
proof -
  have r: "0 \<le> bl_day_of_week r" "bl_day_of_week r \<le> 6" "0 \<le> bl_hour_of_day r" "bl_hour_of_day r \<le> 23"
    using assms(1) by (simp_all add: row_ok_def)
  have "0 \<le> (bl_day_of_week r - 1) mod 7 * 24 + bl_hour_of_day r" using r(3) by simp
  then have "row_slot r = nat (w * 24 + h) \<longleftrightarrow> (bl_day_of_week r - 1) mod 7 * 24 + bl_hour_of_day r = w * 24 + h"
    unfolding row_slot_def using assms(2,4) by (intro eq_nat_nat_iff) simp_all
  then show ?thesis
    using base24_iff[OF r(3,4) assms(4,5)] shift_weekday[OF r(1,2) assms(2,3)] by simp
qed

lemma onboarded_old:
  assumes "\<forall>(i, t) \<in> set endpoints. i \<noteq> ep \<or> t \<le> b"
    and "fold (\<lambda>(i, t) m. m(i \<mapsto> t)) endpoints Map.empty ep = Some t"
  shows "t \<le> b"
  using assms by (induction endpoints arbitrary: t rule: rev_induct) (auto split: if_splits)

lemma get_baseline_deviation: "0 < fst (snd (get_baseline now ep wh c))"
  by (auto simp: get_baseline_def Let_def default_baseline_def DEFAULT_STDDEV_MS_def split: option.splits prod.splits)

text \<open>
  Past the grace period, the baseline of an endpoint at a time is the last row of the view
  for the endpoint, that hour, and the weekday the view counts from Sunday, a missing or
  non-positive deviation being replaced by 15 ms; without such a row it is the default. The
  deviation handed to the classification is positive in every case.
\<close>

lemma baseline_lookup:
  assumes "\<forall>r \<in> set rows. row_ok r" and "\<forall>(i, t) \<in> set endpoints. i \<noteq> ep \<or> t \<le> now - sec 604800"
  shows "get_baseline now ep Now (refresh_baselines endpoints rows) =
      (let rs = filter (\<lambda>r. bl_endpoint_id r = ep \<and> bl_day_of_week r = (weekday now + 1) mod 7
                          \<and> bl_hour_of_day r = hour_of now) rows
       in if rs = [] then (50, 15, 0)
          else let (m, s, n) = row_value (last rs) in (m, if 0 < s then s else 15, n))
    \<and> 0 < fst (snd (get_baseline now ep wh c))"
proof -
  let ?c = "refresh_baselines endpoints rows" and ?slot = "nat (weekday now * 24 + hour_of now)"
  note rng = weekday_hour_range[of now]
  have slot: "?slot < 168" using rng by linarith
  have "\<not> of_int (now - t) / 1000000 / 86400 < GRACE_PERIOD_DAYS" if "bc_onboarded ?c ep = Some t" for t
  proof -
    have "sec 604800 \<le> now - t"
      using onboarded_old[OF assms(2), of t] that by (simp add: refresh_baselines_def)
    then have "(604800000000 :: real) \<le> of_int (now - t)" by linarith
    then show ?thesis by (simp add: GRACE_PERIOD_DAYS_def field_simps)
  qed
  then have old: "(case bc_onboarded ?c ep of None \<Rightarrow> False
      | Some t \<Rightarrow> of_int (now - t) / 1000000 / 86400 < GRACE_PERIOD_DAYS) = False"
    by (auto split: option.splits)
  have rs: "filter (\<lambda>r. bl_endpoint_id r = ep \<and> row_slot r = ?slot) rows
      = filter (\<lambda>r. bl_endpoint_id r = ep \<and> bl_day_of_week r = (weekday now + 1) mod 7
          \<and> bl_hour_of_day r = hour_of now) rows"
    using assms(1) rng by (intro filter_cong) (auto simp: slot_iff)
  have c: "cached ep ?slot rows = (let rs = filter (\<lambda>r. bl_endpoint_id r = ep \<and>
      bl_day_of_week r = (weekday now + 1) mod 7 \<and> bl_hour_of_day r = hour_of now) rows
      in if rs = [] then None else Some (row_value (last rs)))"
    unfolding cached_def rs ..
  have "get_baseline now ep Now ?c = (case cached ep ?slot rows of None \<Rightarrow> default_baseline
      | Some (m, s, n) \<Rightarrow> (m, if 0 < s then s else DEFAULT_STDDEV_MS, n))"
    using refresh_cached[OF assms(1) slot, of ep] rng slot
    unfolding get_baseline_def old Let_def
    by (auto simp: refresh_baselines_def not_le split: option.splits)
  then show ?thesis
    using get_baseline_deviation[of now ep wh c] unfolding c
    by (auto simp: Let_def default_baseline_def DEFAULT_MEAN_MS_def DEFAULT_STDDEV_MS_def split: prod.splits)
qed

lemma baseline_lookup_witness:
  "get_baseline (sec 700000) 1 Now (refresh_baselines [(1, 0)]
     [\<lparr>bl_endpoint_id = 1, bl_day_of_week = 5, bl_hour_of_day = 2, bl_mean = Some 20, bl_stddev = Some 0\<rparr>])
   = (20, 15, 100)"
  using baseline_lookup[of "[\<lparr>bl_endpoint_id = 1, bl_day_of_week = 5, bl_hour_of_day = 2,
      bl_mean = Some 20, bl_stddev = Some 0\<rparr>]" "[(1, 0)]" 1 "sec 700000"]
  by (simp add: row_ok_def weekday_def hour_of_def row_value_def)

end
