(* ===== verification/Py_Value.thy ===== *)
theory Py_Value
  imports Py_Address Py_Dict
begin

text \<open>
  Dynamically typed values. The registry reads its endpoints from dictionaries, dataclasses
  and ORM rows alike, so the values it meets are a sum type here, with \<open>str\<close>, \<open>bool\<close> and
  the constructor of \<open>uuid.UUID\<close> (Python 3.11) on it. A number or a \<open>datetime\<close> carries the
  text that \<open>str\<close> gives for it.
\<close>

datatype py_val =
    PNone
  | PBool bool
  | PStr string
  | PUuid uuid
  | PNum real string
  | PTime instant string

text \<open>\<open>str(u)\<close>: 32 lower-case hexadecimal digits in groups of 8, 4, 4, 4 and 12.\<close>

fun hex_pad :: "nat \<Rightarrow> nat \<Rightarrow> string" where
  "hex_pad 0 n = []"
| "hex_pad (Suc w) n = hex_pad w (n div 16) @ [hex_digit (n mod 16)]"

definition uuid_text :: "uuid \<Rightarrow> string" where
  "uuid_text u =
     (let h = hex_pad 32 (unat u)
      in take 8 h @ ''-'' @ take 4 (drop 8 h) @ ''-'' @ take 4 (drop 12 h) @ ''-''
         @ take 4 (drop 16 h) @ ''-'' @ drop 20 h)"

fun py_str :: "py_val \<Rightarrow> string" where
  "py_str PNone = ''None''"
| "py_str (PBool b) = (if b then ''True'' else ''False'')"
| "py_str (PStr s) = s"
| "py_str (PUuid u) = uuid_text u"
| "py_str (PNum _ s) = s"
| "py_str (PTime _ s) = s"

fun py_truthy :: "py_val \<Rightarrow> bool" where
  "py_truthy PNone = False"
| "py_truthy (PBool b) = b"
| "py_truthy (PStr s) = (s \<noteq> [])"
| "py_truthy (PUuid _) = True"
| "py_truthy (PNum x _) = (x \<noteq> 0)"
| "py_truthy (PTime _ _) = True"

subsection \<open>Replacing and hexadecimal numbers\<close>

function replace_all :: "string \<Rightarrow> string \<Rightarrow> string \<Rightarrow> string" where
  \<comment> \<open>\<open>s.replace(pat, new)\<close> for a non-empty \<open>pat\<close>: from the left, without overlaps\<close>
  "replace_all pat new s =
     (if pat = [] \<or> s = [] then s
      else if take (length pat) s = pat then new @ replace_all pat new (drop (length pat) s)
      else hd s # replace_all pat new (tl s))"
  by pat_completeness auto
termination by (relation "measure (\<lambda>(pat, new, s). length s)") auto

declare replace_all.simps [simp del]

definition strip_chars :: "char set \<Rightarrow> string \<Rightarrow> string" where
  "strip_chars cs s = rev (dropWhile (\<lambda>c. c \<in> cs) (rev (dropWhile (\<lambda>c. c \<in> cs) s)))"

fun hex_digits_val :: "nat \<Rightarrow> string \<Rightarrow> nat option" where
  "hex_digits_val a [] = Some a"
| "hex_digits_val a (c # cs) =
     (case hex_val c of
        Some d \<Rightarrow> hex_digits_val (a * 16 + d) cs
      | None \<Rightarrow>
          (case cs of
             [] \<Rightarrow> None
           | c' # _ \<Rightarrow> if c = CHR ''_'' \<and> hex_val c' \<noteq> None then hex_digits_val a cs else None))"

definition hex_literal :: "string \<Rightarrow> nat option" where
  \<comment> \<open>the digits of \<open>int(s, 16)\<close> after its sign: an optional prefix, which one underscore may follow\<close>
  "hex_literal s =
     (let t = (if take 2 s = ''0x'' \<or> take 2 s = ''0X''
               then (if take 1 (drop 2 s) = ''_'' then drop 3 s else drop 2 s) else s)
      in case t of [] \<Rightarrow> None | c # _ \<Rightarrow> if hex_val c = None then None else hex_digits_val 0 t)"

definition py_int16 :: "string \<Rightarrow> int result" where
  "py_int16 s =
     (let t = strip s;
          signed = (\<lambda>f ds. case hex_literal ds of None \<Rightarrow> Inl ValueError | Some n \<Rightarrow> Inr (f (int n)))
      in case t of
           [] \<Rightarrow> Inl ValueError
         | c # ds \<Rightarrow> if c = CHR ''-'' then signed uminus ds
                    else if c = CHR ''+'' then signed id ds else signed id t)"

definition UUID :: "string \<Rightarrow> uuid result" where
  "UUID s =
     (let hex = replace_all ''uuid:'' [] (replace_all ''urn:'' [] s);
          hex = replace_all ''-'' [] (strip_chars {CHR ''{'', CHR ''}''} hex)
      in if length hex \<noteq> 32 then Inl ValueError
         else (case py_int16 hex of
                 Inl e \<Rightarrow> Inl e
               | Inr n \<Rightarrow> if 0 \<le> n \<and> n < 2 ^ 128 then Inr (word_of_int n) else Inl ValueError))"

subsection \<open>The text of a UUID is read back\<close>

lemma hex_val_hex_digit [simp]: "d < 16 \<Longrightarrow> hex_val (hex_digit d) = Some d"
  by (auto simp: hex_val_def hex_digit_def digit_def Let_def)

lemma hex_val_dash: "hex_val CHR ''-'' = None" "hex_val CHR '':'' = None" "hex_val CHR ''{'' = None"
  "hex_val CHR ''}'' = None" "hex_val CHR ''x'' = None" "hex_val CHR ''X'' = None" "hex_val CHR ''u'' = None"
  "hex_val CHR ''+'' = None"
  by (simp_all add: hex_val_def)

lemma length_hex_pad [simp]: "length (hex_pad w n) = w"
  by (induction w arbitrary: n) simp_all

declare hex_pad.simps [simp del]

lemma hex_pad_digits: "c \<in> set (hex_pad w n) \<Longrightarrow> hex_val c \<noteq> None"
  by (induction w arbitrary: n) (auto simp: hex_pad.simps)

lemma hex_digits_val_append:
  "\<forall>c \<in> set s. hex_val c \<noteq> None \<Longrightarrow> hex_digits_val a s = Some b \<Longrightarrow> hex_digits_val a (s @ t) = hex_digits_val b t"
  by (induction s arbitrary: a) auto

lemma hex_digits_val_pad: "hex_digits_val a (hex_pad w n) = Some (a * 16 ^ w + n mod 16 ^ w)"
proof (induction w arbitrary: n)
  case (Suc w)
  have "hex_digits_val a (hex_pad w (n div 16) @ [hex_digit (n mod 16)])
      = Some ((a * 16 ^ w + n div 16 mod 16 ^ w) * 16 + n mod 16)"
    using hex_digits_val_append[OF _ Suc.IH] hex_pad_digits by simp
  moreover have "n mod (16 * 16 ^ w) = 16 * (n div 16 mod 16 ^ w) + n mod 16"
    using mod_mult2_eq[of n 16 "16 ^ w"] by simp
  ultimately show ?case by (simp add: hex_pad.simps algebra_simps)
qed (simp add: hex_pad.simps)

lemma replace_dash: "replace_all ''-'' [] s = filter (\<lambda>c. c \<noteq> CHR ''-'') s"
  by (induction s) (subst replace_all.simps, simp)+

lemma replace_absent: "pat \<noteq> [] \<Longrightarrow> hd pat \<notin> set s \<Longrightarrow> replace_all pat new s = s"
proof (induction s)
  case (Cons c s)
  then have "take (length pat) (c # s) \<noteq> pat" by (cases pat) auto
  with Cons show ?case by (subst replace_all.simps) simp
qed (subst replace_all.simps, simp)

lemma strip_chars_id: "cs \<inter> set s = {} \<Longrightarrow> strip_chars cs s = s"
proof -
  have id: "dropWhile (\<lambda>c. c \<in> cs) t = t" if "cs \<inter> set t = {}" for t
    using that by (cases t) auto
  assume "cs \<inter> set s = {}"
  then show ?thesis by (simp add: strip_chars_def id)
qed

lemma hex_no_space: "hex_val c \<noteq> None \<Longrightarrow> \<not> is_space c"
  by (auto simp: is_space_def hex_val_def Let_def split: if_splits)

lemma hex_literal_pad: "2 \<le> w \<Longrightarrow> hex_literal (hex_pad w n) = Some (n mod 16 ^ w)"
proof -
  assume "2 \<le> w"
  then obtain c c' t where h: "hex_pad w n = c # c' # t"
    using length_hex_pad[of w n] by (metis Suc_le_length_iff numeral_2_eq_2)
  have hex: "hex_val c \<noteq> None" "hex_val c' \<noteq> None" using hex_pad_digits[of _ w n] h by simp_all
  then have "c' \<noteq> CHR ''x''" "c' \<noteq> CHR ''X''" using hex_val_dash by auto
  then show ?thesis
    using hex hex_digits_val_pad[of 0 w n] h by (auto simp: hex_literal_def)
qed

lemma py_int16_pad: "py_int16 (hex_pad 32 n) = Inr (int (n mod 16 ^ 32))"
proof -
  obtain c t where h: "hex_pad 32 n = c # t" using length_hex_pad[of 32 n] by (cases "hex_pad 32 n") auto
  have "hex_val c \<noteq> None" using hex_pad_digits[of c 32 n] h by simp
  then have "c \<noteq> CHR ''-''" "c \<noteq> CHR ''+''" using hex_val_dash by auto
  moreover have "strip (hex_pad 32 n) = hex_pad 32 n"
    using hex_pad_digits hex_no_space by (blast intro: strip_id)
  moreover have "hex_literal (hex_pad 32 n) = Some (n mod 16 ^ 32)" by (rule hex_literal_pad) simp
  ultimately show ?thesis unfolding h by (simp add: py_int16_def)
qed

lemma UUID_text [simp]: "UUID (uuid_text u) = Inr u"
proof -
  let ?h = "hex_pad 32 (unat u)"
  have no: "hex_val c = None \<Longrightarrow> c \<notin> set ?h" for c using hex_pad_digits by blast
  have set: "set (uuid_text u) \<subseteq> insert CHR ''-'' (set ?h)"
    by (auto simp: uuid_text_def Let_def dest: in_set_takeD in_set_dropD)
  have u: "CHR ''u'' \<notin> set (uuid_text u)" "{CHR ''{'', CHR ''}''} \<inter> set (uuid_text u) = {}"
    using set no[OF hex_val_dash(7)] no[OF hex_val_dash(3)] no[OF hex_val_dash(4)] by auto
  have cat: "take 8 h @ take 4 (drop 8 h) @ take 4 (drop 12 h) @ take 4 (drop 16 h) @ drop 20 h = h" for h :: string
  proof -
    have "take 4 (drop n h) @ drop (n + 4) h = drop n h" for n
      using append_take_drop_id[of 4 "drop n h"] by (simp add: add.commute)
    from this[of 16] this[of 12] this[of 8] show ?thesis by simp
  qed
  have keep: "filter (\<lambda>c. c \<noteq> CHR ''-'') t = t" if "set t \<subseteq> set ?h" for t
    unfolding filter_id_conv using that no[OF hex_val_dash(1)] by blast
  have sub: "set (take m (drop n ?h)) \<subseteq> set ?h" "set (take m ?h) \<subseteq> set ?h" "set (drop n ?h) \<subseteq> set ?h" for m n
    by (auto dest: in_set_takeD in_set_dropD)
  have dash: "filter (\<lambda>c. c \<noteq> CHR ''-'') (uuid_text u) = ?h"
    unfolding uuid_text_def Let_def filter_append keep[OF sub(1)] keep[OF sub(2)] keep[OF sub(3)]
    by (simp add: cat)
  have hex: "replace_all ''-'' [] (strip_chars {CHR ''{'', CHR ''}''}
      (replace_all ''uuid:'' [] (replace_all ''urn:'' [] (uuid_text u)))) = ?h"
    using u by (simp add: replace_absent strip_chars_id replace_dash dash)
  have "unat u < 2 ^ 128" "uint u < 2 ^ 128" using unsigned_less[of u] uint_bounded[of u] by simp_all
  then show ?thesis unfolding UUID_def hex Let_def using py_int16_pad[of "unat u"] by simp
qed

end
