(* ===== verification/Registry.thy ===== *)
theory Registry
  imports Py_Value
begin

text \<open>
  \<open>EndpointRegistry\<close> (\<open>monitoring/registry.py\<close>): the endpoints under supervision, the sweep
  task of each and the diagnostic tasks in flight. The asyncio tasks the registry creates and
  cancels are a table here, with the two moments that matter to it: when a task finishes, and
  when, on a later turn of the event loop, its done-callback runs. Every method takes the
  registry's lock without awaiting inside, so it is one step; the steps may come in any order.
\<close>

record monitored_endpoint =
  me_id :: uuid
  me_ip_address :: string
  me_hostname :: string
  me_device_type :: string
  me_location :: py_val
  me_endpoint_status :: string
  me_monitoring_enabled :: bool
  me_allow_incident_trace :: bool
  me_allow_topology_discovery :: bool
  me_enable_rca :: bool
  me_enable_scheduled_discovery :: bool
  me_is_l2_segment :: bool
  me_manual_parent_id :: py_val
  me_created_at :: py_val
  me_baseline_mean :: py_val
  me_baseline_stddev :: py_val

text \<open>What the registry is fed: nothing, a dictionary, or an object with attributes.\<close>

datatype ep_data = No_data | Dict_data "string \<rightharpoonup> py_val" | Object_data "string \<rightharpoonup> py_val"

definition get_val :: "ep_data \<Rightarrow> string \<Rightarrow> py_val \<Rightarrow> py_val" where
  "get_val obj key dflt =
     (case obj of
        No_data \<Rightarrow> dflt
      | Dict_data d \<Rightarrow> (case d key of None \<Rightarrow> dflt | Some v \<Rightarrow> v)
      | Object_data a \<Rightarrow> (case a key of None \<Rightarrow> dflt | Some v \<Rightarrow> if v = PNone then dflt else v))"

definition has_val :: "ep_data \<Rightarrow> string \<Rightarrow> bool" where
  "has_val obj key =
     (case obj of No_data \<Rightarrow> False | Dict_data d \<Rightarrow> d key \<noteq> None | Object_data a \<Rightarrow> a key \<noteq> None)"

definition id_of :: "ep_data \<Rightarrow> uuid option result" where
  \<comment> \<open>\<open>None\<close>: missing or empty. A truthy id that is neither text nor a UUID is outside the model.\<close>
  "id_of d =
     (case get_val d ''id'' PNone of
        PStr s \<Rightarrow> map_sum id Some (UUID s)
      | PUuid u \<Rightarrow> Inr (Some u)
      | v \<Rightarrow> if py_truthy v then Inl TypeError else Inr None)"

definition parent_of :: "py_val \<Rightarrow> py_val result" where
  "parent_of v = (case v of PStr s \<Rightarrow> map_sum id PUuid (UUID s) | _ \<Rightarrow> Inr v)"

record task =
  tk_target :: uuid
  tk_address :: string \<comment> \<open>the address the coroutine was started with\<close>
  tk_diagnostic :: bool
  tk_cancelled :: bool
  tk_finished :: bool
  tk_called_back :: bool

record registry =
  r_endpoints :: "(uuid, monitored_endpoint) dict"
  r_running_tasks :: "(uuid, nat) dict"
  r_diagnostic_tasks :: "(uuid, nat set) dict"
  r_tasks :: "task list" \<comment> \<open>every task ever created, by number\<close>

definition EndpointRegistry :: registry where
  "EndpointRegistry = \<lparr> r_endpoints = [], r_running_tasks = [], r_diagnostic_tasks = [], r_tasks = [] \<rparr>"

definition should_run :: "monitored_endpoint \<Rightarrow> bool" where
  "should_run e \<longleftrightarrow> me_endpoint_status e = ''ACTIVE'' \<and> me_monitoring_enabled e"

definition cancel :: "nat \<Rightarrow> task list \<Rightarrow> task list" where
  \<comment> \<open>a request; a task that has finished ignores it\<close>
  "cancel t ts = (if t < length ts \<and> \<not> tk_finished (ts ! t) then ts[t := (ts ! t)\<lparr>tk_cancelled := True\<rparr>] else ts)"

definition cancel_running :: "uuid \<Rightarrow> registry \<Rightarrow> registry" where
  "cancel_running ep r =
     (case get (r_running_tasks r) ep of
        None \<Rightarrow> r
      | Some t \<Rightarrow> r\<lparr>r_tasks := cancel t (r_tasks r), r_running_tasks := del ep (r_running_tasks r)\<rparr>)"

definition endpoint_of :: "uuid \<Rightarrow> ep_data \<Rightarrow> py_val \<Rightarrow> monitored_endpoint" where
  "endpoint_of ep_id d parent =
     (let ip_addr = clean_ip (py_str (get_val d ''ip_address'' (PStr [])));
          flag = (\<lambda>key dflt. py_truthy (get_val d key (PBool dflt)))
      in \<lparr> me_id = ep_id, me_ip_address = ip_addr,
           me_hostname = py_str (get_val d ''hostname'' (PStr ip_addr)),
           me_device_type = py_str (get_val d ''device_type'' (PStr ''SERVER'')),
           me_location = get_val d ''location'' PNone,
           me_endpoint_status = upper (py_str (get_val d ''endpoint_status'' (PStr ''ACTIVE''))),
           me_monitoring_enabled = flag ''monitoring_enabled'' True,
           me_allow_incident_trace = flag ''allow_incident_trace'' True,
           me_allow_topology_discovery = flag ''allow_topology_discovery'' True,
           me_enable_rca = flag ''enable_rca'' True,
           me_enable_scheduled_discovery = flag ''enable_scheduled_discovery'' True,
           me_is_l2_segment = flag ''is_l2_segment'' False,
           me_manual_parent_id = parent,
           me_created_at = get_val d ''created_at'' PNone,
           me_baseline_mean = get_val d ''baseline_mean'' PNone,
           me_baseline_stddev = get_val d ''baseline_stddev'' PNone \<rparr>)"

definition spawn :: "monitored_endpoint \<Rightarrow> registry \<Rightarrow> registry" where
  "spawn e r =
     r\<lparr>r_tasks := r_tasks r @ [\<lparr> tk_target = me_id e, tk_address = me_ip_address e, tk_diagnostic = False,
                                 tk_cancelled = False, tk_finished = False, tk_called_back = False \<rparr>],
       r_running_tasks := put (me_id e) (length (r_tasks r)) (r_running_tasks r)\<rparr>"

definition add_endpoint :: "ep_data \<Rightarrow> bool \<Rightarrow> registry \<Rightarrow> (monitored_endpoint \<times> registry) result" where
  \<comment> \<open>the boolean: a spawn function is given\<close>
  "add_endpoint d spawn_coro_fn r =
     (case id_of d of
        Inl e \<Rightarrow> Inl e
      | Inr None \<Rightarrow> Inl ValueError
      | Inr (Some ep_id) \<Rightarrow>
          (case parent_of (get_val d ''manual_parent_id'' PNone) of
             Inl e \<Rightarrow> Inl e
           | Inr parent \<Rightarrow>
               (let endpoint = endpoint_of ep_id d parent;
                    r = r\<lparr>r_endpoints := put ep_id endpoint (r_endpoints r)\<rparr>;
                    running = get (r_running_tasks r) ep_id \<noteq> None
                in Inr (endpoint,
                        if should_run endpoint \<and> \<not> running \<and> spawn_coro_fn then spawn endpoint r
                        else if \<not> should_run endpoint \<and> running then cancel_running ep_id r
                        else r))))"

definition update_flag :: "ep_data \<Rightarrow> string \<Rightarrow> bool \<Rightarrow> bool" where
  \<comment> \<open>the new value of a toggle that a missing key or \<open>None\<close> leaves as it is\<close>
  "update_flag d key old =
     (if has_val d key \<and> get_val d key PNone \<noteq> PNone then py_truthy (get_val d key PNone) else old)"

definition updated_endpoint :: "ep_data \<Rightarrow> monitored_endpoint \<Rightarrow> py_val \<Rightarrow> monitored_endpoint" where
  "updated_endpoint d x parent =
     x\<lparr> me_ip_address := (if has_val d ''ip_address''
          then clean_ip (py_str (get_val d ''ip_address'' (PStr (me_ip_address x)))) else me_ip_address x),
        me_hostname := (if has_val d ''hostname''
          then py_str (get_val d ''hostname'' (PStr (me_hostname x))) else me_hostname x),
        me_endpoint_status := (if has_val d ''endpoint_status''
          then upper (py_str (get_val d ''endpoint_status'' (PStr (me_endpoint_status x)))) else me_endpoint_status x),
        me_monitoring_enabled := update_flag d ''monitoring_enabled'' (me_monitoring_enabled x),
        me_allow_incident_trace := update_flag d ''allow_incident_trace'' (me_allow_incident_trace x),
        me_allow_topology_discovery := update_flag d ''allow_topology_discovery'' (me_allow_topology_discovery x),
        me_enable_rca := update_flag d ''enable_rca'' (me_enable_rca x),
        me_enable_scheduled_discovery := update_flag d ''enable_scheduled_discovery'' (me_enable_scheduled_discovery x),
        me_is_l2_segment := update_flag d ''is_l2_segment'' (me_is_l2_segment x),
        me_manual_parent_id := parent \<rparr>"

definition update_endpoint :: "ep_data \<Rightarrow> registry \<Rightarrow> unit result \<times> registry" where
  \<comment> \<open>a malformed parent id raises after the fields before it were assigned in place\<close>
  "update_endpoint d r =
     (case id_of d of
        Inl e \<Rightarrow> (Inl e, r)
      | Inr None \<Rightarrow> (Inr (), r)
      | Inr (Some ep_id) \<Rightarrow>
          (case get (r_endpoints r) ep_id of
             None \<Rightarrow> (Inr (), r)
           | Some existing \<Rightarrow>
               (case (if has_val d ''manual_parent_id'' then parent_of (get_val d ''manual_parent_id'' PNone)
                      else Inr (me_manual_parent_id existing)) of
                  Inl e \<Rightarrow> (Inl e, r\<lparr>r_endpoints :=
                    put ep_id (updated_endpoint d existing (me_manual_parent_id existing)) (r_endpoints r)\<rparr>)
                | Inr parent \<Rightarrow>
                    (let existing = updated_endpoint d existing parent;
                         r = r\<lparr>r_endpoints := put ep_id existing (r_endpoints r)\<rparr>
                     in (Inr (), if \<not> should_run existing then cancel_running ep_id r else r)))))"

definition cancel_diagnostics :: "uuid \<Rightarrow> registry \<Rightarrow> registry" where
  "cancel_diagnostics ep r =
     (case get (r_diagnostic_tasks r) ep of
        None \<Rightarrow> r
      | Some diag_tasks \<Rightarrow>
          r\<lparr>r_tasks := map (\<lambda>(i, t). if i \<in> diag_tasks \<and> \<not> tk_finished t then t\<lparr>tk_cancelled := True\<rparr> else t)
                         (enumerate 0 (r_tasks r)),
            r_diagnostic_tasks := del ep (r_diagnostic_tasks r)\<rparr>)"

definition remove_endpoint :: "uuid \<Rightarrow> registry \<Rightarrow> registry" where
  "remove_endpoint ep r =
     (let r = cancel_running ep r; r = cancel_diagnostics ep r
      in r\<lparr>r_endpoints := del ep (r_endpoints r)\<rparr>)"

definition register_diagnostic_task :: "uuid \<Rightarrow> string \<Rightarrow> registry \<Rightarrow> registry" where
  \<comment> \<open>with the task just created for it\<close>
  "register_diagnostic_task ep address r =
     (let t = length (r_tasks r);
          r = r\<lparr>r_tasks := r_tasks r @ [\<lparr> tk_target = ep, tk_address = address, tk_diagnostic = True,
                 tk_cancelled = False, tk_finished = False, tk_called_back = False \<rparr>]\<rparr>;
          ts = (case get (r_diagnostic_tasks r) ep of None \<Rightarrow> {} | Some s \<Rightarrow> s)
      in r\<lparr>r_diagnostic_tasks := put ep (insert t ts) (r_diagnostic_tasks r)\<rparr>)"

definition callback :: "nat \<Rightarrow> registry \<Rightarrow> registry" where
  \<comment> \<open>\<open>_on_done\<close> of a sweep task, \<open>_cleanup\<close> of a diagnostic one\<close>
  "callback t r =
     (let tk = r_tasks r ! t; ep = tk_target tk;
          r = r\<lparr>r_tasks := (r_tasks r)[t := tk\<lparr>tk_called_back := True\<rparr>]\<rparr>
      in if tk_diagnostic tk then
           (case get (r_diagnostic_tasks r) ep of
              None \<Rightarrow> r
            | Some s \<Rightarrow>
                if s = {} then r
                else if s - {t} = {} then r\<lparr>r_diagnostic_tasks := del ep (r_diagnostic_tasks r)\<rparr>
                else r\<lparr>r_diagnostic_tasks := put ep (s - {t}) (r_diagnostic_tasks r)\<rparr>)
         else r\<lparr>r_running_tasks := del ep (r_running_tasks r)\<rparr>)"

definition get_endpoint :: "registry \<Rightarrow> uuid \<Rightarrow> monitored_endpoint option" where
  "get_endpoint r ep = get (r_endpoints r) ep"

definition get_toggles :: "registry \<Rightarrow> uuid \<Rightarrow> bool \<times> bool \<times> bool" where
  \<comment> \<open>incident trace, RCA, topology discovery\<close>
  "get_toggles r ep =
     (case get (r_endpoints r) ep of
        None \<Rightarrow> (True, True, True)
      | Some e \<Rightarrow> (me_allow_incident_trace e, me_enable_rca e, me_allow_topology_discovery e))"

definition list_active_endpoints :: "registry \<Rightarrow> monitored_endpoint list" where
  "list_active_endpoints r = filter should_run (map snd (r_endpoints r))"

subsection \<open>The steps\<close>

definition finish :: "nat \<Rightarrow> registry \<Rightarrow> registry" where
  "finish t r = r\<lparr>r_tasks := (r_tasks r)[t := (r_tasks r ! t)\<lparr>tk_finished := True\<rparr>]\<rparr>"

inductive registry_step :: "registry \<Rightarrow> registry \<Rightarrow> bool" where
  add: "add_endpoint d sp r = Inr (e, r') \<Longrightarrow> registry_step r r'"
| update: "update_endpoint d r = (Inr (), r') \<Longrightarrow> registry_step r r'"
| remove: "registry_step r (remove_endpoint ep r)"
| diagnose: "registry_step r (register_diagnostic_task ep address r)"
| finish: "t < length (r_tasks r) \<Longrightarrow> \<not> tk_finished (r_tasks r ! t) \<Longrightarrow> registry_step r (finish t r)"
| callback: "t < length (r_tasks r) \<Longrightarrow> tk_finished (r_tasks r ! t) \<Longrightarrow> \<not> tk_called_back (r_tasks r ! t) \<Longrightarrow>
    registry_step r (callback t r)"

subsection \<open>What every step keeps\<close>

definition task_fits :: "registry \<Rightarrow> uuid \<Rightarrow> nat \<Rightarrow> bool" where
  "task_fits r ep t \<longleftrightarrow> t < length (r_tasks r) \<and> tk_target (r_tasks r ! t) = ep \<and>
     \<not> tk_diagnostic (r_tasks r ! t) \<and> \<not> tk_cancelled (r_tasks r ! t)"

definition wanted :: "registry \<Rightarrow> uuid \<Rightarrow> bool" where
  "wanted r ep \<longleftrightarrow> (\<exists>e. get (r_endpoints r) ep = Some e \<and> should_run e)"

definition reg_inv :: "registry \<Rightarrow> bool" where
  "reg_inv r \<longleftrightarrow> dict_ok (r_endpoints r) \<and> dict_ok (r_running_tasks r) \<and>
     (\<forall>ep e. get (r_endpoints r) ep = Some e \<longrightarrow> me_id e = ep) \<and>
     (\<forall>ep t. get (r_running_tasks r) ep = Some t \<longrightarrow> task_fits r ep t \<and> wanted r ep)"

lemma reg_invI:
  "dict_ok (r_endpoints r) \<Longrightarrow> dict_ok (r_running_tasks r) \<Longrightarrow>
   (\<And>ep e. get (r_endpoints r) ep = Some e \<Longrightarrow> me_id e = ep) \<Longrightarrow>
   (\<And>ep t. get (r_running_tasks r) ep = Some t \<Longrightarrow> task_fits r ep t \<and> wanted r ep) \<Longrightarrow> reg_inv r"
  by (simp add: reg_inv_def)

lemma reg_invD:
  assumes "reg_inv r"
  shows "dict_ok (r_endpoints r)" "dict_ok (r_running_tasks r)"
    and "get (r_endpoints r) ep = Some e \<Longrightarrow> me_id e = ep"
    and "get (r_running_tasks r) ep = Some t \<Longrightarrow> task_fits r ep t"
    and "get (r_running_tasks r) ep = Some t \<Longrightarrow> wanted r ep"
  using assms by (simp_all add: reg_inv_def)

lemma reg_inv_init: "reg_inv EndpointRegistry"
  by (simp add: reg_inv_def EndpointRegistry_def)

lemma length_cancel [simp]: "length (cancel t ts) = length ts"
  by (simp add: cancel_def)

lemma nth_cancel:
  "i < length ts \<Longrightarrow> cancel t ts ! i = (if i = t \<and> \<not> tk_finished (ts ! t) then (ts ! t)\<lparr>tk_cancelled := True\<rparr> else ts ! i)"
  by (auto simp: cancel_def nth_list_update)

lemma cancel_running_frame [simp]:
  "r_endpoints (cancel_running ep r) = r_endpoints r"
  "length (r_tasks (cancel_running ep r)) = length (r_tasks r)"
  "get (r_running_tasks (cancel_running ep r)) ep' = (if ep' = ep then None else get (r_running_tasks r) ep')"
  "dict_ok (r_running_tasks r) \<Longrightarrow> dict_ok (r_running_tasks (cancel_running ep r))"
  by (auto simp: cancel_running_def split: option.splits)

lemma cancel_running_task:
  "get (r_running_tasks r) ep = Some u \<Longrightarrow> t < length (r_tasks r) \<Longrightarrow> t \<noteq> u \<Longrightarrow> r_tasks (cancel_running ep r) ! t = r_tasks r ! t"
  "get (r_running_tasks r) ep = None \<Longrightarrow> cancel_running ep r = r"
  by (simp_all add: cancel_running_def nth_cancel)

lemma task_fits_cancel_running:
  assumes inv: "reg_inv r" and t: "get (r_running_tasks r) ep' = Some t" and ne: "ep' \<noteq> ep"
  shows "task_fits (cancel_running ep r) ep' t"
proof (cases "get (r_running_tasks r) ep")
  case (Some u)
  have "task_fits r ep' t" "task_fits r ep u" using reg_invD(4)[OF inv] t Some by simp_all
  with ne have "t \<noteq> u" by (auto simp: task_fits_def)
  with \<open>task_fits r ep' t\<close> Some show ?thesis by (simp add: task_fits_def cancel_running_task)
qed (simp add: cancel_running_task reg_invD(4)[OF inv t])

lemma reg_inv_cancel_running:
  assumes inv: "reg_inv r"
  shows "reg_inv (cancel_running ep r)"
proof (rule reg_invI)
  fix ep' t
  assume "get (r_running_tasks (cancel_running ep r)) ep' = Some t"
  then have t: "get (r_running_tasks r) ep' = Some t" "ep' \<noteq> ep" by (simp_all split: if_splits)
  show "task_fits (cancel_running ep r) ep' t \<and> wanted (cancel_running ep r) ep'"
    using task_fits_cancel_running[OF inv t] reg_invD(5)[OF inv t(1)] by (simp add: wanted_def)
qed (simp_all add: reg_invD[OF inv])

lemma reg_inv_put:
  assumes inv: "reg_inv r" and e: "me_id e = ep" "get (r_running_tasks r) ep = None \<or> should_run e"
  shows "reg_inv (r\<lparr>r_endpoints := put ep e (r_endpoints r)\<rparr>)"
proof (rule reg_invI)
  fix ep' t
  assume "get (r_running_tasks (r\<lparr>r_endpoints := put ep e (r_endpoints r)\<rparr>)) ep' = Some t"
  then have t: "get (r_running_tasks r) ep' = Some t" by simp
  show "task_fits (r\<lparr>r_endpoints := put ep e (r_endpoints r)\<rparr>) ep' t \<and>
      wanted (r\<lparr>r_endpoints := put ep e (r_endpoints r)\<rparr>) ep'"
    using reg_invD(4,5)[OF inv t] e(2) t by (auto simp: task_fits_def wanted_def)
qed (use reg_invD[OF inv] e(1) in \<open>auto split: if_splits\<close>)

lemma cancel_running_put:
  "cancel_running ep (r\<lparr>r_endpoints := es\<rparr>) = (cancel_running ep r)\<lparr>r_endpoints := es\<rparr>"
  by (simp add: cancel_running_def split: option.splits)

lemma reg_inv_put_stop:
  assumes "reg_inv r" "me_id e = ep"
  shows "reg_inv (cancel_running ep (r\<lparr>r_endpoints := put ep e (r_endpoints r)\<rparr>))"
  using reg_inv_put[OF reg_inv_cancel_running[OF assms(1)] assms(2)] by (simp add: cancel_running_put)

lemma reg_inv_spawn:
  assumes inv: "reg_inv r" and e: "get (r_endpoints r) (me_id e) = Some e" "should_run e"
  shows "reg_inv (spawn e r)"
proof (rule reg_invI)
  fix ep' t
  assume t: "get (r_running_tasks (spawn e r)) ep' = Some t"
  show "task_fits (spawn e r) ep' t \<and> wanted (spawn e r) ep'"
  proof (cases "ep' = me_id e")
    case True
    with t e show ?thesis by (simp add: spawn_def task_fits_def wanted_def nth_append)
  next
    case False
    with t have "get (r_running_tasks r) ep' = Some t" by (simp add: spawn_def)
    with reg_invD(4,5)[OF inv this] show ?thesis by (simp add: spawn_def task_fits_def wanted_def nth_append)
  qed
qed (use reg_invD[OF inv] in \<open>simp_all add: spawn_def\<close>)

lemma endpoint_of_id [simp]: "me_id (endpoint_of ep d p) = ep"
  by (simp add: endpoint_of_def Let_def)

lemma updated_endpoint_id [simp]: "me_id (updated_endpoint d x p) = me_id x"
  by (simp add: updated_endpoint_def)

lemma reg_inv_tasks:
  assumes inv: "reg_inv r" and len: "length ts \<ge> length (r_tasks r)"
    and ts: "\<And>t. t < length (r_tasks r) \<Longrightarrow> tk_target (ts ! t) = tk_target (r_tasks r ! t)
      \<and> tk_diagnostic (ts ! t) = tk_diagnostic (r_tasks r ! t)
      \<and> (tk_diagnostic (ts ! t) \<or> tk_cancelled (ts ! t) = tk_cancelled (r_tasks r ! t))"
  shows "reg_inv (r\<lparr>r_tasks := ts, r_diagnostic_tasks := ds\<rparr>)"
proof (rule reg_invI)
  fix ep t
  assume "get (r_running_tasks (r\<lparr>r_tasks := ts, r_diagnostic_tasks := ds\<rparr>)) ep = Some t"
  then have t: "get (r_running_tasks r) ep = Some t" by simp
  have "task_fits r ep t" "wanted r ep" using reg_invD(4,5)[OF inv t] by simp_all
  with ts[of t] len show "task_fits (r\<lparr>r_tasks := ts, r_diagnostic_tasks := ds\<rparr>) ep t
      \<and> wanted (r\<lparr>r_tasks := ts, r_diagnostic_tasks := ds\<rparr>) ep"
    by (auto simp: task_fits_def wanted_def)
qed (use reg_invD[OF inv] in simp_all)

lemma reg_inv_drop:
  assumes inv: "reg_inv r"
  shows "reg_inv (r\<lparr>r_running_tasks := del ep (r_running_tasks r)\<rparr>)"
    and "get (r_running_tasks r) ep = None \<Longrightarrow> reg_inv (r\<lparr>r_endpoints := del ep (r_endpoints r)\<rparr>)"
  using inv unfolding reg_inv_def task_fits_def wanted_def by (auto split: if_splits)

lemma nth_upd: "j < length xs \<Longrightarrow> xs[t := x] ! j = (if j = t then x else xs ! j)"
  by (cases "t < length xs") (auto simp: nth_list_update)

text \<open>The sets of diagnostic tasks hold diagnostic tasks only, so that cancelling them spares the sweeps.\<close>

definition diag_inv :: "registry \<Rightarrow> bool" where
  "diag_inv r \<longleftrightarrow> (\<forall>ep s i. get (r_diagnostic_tasks r) ep = Some s \<longrightarrow> i \<in> s \<longrightarrow>
     i < length (r_tasks r) \<and> tk_diagnostic (r_tasks r ! i))"

lemma diag_invD: "diag_inv r \<Longrightarrow> get (r_diagnostic_tasks r) ep = Some s \<Longrightarrow> i \<in> s \<Longrightarrow>
    i < length (r_tasks r) \<and> tk_diagnostic (r_tasks r ! i)"
  by (simp add: diag_inv_def)

lemma diag_inv_mono:
  assumes "diag_inv r" "length (r_tasks r) \<le> length (r_tasks r')"
    and "\<And>t. t < length (r_tasks r) \<Longrightarrow> tk_diagnostic (r_tasks r' ! t) = tk_diagnostic (r_tasks r ! t)"
    and "\<And>ep s i. get (r_diagnostic_tasks r') ep = Some s \<Longrightarrow> i \<in> s \<Longrightarrow>
      (\<exists>s'. get (r_diagnostic_tasks r) ep = Some s' \<and> i \<in> s') \<or> (i < length (r_tasks r') \<and> tk_diagnostic (r_tasks r' ! i))"
  shows "diag_inv r'"
  unfolding diag_inv_def
proof (intro allI impI)
  fix ep s i
  assume "get (r_diagnostic_tasks r') ep = Some s" "i \<in> s"
  from assms(4)[OF this] show "i < length (r_tasks r') \<and> tk_diagnostic (r_tasks r' ! i)"
    using diag_invD[OF assms(1)] assms(2,3) by fastforce
qed

lemma cancel_running_kind [simp]:
  "t < length (r_tasks r) \<Longrightarrow> tk_diagnostic (r_tasks (cancel_running ep r) ! t) = tk_diagnostic (r_tasks r ! t)"
  "r_diagnostic_tasks (cancel_running ep r) = r_diagnostic_tasks r"
  by (auto simp: cancel_running_def nth_cancel split: option.splits)

lemma diag_inv_cancel_running: "diag_inv r \<Longrightarrow> diag_inv (cancel_running ep r)"
  by (erule diag_inv_mono) auto

lemma diag_inv_spawn: "diag_inv r \<Longrightarrow> diag_inv (spawn e r)"
  by (erule diag_inv_mono) (auto simp: spawn_def nth_append)

lemma diag_inv_endpoints [simp]: "diag_inv (r\<lparr>r_endpoints := es\<rparr>) = diag_inv r"
  by (simp add: diag_inv_def)

lemma add_endpoint_inv:
  assumes inv: "reg_inv r" "diag_inv r" and add: "add_endpoint d sp r = Inr (e, r')"
  shows "reg_inv r' \<and> diag_inv r'"
proof -
  from add obtain ep parent where id: "id_of d = Inr (Some ep)"
    and p: "parent_of (get_val d ''manual_parent_id'' PNone) = Inr parent"
    by (auto simp: add_endpoint_def split: sum.splits option.splits)
  let ?e = "endpoint_of ep d parent"
  let ?r = "r\<lparr>r_endpoints := put ep ?e (r_endpoints r)\<rparr>"
  let ?on = "get (r_running_tasks r) ep \<noteq> None"
  have r': "r' = (if should_run ?e \<and> \<not> ?on \<and> sp then spawn ?e ?r
      else if \<not> should_run ?e \<and> ?on then cancel_running ep ?r else ?r)"
    using add unfolding add_endpoint_def id p Let_def by auto
  have d: "diag_inv ?r" using inv(2) by simp
  consider (spawn) "should_run ?e" "\<not> ?on" "r' = spawn ?e ?r"
    | (stop) "\<not> should_run ?e" "?on" "r' = cancel_running ep ?r"
    | (same) "\<not> ?on \<or> should_run ?e" "r' = ?r"
    using r' by (auto split: if_splits)
  then show ?thesis
  proof cases
    case spawn
    then have "reg_inv ?r" by (intro reg_inv_put[OF inv(1)]) simp_all
    with spawn d show ?thesis by (auto intro!: reg_inv_spawn diag_inv_spawn)
  next
    case stop
    then show ?thesis using reg_inv_put_stop[OF inv(1), of ?e ep] diag_inv_cancel_running[OF d] by simp
  next
    case same
    then show ?thesis using reg_inv_put[OF inv(1), of ?e ep] d by auto
  qed
qed

lemma update_endpoint_inv:
  assumes inv: "reg_inv r" "diag_inv r" and upd: "update_endpoint d r = (Inr (), r')"
  shows "reg_inv r' \<and> diag_inv r'"
proof -
  from upd obtain i where id: "id_of d = Inr i" by (auto simp: update_endpoint_def split: sum.splits)
  show ?thesis
  proof (cases "i = None \<or> get (r_endpoints r) (the i) = None")
    case True
    with upd inv show ?thesis by (auto simp: update_endpoint_def id split: option.splits)
  next
    case False
    then obtain ep x where ep: "i = Some ep" "get (r_endpoints r) ep = Some x" by auto
    with upd obtain parent where r': "r' = (let e = updated_endpoint d x parent;
        r = r\<lparr>r_endpoints := put ep e (r_endpoints r)\<rparr> in if \<not> should_run e then cancel_running ep r else r)"
      by (auto simp: update_endpoint_def id Let_def split: sum.splits)
    have "me_id (updated_endpoint d x parent) = ep" using reg_invD(3)[OF inv(1) ep(2)] by simp
    then show ?thesis
      using reg_inv_put[OF inv(1), of "updated_endpoint d x parent" ep]
        reg_inv_put_stop[OF inv(1), of "updated_endpoint d x parent" ep] inv(2)
      by (auto simp: r' Let_def intro!: diag_inv_cancel_running)
  qed
qed

lemma cancel_diagnostics_frame [simp]:
  "r_endpoints (cancel_diagnostics ep r) = r_endpoints r"
  "r_running_tasks (cancel_diagnostics ep r) = r_running_tasks r"
  "length (r_tasks (cancel_diagnostics ep r)) = length (r_tasks r)"
  by (auto simp: cancel_diagnostics_def split: option.splits)

lemma cancel_diagnostics_inv:
  assumes "reg_inv r" "diag_inv r"
  shows "reg_inv (cancel_diagnostics ep r) \<and> diag_inv (cancel_diagnostics ep r)"
proof (cases "get (r_diagnostic_tasks r) ep")
  case (Some s)
  have "reg_inv (cancel_diagnostics ep r)"
    using diag_invD[OF assms(2) Some]
    by (auto simp: cancel_diagnostics_def Some nth_enumerate_eq intro!: reg_inv_tasks[OF assms(1)] split: if_splits)
  moreover have "diag_inv (cancel_diagnostics ep r)"
    by (rule diag_inv_mono[OF assms(2)])
      (auto simp: cancel_diagnostics_def Some nth_enumerate_eq split: if_splits)
  ultimately show ?thesis ..
qed (use assms in \<open>simp add: cancel_diagnostics_def\<close>)

lemma remove_endpoint_inv:
  assumes "reg_inv r" "diag_inv r"
  shows "reg_inv (remove_endpoint ep r) \<and> diag_inv (remove_endpoint ep r)"
proof -
  let ?r = "cancel_diagnostics ep (cancel_running ep r)"
  have "reg_inv ?r \<and> diag_inv ?r"
    using cancel_diagnostics_inv reg_inv_cancel_running diag_inv_cancel_running assms by blast
  moreover have "get (r_running_tasks ?r) ep = None" by simp
  ultimately show ?thesis using reg_inv_drop(2)[of ?r ep] by (simp add: remove_endpoint_def Let_def)
qed

lemma register_diagnostic_inv:
  assumes "reg_inv r" "diag_inv r"
  shows "reg_inv (register_diagnostic_task ep a r) \<and> diag_inv (register_diagnostic_task ep a r)"
proof
  show "reg_inv (register_diagnostic_task ep a r)"
    using assms(1)
    by (auto simp: register_diagnostic_task_def Let_def nth_append intro!: reg_inv_tasks[OF assms(1)])
  show "diag_inv (register_diagnostic_task ep a r)"
    by (rule diag_inv_mono[OF assms(2)])
      (auto simp: register_diagnostic_task_def Let_def nth_append split: option.splits if_splits)
qed

lemma finish_inv:
  assumes "reg_inv r" "diag_inv r"
  shows "reg_inv (finish t r) \<and> diag_inv (finish t r)"
proof
  show "reg_inv (finish t r)"
    using reg_inv_tasks[OF assms(1), of "r_tasks (finish t r)" "r_diagnostic_tasks r"]
    by (simp add: finish_def nth_upd)
  show "diag_inv (finish t r)"
    by (rule diag_inv_mono[OF assms(2)]) (auto simp: finish_def nth_upd)
qed

lemma callback_inv:
  assumes "reg_inv r" "diag_inv r"
  shows "reg_inv (callback t r) \<and> diag_inv (callback t r)"
proof -
  let ?ts = "(r_tasks r)[t := (r_tasks r ! t)\<lparr>tk_called_back := True\<rparr>]"
  have 1: "reg_inv (r\<lparr>r_tasks := ?ts, r_diagnostic_tasks := ds\<rparr>)" for ds
    by (rule reg_inv_tasks[OF assms(1)]) (simp_all add: nth_upd)
  from 1[of "r_diagnostic_tasks r"] have 2: "reg_inv (r\<lparr>r_tasks := ?ts\<rparr>)" by simp
  have "reg_inv (callback t r)"
    using 1 2 reg_inv_drop(1)[OF 2] by (auto simp: callback_def Let_def split: option.splits)
  moreover have "diag_inv (callback t r)"
    by (rule diag_inv_mono[OF assms(2)])
      (auto simp: callback_def Let_def nth_upd split: option.splits if_splits)
  ultimately show ?thesis ..
qed

lemma registry_step_inv:
  assumes "registry_step r r'" "reg_inv r \<and> diag_inv r"
  shows "reg_inv r' \<and> diag_inv r'"
  using assms
proof cases
  case (add d sp e)
  then show ?thesis using add_endpoint_inv assms(2) by blast
next
  case (update d)
  then show ?thesis using update_endpoint_inv assms(2) by blast
qed (use assms(2) remove_endpoint_inv register_diagnostic_inv finish_inv callback_inv in blast)+

lemma reachable_inv: "registry_step\<^sup>*\<^sup>* EndpointRegistry r \<Longrightarrow> reg_inv r \<and> diag_inv r"
  by (induction rule: rtranclp_induct)
    (auto simp: reg_inv_init registry_step_inv, simp add: diag_inv_def EndpointRegistry_def)

text \<open>
  Whatever the order of additions, updates, removals, finishing tasks and callbacks, the
  task that the registry runs for an endpoint is a sweep of that endpoint which nobody
  cancelled, and the endpoint is registered, ACTIVE and enabled: no deactivated or removed
  endpoint keeps a registered sweep.
\<close>

lemma registered_sweeps_wanted:
  assumes "registry_step\<^sup>*\<^sup>* EndpointRegistry r" and "get (r_running_tasks r) ep = Some t"
  shows "t < length (r_tasks r) \<and> tk_target (r_tasks r ! t) = ep \<and> \<not> tk_diagnostic (r_tasks r ! t)
    \<and> \<not> tk_cancelled (r_tasks r ! t)
    \<and> (\<exists>e. get_endpoint r ep = Some e \<and> me_endpoint_status e = ''ACTIVE'' \<and> me_monitoring_enabled e)"
  using reachable_inv[OF assms(1)] assms(2) reg_invD(4,5)[of r ep t]
  by (auto simp: task_fits_def wanted_def should_run_def get_endpoint_def)

lemma registered_sweeps_wanted_witness:
  "\<exists>e. get_endpoint (snd (the (case add_endpoint (Dict_data [''id'' \<mapsto> PUuid 7, ''ip_address'' \<mapsto> PStr ''10.0.0.7'']) True
      EndpointRegistry of Inr p \<Rightarrow> Some p | Inl _ \<Rightarrow> None))) 7 = Some e \<and> me_endpoint_status e = ''ACTIVE''"
proof -
  obtain e r where r: "add_endpoint (Dict_data [''id'' \<mapsto> PUuid 7, ''ip_address'' \<mapsto> PStr ''10.0.0.7'']) True
      EndpointRegistry = Inr (e, r)" "get (r_running_tasks r) 7 = Some 0"
    by (simp add: add_endpoint_def id_of_def get_val_def parent_of_def EndpointRegistry_def endpoint_of_def
        should_run_def spawn_def upper_def upper_char_def Let_def)
  from r(1) have "registry_step\<^sup>*\<^sup>* EndpointRegistry r" by (blast intro: registry_step.add)
  with registered_sweeps_wanted[of r 7 0] r show ?thesis by auto
qed

subsection \<open>One sweep per endpoint\<close>

abbreviation sweep :: "registry \<Rightarrow> nat \<Rightarrow> bool" where
  "sweep r t \<equiv> t < length (r_tasks r) \<and> \<not> tk_diagnostic (r_tasks r ! t)"

definition live :: "registry \<Rightarrow> nat \<Rightarrow> bool" where
  \<comment> \<open>still pinging, and nobody has asked it to stop\<close>
  "live r t \<longleftrightarrow> sweep r t \<and> \<not> tk_cancelled (r_tasks r ! t) \<and> \<not> tk_finished (r_tasks r ! t)"

definition settled :: "registry \<Rightarrow> uuid \<Rightarrow> bool" where
  \<comment> \<open>the sweeps of the endpoint that are to end have ended, and their callbacks have run\<close>
  "settled r ep \<longleftrightarrow> (\<forall>t. sweep r t \<and> tk_target (r_tasks r ! t) = ep \<and> \<not> live r t \<longrightarrow> tk_called_back (r_tasks r ! t))"

definition prompt_step :: "registry \<Rightarrow> registry \<Rightarrow> bool" where
  \<comment> \<open>no sweep is spawned for an endpoint while an earlier one is still winding down\<close>
  "prompt_step r r' \<longleftrightarrow> registry_step r r' \<and>
     (\<forall>ep. get (r_running_tasks r) ep = None \<and> get (r_running_tasks r') ep \<noteq> None \<longrightarrow> settled r ep)"

definition owned :: "registry \<Rightarrow> bool" where
  "owned r \<longleftrightarrow> (\<forall>t. sweep r t \<longrightarrow> (tk_called_back (r_tasks r ! t) \<longrightarrow> tk_finished (r_tasks r ! t)) \<and>
     (\<not> tk_called_back (r_tasks r ! t) \<longrightarrow>
        get (r_running_tasks r) (tk_target (r_tasks r ! t)) = Some t \<or>
        (\<not> live r t \<and> get (r_running_tasks r) (tk_target (r_tasks r ! t)) = None)))"

lemma ownedD:
  assumes "owned r" "sweep r t"
  shows "tk_called_back (r_tasks r ! t) \<Longrightarrow> tk_finished (r_tasks r ! t)"
    and "\<not> tk_called_back (r_tasks r ! t) \<Longrightarrow> get (r_running_tasks r) (tk_target (r_tasks r ! t)) = Some t \<or>
        (\<not> live r t \<and> get (r_running_tasks r) (tk_target (r_tasks r ! t)) = None)"
  using assms by (simp_all add: owned_def)

lemma live_owned: "owned r \<Longrightarrow> live r t \<Longrightarrow> get (r_running_tasks r) (tk_target (r_tasks r ! t)) = Some t"
  using ownedD[of r t] by (auto simp: live_def)

lemma owned_endpoints [simp]: "owned (r\<lparr>r_endpoints := es\<rparr>) = owned r"
  by (simp add: owned_def live_def)

lemma owned_same:
  assumes "owned r" "r_running_tasks r' = r_running_tasks r" "length (r_tasks r) \<le> length (r_tasks r')"
    and "\<And>t. t < length (r_tasks r) \<Longrightarrow> r_tasks r' ! t = r_tasks r ! t \<or> (tk_diagnostic (r_tasks r' ! t))"
    and "\<And>t. length (r_tasks r) \<le> t \<Longrightarrow> t < length (r_tasks r') \<Longrightarrow> tk_diagnostic (r_tasks r' ! t)"
  shows "owned r'"
  unfolding owned_def
proof (intro allI impI)
  fix t
  assume t: "sweep r' t"
  then have lt: "t < length (r_tasks r)" using assms(5)[of t] by (meson not_le)
  then have eq: "r_tasks r' ! t = r_tasks r ! t" using assms(4) t by blast
  with t lt have "sweep r t" by simp
  with ownedD[OF assms(1) this] t eq show "(tk_called_back (r_tasks r' ! t) \<longrightarrow> tk_finished (r_tasks r' ! t)) \<and>
     (\<not> tk_called_back (r_tasks r' ! t) \<longrightarrow>
        get (r_running_tasks r') (tk_target (r_tasks r' ! t)) = Some t \<or>
        (\<not> live r' t \<and> get (r_running_tasks r') (tk_target (r_tasks r' ! t)) = None))"
    by (auto simp: assms(2) live_def)
qed

lemma owned_cancel_running:
  assumes "owned r" "reg_inv r"
  shows "owned (cancel_running ep r)"
proof (cases "get (r_running_tasks r) ep")
  case (Some u)
  let ?r = "cancel_running ep r"
  have u: "sweep r u" "tk_target (r_tasks r ! u) = ep" using reg_invD(4)[OF assms(2) Some] by (auto simp: task_fits_def)
  have ts: "r_tasks ?r = cancel u (r_tasks r)" by (simp add: cancel_running_def Some)
  show ?thesis
    unfolding owned_def
  proof (intro allI impI)
    fix t
    assume t: "sweep ?r t"
    then have s: "sweep r t" by (auto simp: cancel_running_kind)
    note o = ownedD[OF assms(1) s]
    have eq: "t \<noteq> u \<Longrightarrow> r_tasks ?r ! t = r_tasks r ! t" using s by (simp add: ts nth_cancel)
    have tg: "tk_target (r_tasks ?r ! t) = tk_target (r_tasks r ! t)"
      "tk_called_back (r_tasks ?r ! t) = tk_called_back (r_tasks r ! t)"
      "tk_finished (r_tasks ?r ! t) = tk_finished (r_tasks r ! t)"
      using s by (simp_all add: ts nth_cancel)
    have dead: "t = u \<Longrightarrow> \<not> live ?r t" using s by (auto simp: live_def ts nth_cancel)
    show "(tk_called_back (r_tasks ?r ! t) \<longrightarrow> tk_finished (r_tasks ?r ! t)) \<and>
     (\<not> tk_called_back (r_tasks ?r ! t) \<longrightarrow>
        get (r_running_tasks ?r) (tk_target (r_tasks ?r ! t)) = Some t \<or>
        (\<not> live ?r t \<and> get (r_running_tasks ?r) (tk_target (r_tasks ?r ! t)) = None))"
      using o dead u Some eq tg by (cases "t = u") (auto simp: live_def)
  qed
qed (simp add: cancel_running_task assms)

lemma owned_spawn:
  assumes "owned r" "get (r_running_tasks r) (me_id e) = None" "settled r (me_id e)"
  shows "owned (spawn e r)"
  unfolding owned_def
proof (intro allI impI)
  fix t
  assume t: "sweep (spawn e r) t"
  show "(tk_called_back (r_tasks (spawn e r) ! t) \<longrightarrow> tk_finished (r_tasks (spawn e r) ! t)) \<and>
     (\<not> tk_called_back (r_tasks (spawn e r) ! t) \<longrightarrow>
        get (r_running_tasks (spawn e r)) (tk_target (r_tasks (spawn e r) ! t)) = Some t \<or>
        (\<not> live (spawn e r) t \<and> get (r_running_tasks (spawn e r)) (tk_target (r_tasks (spawn e r) ! t)) = None))"
  proof (cases "t = length (r_tasks r)")
    case False
    with t have s: "sweep r t" and eq: "r_tasks (spawn e r) ! t = r_tasks r ! t"
      by (auto simp: spawn_def nth_append)
    have "tk_target (r_tasks r ! t) = me_id e \<Longrightarrow> tk_called_back (r_tasks r ! t)"
      using assms(2,3) s live_owned[OF assms(1), of t] by (auto simp: settled_def)
    moreover have "get (r_running_tasks (spawn e r)) x = (if x = me_id e then Some (length (r_tasks r)) else get (r_running_tasks r) x)" for x
      by (simp add: spawn_def)
    ultimately show ?thesis using ownedD[OF assms(1) s] s t by (auto simp: eq live_def split: if_splits)
  qed (simp add: spawn_def)
qed

lemma owned_finish:
  assumes "owned r"
  shows "owned (finish t r)"
  unfolding owned_def
proof (intro allI impI)
  fix u
  assume u: "sweep (finish t r) u"
  have "u < length (r_tasks r) \<Longrightarrow> r_tasks (finish t r) ! u
      = (if u = t then (r_tasks r ! t)\<lparr>tk_finished := True\<rparr> else r_tasks r ! u)"
    by (simp add: finish_def nth_upd)
  moreover have "length (r_tasks (finish t r)) = length (r_tasks r)" "r_running_tasks (finish t r) = r_running_tasks r"
    by (simp_all add: finish_def)
  moreover from this u calculation(1) have "sweep r u" by (auto split: if_splits)
  ultimately show "(tk_called_back (r_tasks (finish t r) ! u) \<longrightarrow> tk_finished (r_tasks (finish t r) ! u)) \<and>
     (\<not> tk_called_back (r_tasks (finish t r) ! u) \<longrightarrow>
        get (r_running_tasks (finish t r)) (tk_target (r_tasks (finish t r) ! u)) = Some u \<or>
        (\<not> live (finish t r) u \<and> get (r_running_tasks (finish t r)) (tk_target (r_tasks (finish t r) ! u)) = None))"
    using ownedD[OF assms, of u] by (auto simp: live_def)
qed

lemma owned_callback:
  assumes "owned r" "t < length (r_tasks r)" "tk_finished (r_tasks r ! t)" "\<not> tk_called_back (r_tasks r ! t)"
  shows "owned (callback t r)"
proof -
  let ?r = "callback t r"
  have ts: "r_tasks ?r = (r_tasks r)[t := (r_tasks r ! t)\<lparr>tk_called_back := True\<rparr>]"
    by (auto simp: callback_def Let_def split: option.splits)
  then have len: "length (r_tasks ?r) = length (r_tasks r)" by simp
  have run: "get (r_running_tasks ?r) ep = (if \<not> tk_diagnostic (r_tasks r ! t) \<and> ep = tk_target (r_tasks r ! t)
      then None else get (r_running_tasks r) ep)" for ep
    by (auto simp: callback_def Let_def split: option.splits)
  show ?thesis
    unfolding owned_def
  proof (intro allI impI)
    fix u
    assume u: "sweep ?r u"
    have eq: "r_tasks ?r ! u = (if u = t then (r_tasks r ! t)\<lparr>tk_called_back := True\<rparr> else r_tasks r ! u)"
      using u by (simp add: ts nth_upd)
    with u have s: "sweep r u" by (auto simp: ts split: if_splits)
    have clash: False
      if "u \<noteq> t" "tk_target (r_tasks r ! u) = tk_target (r_tasks r ! t)" "\<not> tk_diagnostic (r_tasks r ! t)" "live r u"
      using live_owned[OF assms(1) that(4)] ownedD(2)[OF assms(1), of t] that(1-3) assms(2,4) by auto
    show "(tk_called_back (r_tasks ?r ! u) \<longrightarrow> tk_finished (r_tasks ?r ! u)) \<and>
     (\<not> tk_called_back (r_tasks ?r ! u) \<longrightarrow>
        get (r_running_tasks ?r) (tk_target (r_tasks ?r ! u)) = Some u \<or>
        (\<not> live ?r u \<and> get (r_running_tasks ?r) (tk_target (r_tasks ?r ! u)) = None))"
      using ownedD[OF assms(1) s] assms(3) clash s len by (auto simp: eq run live_def)
  qed
qed

lemma owned_cancel_diagnostics: "owned r \<Longrightarrow> diag_inv r \<Longrightarrow> owned (cancel_diagnostics ep r)"
  by (erule owned_same)
    (auto simp: cancel_diagnostics_def nth_enumerate_eq diag_invD split: option.splits)

lemma owned_prompt:
  assumes step: "prompt_step r r'" and inv: "reg_inv r" "diag_inv r" "owned r"
  shows "owned r'"
  using step[unfolded prompt_step_def, THEN conjunct1]
proof cases
  case (add d sp e)
  from add obtain ep parent where id: "id_of d = Inr (Some ep)"
    and p: "parent_of (get_val d ''manual_parent_id'' PNone) = Inr parent"
    by (auto simp: add_endpoint_def split: sum.splits option.splits)
  let ?e = "endpoint_of ep d parent"
  let ?r = "r\<lparr>r_endpoints := put ep ?e (r_endpoints r)\<rparr>"
  have r': "r' = (if should_run ?e \<and> get (r_running_tasks r) ep = None \<and> sp then spawn ?e ?r
      else if \<not> should_run ?e \<and> get (r_running_tasks r) ep \<noteq> None then cancel_running ep ?r else ?r)"
    using add unfolding add_endpoint_def id p Let_def by auto
  show ?thesis
  proof (cases "should_run ?e \<and> get (r_running_tasks r) ep = None \<and> sp")
    case True
    then have "settled r ep"
      using step unfolding prompt_step_def r' by (auto simp: spawn_def)
    then have "settled ?r ep" by (simp add: settled_def live_def)
    with True r' inv show ?thesis by (auto intro!: owned_spawn)
  qed (use r' inv owned_cancel_running in \<open>auto simp: cancel_running_put\<close>)
next
  case (update d)
  then consider "r' = r" | es where "r' = r\<lparr>r_endpoints := es\<rparr>" | ep es where "r' = cancel_running ep (r\<lparr>r_endpoints := es\<rparr>)"
    unfolding update_endpoint_def Let_def by (auto split: sum.splits option.splits if_splits)
  then show ?thesis using inv owned_cancel_running by cases (simp_all add: cancel_running_put)
next
  case (remove ep)
  have "owned (cancel_diagnostics ep (cancel_running ep r))"
    by (intro owned_cancel_diagnostics owned_cancel_running diag_inv_cancel_running inv)
  with remove show ?thesis by (simp add: remove_endpoint_def Let_def)
next
  case (diagnose ep a)
  show ?thesis
    by (rule owned_same[OF inv(3)])
      (auto simp: diagnose register_diagnostic_task_def Let_def nth_append)
qed (use inv owned_finish owned_callback in auto)

lemma prompt_reachable:
  "prompt_step\<^sup>*\<^sup>* EndpointRegistry r \<Longrightarrow> reg_inv r \<and> diag_inv r \<and> owned r"
proof (induction rule: rtranclp_induct)
  case base
  show ?case using reachable_inv[of EndpointRegistry] by (simp add: owned_def EndpointRegistry_def)
next
  case (step r r')
  then show ?case using owned_prompt registry_step_inv[of r r'] by (auto simp: prompt_step_def)
qed

text \<open>
  C30. If no sweep of an endpoint is spawned while an earlier one of the same endpoint is still
  winding down, then no endpoint is ever pinged by two sweeps at a time, and the sweep that
  pings it is the one the registry can cancel.
\<close>

theorem one_sweep_per_endpoint:
  assumes "prompt_step\<^sup>*\<^sup>* EndpointRegistry r" and "live r t" "live r u"
    and "tk_target (r_tasks r ! t) = tk_target (r_tasks r ! u)"
  shows "t = u \<and> get (r_running_tasks r) (tk_target (r_tasks r ! t)) = Some t"
proof -
  have o: "owned r" using prompt_reachable[OF assms(1)] by simp
  have u: "get (r_running_tasks r) (tk_target (r_tasks r ! t)) = Some u"
    unfolding assms(4) by (rule live_owned[OF o assms(3)])
  with live_owned[OF o assms(2)] show ?thesis by simp
qed

theorem one_sweep_per_endpoint_witness:
  "\<exists>r. prompt_step\<^sup>*\<^sup>* EndpointRegistry r \<and> live r 0 \<and> get (r_running_tasks r) 7 = Some 0"
proof -
  let ?d = "Dict_data [''id'' \<mapsto> PUuid 7, ''ip_address'' \<mapsto> PStr ''10.0.0.7'']"
  obtain e r where r: "add_endpoint ?d True EndpointRegistry = Inr (e, r)" "live r 0" "tk_target (r_tasks r ! 0) = 7"
    by (simp add: add_endpoint_def id_of_def get_val_def parent_of_def EndpointRegistry_def endpoint_of_def
        should_run_def spawn_def upper_def upper_char_def Let_def live_def)
  from r(1) have "registry_step EndpointRegistry r" by (rule registry_step.add)
  then have "prompt_step EndpointRegistry r" by (simp add: prompt_step_def settled_def EndpointRegistry_def)
  then have run: "prompt_step\<^sup>*\<^sup>* EndpointRegistry r" by blast
  from one_sweep_per_endpoint[OF run r(2) r(2)] r(2,3) run show ?thesis by auto
qed

text \<open>
  Without that proviso it fails: the callback of a sweep that was cancelled late drops the entry
  of the sweep spawned since, and the next addition spawns another one beside it.
\<close>

definition seven :: ep_data where
  "seven = Dict_data [''id'' \<mapsto> PUuid 7, ''ip_address'' \<mapsto> PStr ''10.0.0.7'']"

definition add_seven :: "registry \<Rightarrow> registry" where
  "add_seven r = (case add_endpoint seven True r of Inr (_, r') \<Rightarrow> r' | Inl _ \<Rightarrow> r)"

lemma add_seven_step: "registry_step r (add_seven r)"
  and add_seven_eq: "add_seven r = (let e = endpoint_of 7 seven PNone; r' = r\<lparr>r_endpoints := put 7 e (r_endpoints r)\<rparr>
     in if get (r_running_tasks r) 7 = None then spawn e r' else r')"
proof -
  have "id_of seven = Inr (Some 7)" "parent_of (get_val seven ''manual_parent_id'' PNone) = Inr PNone"
    "should_run (endpoint_of 7 seven PNone)"
    by (simp_all add: seven_def id_of_def get_val_def parent_of_def endpoint_of_def should_run_def upper_def
        upper_char_def Let_def)
  then have "add_endpoint seven True r = Inr (endpoint_of 7 seven PNone,
      (let e = endpoint_of 7 seven PNone; r' = r\<lparr>r_endpoints := put 7 e (r_endpoints r)\<rparr>
       in if get (r_running_tasks r) 7 = None then spawn e r' else r'))"
    by (simp add: add_endpoint_def Let_def)
  then show "registry_step r (add_seven r)" "add_seven r = (let e = endpoint_of 7 seven PNone;
      r' = r\<lparr>r_endpoints := put 7 e (r_endpoints r)\<rparr>
     in if get (r_running_tasks r) 7 = None then spawn e r' else r')"
    by (simp_all add: add_seven_def registry_step.add)
qed

definition late_callback :: registry where
  "late_callback = add_seven (callback 0 (finish 0 (add_seven (remove_endpoint 7 (add_seven EndpointRegistry)))))"

lemmas registry_eval = EndpointRegistry_def spawn_def live_def remove_endpoint_def cancel_running_def
  cancel_diagnostics_def cancel_def finish_def callback_def add_seven_eq Let_def

lemma late_callback_duplicates:
  "registry_step\<^sup>*\<^sup>* EndpointRegistry late_callback"
  "live late_callback 1 \<and> live late_callback 2 \<and>
   tk_target (r_tasks late_callback ! 1) = 7 \<and> tk_target (r_tasks late_callback ! 2) = 7"
proof -
  let ?r3 = "add_seven (remove_endpoint 7 (add_seven EndpointRegistry))"
  have "registry_step\<^sup>*\<^sup>* EndpointRegistry ?r3"
    using add_seven_step registry_step.remove by (meson rtranclp.rtrancl_into_rtrancl rtranclp.rtrancl_refl)
  moreover have "registry_step ?r3 (finish 0 ?r3)" by (rule registry_step.finish) (simp_all add: registry_eval)
  moreover have "registry_step (finish 0 ?r3) (callback 0 (finish 0 ?r3))"
    by (rule registry_step.callback) (simp_all add: registry_eval)
  ultimately show "registry_step\<^sup>*\<^sup>* EndpointRegistry late_callback"
    using add_seven_step unfolding late_callback_def by (meson rtranclp.rtrancl_into_rtrancl)
  show "live late_callback 1 \<and> live late_callback 2 \<and>
      tk_target (r_tasks late_callback ! 1) = 7 \<and> tk_target (r_tasks late_callback ! 2) = 7"
    by (simp add: late_callback_def registry_eval)
qed

end
