(* ===== verification/Gap_Handler.thy ===== *)
theory Gap_Handler
  imports State_Machine
begin

text \<open>
  Monitoring gaps (\<open>monitoring/gap_handler.py\<close>): the intervals in which the service did not
  run, the closing of the open endpoint events when one begins, and the clean-up at start-up.
  \<open>EXTRACT(EPOCH ...)::BIGINT\<close> rounds like \<open>::integer\<close>.
\<close>

record service_event =
  g_id :: uuid
  g_event_type :: string
  g_description :: "string option"
  g_start_time :: instant
  g_end_time :: "instant option"
  g_duration_seconds :: "int option"

type_synonym service_table = "service_event list"

definition seven_days :: instant where "seven_days = sec 604800"

definition close_recent_events :: "instant \<Rightarrow> event_table \<Rightarrow> event_table \<times> nat" where
  \<comment> \<open>\<open>UPDATE endpoint_events ... WHERE end_time IS NULL AND start_time >= :window_start\<close>\<close>
  "close_recent_events t = update_where (\<lambda>e. is_open e \<and> t - seven_days \<le> ev_start_time e) (close_at t)"

definition open_monitoring_gap ::
  "string \<Rightarrow> string option \<Rightarrow> instant \<Rightarrow> uuid \<Rightarrow> service_table \<times> event_table \<Rightarrow>
   uuid \<times> service_table \<times> event_table" where
  "open_monitoring_gap event_type description gap_start new_id tables =
     (let (gaps, events) = tables;
          gaps = gaps @ [\<lparr> g_id = new_id, g_event_type = event_type, g_description = description,
                           g_start_time = gap_start, g_end_time = None, g_duration_seconds = None \<rparr>];
          (events, closed_count) = close_recent_events gap_start events
      in (new_id, gaps, events))"

definition close_monitoring_gap :: "uuid \<Rightarrow> instant \<Rightarrow> service_table \<Rightarrow> service_table" where
  "close_monitoring_gap gap_id end_time gaps =
     map (\<lambda>g. if g_id g = gap_id
              then g\<lparr>g_end_time := Some end_time,
                     g_duration_seconds := Some (epoch_seconds (end_time - g_start_time g))\<rparr>
              else g) gaps"

fun latest_gap :: "service_event list \<Rightarrow> service_event option" where
  "latest_gap [] = None"
| "latest_gap (g # gs) =
     (case latest_gap gs of
        None \<Rightarrow> Some g
      | Some g' \<Rightarrow> if g_start_time g' \<le> g_start_time g then Some g else Some g')"

definition open_gap :: "service_table \<Rightarrow> service_event option" where
  \<comment> \<open>\<open>WHERE end_time IS NULL ORDER BY start_time DESC LIMIT 1\<close>\<close>
  "open_gap gaps = latest_gap (filter (\<lambda>g. g_end_time g = None) gaps)"

definition get_active_gap :: "service_table \<Rightarrow> (uuid \<times> instant) option" where
  "get_active_gap gaps = map_option (\<lambda>g. (g_id g, g_start_time g)) (open_gap gaps)"

definition gap_close_time :: "instant \<Rightarrow> service_table \<Rightarrow> instant" where
  "gap_close_time now gaps = (case open_gap gaps of Some g \<Rightarrow> g_start_time g | None \<Rightarrow> now)"

definition resolve_startup_state ::
  "instant \<Rightarrow> service_table \<times> event_table \<Rightarrow> service_table \<times> event_table" where
  "resolve_startup_state now tables =
     (let (gaps, events) = tables;
          t = gap_close_time now gaps;
          gaps = (case open_gap gaps of Some g \<Rightarrow> close_monitoring_gap (g_id g) now gaps | None \<Rightarrow> gaps);
          (events, closed_count) = close_recent_events t events
      in (gaps, events))"

subsection \<open>What a clean-up leaves\<close>

lemma close_recent_rows:
  "fst (close_recent_events t tbl)
     = map (\<lambda>e. if is_open e \<and> t - seven_days \<le> ev_start_time e then close_at t e else e) tbl"
  by (simp add: close_recent_events_def update_where_def)

lemma close_recent_ids [simp]: "map ev_id (fst (close_recent_events t tbl)) = map ev_id tbl"
  unfolding close_recent_events_def by (rule ids_update) simp

lemma close_recent_open:
  "filter is_open (fst (close_recent_events t tbl))
     = filter (\<lambda>e. is_open e \<and> ev_start_time e < t - seven_days) tbl"
  unfolding close_recent_rows by (induction tbl) auto



subsection \<open>Restart\<close>

lemma latest_in: "latest es = Some e \<Longrightarrow> e \<in> set es"
  by (induction es arbitrary: e) (auto split: option.splits if_splits)



end
