(* ===== verification/Engine.thy ===== *)
theory Engine
  imports Registry Gap_Handler
begin

text \<open>
  The monitoring engine (\<open>monitoring/engine.py\<close>): the start of a sweep, one monitoring cycle of
  it with the commit that may fail, the second within the minute at which it fires, and the
  round in which the main loop brings the registry in line with the endpoint table. A cycle
  calls the state machine and the registry; its ping result and the readings of the clock,
  the baseline and the other tables are arguments.
\<close>

subsection \<open>The slot of an endpoint\<close>

definition stagger_offset_for_endpoint :: "uuid \<Rightarrow> nat" where
  \<comment> \<open>the first four bytes of the id\<close>
  "stagger_offset_for_endpoint ep = unat (drop_bit 96 ep) mod 60"

definition fmod :: "real \<Rightarrow> real \<Rightarrow> real" where \<comment> \<open>Python's \<open>%\<close> on floats\<close>
  "fmod x m = x - m * of_int \<lfloor>x / m\<rfloor>"

definition slot_delay :: "uuid \<Rightarrow> real \<Rightarrow> real" where
  \<comment> \<open>the pause from a time within the minute to the next slot\<close>
  "slot_delay ep now_sec =
     (let delay = fmod (real (stagger_offset_for_endpoint ep) - now_sec) 60
      in if delay \<le> 0.05 then delay + 60 else delay)"

lemma fmod_range: "0 < m \<Longrightarrow> 0 \<le> fmod x m \<and> fmod x m < m"
  using floor_divide_lower[of m x] floor_divide_upper[of m x] by (simp add: fmod_def algebra_simps)

lemma slot_delay_lands:
  "0.05 < slot_delay ep s" "slot_delay ep s \<le> 60.05"
  "\<exists>k. s + slot_delay ep s = real (stagger_offset_for_endpoint ep) + 60 * of_int k"
proof -
  let ?o = "real (stagger_offset_for_endpoint ep)"
  let ?k = "- \<lfloor>(?o - s) / 60\<rfloor>"
  show "0.05 < slot_delay ep s" "slot_delay ep s \<le> 60.05"
    using fmod_range[of 60 "?o - s"] by (simp_all add: slot_delay_def Let_def)
  have "s + fmod (?o - s) 60 = ?o + 60 * of_int ?k" by (simp add: fmod_def)
  then have "s + slot_delay ep s = ?o + 60 * of_int ?k \<or> s + slot_delay ep s = ?o + 60 * of_int (?k + 1)"
    by (simp add: slot_delay_def Let_def)
  then show "\<exists>k. s + slot_delay ep s = ?o + 60 * of_int k" by blast
qed

subsection \<open>A cycle\<close>

record engine =
  e_registry :: registry
  e_states :: "uuid \<rightharpoonup> endpoint_state" \<comment> \<open>\<open>endpoint_states\<close>; a stored \<open>None\<close> is a missing entry\<close>
  e_events :: event_table

definition active_diag_count :: "registry \<Rightarrow> nat" where
  "active_diag_count r = sum_list (map (\<lambda>(ep, s). card s) (r_diagnostic_tasks r))"

definition trace_on_failure :: "uuid \<Rightarrow> string \<Rightarrow> ping_result \<Rightarrow> registry \<Rightarrow> registry" where
  "trace_on_failure ep address result r =
     (if 0 < failed_count result \<and> fst (get_toggles r ep) \<and> active_diag_count r < 10
      then register_diagnostic_task ep address r else r)"

definition first_event :: "cycle_env \<Rightarrow> ping_result \<Rightarrow> uuid \<Rightarrow> event_table \<Rightarrow> endpoint_state \<times> event_table" where
  "first_event env result ep tbl =
     create_initial_event ep result (en_baseline env) (en_identity env) (en_execution_time env) (en_new_id env) tbl"

definition monitor_cycle ::
  "int \<Rightarrow> bool \<Rightarrow> cycle_env \<Rightarrow> string \<Rightarrow> ping_result \<Rightarrow> uuid \<Rightarrow> engine \<Rightarrow> engine \<times> effect list" where
  \<comment> \<open>the body of the sweep's loop; when the transaction is not committed the exception is
     logged, but the tasks that the cycle started are running\<close>
  "monitor_cycle threshold commits env address result ep g =
     (let (new_state, tbl, effects) =
            (case e_states g ep of
               None \<Rightarrow> (let (s, t) = first_event env result ep (e_events g) in (s, t, []))
             | Some current_state \<Rightarrow> process_cycle threshold env result current_state (e_events g));
          g = g\<lparr>e_registry := trace_on_failure ep address result (e_registry g)\<rparr>
      in if commits then (g\<lparr>e_states := (e_states g)(ep \<mapsto> new_state), e_events := tbl\<rparr>, effects)
         else (g, effects))"

definition start_sweep :: "bool \<Rightarrow> cycle_env \<Rightarrow> ping_result \<Rightarrow> uuid \<Rightarrow> engine \<Rightarrow> engine" where
  \<comment> \<open>the part before the loop; the result is that of the single validation ping\<close>
  "start_sweep commits env result ep g =
     (let state = initialize_endpoint ep (en_identity env) (e_events g);
          g = g\<lparr>e_states := (e_states g)(ep := state)\<rparr>
      in if state = None \<and> commits then
           (let (s, t) = first_event env result ep (e_events g)
            in g\<lparr>e_states := (e_states g)(ep \<mapsto> s), e_events := t\<rparr>)
         else g)"

subsection \<open>The main loop\<close>

type_synonym orm_row = "uuid \<times> (string \<rightharpoonup> py_val)" \<comment> \<open>id and attributes of an ORM row\<close>

definition row_data :: "orm_row \<Rightarrow> ep_data" where
  "row_data row = Object_data ((snd row)(''id'' \<mapsto> PUuid (fst row)))"

definition selected :: "orm_row list \<Rightarrow> orm_row list" where
  "selected rows = filter (\<lambda>(i, a). a ''endpoint_status'' = Some (PStr ''ACTIVE'')
     \<and> a ''monitoring_enabled'' = Some (PBool True)) rows"

definition assigned :: "int \<Rightarrow> int \<Rightarrow> orm_row list \<Rightarrow> orm_row list" where
  "assigned worker_id num_workers rows =
     (if 1 < num_workers then filter (\<lambda>(i, a). uint (drop_bit 96 i) mod num_workers = worker_id) rows else rows)"

fun sync_add :: "orm_row list \<Rightarrow> registry \<Rightarrow> registry \<times> bool" where
  \<comment> \<open>the boolean: no addition raised\<close>
  "sync_add [] r = (r, True)"
| "sync_add (row # rows) r =
     (case add_endpoint (row_data row) True r of
        Inl _ \<Rightarrow> (r, False)
      | Inr (_, r') \<Rightarrow> sync_add rows r')"

definition sync_evict :: "uuid set \<Rightarrow> engine \<Rightarrow> engine" where
  "sync_evict active g =
     fold (\<lambda>e g. if me_id e \<in> active then g
                 else g\<lparr>e_registry := remove_endpoint (me_id e) (e_registry g),
                        e_states := (e_states g)(me_id e := None)\<rparr>)
       (list_active_endpoints (e_registry g)) g"

definition sync_round :: "int \<Rightarrow> int \<Rightarrow> orm_row list \<Rightarrow> engine \<Rightarrow> engine" where
  \<comment> \<open>one iteration of the loop of \<open>main\<close>; an addition that raises ends it\<close>
  "sync_round worker_id num_workers rows g =
     (let rs = assigned worker_id num_workers (selected rows);
          (r, ok) = sync_add rs (e_registry g);
          g = g\<lparr>e_registry := r\<rparr>
      in if ok then sync_evict (fst ` set rs) g else g)"

subsection \<open>A round of the main loop\<close>

definition row_ok :: "orm_row \<Rightarrow> bool" where
  \<comment> \<open>selected, and its parent, a UUID column, is not text\<close>
  "row_ok row \<longleftrightarrow> snd row ''endpoint_status'' = Some (PStr ''ACTIVE'') \<and>
     snd row ''monitoring_enabled'' = Some (PBool True) \<and>
     (case snd row ''manual_parent_id'' of Some (PStr _) \<Rightarrow> False | _ \<Rightarrow> True)"

lemma add_row:
  assumes ok: "row_ok (i, a)"
  obtains e where "me_id e = i" "should_run e" "me_ip_address e = clean_ip (py_str (get_val (row_data (i, a)) ''ip_address'' (PStr [])))"
    "\<And>r. add_endpoint (row_data (i, a)) True r = Inr (e,
      (let r' = r\<lparr>r_endpoints := put i e (r_endpoints r)\<rparr>
       in if get (r_running_tasks r) i = None then spawn e r' else r'))"
proof -
  let ?d = "row_data (i, a)"
  obtain parent where p: "parent_of (get_val ?d ''manual_parent_id'' PNone) = Inr parent"
    using ok by (auto simp: row_ok_def parent_of_def get_val_def row_data_def split: option.splits py_val.splits)
  have id: "id_of ?d = Inr (Some i)" by (simp add: id_of_def get_val_def row_data_def)
  let ?e = "endpoint_of i ?d parent"
  have run: "should_run ?e"
    using ok by (simp add: should_run_def endpoint_of_def row_ok_def get_val_def row_data_def upper_def upper_char_def Let_def)
  have "add_endpoint ?d True r = Inr (?e,
      (let r' = r\<lparr>r_endpoints := put i ?e (r_endpoints r)\<rparr>
       in if get (r_running_tasks r) i = None then spawn ?e r' else r'))" for r
    using run by (simp add: add_endpoint_def id p Let_def)
  with run that[of ?e] show thesis by (simp add: endpoint_of_def Let_def)
qed

lemma sync_add_ok:
  assumes "\<forall>row \<in> set rows. row_ok row" "reg_inv r" "diag_inv r"
  shows "\<exists>r'. sync_add rows r = (r', True) \<and> reg_inv r' \<and> diag_inv r' \<and>
    (\<forall>i. (\<forall>t. get (r_running_tasks r) i = Some t \<longrightarrow> get (r_running_tasks r') i = Some t) \<and>
         (get (r_running_tasks r) i = None \<longrightarrow> (get (r_running_tasks r') i \<noteq> None) = (i \<in> fst ` set rows))) \<and>
    (\<forall>t < length (r_tasks r). t < length (r_tasks r') \<and> r_tasks r' ! t = r_tasks r ! t)"
  using assms
proof (induction rows arbitrary: r)
  case (Cons row rows)
  obtain i a where row: "row = (i, a)" by (cases row)
  with Cons.prems(1) have "row_ok (i, a)" by simp
  then obtain e where e: "me_id e = i" and eq: "\<And>r. add_endpoint (row_data (i, a)) True r = Inr (e,
      (let r' = r\<lparr>r_endpoints := put i e (r_endpoints r)\<rparr>
       in if get (r_running_tasks r) i = None then spawn e r' else r'))" using add_row by metis
  define r1 where "r1 = (let r' = r\<lparr>r_endpoints := put i e (r_endpoints r)\<rparr>
       in if get (r_running_tasks r) i = None then spawn e r' else r')"
  have add: "add_endpoint (row_data (i, a)) True r = Inr (e, r1)" by (simp add: eq r1_def)
  have run: "get (r_running_tasks r1) j = (if j = i \<and> get (r_running_tasks r) i = None then Some (length (r_tasks r))
      else get (r_running_tasks r) j)" for j
    by (simp add: r1_def spawn_def Let_def e)
  have tasks: "\<forall>t < length (r_tasks r). t < length (r_tasks r1) \<and> r_tasks r1 ! t = r_tasks r ! t"
    by (simp add: r1_def spawn_def Let_def nth_append)
  have "reg_inv r1" "diag_inv r1" using add_endpoint_inv[OF Cons.prems(2,3) add] by simp_all
  with Cons.IH[of r1] Cons.prems(1) obtain r' where r': "sync_add rows r1 = (r', True)" "reg_inv r'" "diag_inv r'"
    "\<And>i t. get (r_running_tasks r1) i = Some t \<Longrightarrow> get (r_running_tasks r') i = Some t"
    "\<And>i. get (r_running_tasks r1) i = None \<Longrightarrow> (get (r_running_tasks r') i \<noteq> None) = (i \<in> fst ` set rows)"
    "\<forall>t < length (r_tasks r1). t < length (r_tasks r') \<and> r_tasks r' ! t = r_tasks r1 ! t" by auto
  have "(get (r_running_tasks r') j \<noteq> None) = (j \<in> fst ` set ((i, a) # rows))" if "get (r_running_tasks r) j = None" for j
    using r'(4)[of j] r'(5)[of j] run[of j] that by (cases "j = i") auto
  moreover have "get (r_running_tasks r') j = Some t" if "get (r_running_tasks r) j = Some t" for j t
    by (rule r'(4)) (use run[of j] that in auto)
  ultimately show ?case using r'(1-3,6) tasks by (simp add: row add) 
qed auto

lemma remove_running: "get (r_running_tasks (remove_endpoint ep r)) i = (if i = ep then None else get (r_running_tasks r) i)"
  by (simp add: remove_endpoint_def Let_def)

lemma evict_fold:
  "get (r_running_tasks (e_registry (fold (\<lambda>e g. if me_id e \<in> active then g
                 else g\<lparr>e_registry := remove_endpoint (me_id e) (e_registry g),
                        e_states := (e_states g)(me_id e := None)\<rparr>) es g))) i
   = (if i \<notin> active \<and> i \<in> me_id ` set es then None else get (r_running_tasks (e_registry g)) i)"
  by (induction es arbitrary: g) (auto simp: remove_running)

lemma sync_evict_running:
  "get (r_running_tasks (e_registry (sync_evict active g))) i =
     (if i \<notin> active \<and> i \<in> me_id ` set (list_active_endpoints (e_registry g)) then None
      else get (r_running_tasks (e_registry g)) i)"
  unfolding sync_evict_def by (rule evict_fold)

lemma active_listed:
  assumes "reg_inv r" "get (r_running_tasks r) i = Some t"
  shows "i \<in> me_id ` set (list_active_endpoints r)"
proof -
  obtain e where e: "get (r_endpoints r) i = Some e" "should_run e"
    using reg_invD(5)[OF assms] by (auto simp: wanted_def)
  then have "e \<in> set (list_active_endpoints r)"
    by (force simp: list_active_endpoints_def dest: map_of_SomeD)
  with reg_invD(3)[OF assms(1) e(1)] show ?thesis by blast
qed

lemma sync_round_running:
  assumes rows: "\<forall>row \<in> set (assigned w n (selected rows)). row_ok row" and inv: "reg_inv (e_registry g)" "diag_inv (e_registry g)"
  shows "(get (r_running_tasks (e_registry (sync_round w n rows g))) i \<noteq> None) = (i \<in> fst ` set (assigned w n (selected rows)))"
    and "i \<in> fst ` set (assigned w n (selected rows)) \<Longrightarrow> get (r_running_tasks (e_registry g)) i = Some t \<Longrightarrow>
      get (r_running_tasks (e_registry (sync_round w n rows g))) i = Some t"
proof -
  let ?rs = "assigned w n (selected rows)"
  obtain r' where r': "sync_add ?rs (e_registry g) = (r', True)" "reg_inv r'"
    "\<And>i t. get (r_running_tasks (e_registry g)) i = Some t \<Longrightarrow> get (r_running_tasks r') i = Some t"
    "\<And>i. get (r_running_tasks (e_registry g)) i = None \<Longrightarrow> (get (r_running_tasks r') i \<noteq> None) = (i \<in> fst ` set ?rs)"
    using sync_add_ok[OF rows inv] by auto
  have eq: "e_registry (sync_round w n rows g) = e_registry (sync_evict (fst ` set ?rs) (g\<lparr>e_registry := r'\<rparr>))"
    by (simp add: sync_round_def r'(1))
  show "(get (r_running_tasks (e_registry (sync_round w n rows g))) i \<noteq> None) = (i \<in> fst ` set ?rs)"
    using r'(3)[of i] r'(4)[of i] active_listed[OF r'(2), of i]
    unfolding eq sync_evict_running by (cases "get (r_running_tasks (e_registry g)) i") auto
  show "i \<in> fst ` set ?rs \<Longrightarrow> get (r_running_tasks (e_registry g)) i = Some t \<Longrightarrow>
      get (r_running_tasks (e_registry (sync_round w n rows g))) i = Some t"
    using r'(3)[of i t] unfolding eq sync_evict_running by simp
qed

subsection \<open>The partition of the endpoints\<close>

lemma selected_ok:
  assumes "\<forall>row \<in> set rows. \<forall>s. snd row ''manual_parent_id'' \<noteq> Some (PStr s)"
  shows "\<forall>row \<in> set (assigned w n (selected rows)). row_ok row"
proof
  fix row
  assume "row \<in> set (assigned w n (selected rows))"
  then have "row \<in> set (selected rows)" by (auto simp: assigned_def split: if_splits)
  with assms show "row_ok row" by (auto simp: selected_def row_ok_def split: option.splits py_val.splits)
qed

lemma assigned_ids:
  "1 \<le> n \<Longrightarrow> 0 \<le> w \<Longrightarrow> w < n \<Longrightarrow>
   i \<in> fst ` set (assigned w n rows) \<longleftrightarrow> i \<in> fst ` set rows \<and> uint (drop_bit 96 i) mod n = w"
  by (cases "n = 1") (force simp: assigned_def)+

lemma worker_runs:
  assumes "1 \<le> n" "0 \<le> w" "w < n" "registry_step\<^sup>*\<^sup>* EndpointRegistry (e_registry g)"
    and "\<forall>row \<in> set rows. \<forall>s. snd row ''manual_parent_id'' \<noteq> Some (PStr s)"
  shows "get (r_running_tasks (e_registry (sync_round w n rows g))) i \<noteq> None \<longleftrightarrow>
    i \<in> fst ` set (selected rows) \<and> uint (drop_bit 96 i) mod n = w"
  using sync_round_running(1)[OF selected_ok[OF assms(5)]] reachable_inv[OF assms(4)] assigned_ids[OF assms(1-3)] by auto



subsection \<open>A changed address\<close>

lemma remove_tasks: "length (r_tasks (remove_endpoint ep r)) = length (r_tasks r)"
  "t < length (r_tasks r) \<Longrightarrow> tk_address (r_tasks (remove_endpoint ep r) ! t) = tk_address (r_tasks r ! t)"
  by (auto simp: remove_endpoint_def cancel_diagnostics_def cancel_running_def nth_cancel nth_enumerate_eq Let_def
      split: option.splits)

lemma evict_keeps:
  defines "evict \<equiv> \<lambda>active es g. fold (\<lambda>e g. if me_id e \<in> active then g
                 else g\<lparr>e_registry := remove_endpoint (me_id e) (e_registry g),
                        e_states := (e_states g)(me_id e := None)\<rparr>) es g"
  assumes "i \<in> active"
  shows "get (r_endpoints (e_registry (evict active es g))) i = get (r_endpoints (e_registry g)) i"
    and "t < length (r_tasks (e_registry g)) \<Longrightarrow>
      tk_address (r_tasks (e_registry (evict active es g)) ! t) = tk_address (r_tasks (e_registry g) ! t)"
    and "e_states (evict active es g) i = e_states g i"
  unfolding evict_def using assms(2)
  by (induction es arbitrary: g) (auto simp: remove_tasks, auto simp: remove_endpoint_def Let_def cancel_diagnostics_def split: option.splits)

lemma sync_add_endpoint:
  assumes "\<forall>row \<in> set rows. row_ok row" "distinct (map fst rows)"
  shows "\<exists>r'. sync_add rows r = (r', True) \<and>
    (\<forall>i a. (i, a) \<in> set rows \<longrightarrow> map_option me_ip_address (get (r_endpoints r') i)
        = Some (clean_ip (py_str (get_val (row_data (i, a)) ''ip_address'' (PStr []))))) \<and>
    (\<forall>i. i \<notin> fst ` set rows \<longrightarrow> get (r_endpoints r') i = get (r_endpoints r) i)"
  using assms
proof (induction rows arbitrary: r)
  case (Cons row rows)
  obtain i a where row: "row = (i, a)" by (cases row)
  with Cons.prems(1) have "row_ok (i, a)" by simp
  then obtain e where e: "me_ip_address e = clean_ip (py_str (get_val (row_data (i, a)) ''ip_address'' (PStr [])))"
    and eq: "\<And>r. add_endpoint (row_data (i, a)) True r = Inr (e,
      (let r' = r\<lparr>r_endpoints := put i e (r_endpoints r)\<rparr>
       in if get (r_running_tasks r) i = None then spawn e r' else r'))" using add_row by metis
  define r1 where "r1 = (let r' = r\<lparr>r_endpoints := put i e (r_endpoints r)\<rparr>
       in if get (r_running_tasks r) i = None then spawn e r' else r')"
  have add: "add_endpoint (row_data (i, a)) True r = Inr (e, r1)" by (simp add: eq r1_def)
  have es: "get (r_endpoints r1) j = (if j = i then Some e else get (r_endpoints r) j)" for j
    by (simp add: r1_def spawn_def Let_def)
  have "\<exists>r'. sync_add rows r1 = (r', True) \<and>
    (\<forall>i a. (i, a) \<in> set rows \<longrightarrow> map_option me_ip_address (get (r_endpoints r') i)
        = Some (clean_ip (py_str (get_val (row_data (i, a)) ''ip_address'' (PStr []))))) \<and>
    (\<forall>i. i \<notin> fst ` set rows \<longrightarrow> get (r_endpoints r') i = get (r_endpoints r1) i)"
    using Cons.IH[of r1] Cons.prems by simp
  then show ?case using Cons.prems(2) by (auto simp: row add es e)
qed simp

text \<open>
  A changed address is registered but never pinged: when the row of an endpoint whose sweep
  runs brings a new address, the registry shows it after the round, and the sweep that runs is
  the same as before, with the address it was started with.
\<close>

lemma changed_address_not_pinged:
  assumes "registry_step\<^sup>*\<^sup>* EndpointRegistry (e_registry g)" and "g' = sync_round w n rows g"
    and "(i, a) \<in> set (assigned w n (selected rows))" "distinct (map fst rows)"
    and "\<forall>row \<in> set rows. \<forall>s. snd row ''manual_parent_id'' \<noteq> Some (PStr s)"
    and "get (r_running_tasks (e_registry g)) i = Some t" "a ''ip_address'' = Some (PStr address)"
  shows "map_option me_ip_address (get (r_endpoints (e_registry g')) i) = Some (clean_ip address) \<and>
    get (r_running_tasks (e_registry g')) i = Some t \<and>
    tk_address (r_tasks (e_registry g') ! t) = tk_address (r_tasks (e_registry g) ! t)"
proof -
  let ?rs = "assigned w n (selected rows)"
  note ok = selected_ok[OF assms(5), of w n]
  have inv: "reg_inv (e_registry g)" "diag_inv (e_registry g)" using reachable_inv[OF assms(1)] by simp_all
  have "distinct (map fst ?rs)"
    using assms(4) by (simp add: assigned_def selected_def distinct_map_filter)
  with sync_add_endpoint[OF ok, of "e_registry g"] obtain r' where r': "sync_add ?rs (e_registry g) = (r', True)"
    "map_option me_ip_address (get (r_endpoints r') i) = Some (clean_ip (py_str (get_val (row_data (i, a)) ''ip_address'' (PStr []))))"
    using assms(3) by blast
  have t: "t < length (r_tasks (e_registry g))" using reg_invD(4)[OF inv(1) assms(6)] by (simp add: task_fits_def)
  with sync_add_ok[OF ok inv] r'(1) have tasks: "t < length (r_tasks r')" "r_tasks r' ! t = r_tasks (e_registry g) ! t"
    by auto
  have i: "i \<in> fst ` set ?rs" using assms(3) by force
  have g': "g' = sync_evict (fst ` set ?rs) (g\<lparr>e_registry := r'\<rparr>)" by (simp add: assms(2) sync_round_def r'(1))
  have "map_option me_ip_address (get (r_endpoints (e_registry g')) i) = Some (clean_ip address)"
    using r'(2) assms(7) unfolding g' sync_evict_def by (simp add: evict_keeps(1)[OF i] get_val_def row_data_def)
  moreover have "tk_address (r_tasks (e_registry g') ! t) = tk_address (r_tasks (e_registry g) ! t)"
    using evict_keeps(2)[OF i, of t "g\<lparr>e_registry := r'\<rparr>"] tasks unfolding g' sync_evict_def by simp
  moreover have "get (r_running_tasks (e_registry g')) i = Some t"
    unfolding assms(2) by (rule sync_round_running(2)[OF ok inv i assms(6)])
  ultimately show ?thesis by simp
qed

lemma clean_ip_examples: "clean_ip ''10.0.0.7'' = ''10.0.0.7''" "clean_ip ''10.0.0.8'' = ''10.0.0.8''"
  by code_simp+

lemma changed_address_not_pinged_witness:
  "let row = \<lambda>address. (7 :: uuid, [''endpoint_status'' \<mapsto> PStr ''ACTIVE'', ''monitoring_enabled'' \<mapsto> PBool True,
         ''ip_address'' \<mapsto> PStr address]);
       g = sync_round 0 1 [row ''10.0.0.7''] \<lparr>e_registry = EndpointRegistry, e_states = Map.empty, e_events = []\<rparr>;
       g' = sync_round 0 1 [row ''10.0.0.8''] g
   in map_option me_ip_address (get (r_endpoints (e_registry g')) 7) = Some ''10.0.0.8'' \<and>
      get (r_running_tasks (e_registry g')) 7 = Some 0 \<and>
      tk_address (r_tasks (e_registry g') ! 0) = ''10.0.0.7''"
proof -
  define row where "row = (\<lambda>address. (7 :: uuid, [''endpoint_status'' \<mapsto> PStr ''ACTIVE'',
      ''monitoring_enabled'' \<mapsto> PBool True, ''ip_address'' \<mapsto> PStr address]))"
  define g where "g = sync_round 0 1 [row ''10.0.0.7''] \<lparr>e_registry = EndpointRegistry, e_states = Map.empty, e_events = []\<rparr>"
  have sel: "assigned 0 1 (selected [row a]) = [row a]" for a by (simp add: assigned_def selected_def row_def)
  have id7: "fst (row a) = 7" for a by (simp add: row_def)
  obtain e where e: "me_id e = 7" "should_run e" "me_ip_address e = ''10.0.0.7''" and
    add: "add_endpoint (row_data (row ''10.0.0.7'')) True EndpointRegistry = Inr (e,
      spawn e (EndpointRegistry\<lparr>r_endpoints := [(7, e)]\<rparr>))"
    by (simp add: row_def row_data_def add_endpoint_def id_of_def get_val_def parent_of_def EndpointRegistry_def endpoint_of_def
        should_run_def upper_def upper_char_def Let_def clean_ip_examples)
  have g: "e_registry g = spawn e (EndpointRegistry\<lparr>r_endpoints := [(7, e)]\<rparr>)"
    by (simp add: g_def sync_round_def sel add sync_evict_def list_active_endpoints_def spawn_def e id7 Let_def)
  have "registry_step EndpointRegistry (e_registry g)" unfolding g by (rule registry_step.add[OF add])
  then have "registry_step\<^sup>*\<^sup>* EndpointRegistry (e_registry g)" by blast
  from changed_address_not_pinged[OF this refl, where w = 0 and n = 1 and rows = "[row ''10.0.0.8'']" and i = 7 and t = 0
      and a = "snd (row ''10.0.0.8'')" and address = "''10.0.0.8''"]
  show ?thesis
    unfolding row_def[symmetric] g_def[symmetric] Let_def sel
    by (simp add: row_def g spawn_def EndpointRegistry_def e clean_ip_examples)
qed

subsection \<open>The events of all endpoints\<close>

text \<open>
  The cycles of all sweeps share the event table and the map of states. A sweep may start when
  the endpoint has no open event but perhaps the latest one, which start-up establishes by closing
  all of them; row ids that the database generates are new.
\<close>

inductive engine_step :: "int \<Rightarrow> engine \<Rightarrow> engine \<Rightarrow> bool" for threshold where
  start: "\<forall>e \<in> set (open_events ep (e_events g)). latest_event ep (e_events g) = Some e \<Longrightarrow>
    en_new_id env \<notin> table_ids (e_events g) \<Longrightarrow> engine_step threshold g (start_sweep commits env result ep g)"
| cycle: "en_new_id env \<notin> table_ids (e_events g) \<Longrightarrow>
    engine_step threshold g (fst (monitor_cycle threshold commits env address result ep g))"

definition tracked :: "engine \<Rightarrow> uuid \<Rightarrow> endpoint_state \<Rightarrow> bool" where
  "tracked g ep st \<longleftrightarrow> s_endpoint_id st = ep \<and> s_active_event_id st \<in> table_ids (e_events g) \<and> sm_inv st (e_events g)"

definition engine_inv :: "engine \<Rightarrow> bool" where
  "engine_inv g \<longleftrightarrow> ids_ok (e_events g) \<and>
     (\<forall>ep. length (open_events ep (e_events g)) \<le> 1) \<and>
     (\<forall>ep. e_states g ep = None \<longrightarrow> open_events ep (e_events g) = []) \<and>
     (\<forall>ep st. e_states g ep = Some st \<longrightarrow> tracked g ep st)"

lemma open_other:
  assumes "ep' \<noteq> ep" "other_events ep tbl = other_events ep tbl'"
  shows "open_events ep' tbl = open_events ep' tbl'"
proof -
  have "open_events ep' t = filter (\<lambda>e. ev_endpoint_id e = ep' \<and> is_open e) (other_events ep t)" for t
    using assms(1) by (auto simp: open_events_def other_events_def intro: filter_cong)
  with assms(2) show ?thesis by metis
qed

lemma sm_inv_elsewhere:
  assumes "tracked g ep st" "ids_ok tbl" "ep \<noteq> ep'"
    and "other_events ep' tbl = other_events ep' (e_events g)"
  shows "s_active_event_id st \<in> table_ids tbl \<and> sm_inv st tbl"
proof -
  obtain e0 where e0: "e0 \<in> set (e_events g)" "ev_id e0 = s_active_event_id st"
    using assms(1) by (auto simp: tracked_def table_ids_def)
  with assms(1) have ep: "ev_endpoint_id e0 = ep" by (auto simp: tracked_def sm_inv_def)
  have "e0 \<in> set (other_events ep' (e_events g))" using e0(1) ep assms(3) by (simp add: other_events_def)
  then have in_tbl: "e0 \<in> set tbl" unfolding assms(4)[symmetric] by (simp add: other_events_def)
  have uniq: "ev_endpoint_id e = ep" if "e \<in> set tbl" "ev_id e = s_active_event_id st" for e
  proof -
    have "e = e0" using assms(2) that in_tbl e0(2) by (auto simp: ids_ok_def distinct_map inj_on_def)
    with ep show ?thesis by simp
  qed
  have "open_events ep tbl = open_events ep (e_events g)"
    using assms(3,4) by (rule open_other)
  moreover have "s_active_event_id st \<in> table_ids tbl"
    unfolding table_ids_def by (rule rev_image_eqI[OF in_tbl]) (simp add: e0(2))
  moreover have "s_endpoint_id st = ep" "sm_inv st (e_events g)" using assms(1) by (simp_all add: tracked_def)
  ultimately show ?thesis using uniq assms(2) unfolding sm_inv_def by metis
qed

lemma engine_inv_step:
  assumes inv: "engine_inv g" and st: "s_endpoint_id st = ep" "s_active_event_id st \<in> table_ids tbl" "sm_inv st tbl"
    and frame: "other_events ep tbl = other_events ep (e_events g)"
    and g': "e_events g' = tbl" "e_states g' = (e_states g)(ep \<mapsto> st)"
  shows "engine_inv g'"
proof -
  have ids: "ids_ok tbl" using st(3) by (simp add: sm_inv_def)
  have A: "length (open_events ep' tbl) \<le> 1" for ep'
  proof (cases "ep' = ep")
    case True
    with open_at_most_one[OF st(3)] st(1) show ?thesis by (auto simp: one_open_def)
  next
    case False
    then have "open_events ep' tbl = open_events ep' (e_events g)" by (rule open_other[OF _ frame])
    with inv show ?thesis by (simp add: engine_inv_def)
  qed
  have B: "tracked g' ep' st'" if "e_states g' ep' = Some st'" for ep' st'
  proof (cases "ep' = ep")
    case True
    with st that g' show ?thesis by (simp add: tracked_def)
  next
    case False
    with that g' inv have "tracked g ep' st'" by (simp add: engine_inv_def)
    with sm_inv_elsewhere[OF this ids False frame] g' show ?thesis by (simp add: tracked_def)
  qed
  have C: "open_events ep' tbl = []" if "e_states g' ep' = None" for ep'
    using that g'(2) open_other[OF _ frame, of ep'] inv by (auto simp: engine_inv_def split: if_splits)
  show ?thesis unfolding engine_inv_def g'(1) using A B C ids by blast
qed

lemma engine_inv_first:
  assumes "engine_inv g" "open_events ep (e_events g) = []" "en_new_id env \<notin> table_ids (e_events g)"
    and "first_event env result ep (e_events g) = (st, tbl)"
    and g': "e_events g' = tbl" "e_states g' = (e_states g)(ep \<mapsto> st)"
  shows "engine_inv g'" "one_open st tbl" "s_endpoint_id st = ep"
proof -
  have st: "s_endpoint_id st = ep" "s_active_event_id st = en_new_id env"
    and tbl: "tbl = insert_event (en_new_id env) (s_endpoint_id st) (s_confirmed_operational_state st)
      (s_confirmed_detailed_state st) result False (en_execution_time env) (e_events g)"
    using assms(4) by (auto simp: first_event_def create_initial_event_def Let_def case_prod_beta)
  have "sm_inv st tbl" "one_open st tbl"
    using sm_inv_insert[of "e_events g" "en_new_id env" st result False "en_execution_time env"] assms(1-3)
    unfolding tbl by (auto simp: st engine_inv_def table_ids_def)
  moreover have "s_active_event_id st \<in> table_ids tbl" by (simp add: tbl st)
  moreover have "other_events ep tbl = other_events ep (e_events g)" by (subst tbl) (simp add: st)
  ultimately show "engine_inv g'" "one_open st tbl" "s_endpoint_id st = ep"
    using engine_inv_step[OF assms(1) st(1) _ _ _ g'] st(1) by simp_all
qed

lemma one_open_id: "one_open st tbl \<Longrightarrow> s_active_event_id st \<in> table_ids tbl"
proof -
  assume "one_open st tbl"
  then obtain e where e: "open_events (s_endpoint_id st) tbl = [e]" "ev_id e = s_active_event_id st"
    by (auto simp: one_open_def)
  from e(1) have "e \<in> set tbl" unfolding open_events_def by (metis filter_is_subset list.set_intros(1) subsetD)
  with e(2) show ?thesis by (auto simp: table_ids_def intro: rev_image_eqI)
qed

lemma engine_inv_cycle:
  assumes inv: "engine_inv g" and new: "en_new_id env \<notin> table_ids (e_events g)"
    and c: "monitor_cycle threshold commits env address result ep g = (g', es)"
  shows "engine_inv g'"
    and "commits \<Longrightarrow> \<exists>st. e_states g' ep = Some st \<and> s_endpoint_id st = ep \<and> one_open st (e_events g')"
proof -
  obtain st tbl fx where now: "(case e_states g ep of
               None \<Rightarrow> (let (s, t) = first_event env result ep (e_events g) in (s, t, []))
             | Some current_state \<Rightarrow> process_cycle threshold env result current_state (e_events g)) = (st, tbl, fx)"
    by (metis prod_cases3)
  have g': "commits \<Longrightarrow> e_events g' = tbl \<and> e_states g' = (e_states g)(ep \<mapsto> st)"
    "\<not> commits \<Longrightarrow> e_events g' = e_events g \<and> e_states g' = e_states g"
    using c unfolding monitor_cycle_def now by auto
  have "\<exists>st. commits \<longrightarrow> engine_inv g' \<and> e_states g' ep = Some st \<and> s_endpoint_id st = ep \<and> one_open st (e_events g')"
  proof (cases "e_states g ep")
    case None
    then have first: "first_event env result ep (e_events g) = (st, tbl)" using now by (simp add: case_prod_beta prod_eq_iff)
    have "open_events ep (e_events g) = []" using inv None by (simp add: engine_inv_def)
    from engine_inv_first[OF inv this new first] g'(1) show ?thesis by auto
  next
    case (Some old)
    then have p: "process_cycle threshold env result old (e_events g) = (st, tbl, fx)" using now by simp
    have old: "s_endpoint_id old = ep" "sm_inv old (e_events g)" using inv Some by (auto simp: engine_inv_def tracked_def)
    have new': "en_new_id env \<notin> ev_id ` set (e_events g)" using new by (simp add: table_ids_def)
    note e = process_cycle_events[OF old(2) new' p]
    have ep: "s_endpoint_id st = ep" using process_cycle_core(1)[OF p] old(1) by simp
    have "commits \<Longrightarrow> engine_inv g'"
      by (rule engine_inv_step[OF inv ep one_open_id]) (use e old(1) g'(1) in auto)
    with e ep g'(1) show ?thesis by auto
  qed
  moreover have "\<not> commits \<Longrightarrow> engine_inv g'" using inv g'(2) by (simp add: engine_inv_def tracked_def)
  ultimately show "engine_inv g'"
    "commits \<Longrightarrow> \<exists>st. e_states g' ep = Some st \<and> s_endpoint_id st = ep \<and> one_open st (e_events g')" by auto
qed

lemma latest_member: "latest es = Some e \<Longrightarrow> e \<in> set es"
  by (induction es arbitrary: e) (auto split: option.splits if_splits)

lemma latest_none: "latest es = None \<longleftrightarrow> es = []"
  by (cases es) (auto split: option.splits)

lemma engine_inv_start:
  assumes inv: "engine_inv g" and new: "en_new_id env \<notin> table_ids (e_events g)"
    and only: "\<forall>e \<in> set (open_events ep (e_events g)). latest_event ep (e_events g) = Some e"
  shows "engine_inv (start_sweep commits env result ep g)"
proof (cases "latest_event ep (e_events g)")
  case None
  then have "filter (\<lambda>e. ev_endpoint_id e = ep) (e_events g) = []" by (simp add: latest_event_def latest_none)
  then have empty: "open_events ep (e_events g) = []" by (auto simp: open_events_def filter_empty_conv)
  have init: "initialize_endpoint ep (en_identity env) (e_events g) = None" by (simp add: initialize_endpoint_def None)
  let ?g = "g\<lparr>e_states := (e_states g)(ep := None)\<rparr>"
  have inv': "engine_inv ?g" using inv empty by (auto simp: engine_inv_def tracked_def)
  obtain st tbl where first: "first_event env result ep (e_events g) = (st, tbl)" by fastforce
  have "engine_inv (?g\<lparr>e_states := (e_states ?g)(ep \<mapsto> st), e_events := tbl\<rparr>)"
    by (rule engine_inv_first(1)[OF inv', where env = env and result = result and ep = ep]) (use empty new first in simp_all)
  with inv' first show ?thesis by (simp add: start_sweep_def init Let_def)
next
  case (Some row)
  then have row: "row \<in> set (e_events g)" "ev_endpoint_id row = ep"
    by (auto simp: latest_event_def dest: latest_member)
  obtain st where st: "initialize_endpoint ep (en_identity env) (e_events g) = Some st" "s_endpoint_id st = ep"
    "s_active_event_id st = ev_id row" "s_confirmed_detailed_state st = ev_detailed_state row"
    "s_confirmed_operational_state st = ev_operational_state row"
    by (simp add: initialize_endpoint_def Some Let_def case_prod_beta)
  have ids: "ids_ok (e_events g)" using inv by (simp add: engine_inv_def)
  have "ev_endpoint_id e = ep" if "e \<in> set (e_events g)" "ev_id e = ev_id row" for e
  proof -
    have "e = row" using ids that row(1) by (auto simp: ids_ok_def distinct_map inj_on_def)
    with row(2) show ?thesis by simp
  qed
  with ids only have "sm_inv st (e_events g)" by (simp add: sm_inv_def st Some)
  moreover have "s_active_event_id st \<in> table_ids (e_events g)" using row(1) by (simp add: st table_ids_def)
  ultimately have "engine_inv (g\<lparr>e_states := (e_states g)(ep \<mapsto> st)\<rparr>)"
    by (intro engine_inv_step[OF inv st(2)]) simp_all
  then show ?thesis by (simp add: start_sweep_def st(1) Let_def)
qed

lemma engine_reachable: "(engine_step threshold)\<^sup>*\<^sup>* g g' \<Longrightarrow> engine_inv g \<Longrightarrow> engine_inv g'"
proof (induction rule: rtranclp_induct)
  case (step g1 g2)
  from step.hyps(2) show ?case
  proof cases
    case (start ep env commits result)
    with step engine_inv_start show ?thesis by blast
  next
    case (cycle env commits address result ep)
    with step show ?thesis
      using engine_inv_cycle(1)[of g1 env threshold commits address result ep, OF _ _ prod.collapse[symmetric]] by simp
  qed
qed



lemma diagnostics_bounded:
  assumes "active_diag_count r \<le> 10"
  shows "active_diag_count (trace_on_failure ep address result r) \<le> 10"
proof -
  have put: "sum_list (map (\<lambda>(ep, s). card s) (put k v d)) + (case get d k of None \<Rightarrow> 0 | Some s \<Rightarrow> card s)
      = sum_list (map (\<lambda>(ep, s). card s) d) + card v" for k :: uuid and v :: "nat set" and d
    by (induction d) auto
  have one: "card (insert x s) \<le> Suc (card s)" for x :: nat and s
    by (cases "finite s") (auto simp: card_insert_if)
  let ?d = "r_diagnostic_tasks r"
  let ?v = "insert (length (r_tasks r)) (case get ?d ep of None \<Rightarrow> {} | Some s \<Rightarrow> s)"
  have "sum_list (map (\<lambda>(ep, s). card s) (put ep ?v ?d)) \<le> Suc (sum_list (map (\<lambda>(ep, s). card s) ?d))"
    using put[of ep ?v ?d] one[of "length (r_tasks r)" "case get ?d ep of None \<Rightarrow> {} | Some s \<Rightarrow> s"]
    by (simp split: option.splits)
  with assms show ?thesis
    by (simp add: trace_on_failure_def register_diagnostic_task_def active_diag_count_def Let_def)
qed

end
