(* ===== verification/Uptime.thy ===== *)
theory Uptime
  imports Gap_Handler
begin

text \<open>
  Availability (\<open>services/uptime_calculator.py\<close>, \<open>services/timezone_utils.py\<close>): the seconds
  of monitoring gaps within the lifespan of a device, and the percentage of the remaining time
  for which it was up. Instants are microseconds of UTC; a naive datetime is the reading of a
  clock in the local zone, whose present offset is an argument, and which the code applies to
  all of them. \<open>int(d.total_seconds())\<close> is a truncating division, exact for the spans of a
  database.
\<close>

datatype py_datetime = Naive instant | Aware instant

primrec localize_datetime :: "instant \<Rightarrow> py_datetime \<Rightarrow> instant" where
  "localize_datetime offset (Naive t) = t - offset"
| "localize_datetime offset (Aware t) = t"

definition whole_seconds :: "instant \<Rightarrow> int" where \<comment> \<open>truncates towards zero\<close>
  "whole_seconds d = sgn d * (\<bar>d\<bar> div 1000000)"

definition overlap_seconds :: "instant \<Rightarrow> instant \<Rightarrow> instant \<times> instant \<Rightarrow> int" where
  "overlap_seconds device_start device_end g =
     (let (g_start, g_end) = g;
          overlap_start = max g_start device_start;
          overlap_end = min g_end device_end
      in if overlap_start < overlap_end then whole_seconds (overlap_end - overlap_start) else 0)"

definition calculate_device_gap_seconds ::
  "instant \<Rightarrow> py_datetime \<Rightarrow> py_datetime \<Rightarrow> (py_datetime \<times> py_datetime) list \<Rightarrow> int" where
  "calculate_device_gap_seconds offset device_start device_end gap_intervals =
     (let loc = localize_datetime offset
      in sum_list (map (\<lambda>(s, e). overlap_seconds (loc device_start) (loc device_end) (loc s, loc e)) gap_intervals))"

record uptime_query =
  q_created_at :: py_datetime
  q_start_time :: py_datetime
  q_end_time :: py_datetime
  q_now :: py_datetime
  q_up_events_count :: int
  q_unknown_seconds :: int
  q_gap_intervals :: "(py_datetime \<times> py_datetime) list option"
  q_uptime_seconds :: "int option"

definition effective_span :: "instant \<Rightarrow> uptime_query \<Rightarrow> instant \<times> instant" where
  "effective_span offset q =
     (max (localize_datetime offset (q_start_time q)) (localize_datetime offset (q_created_at q)),
      min (localize_datetime offset (q_end_time q)) (localize_datetime offset (q_now q)))"

definition uptime_denominator :: "instant \<Rightarrow> uptime_query \<Rightarrow> int" where
  "uptime_denominator offset q =
     (let (effective_start, effective_end) = effective_span offset q;
          total_seconds = max 0 (whole_seconds (effective_end - effective_start));
          device_gap_sec =
            (case q_gap_intervals q of
               Some gs \<Rightarrow> calculate_device_gap_seconds offset (Aware effective_start) (Aware effective_end) gs
             | None \<Rightarrow> q_unknown_seconds q)
      in total_seconds - device_gap_sec)"

definition calculate_uptime :: "instant \<Rightarrow> uptime_query \<Rightarrow> real" where
  \<comment> \<open>\<open>calculate_uptime_denominator_and_percentage\<close>\<close>
  "calculate_uptime offset q =
     (let denominator = uptime_denominator offset q
      in if denominator \<le> 0 then 100
         else (let uptime_seconds =
                     (case q_uptime_seconds q of None \<Rightarrow> q_up_events_count q * 60 | Some s \<Rightarrow> s);
                   percentage = of_int uptime_seconds / of_int denominator * 100
               in max 0 (min 100 (round2 percentage))))"

definition get_service_gap_intervals ::
  "instant \<Rightarrow> service_table option \<Rightarrow> py_datetime \<Rightarrow> py_datetime \<Rightarrow> (instant \<times> instant) list" where
  \<comment> \<open>the table is \<open>None\<close> when the query fails\<close>
  "get_service_gap_intervals offset gaps start_dt end_dt =
     (let s = localize_datetime offset start_dt; e = localize_datetime offset end_dt
      in case gaps of
           None \<Rightarrow> []
         | Some gs \<Rightarrow>
             (let found = filter (\<lambda>g. g_start_time g < e \<and> (case g_end_time g of None \<Rightarrow> True | Some t \<Rightarrow> s < t)) gs;
                  rows = sort_key g_start_time found;
                  clamped = map (\<lambda>g. (max (g_start_time g) s,
                                      min (case g_end_time g of None \<Rightarrow> e | Some t \<Rightarrow> t) e)) rows
              in filter (\<lambda>(g_start, g_end). g_start < g_end) clamped))"

definition get_unknown_seconds_for_period ::
  "instant \<Rightarrow> service_table option \<Rightarrow> py_datetime \<Rightarrow> py_datetime \<Rightarrow> int" where
  "get_unknown_seconds_for_period offset gaps effective_start period_end =
     calculate_device_gap_seconds offset effective_start period_end
       (map (\<lambda>(s, e). (Aware s, Aware e)) (get_service_gap_intervals offset gaps effective_start period_end))"

subsection \<open>The seconds a gap covers\<close>

definition gap_seconds :: "int \<Rightarrow> int \<Rightarrow> int \<times> int \<Rightarrow> int set" where
  \<comment> \<open>the seconds of the span from \<open>a\<close> to \<open>b\<close> that lie in a gap, numbered\<close>
  "gap_seconds a b g = {k. a \<le> k \<and> k < b \<and> fst g \<le> k \<and> k < snd g}"

lemma gap_seconds_eq: "gap_seconds a b g = {max (fst g) a ..< min (snd g) b}"
  by (auto simp: gap_seconds_def)

lemma finite_gap_seconds [simp]: "finite (gap_seconds a b g)"
  by (simp add: gap_seconds_eq)

lemma whole_seconds_sec [simp]: "whole_seconds (sec n) = n"
  by (simp add: whole_seconds_def abs_mult sgn_mult mult_sgn_abs)

lemma whole_seconds_nonneg: "0 \<le> d \<Longrightarrow> whole_seconds d = d div 1000000"
  by (simp add: whole_seconds_def sgn_if)

lemma span_seconds: "(if sec m < sec n then whole_seconds (sec n - sec m) else 0) = int (card {m..<n})"
proof -
  have "sec n - sec m = sec (n - m)" by (simp add: algebra_simps)
  then show ?thesis by (simp only: whole_seconds_sec) simp
qed

lemma overlap_whole:
  "overlap_seconds (sec a) (sec b) (sec s, sec e) = int (card (gap_seconds a b (s, e)))"
proof -
  have mx: "max (sec x) (sec y) = sec (max x y)" "min (sec x) (sec y) = sec (min x y)" for x y
    by (simp_all add: max_def min_def)
  show ?thesis
    unfolding overlap_seconds_def prod.case Let_def mx gap_seconds_eq fst_conv snd_conv by (rule span_seconds)
qed

lemma gap_sum_whole:
  "calculate_device_gap_seconds offset (Aware (sec a)) (Aware (sec b))
     (map (\<lambda>(s, e). (Aware (sec s), Aware (sec e))) gs) = (\<Sum>g\<leftarrow>gs. int (card (gap_seconds a b g)))"
  by (simp add: calculate_device_gap_seconds_def comp_def case_prod_beta overlap_whole)

definition apart :: "int \<Rightarrow> int \<Rightarrow> (int \<times> int) list \<Rightarrow> bool" where
  \<comment> \<open>no second of the span lies in two of the gaps\<close>
  "apart a b gs \<longleftrightarrow> sorted_wrt (\<lambda>g h. gap_seconds a b g \<inter> gap_seconds a b h = {}) gs"

definition covered :: "int \<Rightarrow> int \<Rightarrow> (int \<times> int) list \<Rightarrow> int set" where
  "covered a b gs = (\<Union>g \<in> set gs. gap_seconds a b g)"

lemma covered_simps [simp]:
  "covered a b [] = {}" "covered a b (g # gs) = gap_seconds a b g \<union> covered a b gs" "finite (covered a b gs)"
  by (auto simp: covered_def)

lemma apart_Cons [simp]: "apart a b (g # gs) \<longleftrightarrow> gap_seconds a b g \<inter> covered a b gs = {} \<and> apart a b gs"
  by (auto simp: apart_def covered_def)

lemma card_covered_le: "int (card (covered a b gs)) \<le> (\<Sum>g\<leftarrow>gs. int (card (gap_seconds a b g)))"
proof (induction gs)
  case (Cons g gs)
  with card_Un_le[of "gap_seconds a b g" "covered a b gs"] show ?case by simp
qed simp

lemma card_covered_eq: "(\<Sum>g\<leftarrow>gs. int (card (gap_seconds a b g))) = int (card (covered a b gs)) \<longleftrightarrow> apart a b gs"
proof (induction gs)
  case (Cons g gs)
  let ?A = "gap_seconds a b g" and ?B = "covered a b gs"
  have un: "card (?A \<union> ?B) + card (?A \<inter> ?B) = card ?A + card ?B" using card_Un_Int[of ?A ?B] by simp
  have none: "card (?A \<inter> ?B) = 0 \<longleftrightarrow> ?A \<inter> ?B = {}" by simp
  show ?case
  proof
    assume "apart a b (g # gs)"
    with Cons un none show "(\<Sum>g\<leftarrow>g # gs. int (card (gap_seconds a b g))) = int (card (covered a b (g # gs)))" by simp
  next
    assume eq: "(\<Sum>g\<leftarrow>g # gs. int (card (gap_seconds a b g))) = int (card (covered a b (g # gs)))"
    have "int (card (?A \<union> ?B)) + int (card (?A \<inter> ?B)) = int (card ?A) + int (card ?B)"
      using un by (metis of_nat_add)
    moreover have "int (card ?A) + (\<Sum>g\<leftarrow>gs. int (card (gap_seconds a b g))) = int (card (?A \<union> ?B))"
      using eq by simp
    moreover note card_covered_le[of a b gs] of_nat_0_le_iff[of "card (?A \<inter> ?B)", where 'a = int]
    ultimately have "(\<Sum>g\<leftarrow>gs. int (card (gap_seconds a b g))) = int (card ?B)" "int (card (?A \<inter> ?B)) = 0"
      by linarith+
    with Cons none show "apart a b (g # gs)" by simp
  qed
qed (simp add: apart_def)

text \<open>
  The sum over the gaps counts each second of the span that a gap covers once if, and only if,
  no two gaps overlap there; otherwise it is more.
\<close>

lemma gap_seconds_counted:
  "calculate_device_gap_seconds offset (Aware (sec a)) (Aware (sec b))
     (map (\<lambda>(s, e). (Aware (sec s), Aware (sec e))) gs) = int (card (covered a b gs)) \<longleftrightarrow> apart a b gs"
  "int (card (covered a b gs)) \<le> calculate_device_gap_seconds offset (Aware (sec a)) (Aware (sec b))
     (map (\<lambda>(s, e). (Aware (sec s), Aware (sec e))) gs)"
  unfolding gap_sum_whole by (rule card_covered_eq, rule card_covered_le)



text \<open>Two records of one outage lower the denominator twice.\<close>

lemma overlapping_gaps_counted_twice:
  "calculate_device_gap_seconds 0 (Aware (sec 0)) (Aware (sec 100))
     [(Aware (sec 10), Aware (sec 20)), (Aware (sec 10), Aware (sec 20))] = 20"
  using gap_sum_whole[of 0 0 100 "[(10, 20), (10, 20)]"] by (simp add: gap_seconds_eq)

text \<open>The intervals read from the table lie within the period, and each gap of the table counts.\<close>

lemma gap_intervals_clamped:
  "(g_start, g_end) \<in> set (get_service_gap_intervals offset gaps s e) \<Longrightarrow>
   localize_datetime offset s \<le> g_start \<and> g_start < g_end \<and> g_end \<le> localize_datetime offset e"
  by (auto simp: get_service_gap_intervals_def Let_def split: option.splits)

lemma gap_intervals_cover:
  "localize_datetime offset s \<le> t \<Longrightarrow> t < localize_datetime offset e \<Longrightarrow>
   (\<exists>(g_start, g_end) \<in> set (get_service_gap_intervals offset (Some gaps) s e). g_start \<le> t \<and> t < g_end) \<longleftrightarrow>
   (\<exists>g \<in> set gaps. g_start_time g \<le> t \<and> (case g_end_time g of None \<Rightarrow> True | Some u \<Rightarrow> t < u))"
  by (force simp: get_service_gap_intervals_def Let_def split: option.splits)

end
