(* ===== verification/Session_Store.thy ===== *)
theory Session_Store
  imports Py_Value "HOL-Library.Sublist"
begin

text \<open>
  The session stores (\<open>services/session_store.py\<close>): the Postgres driver on the table
  \<open>user_sessions\<close>, the Redis driver on a keyspace with expiry, and the migrations between them.
  A statement the database refuses rolls the transaction back and is only logged. Redis is taken
  as reachable; a value it holds is the list that the code stores as JSON.
\<close>

subsection \<open>Postgres\<close>

record user_session =
  us_id :: uuid
  us_user_id :: uuid
  us_jti :: string
  us_created_at :: instant
  us_expires_at :: instant

type_synonym session_table = "user_session list"

definition insert_session :: "uuid set \<Rightarrow> user_session \<Rightarrow> session_table \<Rightarrow> session_table option" where
  \<comment> \<open>\<open>INSERT\<close> with the constraints of the table: a known user, a short and unique \<open>jti\<close>\<close>
  "insert_session users s tbl =
     (if us_user_id s \<in> users \<and> length (us_jti s) \<le> 64 \<and> us_jti s \<notin> us_jti ` set tbl
      then Some (tbl @ [s]) else None)"

definition pg_register_session ::
  "uuid set \<Rightarrow> uuid \<Rightarrow> instant \<Rightarrow> string \<Rightarrow> string \<Rightarrow> nat \<Rightarrow> int \<Rightarrow> session_table \<Rightarrow> session_table" where
  "pg_register_session users new_id now user_id jti max_sessions ttl_seconds tbl =
     (case UUID user_id of
        Inl _ \<Rightarrow> tbl
      | Inr u \<Rightarrow>
          (let t = filter (\<lambda>s. \<not> (us_user_id s = u \<and> us_expires_at s \<le> now)) tbl;
               new_session = \<lparr> us_id = new_id, us_user_id = u, us_jti = jti, us_created_at = now,
                               us_expires_at = now + sec ttl_seconds \<rparr>
           in case insert_session users new_session t of
                None \<Rightarrow> tbl
              | Some t \<Rightarrow>
                  (let active = rev (sort_key us_created_at (filter (\<lambda>s. us_user_id s = u \<and> now < us_expires_at s) t));
                       active_ids = map us_id active
                   in if max_sessions < length active_ids
                      then filter (\<lambda>s. us_id s \<notin> set (drop max_sessions active_ids)) t else t)))"

definition pg_is_session_active :: "instant \<Rightarrow> string \<Rightarrow> string option \<Rightarrow> session_table \<Rightarrow> bool" where
  "pg_is_session_active now user_id jti tbl =
     (case jti of
        None \<Rightarrow> False
      | Some j \<Rightarrow> j \<noteq> [] \<and>
          (case UUID user_id of
             Inl _ \<Rightarrow> False
           | Inr u \<Rightarrow> list_ex (\<lambda>s. us_user_id s = u \<and> us_jti s = j \<and> now < us_expires_at s) tbl))"

definition pg_invalidate_session :: "string \<Rightarrow> string option \<Rightarrow> session_table \<Rightarrow> session_table" where
  "pg_invalidate_session user_id jti tbl =
     (case jti of
        None \<Rightarrow> tbl
      | Some j \<Rightarrow>
          if j = [] then tbl
          else (case UUID user_id of
                  Inl _ \<Rightarrow> tbl
                | Inr u \<Rightarrow> filter (\<lambda>s. \<not> (us_user_id s = u \<and> us_jti s = j)) tbl))"

definition pg_invalidate_all_user_sessions :: "string \<Rightarrow> session_table \<Rightarrow> session_table" where
  "pg_invalidate_all_user_sessions user_id tbl =
     (case UUID user_id of Inl _ \<Rightarrow> tbl | Inr u \<Rightarrow> filter (\<lambda>s. us_user_id s \<noteq> u) tbl)"

subsection \<open>Redis\<close>

type_synonym 'v redis = "string \<rightharpoonup> 'v \<times> instant" \<comment> \<open>value and time of expiry\<close>

definition redis_get :: "instant \<Rightarrow> 'v redis \<Rightarrow> string \<Rightarrow> 'v option" where
  "redis_get now st key = (case st key of None \<Rightarrow> None | Some (v, ex) \<Rightarrow> if now < ex then Some v else None)"

definition redis_set :: "instant \<Rightarrow> string \<Rightarrow> 'v \<Rightarrow> int \<Rightarrow> 'v redis \<Rightarrow> 'v redis result" where
  \<comment> \<open>\<open>SET key v EX ex\<close>; an expiry that is not positive is an error\<close>
  "redis_set now key v ex st = (if ex \<le> 0 then Inl DbError else Inr (st(key \<mapsto> (v, now + sec ex))))"

definition redis_ttl :: "instant \<Rightarrow> 'v redis \<Rightarrow> string \<Rightarrow> int" where
  \<comment> \<open>\<open>TTL\<close> rounds to the nearest second; \<open>-2\<close> without the key\<close>
  "redis_ttl now st key =
     (case st key of None \<Rightarrow> -2 | Some (v, ex) \<Rightarrow> if now < ex then (ex - now + 500000) div 1000000 else -2)"

definition session_key :: "string \<Rightarrow> string" where "session_key user_id = ''user_sessions:'' @ user_id"

definition redis_register_session ::
  "instant \<Rightarrow> string \<Rightarrow> string \<Rightarrow> nat \<Rightarrow> int \<Rightarrow> string list redis \<Rightarrow> string list redis result" where
  "redis_register_session now user_id jti max_sessions ttl_seconds st =
     (let key = session_key user_id;
          sessions = (case redis_get now st key of None \<Rightarrow> [] | Some l \<Rightarrow> l) @ [jti];
          sessions = (if max_sessions < length sessions then py_tail sessions max_sessions else sessions)
      in redis_set now key sessions ttl_seconds st)"

definition redis_is_session_active :: "instant \<Rightarrow> string \<Rightarrow> string option \<Rightarrow> string list redis \<Rightarrow> bool" where
  "redis_is_session_active now user_id jti st =
     (case jti of
        None \<Rightarrow> False
      | Some j \<Rightarrow> j \<noteq> [] \<and>
          (case redis_get now st (session_key user_id) of None \<Rightarrow> False | Some sessions \<Rightarrow> j \<in> set sessions))"

definition redis_invalidate_session ::
  "instant \<Rightarrow> string \<Rightarrow> string option \<Rightarrow> string list redis \<Rightarrow> string list redis result" where
  "redis_invalidate_session now user_id jti st =
     (case jti of
        None \<Rightarrow> Inr st
      | Some j \<Rightarrow>
          if j = [] then Inr st
          else (let key = session_key user_id
                in case redis_get now st key of
                     None \<Rightarrow> Inr st
                   | Some l \<Rightarrow>
                       (let sessions = filter (\<lambda>s. s \<noteq> j) l
                        in if sessions \<noteq> [] then
                             (let ttl = redis_ttl now st key;
                                  ex = (if 0 < ttl then max ttl 60 else 86400)
                              in redis_set now key sessions ex st)
                           else Inr (st(key := None)))))"

definition redis_invalidate_all_user_sessions :: "string \<Rightarrow> string list redis \<Rightarrow> string list redis" where
  "redis_invalidate_all_user_sessions user_id st = st(session_key user_id := None)"

subsection \<open>Failed logins in Redis\<close>

definition lockout_ip :: "string \<Rightarrow> string" where
  "lockout_ip client_ip = (if client_ip \<noteq> [] then strip client_ip else ''127.0.0.1'')"

definition lockout_user :: "string \<Rightarrow> string" where
  "lockout_user username = (if username \<noteq> [] then lower (strip username) else [])"

definition redis_lockout_keys :: "string \<Rightarrow> string \<Rightarrow> string \<times> string" where
  "redis_lockout_keys client_ip username =
     (let who = lockout_ip client_ip @ '':'' @ lockout_user username
      in (''auth:failed:'' @ who, ''auth:locked:'' @ who))"

record redis_lockout =
  rl_counts :: "int redis"
  rl_locks :: "unit redis"

definition redis_record_failed_attempt ::
  "instant \<Rightarrow> string \<Rightarrow> string \<Rightarrow> int \<Rightarrow> int \<Rightarrow> redis_lockout \<Rightarrow> redis_lockout" where
  \<comment> \<open>\<open>INCR\<close> keeps the expiry of the counter; the first count sets it\<close>
  "redis_record_failed_attempt now client_ip username max_attempts lockout_seconds st =
     (let (failed_key, locked_key) = redis_lockout_keys client_ip username;
          count = (case redis_get now (rl_counts st) failed_key of None \<Rightarrow> 0 | Some n \<Rightarrow> n) + 1;
          ex = (if count = 1 then now + sec 1800 else snd (the (rl_counts st failed_key)));
          st = st\<lparr>rl_counts := (rl_counts st)(failed_key \<mapsto> (count, ex))\<rparr>
      in if max_attempts \<le> count
         then (case redis_set now locked_key () lockout_seconds (rl_locks st) of
                 Inl _ \<Rightarrow> st
               | Inr ls \<Rightarrow> st\<lparr>rl_locks := ls\<rparr>)
         else st)"

definition redis_is_account_locked :: "instant \<Rightarrow> string \<Rightarrow> string \<Rightarrow> redis_lockout \<Rightarrow> bool" where
  "redis_is_account_locked now client_ip username st =
     (redis_get now (rl_locks st) (snd (redis_lockout_keys client_ip username)) \<noteq> None)"

definition redis_clear_failed_attempts :: "string \<Rightarrow> string \<Rightarrow> redis_lockout \<Rightarrow> redis_lockout" where
  "redis_clear_failed_attempts client_ip username st =
     (let (failed_key, locked_key) = redis_lockout_keys client_ip username
      in \<lparr> rl_counts = (rl_counts st)(failed_key := None), rl_locks = (rl_locks st)(locked_key := None) \<rparr>)"

subsection \<open>Migration\<close>

definition group_by_user :: "user_session list \<Rightarrow> (string, user_session list) dict" where
  "group_by_user sessions =
     fold (\<lambda>s m. let u_id = uuid_text (us_user_id s)
                 in put u_id ((case get m u_id of None \<Rightarrow> [] | Some l \<Rightarrow> l) @ [s]) m) sessions []"

definition migrate_user ::
  "instant \<Rightarrow> string \<times> user_session list \<Rightarrow> string list redis \<times> nat \<Rightarrow> string list redis \<times> nat" where
  "migrate_user now entry acc =
     (let (u_id, sess_list) = entry; (st, count) = acc;
          jtis = filter (\<lambda>j. j \<noteq> []) (map us_jti sess_list);
          max_exp = Max (set (map us_expires_at sess_list));
          ttl = (max_exp - now) div 1000000
      in if jtis = [] then acc
         else if 0 < ttl then (st(session_key u_id \<mapsto> (jtis, now + sec ttl)), count + length jtis)
         else acc)"

definition migrate_sessions_pg_to_redis ::
  "instant \<Rightarrow> session_table \<Rightarrow> string list redis \<Rightarrow> string list redis \<times> nat" where
  "migrate_sessions_pg_to_redis now tbl st =
     (let sessions = sort_key us_created_at (filter (\<lambda>s. now < us_expires_at s) tbl)
      in fold (migrate_user now) (group_by_user sessions) (st, 0))"

definition pending_of :: "instant \<Rightarrow> session_table \<Rightarrow> uuid \<times> string list \<times> instant \<Rightarrow> (uuid \<times> string \<times> instant) list" where
  \<comment> \<open>the sessions of one key that are added; the query sees the table as it was, because the
     additions are flushed only by the commit\<close>
  "pending_of now tbl entry =
     (let (u, jtis, ex) = entry
      in map (\<lambda>jti. (u, jti, ex))
           (filter (\<lambda>jti. jti \<noteq> [] \<and>
              \<not> list_ex (\<lambda>s. us_user_id s = u \<and> us_jti s = jti \<and> now < us_expires_at s) tbl) jtis))"

definition scanned :: "instant \<Rightarrow> string list redis \<Rightarrow> string \<Rightarrow> (uuid \<times> string list \<times> instant) list" where
  \<comment> \<open>what one key contributes: its user, the sessions, their new expiry\<close>
  "scanned now st key =
     (case UUID (drop (length (session_key [])) key) of
        Inl _ \<Rightarrow> []
      | Inr u \<Rightarrow>
          (case redis_get now st key of
             None \<Rightarrow> []
           | Some jtis \<Rightarrow>
               (let ttl = redis_ttl now st key
                in [(u, jtis, now + sec (if 0 < ttl then ttl else 86400))])))"

fun insert_sessions ::
  "uuid set \<Rightarrow> (nat \<Rightarrow> uuid) \<Rightarrow> instant \<Rightarrow> (uuid \<times> string \<times> instant) list \<Rightarrow> session_table \<Rightarrow> session_table option" where
  "insert_sessions users new_id now [] tbl = Some tbl"
| "insert_sessions users new_id now ((u, jti, ex) # ps) tbl =
     (case insert_session users \<lparr> us_id = new_id (length tbl), us_user_id = u, us_jti = jti,
                                  us_created_at = now, us_expires_at = ex \<rparr> tbl of
        None \<Rightarrow> None
      | Some tbl \<Rightarrow> insert_sessions users new_id now ps tbl)"

definition migrate_sessions_redis_to_pg ::
  "uuid set \<Rightarrow> (nat \<Rightarrow> uuid) \<Rightarrow> instant \<Rightarrow> string list \<Rightarrow> string list redis \<Rightarrow> session_table \<Rightarrow>
   session_table \<times> nat" where
  \<comment> \<open>\<open>ks\<close>: the keys of the form \<open>user_sessions:*\<close> in the order of the scan\<close>
  "migrate_sessions_redis_to_pg users new_id now ks st tbl =
     (let pending = concat (map (pending_of now tbl) (concat (map (scanned now st) ks)))
      in (case insert_sessions users new_id now pending tbl of None \<Rightarrow> tbl | Some tbl' \<Rightarrow> tbl', length pending))"

end
