(* ===== verification/Session_Contract.thy ===== *)
theory Session_Contract
  imports Session_Store
begin

text \<open>
  What \<open>SessionStore\<close> promises: for each user a queue of sessions, a registration appends to it
  and drops from the front beyond the limit. The contract is a locale; the Postgres and Redis
  drivers are interpretations of it. Time may only shorten a queue from the front, which is where
  the drivers differ.
\<close>

datatype session_op = Register uuid string uuid | Invalidate uuid string | Invalidate_all uuid
  \<comment> \<open>a registration comes with the id that the database gives its row\<close>

primrec fifo_op :: "nat \<Rightarrow> session_op \<Rightarrow> (uuid \<Rightarrow> string list) \<Rightarrow> uuid \<Rightarrow> string list" where
  "fifo_op m (Register u j i) f = f(u := py_tail (f u @ [j]) m)"
| "fifo_op m (Invalidate u j) f = f(u := filter (\<lambda>x. x \<noteq> j) (f u))"
| "fifo_op m (Invalidate_all u) f = f(u := [])"

primrec tokens :: "session_op \<Rightarrow> (string + uuid) set" where
  "tokens (Register u j i) = {Inl j, Inr i}"
| "tokens (Invalidate u j) = {}"
| "tokens (Invalidate_all u) = {}"

definition run_ops :: "(instant \<Rightarrow> session_op \<Rightarrow> 's \<Rightarrow> 's) \<Rightarrow> (instant \<times> session_op) list \<Rightarrow> 's \<Rightarrow> 's" where
  "run_ops step = fold (\<lambda>(t, op). step t op)"

definition fifo :: "nat \<Rightarrow> (instant \<times> session_op) list \<Rightarrow> uuid \<Rightarrow> string list" where
  "fifo m ops = fold (\<lambda>(t, op). fifo_op m op) ops (\<lambda>_. [])"

definition fresh_tokens :: "(instant \<times> session_op) list \<Rightarrow> bool" where
  "fresh_tokens ops \<longleftrightarrow> sorted_wrt (\<lambda>a b. tokens (snd a) \<inter> tokens (snd b) = {}) ops"

lemma suffix_py_tail: "suffix xs ys \<Longrightarrow> suffix (py_tail (xs @ [j]) m) (py_tail (ys @ [j]) m)"
proof -
  assume "suffix xs ys"
  then obtain zs where ys: "ys = zs @ xs" by (auto simp: suffix_def)
  show ?thesis
  proof (cases "m = 0 \<or> m \<le> Suc (length xs)")
    case True
    then show ?thesis by (auto simp: py_tail_def ys suffix_def)
  next
    case False
    then have "py_tail (xs @ [j]) m = xs @ [j]" by (simp add: py_tail_def)
    moreover from False have "py_tail (ys @ [j]) m = drop (length ys + 1 - m) zs @ xs @ [j]"
      by (auto simp: py_tail_def ys)
    ultimately show ?thesis by (auto simp: suffix_def)
  qed
qed

lemma suffix_filter: "suffix xs ys \<Longrightarrow> suffix (filter P xs) (filter P ys)"
  by (auto simp: suffix_def)

lemma fifo_op_mono:
  "(\<And>u. suffix (f u) (g u)) \<Longrightarrow> suffix (fifo_op m op f u) (fifo_op m op g u)"
  by (cases op) (simp_all add: suffix_py_tail suffix_filter)

lemma fifo_snoc: "fifo m (ops @ [(t, op)]) = fifo_op m op (fifo m ops)"
  by (simp add: fifo_def)

text \<open>The specification keeps at most the limit, and a session that was invalidated is gone until
  it is registered again.\<close>

lemma fifo_length: "1 \<le> m \<Longrightarrow> length (fifo m ops u) \<le> m"
proof (induction ops rule: rev_induct)
  case (snoc c ops)
  obtain t op where "c = (t, op)" by (cases c)
  with snoc show ?case
    by (cases op) (auto simp: fifo_snoc py_tail_def le_trans[OF length_filter_le])
qed (simp add: fifo_def)

lemma fifo_registered: "j \<in> set (fifo m ops u) \<Longrightarrow> \<exists>t i. (t, Register u j i) \<in> set ops"
proof (induction ops rule: rev_induct)
  case (snoc c ops)
  obtain t op where "c = (t, op)" by (cases c)
  with snoc show ?case
    by (cases op) (auto simp: fifo_snoc split: if_splits dest!: subsetD[OF set_py_tail], blast+)
qed (simp add: fifo_def)

definition ends_session :: "uuid \<Rightarrow> string \<Rightarrow> session_op \<Rightarrow> bool" where
  "ends_session u j op \<longleftrightarrow> op = Invalidate u j \<or> op = Invalidate_all u"

lemma fifo_ended:
  assumes "ends_session u j op" "\<And>t' i. (t', Register u j i) \<notin> set later"
  shows "j \<notin> set (fifo m (ops @ [(t, op)] @ later) u)"
  using assms(2)
proof (induction later rule: rev_induct)
  case Nil
  have "j \<notin> set (fifo_op m op (fifo m ops) u)" using assms(1) by (auto simp: ends_session_def)
  then show ?case using fifo_snoc[of m ops t op] by simp
next
  case (snoc c later)
  obtain t' op' where c: "c = (t', op')" by (cases c)
  have "fifo m (ops @ [(t, op)] @ later @ [c]) = fifo_op m op' (fifo m (ops @ [(t, op)] @ later))"
    using fifo_snoc[of m "ops @ [(t, op)] @ later" t' op'] by (simp add: c)
  with snoc c show ?case by (cases op') (auto dest!: subsetD[OF set_py_tail], blast+)
qed

locale session_store =
  fixes limit :: nat
    and step :: "instant \<Rightarrow> session_op \<Rightarrow> 's \<Rightarrow> 's"
    and sessions :: "instant \<Rightarrow> 's \<Rightarrow> uuid \<Rightarrow> string list" \<comment> \<open>the live ones, oldest first\<close>
    and good :: "instant \<Rightarrow> 's \<Rightarrow> bool"
    and used :: "'s \<Rightarrow> (string + uuid) set"
    and admissible :: "session_op \<Rightarrow> bool"
  assumes later: "good t s \<Longrightarrow> t \<le> t' \<Longrightarrow> good t' s"
    and shrink: "good t s \<Longrightarrow> t \<le> t' \<Longrightarrow> suffix (sessions t' s u) (sessions t s u)"
    and step_good: "good t s \<Longrightarrow> admissible op \<Longrightarrow> tokens op \<inter> used s = {} \<Longrightarrow> good t (step t op s)"
    and step_sessions: "good t s \<Longrightarrow> admissible op \<Longrightarrow> tokens op \<inter> used s = {} \<Longrightarrow>
      sessions t (step t op s) = fifo_op limit op (sessions t s)"
    and step_used: "good t s \<Longrightarrow> used (step t op s) \<subseteq> used s \<union> tokens op"
begin

lemma run_mono:
  assumes "good t s" "sorted (t # map fst ops)" "\<forall>(t, op) \<in> set ops. t \<le> now \<and> admissible op" "t \<le> now"
    and "fresh_tokens ops" "\<forall>(t, op) \<in> set ops. tokens op \<inter> used s = {}"
    and "\<And>u. suffix (sessions t s u) (f u)"
  shows "suffix (sessions now (run_ops step ops s) u) (fold (\<lambda>(t, op). fifo_op limit op) ops f u)"
  using assms
proof (induction ops arbitrary: t s f)
  case Nil
  then show ?case using shrink[of t s now u] by (auto simp: run_ops_def intro: suffix_order.trans)
next
  case (Cons c ops)
  obtain t' op where c: "c = (t', op)" by (cases c)
  have t': "t \<le> t'" "t' \<le> now" "admissible op" "tokens op \<inter> used s = {}" using Cons.prems by (auto simp: c)
  have g: "good t' s" by (rule later[OF Cons.prems(1) t'(1)])
  have f: "suffix (sessions t' s u) (f u)" for u
    using shrink[OF Cons.prems(1) t'(1)] Cons.prems(7) by (rule suffix_order.trans)
  have "suffix (sessions now (run_ops step ops (step t' op s)) u)
      (fold (\<lambda>(t, op). fifo_op limit op) ops (fifo_op limit op f) u)"
  proof (rule Cons.IH)
    show "good t' (step t' op s)" by (rule step_good[OF g t'(3,4)])
    show "\<forall>(t, op') \<in> set ops. tokens op' \<inter> used (step t' op s) = {}"
      using step_used[OF g, of op] Cons.prems(5,6) by (fastforce simp: fresh_tokens_def c)
    show "suffix (sessions t' (step t' op s) u) (fifo_op limit op f u)" for u
      unfolding step_sessions[OF g t'(3,4)] by (rule fifo_op_mono) (rule f)
  qed (use Cons.prems t' in \<open>auto simp: c fresh_tokens_def\<close>)
  then show ?case by (simp add: run_ops_def c)
qed

lemma run_refines:
  assumes "good t s" "\<And>u. sessions t s u = []" "used s = {}"
    and "sorted (t # map fst ops @ [now])" "\<forall>(t, op) \<in> set ops. admissible op" "fresh_tokens ops"
  shows "suffix (sessions now (run_ops step ops s) u) (fifo limit ops u)"
  unfolding fifo_def
  by (rule run_mono[of t]) (use assms in \<open>force simp: sorted_append\<close>)+

end

subsection \<open>The Postgres driver\<close>

definition day :: int where "day = 86400"

primrec pg_op :: "uuid set \<Rightarrow> nat \<Rightarrow> instant \<Rightarrow> session_op \<Rightarrow> session_table \<Rightarrow> session_table" where
  "pg_op users m t (Register u j i) tbl = pg_register_session users i t (uuid_text u) j m day tbl"
| "pg_op users m t (Invalidate u j) tbl = pg_invalidate_session (uuid_text u) (Some j) tbl"
| "pg_op users m t (Invalidate_all u) tbl = pg_invalidate_all_user_sessions (uuid_text u) tbl"

definition pg_sessions :: "instant \<Rightarrow> session_table \<Rightarrow> uuid \<Rightarrow> string list" where
  "pg_sessions t tbl u = map us_jti (filter (\<lambda>s. us_user_id s = u \<and> t < us_expires_at s) tbl)"

definition pg_good :: "instant \<Rightarrow> session_table \<Rightarrow> bool" where
  "pg_good t tbl \<longleftrightarrow> sorted (map us_created_at tbl) \<and> distinct (map us_id tbl) \<and>
     (\<forall>s \<in> set tbl. us_created_at s \<le> t \<and> us_expires_at s = us_created_at s + sec day)"

definition pg_used :: "session_table \<Rightarrow> (string + uuid) set" where
  "pg_used tbl = Inl ` us_jti ` set tbl \<union> Inr ` us_id ` set tbl"

definition admissible :: "uuid set \<Rightarrow> session_op \<Rightarrow> bool" where
  "admissible users op =
     (case op of Register u j i \<Rightarrow> u \<in> users \<and> j \<noteq> [] \<and> length j \<le> 64 | Invalidate u j \<Rightarrow> j \<noteq> [] | Invalidate_all u \<Rightarrow> True)"

lemma pg_good_filter: "pg_good t tbl \<Longrightarrow> pg_good t (filter P tbl)"
  by (auto simp: pg_good_def sorted_filter distinct_map_filter)

lemma filter_take_ids:
  "distinct (map f xs) \<Longrightarrow> filter (\<lambda>x. f x \<notin> set (take k (map f xs))) xs = drop k xs"
proof -
  assume d: "distinct (map f xs)"
  have "filter (\<lambda>x. f x \<notin> set (take k (map f xs))) (take k xs @ drop k xs) = drop k xs"
  proof -
    have "filter (\<lambda>x. f x \<notin> set (take k (map f xs))) (take k xs) = []"
      by (auto simp: filter_empty_conv take_map)
    moreover have "set (take k (map f xs)) \<inter> set (drop k (map f xs)) = {}"
      using d by (rule set_take_disj_set_drop_if_distinct) simp
    then have "filter (\<lambda>x. f x \<notin> set (take k (map f xs))) (drop k xs) = drop k xs"
      by (auto simp: filter_id_conv drop_map)
    ultimately show ?thesis by (simp only: filter_append append_Nil)
  qed
  then show ?thesis by simp
qed

lemma pg_register_rows:
  assumes good: "pg_good t tbl" and new: "u \<in> users" "length j \<le> 64" "Inl j \<notin> pg_used tbl" "Inr i \<notin> pg_used tbl"
  defines "s \<equiv> \<lparr> us_id = i, us_user_id = u, us_jti = j, us_created_at = t, us_expires_at = t + sec day \<rparr>"
  defines "mine \<equiv> filter (\<lambda>s. us_user_id s = u \<and> t < us_expires_at s) tbl @ [s]"
  shows "pg_register_session users i t (uuid_text u) j m day tbl =
     filter (\<lambda>s. us_id s \<notin> set (take (length mine - m) (map us_id mine)))
       (filter (\<lambda>s. \<not> (us_user_id s = u \<and> us_expires_at s \<le> t)) tbl @ [s])"
    and "sorted (map us_created_at mine)" "distinct (map us_id mine)"
    and "us_id ` set mine \<inter> us_id ` {s \<in> set tbl. us_user_id s \<noteq> u} = {}"
proof -
  let ?t1 = "filter (\<lambda>s. \<not> (us_user_id s = u \<and> us_expires_at s \<le> t)) tbl"
  have ins: "insert_session users s ?t1 = Some (?t1 @ [s])"
    using new by (auto simp: insert_session_def s_def pg_used_def)
  have mine: "filter (\<lambda>s. us_user_id s = u \<and> t < us_expires_at s) (?t1 @ [s]) = mine"
    by (simp add: mine_def s_def day_def conj_commute) (rule filter_cong, auto)
  show sorted: "sorted (map us_created_at mine)"
    using good by (auto simp: mine_def s_def pg_good_def sorted_append sorted_filter)
  show "distinct (map us_id mine)"
    using good new(4) by (auto simp: mine_def s_def pg_good_def distinct_map_filter pg_used_def)
  show "us_id ` set mine \<inter> us_id ` {s \<in> set tbl. us_user_id s \<noteq> u} = {}"
    using good new(4) by (auto simp: mine_def s_def pg_good_def pg_used_def distinct_map inj_on_def)
  have key: "sort_key us_created_at mine = mine" using sorted by (rule sort_key_id_if_sorted)
  have "set (drop m (map us_id (rev mine))) = set (take (length mine - m) (map us_id mine))"
    by (simp add: rev_map[symmetric] drop_rev)
  then show "pg_register_session users i t (uuid_text u) j m day tbl =
     filter (\<lambda>s. us_id s \<notin> set (take (length mine - m) (map us_id mine))) (?t1 @ [s])"
    unfolding pg_register_session_def UUID_text sum.case Let_def s_def[symmetric] ins option.case mine key
    by auto
qed

lemma pg_register_sessions:
  assumes "pg_good t tbl" "u \<in> users" "length j \<le> 64" "Inl j \<notin> pg_used tbl" "Inr i \<notin> pg_used tbl" "1 \<le> m"
  shows "pg_sessions t (pg_register_session users i t (uuid_text u) j m day tbl) v =
    (if v = u then py_tail (pg_sessions t tbl u @ [j]) m else pg_sessions t tbl v)"
proof -
  define s where "s = \<lparr> us_id = i, us_user_id = u, us_jti = j, us_created_at = t, us_expires_at = t + sec day \<rparr>"
  define mine where "mine = filter (\<lambda>s. us_user_id s = u \<and> t < us_expires_at s) tbl @ [s]"
  define out :: "user_session \<Rightarrow> bool" where "out = (\<lambda>s. us_id s \<notin> set (take (length mine - m) (map us_id mine)))"
  note r = pg_register_rows[OF assms(1-5), folded s_def, folded mine_def]
  have reg: "pg_register_session users i t (uuid_text u) j m day tbl =
      filter out (filter (\<lambda>s. \<not> (us_user_id s = u \<and> us_expires_at s \<le> t)) tbl @ [s])"
    unfolding out_def by (rule r(1))
  have s: "us_user_id s = u" "t < us_expires_at s" by (simp_all add: s_def day_def)
  have jtis: "map us_jti mine = pg_sessions t tbl u @ [j]" by (simp add: mine_def pg_sessions_def s_def)
  show ?thesis
  proof (cases "v = u")
    case True
    have "filter (\<lambda>s. us_user_id s = u \<and> t < us_expires_at s)
        (filter out (filter (\<lambda>s. \<not> (us_user_id s = u \<and> us_expires_at s \<le> t)) tbl @ [s])) = filter out mine"
      by (simp add: mine_def s conj_ac) (auto intro: filter_cong)
    also have "\<dots> = drop (length mine - m) mine" unfolding out_def by (rule filter_take_ids) (rule r(3))
    finally have "pg_sessions t (pg_register_session users i t (uuid_text u) j m day tbl) u
        = drop (length mine - m) (map us_jti mine)"
      unfolding pg_sessions_def reg by (simp only: drop_map)
    also have "length mine = length (map us_jti mine)" by simp
    finally show ?thesis using True assms(6) unfolding jtis by (simp add: py_tail_def)
  next
    case False
    have "out s" if "s \<in> set tbl" "us_user_id s = v" for s
      using r(4) that False unfolding out_def by (auto dest!: in_set_takeD)
    with False s show ?thesis
      unfolding pg_sessions_def reg by (auto intro!: arg_cong[where f = "map us_jti"] filter_cong)
  qed
qed

lemma pg_invalidate_eq:
  "j \<noteq> [] \<Longrightarrow> pg_invalidate_session (uuid_text u) (Some j) tbl = filter (\<lambda>s. \<not> (us_user_id s = u \<and> us_jti s = j)) tbl"
  "pg_invalidate_all_user_sessions (uuid_text u) tbl = filter (\<lambda>s. us_user_id s \<noteq> u) tbl"
  by (simp_all add: pg_invalidate_session_def pg_invalidate_all_user_sessions_def)

lemma pg_invalidate_used:
  "pg_used (pg_op users m t (Invalidate u j) tbl) \<subseteq> pg_used tbl"
  "pg_used (pg_op users m t (Invalidate_all u) tbl) \<subseteq> pg_used tbl"
  by (auto simp: pg_used_def pg_invalidate_session_def pg_invalidate_all_user_sessions_def)

lemma insert_session_used:
  "insert_session users s t = Some t' \<Longrightarrow> pg_used t' = pg_used t \<union> {Inl (us_jti s), Inr (us_id s)}"
  by (auto simp: insert_session_def pg_used_def split: if_splits)

lemma pg_used_filter: "pg_used (filter P tbl) \<subseteq> pg_used tbl"
  by (auto simp: pg_used_def)

lemma pg_register_used:
  "pg_used (pg_register_session users i t (uuid_text u) j m d tbl) \<subseteq> pg_used tbl \<union> {Inl j, Inr i}"
proof -
  let ?s = "\<lparr> us_id = i, us_user_id = u, us_jti = j, us_created_at = t, us_expires_at = t + sec d \<rparr>"
  let ?t1 = "filter (\<lambda>s. \<not> (us_user_id s = u \<and> us_expires_at s \<le> t)) tbl"
  show ?thesis
  proof (cases "insert_session users ?s ?t1")
    case (Some t2)
    have "pg_used t2 \<subseteq> pg_used tbl \<union> {Inl j, Inr i}"
      using insert_session_used[OF Some] pg_used_filter[of "\<lambda>s. \<not> (us_user_id s = u \<and> us_expires_at s \<le> t)" tbl] by auto
    then show ?thesis
      unfolding pg_register_session_def UUID_text sum.case Let_def Some option.case
      by (auto dest: subsetD[OF pg_used_filter])
  qed (auto simp: pg_register_session_def Let_def)
qed

lemma pg_register_good:
  assumes "pg_good t tbl" "u \<in> users" "length j \<le> 64" "Inl j \<notin> pg_used tbl" "Inr i \<notin> pg_used tbl"
  shows "pg_good t (pg_register_session users i t (uuid_text u) j m day tbl)"
proof -
  let ?s = "\<lparr> us_id = i, us_user_id = u, us_jti = j, us_created_at = t, us_expires_at = t + sec day \<rparr>"
  have "pg_good t (tbl @ [?s])"
    using assms(1,5) by (auto simp: pg_good_def sorted_append pg_used_def)
  from pg_good_filter[OF this, of "\<lambda>s. us_id s = i \<or> \<not> (us_user_id s = u \<and> us_expires_at s \<le> t)"]
  have "pg_good t (filter (\<lambda>s. us_id s = i \<or> \<not> (us_user_id s = u \<and> us_expires_at s \<le> t)) tbl @ [?s])" by simp
  moreover have "filter (\<lambda>s. us_id s = i \<or> \<not> (us_user_id s = u \<and> us_expires_at s \<le> t)) tbl
      = filter (\<lambda>s. \<not> (us_user_id s = u \<and> us_expires_at s \<le> t)) tbl"
    using assms(5) by (intro filter_cong refl) (auto simp: pg_used_def)
  ultimately have "pg_good t (filter (\<lambda>s. \<not> (us_user_id s = u \<and> us_expires_at s \<le> t)) tbl @ [?s])" by metis
  then show ?thesis
    unfolding pg_register_rows(1)[OF assms, where m = m] by (rule pg_good_filter)
qed

lemma pg_shrink:
  assumes "pg_good t tbl" "t \<le> t'"
  shows "suffix (pg_sessions t' tbl u) (pg_sessions t tbl u)"
proof -
  have "suffix (filter (\<lambda>s. us_user_id s = u \<and> t' < us_expires_at s) tbl) (filter (\<lambda>s. us_user_id s = u \<and> t < us_expires_at s) tbl)"
    using assms
  proof (induction tbl)
    case (Cons s tbl)
    have IH: "suffix (filter (\<lambda>s. us_user_id s = u \<and> t' < us_expires_at s) tbl) (filter (\<lambda>s. us_user_id s = u \<and> t < us_expires_at s) tbl)"
      using Cons by (simp add: pg_good_def)
    show ?case
    proof (cases "t' < us_expires_at s")
      case True
      have "us_expires_at s \<le> us_expires_at x" if "x \<in> set tbl" for x
        using Cons.prems(1) that by (auto simp: pg_good_def)
      with True Cons.prems(2) have "filter (\<lambda>s. us_user_id s = u \<and> t' < us_expires_at s) (s # tbl)
          = filter (\<lambda>s. us_user_id s = u \<and> t < us_expires_at s) (s # tbl)"
        by (intro filter_cong) (auto intro: less_le_trans)
      then show ?thesis by simp
    next
      case False
      with IH show ?thesis by (auto intro: suffix_ConsI)
    qed
  qed simp
  then show ?thesis by (auto simp: pg_sessions_def suffix_def)
qed

interpretation pg: session_store "Suc k" "pg_op users (Suc k)" pg_sessions pg_good pg_used "admissible users" for users k
proof
  fix t t' :: instant and tbl u
  show "pg_good t tbl \<Longrightarrow> t \<le> t' \<Longrightarrow> pg_good t' tbl" by (fastforce simp: pg_good_def)
  show "pg_good t tbl \<Longrightarrow> t \<le> t' \<Longrightarrow> suffix (pg_sessions t' tbl u) (pg_sessions t tbl u)" by (rule pg_shrink)
next
  fix t tbl op
  show "pg_good t tbl \<Longrightarrow> pg_used (pg_op users (Suc k) t op tbl) \<subseteq> pg_used tbl \<union> tokens op"
    using pg_register_used pg_invalidate_used[of users "Suc k"] by (cases op) (auto dest: subsetD)
  assume good: "pg_good t tbl" "admissible users op" "tokens op \<inter> pg_used tbl = {}"
  show "pg_good t (pg_op users (Suc k) t op tbl)"
    using good by (cases op) (auto simp: admissible_def pg_register_good pg_invalidate_eq pg_good_filter)
  show "pg_sessions t (pg_op users (Suc k) t op tbl) = fifo_op (Suc k) op (pg_sessions t tbl)"
  proof (cases op)
    case (Register u j i)
    with good show ?thesis by (auto simp: admissible_def pg_register_sessions)
  next
    case (Invalidate u j)
    with good show ?thesis
      by (auto simp: admissible_def pg_invalidate_eq pg_sessions_def filter_map comp_def fun_eq_iff conj_ac
          intro!: arg_cong[where f = "map us_jti"] filter_cong)
  next
    case (Invalidate_all u)
    then show ?thesis
      by (auto simp: pg_invalidate_eq pg_sessions_def fun_eq_iff filter_empty_conv
          intro!: arg_cong[where f = "map us_jti"] filter_cong)
  qed
qed

subsection \<open>The Redis driver\<close>

primrec redis_op :: "nat \<Rightarrow> instant \<Rightarrow> session_op \<Rightarrow> string list redis \<Rightarrow> string list redis" where
  "redis_op m t (Register u j i) st =
     (case redis_register_session t (uuid_text u) j m day st of Inl _ \<Rightarrow> st | Inr st \<Rightarrow> st)"
| "redis_op m t (Invalidate u j) st =
     (case redis_invalidate_session t (uuid_text u) (Some j) st of Inl _ \<Rightarrow> st | Inr st \<Rightarrow> st)"
| "redis_op m t (Invalidate_all u) st = redis_invalidate_all_user_sessions (uuid_text u) st"

definition redis_sessions :: "instant \<Rightarrow> string list redis \<Rightarrow> uuid \<Rightarrow> string list" where
  "redis_sessions t st u = (case redis_get t st (session_key (uuid_text u)) of None \<Rightarrow> [] | Some l \<Rightarrow> l)"

lemma uuid_text_inject [simp]: "uuid_text u = uuid_text v \<longleftrightarrow> u = v"
  by (metis UUID_text sum.inject(2))

lemma session_key_inject [simp]: "session_key a = session_key b \<longleftrightarrow> a = b"
  by (simp add: session_key_def)

lemma redis_sessions_upd:
  "redis_sessions t (st(session_key (uuid_text u) := e)) v
     = (if v = u then (case e of None \<Rightarrow> [] | Some (l, ex) \<Rightarrow> if t < ex then l else []) else redis_sessions t st v)"
  by (auto simp: redis_sessions_def redis_get_def split: option.splits)

interpretation redis: session_store "Suc k" "redis_op (Suc k)" redis_sessions "\<lambda>t st. True" "\<lambda>st. {}" "admissible users" for users k
proof
  fix t t' :: instant and st :: "string list redis" and u
  show "t \<le> t' \<Longrightarrow> suffix (redis_sessions t' st u) (redis_sessions t st u)"
    by (auto simp: redis_sessions_def redis_get_def split: option.splits)
next
  fix t st op
  assume ok: "admissible users op"
  show "redis_sessions t (redis_op (Suc k) t op st) = fifo_op (Suc k) op (redis_sessions t st)"
  proof (cases op)
    case (Register u j i)
    have "(if Suc k < length xs then py_tail xs (Suc k) else xs) = py_tail xs (Suc k)" for xs :: "string list"
      by (simp add: py_tail_id)
    then show ?thesis
      by (auto simp: Register redis_register_session_def Let_def redis_set_def day_def fun_eq_iff redis_sessions_upd)
        (simp_all add: redis_sessions_def)
  next
    case (Invalidate u j)
    then have "j \<noteq> []" using ok by (simp add: admissible_def)
    then show ?thesis
      by (auto simp: Invalidate redis_invalidate_session_def Let_def redis_set_def fun_eq_iff redis_sessions_upd
          split: option.splits) (auto simp: redis_sessions_def)
  qed (simp add: redis_invalidate_all_user_sessions_def fun_eq_iff redis_sessions_upd)
qed auto

end
