(* ===== verification/Auth.thy ===== *)
theory Auth
  imports Session_Contract
begin

text \<open>
  \<open>services/auth_service.py\<close>: the client address behind trusted proxies, the sessions and the
  failed logins that the process keeps in memory. Hashing and tokens are calls of libraries and
  left out; the background call of the session store that each session operation starts is part
  of the login flow (\<open>Login\<close>).
\<close>

subsection \<open>The client address\<close>

definition DEFAULT_TRUSTED_PROXIES :: "ip_network list" where
  "DEFAULT_TRUSTED_PROXIES = [Net4 (127 * 2 ^ 24) 8, Net6 1 128]"

definition is_ip_in_networks :: "string \<Rightarrow> ip_network list \<Rightarrow> bool" where
  "is_ip_in_networks ip_str networks =
     (case ip_address (strip ip_str) of
        Inl _ \<Rightarrow> False
      | Inr ip_obj \<Rightarrow>
          (let target_nets = (if networks \<noteq> [] then networks else DEFAULT_TRUSTED_PROXIES)
           in list_ex (ip_in_network ip_obj) target_nets))"

record http_request =
  rq_client_host :: "string option"
  rq_forwarded_for :: "string option" \<comment> \<open>the header \<open>X-Forwarded-For\<close>\<close>
  rq_real_ip :: "string option" \<comment> \<open>the header \<open>X-Real-IP\<close>\<close>

definition forwarded_parts :: "string \<Rightarrow> string list" where
  "forwarded_parts forwarded = filter (\<lambda>p. p \<noteq> []) (map strip (split_on CHR '','' forwarded))"

definition get_trusted_client_ip :: "http_request \<Rightarrow> ip_network list \<Rightarrow> string" where
  \<comment> \<open>the networks: those of \<open>trusted_cidrs\<close>, read by the library; the empty list for the default\<close>
  "get_trusted_client_ip request trusted_nets =
     (let peer_ip = (case rq_client_host request of
                       Some h \<Rightarrow> if h \<noteq> [] then strip h else ''127.0.0.1''
                     | None \<Rightarrow> ''127.0.0.1'');
          real = (case rq_real_ip request of
                    Some r \<Rightarrow> if strip r \<noteq> [] then strip r else peer_ip
                  | None \<Rightarrow> peer_ip)
      in if \<not> is_ip_in_networks peer_ip trusted_nets then peer_ip
         else (case rq_forwarded_for request of
                 None \<Rightarrow> real
               | Some forwarded \<Rightarrow>
                   (let parts = forwarded_parts forwarded
                    in case find (\<lambda>c. \<not> is_ip_in_networks c trusted_nets) (rev parts) of
                         Some candidate \<Rightarrow> candidate
                       | None \<Rightarrow> (case parts of [] \<Rightarrow> real | p # _ \<Rightarrow> p))))"

lemma split_on_middle: "split_on c (s @ c # t) = split_on c s @ split_on c t"
  by (induction s) (auto split: list.splits)

lemma find_first: "\<forall>x \<in> set ys. \<not> P x \<Longrightarrow> P y \<Longrightarrow> find P (ys @ y # xs) = Some y"
  by (induction ys) auto

text \<open>
  C38. The client address cannot be forged through the forwarding header. When the last hop is a
  trusted proxy, the address is the rightmost one of the chain that is not itself such a proxy,
  whatever a client wrote in front of it or in the other header; when it is not, the address is
  that of the hop and the headers count for nothing.
\<close>

theorem client_ip_not_forged:
  assumes "rq_client_host rq = Some host" "host \<noteq> []"
    and "rq_forwarded_for rq = Some (forged @ CHR '','' # join '','' (client # proxies))"
    and "\<forall>p \<in> set (client # proxies). CHR '','' \<notin> set p \<and> strip p \<noteq> []"
    and "\<not> is_ip_in_networks (strip client) nets" "\<forall>p \<in> set proxies. is_ip_in_networks (strip p) nets"
  shows "get_trusted_client_ip rq nets = (if is_ip_in_networks (strip host) nets then strip client else strip host)"
proof -
  have "split_on CHR '','' (join '','' (client # proxies)) = client # proxies"
    by (rule split_on_join) (use assms(4) in auto)
  moreover have "filter (\<lambda>p. p \<noteq> []) (map strip (client # proxies)) = map strip (client # proxies)"
    using assms(4) by (auto simp: filter_id_conv)
  ultimately have parts: "forwarded_parts (forged @ CHR '','' # join '','' (client # proxies))
      = forwarded_parts forged @ map strip (client # proxies)"
    by (simp add: forwarded_parts_def split_on_middle)
  have "find (\<lambda>c. \<not> is_ip_in_networks c nets) (rev (map strip proxies) @ strip client # xs) = Some (strip client)" for xs
    by (rule find_first) (use assms(5,6) in auto)
  then have "find (\<lambda>c. \<not> is_ip_in_networks c nets) (rev (forwarded_parts forged @ map strip (client # proxies)))
      = Some (strip client)" by simp
  then show ?thesis
    using assms(1,2) by (simp add: get_trusted_client_ip_def assms(3) parts Let_def)
qed

theorem client_ip_not_forged_witness:
  "get_trusted_client_ip \<lparr>rq_client_host = Some ''127.0.0.1'', rq_forwarded_for = Some ''6.6.6.6,10.0.0.9'',
     rq_real_ip = Some ''6.6.6.6''\<rparr> [] = ''10.0.0.9''"
proof -
  have eqs: "''127.0.0.1'' = dotted [127, 0, 0, 1]" "''10.0.0.9'' = dotted [10, 0, 0, 9]" by code_simp+
  have "is_ip_in_networks (strip ''127.0.0.1'') []" "\<not> is_ip_in_networks (strip ''10.0.0.9'') []"
    "strip ''10.0.0.9'' = ''10.0.0.9''"
    unfolding eqs by (simp_all add: is_ip_in_networks_def ip_address_dotted DEFAULT_TRUSTED_PROXIES_def in_net_def be_nat_def)
  then show ?thesis
    using client_ip_not_forged[where host = "''127.0.0.1''" and forged = "''6.6.6.6''" and client = "''10.0.0.9''"
        and proxies = "[]" and nets = "[]" and rq = "\<lparr>rq_client_host = Some ''127.0.0.1'',
          rq_forwarded_for = Some ''6.6.6.6,10.0.0.9'', rq_real_ip = Some ''6.6.6.6''\<rparr>"]
    by (simp add: join_def)
qed

subsection \<open>Sessions in memory\<close>

type_synonym memory_sessions = "string \<rightharpoonup> string list"

definition register_session :: "string \<Rightarrow> string \<Rightarrow> nat \<Rightarrow> memory_sessions \<Rightarrow> memory_sessions" where
  "register_session u_id jti max_sessions mem =
     (let active_list = (case mem u_id of None \<Rightarrow> [] | Some l \<Rightarrow> l)
      in if jti \<in> set active_list then mem
         else (let active_list = active_list @ [jti];
                   active_list = (if max_sessions < length active_list
                                  then py_tail active_list max_sessions else active_list)
               in mem(u_id \<mapsto> active_list)))"

definition is_session_active :: "string \<Rightarrow> string option \<Rightarrow> memory_sessions \<Rightarrow> bool" where
  "is_session_active u_id jti mem =
     (case jti of
        None \<Rightarrow> False
      | Some j \<Rightarrow> j \<noteq> [] \<and> (case mem u_id of None \<Rightarrow> False | Some l \<Rightarrow> j \<in> set l))"

definition invalidate_session :: "string \<Rightarrow> string option \<Rightarrow> memory_sessions \<Rightarrow> memory_sessions" where
  "invalidate_session u_id jti mem =
     (case jti of
        None \<Rightarrow> mem
      | Some j \<Rightarrow>
          if j = [] then mem
          else (case mem u_id of
                  None \<Rightarrow> mem
                | Some l \<Rightarrow>
                    (let l = filter (\<lambda>s. s \<noteq> j) l
                     in if l = [] then mem(u_id := None) else mem(u_id \<mapsto> l))))"

definition invalidate_all_user_sessions :: "string \<Rightarrow> memory_sessions \<Rightarrow> memory_sessions" where
  "invalidate_all_user_sessions u_id mem = mem(u_id := None)"

subsection \<open>Failed logins in memory\<close>

record attempt =
  at_count :: int
  at_last_attempt :: instant
  at_locked_until :: "instant option"

type_synonym attempts = "(string, attempt) dict"

definition MAX_FAILED_ATTEMPTS_ENTRIES :: nat where "MAX_FAILED_ATTEMPTS_ENTRIES = 2000"

definition lockout_key :: "string \<Rightarrow> string \<Rightarrow> string" where
  "lockout_key client_ip username = lockout_ip client_ip @ '':'' @ lockout_user username"

definition attempt_expired :: "instant \<Rightarrow> attempt \<Rightarrow> bool" where
  "attempt_expired now d \<longleftrightarrow>
     (case at_locked_until d of Some t \<Rightarrow> t \<le> now | None \<Rightarrow> False) \<or> sec 1800 < now - at_last_attempt d"

definition prune_expired_attempts :: "instant \<Rightarrow> attempts \<Rightarrow> attempts" where
  "prune_expired_attempts now att =
     (let expired = map fst (filter (\<lambda>(k, d). attempt_expired now d) att);
          att = fold del expired att
      in if MAX_FAILED_ATTEMPTS_ENTRIES < length att
         then (let sorted_keys = map fst (sort_key (\<lambda>(k, d). at_last_attempt d) att)
               in fold del (take (length att - MAX_FAILED_ATTEMPTS_ENTRIES) sorted_keys) att)
         else att)"

definition is_account_locked :: "instant \<Rightarrow> string \<Rightarrow> string \<Rightarrow> attempts \<Rightarrow> bool \<times> attempts" where
  "is_account_locked now client_ip user att =
     (let att = prune_expired_attempts now att;
          key = lockout_key client_ip user
      in case get att key of
           None \<Rightarrow> (False, att)
         | Some entry \<Rightarrow>
             (case at_locked_until entry of
                None \<Rightarrow> (False, att)
              | Some t \<Rightarrow> if now < t then (True, att) else (False, del key att)))"

definition record_failed_attempt :: "instant \<Rightarrow> string \<Rightarrow> string \<Rightarrow> attempts \<Rightarrow> attempts" where
  "record_failed_attempt now client_ip user att =
     (let att = prune_expired_attempts now att;
          key = lockout_key client_ip user;
          entry = (case get att key of
                     None \<Rightarrow> \<lparr> at_count = 0, at_last_attempt = now, at_locked_until = None \<rparr>
                   | Some e \<Rightarrow> e);
          entry = entry\<lparr>at_count := at_count entry + 1, at_last_attempt := now\<rparr>;
          entry = (if 5 \<le> at_count entry then entry\<lparr>at_locked_until := Some (now + sec 900)\<rparr> else entry)
      in put key entry att)"

definition clear_failed_attempts :: "string \<Rightarrow> string \<Rightarrow> attempts \<Rightarrow> attempts" where
  "clear_failed_attempts client_ip user att = del (lockout_key client_ip user) att"

subsection \<open>The memory sessions keep the contract\<close>

primrec memory_op :: "nat \<Rightarrow> session_op \<Rightarrow> memory_sessions \<Rightarrow> memory_sessions" where
  "memory_op m (Register u j i) mem = register_session (uuid_text u) j m mem"
| "memory_op m (Invalidate u j) mem = invalidate_session (uuid_text u) (Some j) mem"
| "memory_op m (Invalidate_all u) mem = invalidate_all_user_sessions (uuid_text u) mem"

definition memory_list :: "memory_sessions \<Rightarrow> uuid \<Rightarrow> string list" where
  "memory_list mem u = (case mem (uuid_text u) of None \<Rightarrow> [] | Some l \<Rightarrow> l)"

definition memory_used :: "memory_sessions \<Rightarrow> (string + uuid) set" where
  "memory_used mem = (\<Union>u. Inl ` set (memory_list mem u))"

lemma memory_list_upd:
  "memory_list (mem(uuid_text u := e)) v = (if v = u then (case e of None \<Rightarrow> [] | Some l \<Rightarrow> l) else memory_list mem v)"
  by (simp add: memory_list_def)

lemma memory_op_list:
  assumes "admissible users op" "tokens op \<inter> memory_used mem = {}"
  shows "memory_list (memory_op (Suc k) op mem) = fifo_op (Suc k) op (memory_list mem)"
proof (cases op)
  case (Register u j i)
  have "j \<notin> set (memory_list mem u)" using assms(2) by (auto simp: Register memory_used_def)
  then show ?thesis
    unfolding Register memory_op.simps register_session_def Let_def memory_list_def[symmetric]
    by (simp add: fun_eq_iff memory_list_upd py_tail_id)
next
  case (Invalidate u j)
  then have "j \<noteq> []" using assms(1) by (simp add: admissible_def)
  then show ?thesis
    by (auto simp: Invalidate invalidate_session_def Let_def fun_eq_iff memory_list_upd split: option.splits)
      (auto simp: memory_list_def)
qed (simp add: invalidate_all_user_sessions_def fun_eq_iff memory_list_upd)

lemma memory_op_used: "memory_used (memory_op m op mem) \<subseteq> memory_used mem \<union> tokens op"
proof -
  have "set (memory_list (memory_op m op mem) u) \<subseteq> set (memory_list mem u) \<union> {j. Inl j \<in> tokens op}" for u
    by (cases op)
      (auto simp: register_session_def invalidate_session_def invalidate_all_user_sessions_def Let_def memory_list_def
        dest!: subsetD[OF set_py_tail] split: option.splits if_splits)
  then show ?thesis by (fastforce simp: memory_used_def)
qed

interpretation memory: session_store "Suc k" "\<lambda>t. memory_op (Suc k)" "\<lambda>t. memory_list" "\<lambda>t mem. True" memory_used
  "admissible users" for users k
  by unfold_locales (auto simp: memory_op_list dest: subsetD[OF memory_op_used])

subsection \<open>All stores refine one queue\<close>

lemma memory_run:
  assumes "\<forall>(t, op) \<in> set ops. admissible users op" "fresh_tokens ops"
  shows "memory_list (run_ops (\<lambda>t. memory_op (Suc k)) ops Map.empty) = fifo (Suc k) ops"
proof -
  have "memory_list (run_ops (\<lambda>t. memory_op (Suc k)) ops mem) = fold (\<lambda>(t, op). fifo_op (Suc k) op) ops (memory_list mem)"
    if "\<forall>(t, op) \<in> set ops. tokens op \<inter> memory_used mem = {}" for mem
    using assms that
  proof (induction ops arbitrary: mem)
    case (Cons c ops)
    obtain t op where c: "c = (t, op)" by (cases c)
    have "\<forall>(t, op') \<in> set ops. tokens op' \<inter> memory_used (memory_op (Suc k) op mem) = {}"
      using memory_op_used[of "Suc k" op mem] Cons.prems(2,3) by (fastforce simp: fresh_tokens_def c)
    with Cons.IH[of "memory_op (Suc k) op mem"] Cons.prems memory_op_list[of users op mem k] show ?case
      by (auto simp: run_ops_def c fresh_tokens_def)
  qed (simp add: run_ops_def)
  from this[of Map.empty] show ?thesis by (simp add: fifo_def memory_used_def memory_list_def[abs_def])
qed

lemma pg_active_iff:
  "{j. pg_is_session_active t (uuid_text u) (Some j) tbl} = set (pg_sessions t tbl u) - {[]}"
  by (auto simp: pg_is_session_active_def pg_sessions_def list_ex_iff)

lemma redis_active_iff:
  "{j. redis_is_session_active t (uuid_text u) (Some j) st} = set (redis_sessions t st u) - {[]}"
  by (cases "redis_get t st (session_key (uuid_text u))") (auto simp: redis_is_session_active_def redis_sessions_def)

lemma memory_active_iff:
  "{j. is_session_active (uuid_text u) (Some j) mem} = set (memory_list mem u) - {[]}"
  by (cases "mem (uuid_text u)") (auto simp: is_session_active_def memory_list_def)

lemma fifo_no_empty:
  assumes "\<forall>(t, op) \<in> set ops. admissible users op"
  shows "[] \<notin> set (fifo m ops u)"
  using fifo_registered[of "[]" m ops u] assms by (fastforce simp: admissible_def)



end
