(* ===== verification/Login.thy ===== *)
theory Login
  imports Auth
begin

text \<open>
  Login, logout and password change (\<open>routers/auth.py\<close>) over the driver that
  \<open>services/driver_manager.py\<close> selects. Each changes the driver's store, then the lists in memory,
  whose functions start a background task that repeats the change on the driver's store. A login
  hands the lockout to both as well; with the Postgres driver both are the same table in memory.
  The user row, the outcome of the password check and the token of the request are arguments.
\<close>

datatype driver = Postgres_driver | Redis_driver

datatype store_task =
    Store_register driver string string nat
  | Store_invalidate driver string string
  | Store_invalidate_all driver string

record auth_state =
  as_driver :: driver
  as_table :: session_table
  as_redis :: "string list redis"
  as_memory :: memory_sessions
  as_attempts :: attempts
  as_lockout :: redis_lockout
  as_tasks :: "store_task list" \<comment> \<open>started and not yet run\<close>

subsection \<open>The driver's store\<close>

definition or_same :: "'s \<Rightarrow> 's result \<Rightarrow> 's" where
  "or_same s r = (case r of Inl _ \<Rightarrow> s | Inr s \<Rightarrow> s)"

definition store_register ::
  "uuid set \<Rightarrow> uuid \<Rightarrow> instant \<Rightarrow> driver \<Rightarrow> string \<Rightarrow> string \<Rightarrow> nat \<Rightarrow> auth_state \<Rightarrow> auth_state" where
  "store_register users new_id now drv u_id jti max_sessions g =
     (case drv of
        Postgres_driver \<Rightarrow>
          g\<lparr>as_table := pg_register_session users new_id now u_id jti max_sessions day (as_table g)\<rparr>
      | Redis_driver \<Rightarrow>
          g\<lparr>as_redis := or_same (as_redis g) (redis_register_session now u_id jti max_sessions day (as_redis g))\<rparr>)"

definition store_is_active :: "instant \<Rightarrow> string \<Rightarrow> string option \<Rightarrow> auth_state \<Rightarrow> bool" where
  "store_is_active now u_id jti g =
     (case as_driver g of
        Postgres_driver \<Rightarrow> pg_is_session_active now u_id jti (as_table g)
      | Redis_driver \<Rightarrow> redis_is_session_active now u_id jti (as_redis g))"

definition store_invalidate :: "instant \<Rightarrow> driver \<Rightarrow> string \<Rightarrow> string \<Rightarrow> auth_state \<Rightarrow> auth_state" where
  "store_invalidate now drv u_id jti g =
     (case drv of
        Postgres_driver \<Rightarrow> g\<lparr>as_table := pg_invalidate_session u_id (Some jti) (as_table g)\<rparr>
      | Redis_driver \<Rightarrow> g\<lparr>as_redis := or_same (as_redis g) (redis_invalidate_session now u_id (Some jti) (as_redis g))\<rparr>)"

definition store_invalidate_all :: "driver \<Rightarrow> string \<Rightarrow> auth_state \<Rightarrow> auth_state" where
  "store_invalidate_all drv u_id g =
     (case drv of
        Postgres_driver \<Rightarrow> g\<lparr>as_table := pg_invalidate_all_user_sessions u_id (as_table g)\<rparr>
      | Redis_driver \<Rightarrow> g\<lparr>as_redis := redis_invalidate_all_user_sessions u_id (as_redis g)\<rparr>)"

definition store_is_locked :: "instant \<Rightarrow> string \<Rightarrow> string \<Rightarrow> auth_state \<Rightarrow> bool \<times> auth_state" where
  "store_is_locked now client_ip username g =
     (case as_driver g of
        Postgres_driver \<Rightarrow>
          (let (b, att) = is_account_locked now client_ip username (as_attempts g) in (b, g\<lparr>as_attempts := att\<rparr>))
      | Redis_driver \<Rightarrow> (redis_is_account_locked now client_ip username (as_lockout g), g))"

definition store_record_failed :: "instant \<Rightarrow> string \<Rightarrow> string \<Rightarrow> auth_state \<Rightarrow> auth_state" where
  "store_record_failed now client_ip username g =
     (case as_driver g of
        Postgres_driver \<Rightarrow> g\<lparr>as_attempts := record_failed_attempt now client_ip username (as_attempts g)\<rparr>
      | Redis_driver \<Rightarrow>
          g\<lparr>as_lockout := redis_record_failed_attempt now client_ip username 5 900 (as_lockout g)\<rparr>)"

definition store_clear_failed :: "string \<Rightarrow> string \<Rightarrow> auth_state \<Rightarrow> auth_state" where
  "store_clear_failed client_ip username g =
     (case as_driver g of
        Postgres_driver \<Rightarrow> g\<lparr>as_attempts := clear_failed_attempts client_ip username (as_attempts g)\<rparr>
      | Redis_driver \<Rightarrow> g\<lparr>as_lockout := redis_clear_failed_attempts client_ip username (as_lockout g)\<rparr>)"

subsection \<open>The functions on the memory lists, with their background task\<close>

definition memory_register :: "string \<Rightarrow> string \<Rightarrow> nat \<Rightarrow> auth_state \<Rightarrow> auth_state" where
  "memory_register u_id jti max_sessions g =
     (let known = (case as_memory g u_id of None \<Rightarrow> False | Some l \<Rightarrow> jti \<in> set l);
          g = g\<lparr>as_memory := register_session u_id jti max_sessions (as_memory g)\<rparr>
      in if known then g else g\<lparr>as_tasks := as_tasks g @ [Store_register (as_driver g) u_id jti max_sessions]\<rparr>)"

definition memory_invalidate :: "string \<Rightarrow> string \<Rightarrow> auth_state \<Rightarrow> auth_state" where
  "memory_invalidate u_id jti g =
     (if jti = [] then g
      else g\<lparr>as_memory := invalidate_session u_id (Some jti) (as_memory g),
             as_tasks := as_tasks g @ [Store_invalidate (as_driver g) u_id jti]\<rparr>)"

definition memory_invalidate_all :: "string \<Rightarrow> auth_state \<Rightarrow> auth_state" where
  "memory_invalidate_all u_id g =
     g\<lparr>as_memory := invalidate_all_user_sessions u_id (as_memory g),
       as_tasks := as_tasks g @ [Store_invalidate_all (as_driver g) u_id]\<rparr>"

definition run_task :: "uuid set \<Rightarrow> uuid \<Rightarrow> instant \<Rightarrow> nat \<Rightarrow> auth_state \<Rightarrow> auth_state" where
  "run_task users new_id now i g =
     (let task = as_tasks g ! i;
          g = g\<lparr>as_tasks := take i (as_tasks g) @ drop (Suc i) (as_tasks g)\<rparr>
      in case task of
           Store_register drv u_id jti m \<Rightarrow> store_register users new_id now drv u_id jti m g
         | Store_invalidate drv u_id jti \<Rightarrow> store_invalidate now drv u_id jti g
         | Store_invalidate_all drv u_id \<Rightarrow> store_invalidate_all drv u_id g)"

subsection \<open>The requests\<close>

datatype login_response = Account_locked | Invalid_credentials | Login_ok

definition login_locked :: "instant \<Rightarrow> string \<Rightarrow> string \<Rightarrow> auth_state \<Rightarrow> bool \<times> auth_state" where
  "login_locked now client_ip username g =
     (let (is_locked, g) = store_is_locked now client_ip username g
      in if is_locked then (True, g)
         else (let (is_locked, att) = is_account_locked now client_ip username (as_attempts g)
               in (is_locked, g\<lparr>as_attempts := att\<rparr>)))"

definition login_failed :: "instant \<Rightarrow> string \<Rightarrow> string \<Rightarrow> auth_state \<Rightarrow> auth_state" where
  "login_failed now client_ip username g =
     store_record_failed now client_ip username
       (g\<lparr>as_attempts := record_failed_attempt now client_ip username (as_attempts g)\<rparr>)"

definition login ::
  "uuid set \<Rightarrow> uuid \<Rightarrow> nat \<Rightarrow> instant \<Rightarrow> string \<Rightarrow> string \<Rightarrow> (uuid \<times> bool) option \<Rightarrow> bool \<Rightarrow> string \<Rightarrow>
   auth_state \<Rightarrow> login_response \<times> auth_state" where
  \<comment> \<open>the user: id and whether active; the boolean: the password is right\<close>
  "login users new_id max_sess now client_ip username user is_valid session_id g =
     (let (is_locked, g) = login_locked now client_ip username g
      in if is_locked then (Account_locked, g)
         else (case user of
                 None \<Rightarrow> (Invalid_credentials, login_failed now client_ip username g)
               | Some (user_id, is_active) \<Rightarrow>
                   if \<not> is_active \<or> \<not> is_valid
                   then (Invalid_credentials, login_failed now client_ip username g)
                   else (let g = g\<lparr>as_attempts := clear_failed_attempts client_ip username (as_attempts g)\<rparr>;
                             g = store_clear_failed client_ip username g;
                             g = store_register users new_id now (as_driver g) (uuid_text user_id) session_id max_sess g;
                             g = memory_register (uuid_text user_id) session_id max_sess g
                         in (Login_ok, g))))"

definition logout :: "instant \<Rightarrow> (string \<times> string) option \<Rightarrow> auth_state \<Rightarrow> auth_state" where
  \<comment> \<open>the user and session of the request's token, if it decodes\<close>
  "logout now token g =
     (case token of
        None \<Rightarrow> g
      | Some (u_id, jti) \<Rightarrow>
          if u_id = [] \<or> jti = [] then g
          else memory_invalidate u_id jti (store_invalidate now (as_driver g) u_id jti g))"

definition end_all_sessions :: "uuid \<Rightarrow> auth_state \<Rightarrow> auth_state" where
  \<comment> \<open>of a password change\<close>
  "end_all_sessions user g =
     memory_invalidate_all (uuid_text user) (store_invalidate_all (as_driver g) (uuid_text user) g)"

datatype access = Not_authenticated | Session_invalid | Session_terminated | User_inactive | Granted

definition get_current_user ::
  "instant \<Rightarrow> (string \<times> string) option option \<Rightarrow> (uuid \<Rightarrow> bool option) \<Rightarrow> auth_state \<Rightarrow> access" where
  \<comment> \<open>the token: absent, undecodable, or the user and session it names; then the users by id with
     their active flag\<close>
  "get_current_user now token users g =
     (case token of
        None \<Rightarrow> Not_authenticated
      | Some None \<Rightarrow> Session_invalid
      | Some (Some (sub, jti)) \<Rightarrow>
          if sub = [] \<or> jti = [] then Session_invalid
          else if \<not> store_is_active now sub (Some jti) g then Session_terminated
          else (case UUID sub of
                  Inl _ \<Rightarrow> Session_invalid
                | Inr u \<Rightarrow> if users u = Some True then Granted else User_inactive))"

subsection \<open>A login on each driver\<close>

lemma login_locked_frame:
  "login_locked now ip name g = (b, g') \<Longrightarrow> as_driver g' = as_driver g \<and> as_table g' = as_table g \<and>
     as_redis g' = as_redis g \<and> as_memory g' = as_memory g \<and> as_tasks g' = as_tasks g \<and> as_lockout g' = as_lockout g"
  by (auto simp: login_locked_def store_is_locked_def Let_def case_prod_beta split: driver.splits if_splits)

lemma store_clear_frame [simp]:
  "as_driver (store_clear_failed ip name g) = as_driver g" "as_table (store_clear_failed ip name g) = as_table g"
  "as_redis (store_clear_failed ip name g) = as_redis g" "as_memory (store_clear_failed ip name g) = as_memory g"
  "as_tasks (store_clear_failed ip name g) = as_tasks g"
  by (simp_all add: store_clear_failed_def split: driver.splits)

lemma login_ok_state:
  assumes "login users i m now ip name (Some (u, act)) valid sid g = (Login_ok, g')"
    and "as_tasks g = []" "sid \<notin> set (memory_list (as_memory g) u)"
  shows "as_driver g' = as_driver g" "as_tasks g' = [Store_register (as_driver g) (uuid_text u) sid m]"
    and "as_driver g = Postgres_driver \<Longrightarrow> as_table g' = pg_register_session users i now (uuid_text u) sid m day (as_table g)"
    and "as_driver g = Redis_driver \<Longrightarrow>
      as_redis g' = or_same (as_redis g) (redis_register_session now (uuid_text u) sid m day (as_redis g))"
proof -
  obtain b g0 where l: "login_locked now ip name g = (b, g0)" by fastforce
  note f = login_locked_frame[OF l]
  have "(case as_memory g0 (uuid_text u) of None \<Rightarrow> False | Some l \<Rightarrow> sid \<in> set l) = False"
    using assms(3) f by (auto simp: memory_list_def split: option.splits)
  then show "as_driver g' = as_driver g" "as_tasks g' = [Store_register (as_driver g) (uuid_text u) sid m]"
    "as_driver g = Postgres_driver \<Longrightarrow> as_table g' = pg_register_session users i now (uuid_text u) sid m day (as_table g)"
    "as_driver g = Redis_driver \<Longrightarrow>
      as_redis g' = or_same (as_redis g) (redis_register_session now (uuid_text u) sid m day (as_redis g))"
    using assms(1,2) f
    by (auto simp: login_def l memory_register_def store_register_def Let_def split: if_splits driver.splits)
qed

lemma pg_register_again:
  assumes "pg_good t tbl" "u \<in> users" "length j \<le> 64" "Inl j \<notin> pg_used tbl" "Inr i \<notin> pg_used tbl" "1 \<le> m"
  defines "tbl' \<equiv> pg_register_session users i t (uuid_text u) j m day tbl"
  shows "pg_register_session users i' t (uuid_text u) j m day tbl' = tbl'"
proof -
  have "j \<in> set (pg_sessions t tbl' u)"
    unfolding tbl'_def pg_register_sessions[OF assms(1-6)]
    using last_in_py_tail[of "pg_sessions t tbl u @ [j]" m] by simp
  then have "j \<in> us_jti ` set (filter (\<lambda>s. \<not> (us_user_id s = u \<and> us_expires_at s \<le> t)) tbl')"
    by (auto simp: pg_sessions_def)
  then show ?thesis
    by (simp add: pg_register_session_def insert_session_def)
qed

lemma redis_register_op:
  "or_same st (redis_register_session t (uuid_text u) j m day st) = redis_op m t (Register u j i) st"
  by (simp add: or_same_def)

text \<open>
  C36. What a login leaves, with the limit of two sessions that is the default. On Postgres the
  user keeps the session before and the new one. On Redis the background registration appends the
  same session a second time, so the new session takes both places and the other one is ended.
\<close>

theorem login_sessions:
  assumes "login users i 2 now ip name (Some (u, act)) valid sid g = (Login_ok, g')"
    and "as_tasks g = []" "sid \<notin> set (memory_list (as_memory g) u)" "sid \<noteq> []" "length sid \<le> 64" "u \<in> users"
    and "pg_good now (as_table g)" "Inl sid \<notin> pg_used (as_table g)" "Inr i \<notin> pg_used (as_table g)"
  shows "{j. store_is_active now (uuid_text u) (Some j) (run_task users i' now 0 g')} =
    (case as_driver g of
       Postgres_driver \<Rightarrow> set (py_tail (pg_sessions now (as_table g) u @ [sid]) 2) - {[]}
     | Redis_driver \<Rightarrow> {sid})"
proof (cases "as_driver g")
  case Postgres_driver
  note st = login_ok_state[OF assms(1-3)]
  have "as_table (run_task users i' now 0 g') = as_table g'"
    using pg_register_again[OF assms(7,6,5,8,9), of 2 i'] st Postgres_driver
    by (simp add: run_task_def store_register_def Let_def)
  moreover have "as_driver (run_task users i' now 0 g') = Postgres_driver"
    using st Postgres_driver by (simp add: run_task_def store_register_def Let_def)
  ultimately show ?thesis
    using pg_register_sessions[OF assms(7,6,5,8,9), of 2 u] st Postgres_driver
    by (simp add: store_is_active_def pg_active_iff)
next
  case Redis_driver
  note st = login_ok_state[OF assms(1-3)]
  have adm: "admissible users (Register u sid i)" using assms(4-6) by (simp add: admissible_def)
  have two: "redis_sessions now (redis_op 2 now (Register u sid i) s) u = py_tail (redis_sessions now s u @ [sid]) 2" for s
    using redis.step_sessions[where t = now and s = s and users = users and op = "Register u sid i" and k = 1] adm by (simp add: numeral_2_eq_2)
  have "as_redis (run_task users i' now 0 g') = redis_op 2 now (Register u sid i) (redis_op 2 now (Register u sid i) (as_redis g))"
    using st Redis_driver
    by (simp add: run_task_def store_register_def Let_def redis_register_op[where i = i] del: redis_op.simps)
  moreover have "as_driver (run_task users i' now 0 g') = Redis_driver"
    using st Redis_driver by (simp add: run_task_def store_register_def Let_def)
  moreover have "set (py_tail (py_tail (xs @ [sid]) 2 @ [sid]) 2) = {sid}" for xs
    by (cases xs rule: rev_cases) (simp_all add: py_tail_def)
  ultimately show ?thesis
    using Redis_driver assms(4) by (simp add: store_is_active_def redis_active_iff two del: redis_op.simps)
qed

definition ann_before :: "driver \<Rightarrow> auth_state" where
  \<comment> \<open>user 7 has the session \<open>old\<close>\<close>
  "ann_before drv = \<lparr> as_driver = drv,
     as_table = [\<lparr>us_id = 1, us_user_id = 7, us_jti = ''old'', us_created_at = 0, us_expires_at = sec day\<rparr>],
     as_redis = [session_key (uuid_text 7) \<mapsto> ([''old''], sec day)], as_memory = Map.empty, as_attempts = [],
     as_lockout = \<lparr>rl_counts = Map.empty, rl_locks = Map.empty\<rparr>, as_tasks = [] \<rparr>"

lemma ann_login: "fst (login UNIV 2 2 (sec 60) ''10.0.0.9'' ''ann'' (Some (7, True)) True ''new'' (ann_before drv)) = Login_ok"
  by (cases drv)
    (simp_all add: login_def login_locked_def store_is_locked_def ann_before_def is_account_locked_def
      prune_expired_attempts_def redis_is_account_locked_def redis_get_def Let_def)

theorem login_sessions_witness:
  "\<exists>g1 g2. login UNIV 2 2 (sec 60) ''10.0.0.9'' ''ann'' (Some (7, True)) True ''new'' (ann_before Postgres_driver) = (Login_ok, g1) \<and>
    {j. store_is_active (sec 60) (uuid_text 7) (Some j) (run_task UNIV 3 (sec 60) 0 g1)} = {''old'', ''new''} \<and>
    login UNIV 2 2 (sec 60) ''10.0.0.9'' ''ann'' (Some (7, True)) True ''new'' (ann_before Redis_driver) = (Login_ok, g2) \<and>
    {j. store_is_active (sec 60) (uuid_text 7) (Some j) (run_task UNIV 3 (sec 60) 0 g2)} = {''new''}"
proof -
  have "\<exists>g. login UNIV 2 2 (sec 60) ''10.0.0.9'' ''ann'' (Some (7, True)) True ''new'' (ann_before drv) = (Login_ok, g) \<and>
      {j. store_is_active (sec 60) (uuid_text 7) (Some j) (run_task UNIV 3 (sec 60) 0 g)} =
      (case drv of Postgres_driver \<Rightarrow> {''old'', ''new''} | Redis_driver \<Rightarrow> {''new''})" for drv
  proof -
    obtain g where g: "login UNIV 2 2 (sec 60) ''10.0.0.9'' ''ann'' (Some (7, True)) True ''new'' (ann_before drv) = (Login_ok, g)"
      using ann_login by (metis prod.collapse)
    have tbl: "as_tasks (ann_before drv) = []" "memory_list (as_memory (ann_before drv)) 7 = []"
      "pg_good (sec 60) (as_table (ann_before drv))" "Inl ''new'' \<notin> pg_used (as_table (ann_before drv))"
      "Inr 2 \<notin> pg_used (as_table (ann_before drv))" "pg_sessions (sec 60) (as_table (ann_before drv)) 7 = [''old'']"
      "as_driver (ann_before drv) = drv"
      by (simp_all add: ann_before_def memory_list_def pg_good_def pg_used_def pg_sessions_def day_def)
    have "set (py_tail [''old'', ''new''] 2) - {[]} = {''old'', ''new''}" by (auto simp: py_tail_def)
    with login_sessions[OF g tbl(1) _ _ _ _ tbl(3-5), of 3] tbl(2,6,7) g show ?thesis
      by (cases drv) simp_all
  qed
  from this[of Postgres_driver] this[of Redis_driver] show ?thesis by auto
qed

subsection \<open>Lockout\<close>

lemma get_fold_del: "get (fold del ks d) k = (if k \<in> set ks then None else get d k)"
  by (induction ks arbitrary: d) auto

lemma dict_ok_fold_del: "dict_ok d \<Longrightarrow> dict_ok (fold del ks d)"
  by (induction ks arbitrary: d) auto

lemma del_filter: "del k d = filter (\<lambda>e. fst e \<noteq> k) d"
  unfolding AList.delete_eq by (rule filter_cong) auto

lemma fold_del_filter: "fold del ks d = filter (\<lambda>e. fst e \<notin> set ks) d"
  by (induction ks arbitrary: d) (auto simp: del_filter intro: filter_cong)

lemma prune_small:
  assumes "dict_ok att" "length att \<le> MAX_FAILED_ATTEMPTS_ENTRIES"
  shows "prune_expired_attempts now att = filter (\<lambda>(k, d). \<not> attempt_expired now d) att"
proof -
  have mem: "fst e \<in> set (map fst (filter (\<lambda>(k, d). attempt_expired now d) att)) \<longleftrightarrow> attempt_expired now (snd e)"
    if "e \<in> set att" for e
    using that assms(1) by (fastforce simp: dict_ok_def distinct_map inj_on_def)
  have "fold del (map fst (filter (\<lambda>(k, d). attempt_expired now d) att)) att = filter (\<lambda>(k, d). \<not> attempt_expired now d) att"
    unfolding fold_del_filter using mem by (intro filter_cong) auto
  moreover have "length (filter (\<lambda>(k, d). \<not> attempt_expired now d) att) \<le> MAX_FAILED_ATTEMPTS_ENTRIES"
    using length_filter_le assms(2) by (rule le_trans)
  ultimately show ?thesis by (simp add: prune_expired_attempts_def Let_def)
qed

definition others :: "string \<Rightarrow> attempts \<Rightarrow> nat" where "others key att = length (del key att)"

definition room :: "string \<Rightarrow> attempts \<Rightarrow> bool" where
  \<comment> \<open>a well-formed table with a place for \<open>key\<close>\<close>
  "room key att \<longleftrightarrow> dict_ok att \<and> others key att < MAX_FAILED_ATTEMPTS_ENTRIES"

lemma length_del: "dict_ok d \<Longrightarrow> length d \<le> length (del k d) + 1"
proof (induction d)
  case (Cons e d)
  show ?case
  proof (cases "fst e = k")
    case True
    with Cons.prems have "get d k = None" by (simp add: dict_ok_Cons)
    then have "del k d = d" by (auto simp: del_filter filter_id_conv map_of_eq_None_iff)
    with True show ?thesis by (simp add: del_filter)
  next
    case False
    with Cons show ?thesis by (simp add: del_filter dict_ok_Cons)
  qed
qed simp

lemma room_small: "room key att \<Longrightarrow> length att \<le> MAX_FAILED_ATTEMPTS_ENTRIES"
  using length_del[of att key] by (simp add: room_def others_def)

lemma prune_room:
  assumes "room key att"
  shows "room key (prune_expired_attempts now att)"
    and "get (prune_expired_attempts now att) key =
      (case get att key of None \<Rightarrow> None | Some d \<Rightarrow> if attempt_expired now d then None else Some d)"
proof -
  have ok: "dict_ok att" using assms by (simp add: room_def)
  note p = prune_small[OF ok room_small[OF assms], of now]
  have "dict_ok (filter (\<lambda>(k, d). \<not> attempt_expired now d) att)" using ok by (simp add: dict_ok_def distinct_map_filter)
  moreover have "others key (filter (\<lambda>(k, d). \<not> attempt_expired now d) att) \<le> others key att"
  proof -
    have "del key (filter P att) = filter P (del key att)" for P by (auto simp: del_filter intro: filter_cong)
    then show ?thesis unfolding others_def by (metis length_filter_le)
  qed
  ultimately show "room key (prune_expired_attempts now att)" using assms by (simp add: p room_def)
  show "get (prune_expired_attempts now att) key =
      (case get att key of None \<Rightarrow> None | Some d \<Rightarrow> if attempt_expired now d then None else Some d)"
    unfolding p using ok by (induction att) (auto simp: dict_ok_Cons split: option.splits)
qed

lemma room_put: "room key att \<Longrightarrow> room key (put key e att)"
proof -
  have "del key (put key e att) = del key att" by (induction att) (auto simp: del_filter)
  then show "room key att \<Longrightarrow> room key (put key e att)" by (simp add: room_def others_def)
qed

lemma room_del: "room key att \<Longrightarrow> room key (del key att)"
  by (simp add: room_def others_def) (simp add: del_filter)

text \<open>The entry of a login name after some failed attempts, all of them less than 15 minutes ago.\<close>

definition entry_at :: "nat \<Rightarrow> instant \<Rightarrow> instant \<Rightarrow> attempt option \<Rightarrow> bool" where
  \<comment> \<open>\<open>k\<close> attempts were counted from \<open>start\<close> to \<open>last\<close>\<close>
  "entry_at k start t e \<longleftrightarrow>
     (if k = 0 then e = None
      else (\<exists>d. e = Some d \<and> at_count d = int k \<and> start \<le> at_last_attempt d \<and> at_last_attempt d \<le> t \<and>
              at_locked_until d = (if 5 \<le> k then Some (at_last_attempt d + sec 900) else None)))"

lemma entry_later: "entry_at k start t e \<Longrightarrow> t \<le> now \<Longrightarrow> entry_at k start now e"
  unfolding entry_at_def by (auto split: if_splits intro: order_trans)

lemma entry_kept:
  "entry_at k start t e \<Longrightarrow> t \<le> now \<Longrightarrow> now < start + sec 900 \<Longrightarrow>
   (case e of None \<Rightarrow> None | Some d \<Rightarrow> if attempt_expired now d then None else Some d) = e"
  by (auto simp: entry_at_def attempt_expired_def split: if_splits)

lemma record_counts:
  assumes "room key att" "entry_at k start t (get att key)" "t \<le> now" "start \<le> now" "now < start + sec 900"
    and "key = lockout_key ip name"
  shows "room key (record_failed_attempt now ip name att)"
    and "entry_at (Suc k) start now (get (record_failed_attempt now ip name att) key)"
proof -
  note p = prune_room[OF assms(1), of now]
  have e: "get (prune_expired_attempts now att) key = get att key"
    unfolding p(2) by (rule entry_kept[OF assms(2,3,5)])
  show "room key (record_failed_attempt now ip name att)"
    unfolding record_failed_attempt_def Let_def assms(6)[symmetric] by (rule room_put[OF p(1)])
  show "entry_at (Suc k) start now (get (record_failed_attempt now ip name att) key)"
    using assms(2,3,4) unfolding record_failed_attempt_def Let_def assms(6)[symmetric] e
    by (auto simp: entry_at_def split: if_splits)
qed

lemma locked_check:
  assumes "room key att" "entry_at k start t (get att key)" "t \<le> now" "now < start + sec 900" "key = lockout_key ip name"
    and "is_account_locked now ip name att = (b, att')"
  shows "b = (5 \<le> k)" "room key att'" "get att' key = get att key"
proof -
  note p = prune_room[OF assms(1), of now]
  have e: "get (prune_expired_attempts now att) key = get att key"
    unfolding p(2) by (rule entry_kept[OF assms(2,3,4)])
  have "is_account_locked now ip name att = (5 \<le> k, prune_expired_attempts now att)"
    using assms(2,4) unfolding is_account_locked_def Let_def assms(5)[symmetric] e
    by (auto simp: entry_at_def split: if_splits)
  with assms(6) e p(1) show "b = (5 \<le> k)" "room key att'" "get att' key = get att key" by auto
qed

definition redis_at :: "nat \<Rightarrow> instant \<Rightarrow> string \<Rightarrow> string \<Rightarrow> redis_lockout \<Rightarrow> bool" where
  "redis_at k start ip name l \<longleftrightarrow>
     (let (failed_key, locked_key) = redis_lockout_keys ip name
      in if k = 0 then rl_counts l failed_key = None \<and> rl_locks l locked_key = None
         else (\<exists>ex. rl_counts l failed_key = Some (int k, ex) \<and> start + sec 1800 \<le> ex) \<and>
              (if 5 \<le> k then \<exists>ex. rl_locks l locked_key = Some ((), ex) \<and> start + sec 900 \<le> ex
               else rl_locks l locked_key = None))"

lemma redis_counts:
  assumes "redis_at k start ip name l" "start \<le> now" "now < start + sec 900"
  shows "redis_at (Suc k) start ip name (redis_record_failed_attempt now ip name 5 900 l)"
  using assms unfolding redis_at_def redis_record_failed_attempt_def redis_lockout_keys_def Let_def prod.case
  by (cases "k = 0") (auto simp: redis_get_def redis_set_def)

lemma redis_locked:
  assumes "redis_at k start ip name l" "now < start + sec 900"
  shows "redis_is_account_locked now ip name l = (5 \<le> k)"
  using assms unfolding redis_at_def redis_is_account_locked_def redis_lockout_keys_def Let_def prod.case
  by (auto simp: redis_get_def split: if_splits)

definition attempts_allowed :: "driver \<Rightarrow> nat" where
  "attempts_allowed drv = (case drv of Postgres_driver \<Rightarrow> 3 | Redis_driver \<Rightarrow> 5)"

definition counted :: "driver \<Rightarrow> nat \<Rightarrow> nat" where
  "counted drv k = (case drv of Postgres_driver \<Rightarrow> 2 * k | Redis_driver \<Rightarrow> k)"

definition lock_inv :: "nat \<Rightarrow> instant \<Rightarrow> instant \<Rightarrow> string \<Rightarrow> string \<Rightarrow> auth_state \<Rightarrow> bool" where
  "lock_inv k start t ip name g \<longleftrightarrow> room (lockout_key ip name) (as_attempts g) \<and>
     entry_at (counted (as_driver g) k) start t (get (as_attempts g) (lockout_key ip name)) \<and>
     (as_driver g = Redis_driver \<longrightarrow> redis_at k start ip name (as_lockout g))"

lemma allowed_iff: "5 \<le> counted drv k \<longleftrightarrow> attempts_allowed drv \<le> k"
  by (cases drv) (auto simp: counted_def attempts_allowed_def)

lemma login_locked_inv:
  assumes inv: "lock_inv k start t ip name g" and t: "t \<le> now" "now < start + sec 900"
    and l: "login_locked now ip name g = (b, g')"
  shows "b = (attempts_allowed (as_driver g) \<le> k)" "lock_inv k start t ip name g'"
proof -
  let ?key = "lockout_key ip name"
  note i = inv[unfolded lock_inv_def]
  note frame = login_locked_frame[OF l]
  obtain b1 a1 where c1: "is_account_locked now ip name (as_attempts g) = (b1, a1)" by fastforce
  note k1 = locked_check[OF conjunct1[OF i] conjunct1[OF conjunct2[OF i]] t refl c1]
  have "b = (attempts_allowed (as_driver g) \<le> k) \<and> room ?key (as_attempts g') \<and> get (as_attempts g') ?key = get (as_attempts g) ?key"
  proof (cases "as_driver g")
    case Postgres_driver
    obtain b2 a2 where c2: "is_account_locked now ip name a1 = (b2, a2)" by fastforce
    have "entry_at (counted (as_driver g) k) start t (get a1 ?key)" using k1(3) i by simp
    note k2 = locked_check[OF k1(2) this t refl c2]
    show ?thesis
      using l c1 c2 k1 k2 Postgres_driver
      by (auto simp: login_locked_def store_is_locked_def allowed_iff split: if_splits)
  next
    case Redis_driver
    then have "redis_is_account_locked now ip name (as_lockout g) = (5 \<le> k)"
      using redis_locked[of k start ip name "as_lockout g" now] i t by simp
    then show ?thesis
      using l c1 k1 i Redis_driver
      by (auto simp: login_locked_def store_is_locked_def allowed_iff[of Redis_driver, symmetric] counted_def split: if_splits)
  qed
  with i frame show "b = (attempts_allowed (as_driver g) \<le> k)" "lock_inv k start t ip name g'"
    by (simp_all add: lock_inv_def)
qed

lemma login_failed_inv:
  assumes inv: "lock_inv k start t ip name g" and t: "t \<le> now" "start \<le> now" "now < start + sec 900"
  shows "lock_inv (Suc k) start now ip name (login_failed now ip name g)" "as_driver (login_failed now ip name g) = as_driver g"
proof -
  note i = inv[unfolded lock_inv_def]
  note r1 = record_counts[OF conjunct1[OF i] conjunct1[OF conjunct2[OF i]] t refl]
  note r2 = record_counts[OF r1 order_refl t(2,3) refl]
  show "as_driver (login_failed now ip name g) = as_driver g"
    by (simp add: login_failed_def store_record_failed_def split: driver.splits)
  show "lock_inv (Suc k) start now ip name (login_failed now ip name g)"
    using r1 r2 i redis_counts[OF _ t(2,3)]
    by (cases "as_driver g") (simp_all add: lock_inv_def login_failed_def store_record_failed_def counted_def)
qed

text \<open>A series of logins with a wrong name or password.\<close>

primrec wrong_logins ::
  "string \<Rightarrow> string \<Rightarrow> (uuid \<times> bool) option \<Rightarrow> instant list \<Rightarrow> auth_state \<Rightarrow> login_response list" where
  "wrong_logins ip name user [] g = []"
| "wrong_logins ip name user (now # ts) g =
     (let (r, g) = login {} 0 2 now ip name user False [] g in r # wrong_logins ip name user ts g)"

lemma wrong_logins_inv:
  assumes "lock_inv k start t ip name g" "sorted (t # ts)" "\<forall>now \<in> set ts. start \<le> now \<and> now < start + sec 900"
  shows "wrong_logins ip name user ts g =
    (let n = attempts_allowed (as_driver g) - k in replicate (min n (length ts)) Invalid_credentials
       @ replicate (length ts - n) Account_locked)"
  using assms
proof (induction ts arbitrary: k t g)
  case (Cons now ts)
  have now: "t \<le> now" "start \<le> now" "now < start + sec 900" using Cons.prems by auto
  obtain b g1 where l: "login_locked now ip name g = (b, g1)" by fastforce
  note c = login_locked_inv[OF Cons.prems(1) now(1,3) l]
  have drv: "as_driver g1 = as_driver g" using login_locked_frame[OF l] by simp
  show ?case
  proof (cases "attempts_allowed (as_driver g) \<le> k")
    case True
    have "lock_inv k start now ip name g1" using c(2) entry_later[OF _ now(1)] by (simp add: lock_inv_def)
    with Cons.IH[of k now g1] Cons.prems c(1) True show ?thesis
      by (simp add: login_def l drv)
  next
    case False
    note f = login_failed_inv[OF c(2) now]
    have "wrong_logins ip name user (now # ts) g = Invalid_credentials # wrong_logins ip name user ts (login_failed now ip name g1)"
      using c(1) False by (simp add: login_def l split: option.splits)
    moreover have "attempts_allowed (as_driver g) - k = Suc (attempts_allowed (as_driver g) - Suc k)" using False by simp
    ultimately show ?thesis
      using Cons.IH[OF f(1)] Cons.prems by (simp add: f(2) drv Let_def)
  qed
qed simp



end
