(* ===== verification/Session_Migration.thy ===== *)
theory Session_Migration
  imports Session_Contract
begin

text \<open>
  What the migrations of \<open>services/session_store.py\<close> keep: every session when the driver is
  switched to Redis; all sessions or none when it is switched back.
\<close>

subsection \<open>To Redis\<close>

lemma group_snoc:
  "group_by_user (ss @ [s]) =
     put (uuid_text (us_user_id s))
       ((case get (group_by_user ss) (uuid_text (us_user_id s)) of None \<Rightarrow> [] | Some l \<Rightarrow> l) @ [s]) (group_by_user ss)"
  by (simp add: group_by_user_def Let_def)

lemma group_ok: "dict_ok (group_by_user ss)"
  by (induction ss rule: rev_induct) (simp_all add: group_snoc, simp add: group_by_user_def)

lemma group_get:
  "get (group_by_user ss) (uuid_text u) =
     (let mine = filter (\<lambda>s. us_user_id s = u) ss in if mine = [] then None else Some mine)"
proof (induction ss rule: rev_induct)
  case (snoc s ss)
  then show ?case by (auto simp: group_snoc Let_def)
qed (simp add: group_by_user_def)

lemma group_keys: "k \<in> set (keys (group_by_user ss)) \<Longrightarrow> \<exists>u. k = uuid_text u"
proof (induction ss rule: rev_induct)
  case (snoc s ss)
  then show ?case unfolding group_snoc by (auto simp: dom_update)
qed (simp add: group_by_user_def)

lemma migrate_user_sessions:
  "redis_sessions now (fst (migrate_user now (uuid_text u, l) acc)) v =
     (if v = u \<and> filter (\<lambda>j. j \<noteq> []) (map us_jti l) \<noteq> [] \<and> 0 < (Max (set (map us_expires_at l)) - now) div 1000000
      then filter (\<lambda>j. j \<noteq> []) (map us_jti l) else redis_sessions now (fst acc) v)"
  by (auto simp: migrate_user_def Let_def case_prod_beta redis_sessions_upd)

lemma migrate_fold:
  assumes "dict_ok d" "\<forall>k \<in> set (keys d). \<exists>u. k = uuid_text u"
  shows "redis_sessions now (fst (fold (migrate_user now) d acc)) v =
     (case get d (uuid_text v) of
        None \<Rightarrow> redis_sessions now (fst acc) v
      | Some l \<Rightarrow>
          if filter (\<lambda>j. j \<noteq> []) (map us_jti l) \<noteq> [] \<and> 0 < (Max (set (map us_expires_at l)) - now) div 1000000
          then filter (\<lambda>j. j \<noteq> []) (map us_jti l) else redis_sessions now (fst acc) v)"
  using assms
proof (induction d arbitrary: acc)
  case (Cons e d)
  obtain u l where e: "e = (uuid_text u, l)" using Cons.prems(2) by (cases e) auto
  with Cons show ?case
    by (auto simp: dict_ok_Cons migrate_user_sessions split: option.splits)
qed simp

text \<open>
  C18. Switching from Postgres to Redis ends nobody's session: each user who has a session that is
  good for a second or more finds, in Redis, exactly the live sessions of the table, in their
  order, and the others find what Redis held for them.
\<close>

theorem migration_keeps_sessions:
  assumes "pg_good now tbl" "\<forall>s \<in> set tbl. us_jti s \<noteq> []"
  shows "redis_sessions now (fst (migrate_sessions_pg_to_redis now tbl st)) u =
    (if \<exists>s \<in> set tbl. us_user_id s = u \<and> now + sec 1 \<le> us_expires_at s
     then pg_sessions now tbl u else redis_sessions now st u)"
proof -
  define live where "live = filter (\<lambda>s. now < us_expires_at s) tbl"
  define mine where "mine = filter (\<lambda>s. us_user_id s = u) live"
  have "sorted (map us_created_at live)" using assms(1) by (simp add: pg_good_def sorted_filter live_def)
  then have sort: "sort_key us_created_at live = live" by (rule sort_key_id_if_sorted)
  have jtis: "map us_jti mine = pg_sessions now tbl u" by (simp add: pg_sessions_def mine_def live_def conj_commute)
  have full: "filter (\<lambda>j. j \<noteq> []) (map us_jti mine) = map us_jti mine"
    using assms(2) by (auto simp: filter_id_conv mine_def live_def)
  have lasting: "(\<exists>s \<in> set tbl. us_user_id s = u \<and> now + sec 1 \<le> us_expires_at s)
      \<longleftrightarrow> (\<exists>s \<in> set mine. now + sec 1 \<le> us_expires_at s)"
    by (auto simp: mine_def live_def)
  have ttl: "0 < (Max (set (map us_expires_at mine)) - now) div 1000000 \<longleftrightarrow> (\<exists>s \<in> set mine. now + sec 1 \<le> us_expires_at s)"
    if ne: "mine \<noteq> []"
  proof -
    have "0 < (Max (set (map us_expires_at mine)) - now) div 1000000 \<longleftrightarrow> now + sec 1 \<le> Max (set (map us_expires_at mine))"
      by (simp add: pos_imp_zdiv_pos_iff algebra_simps)
    also have "\<dots> \<longleftrightarrow> (\<exists>x \<in> set (map us_expires_at mine). now + sec 1 \<le> x)"
      using ne by (intro Max_ge_iff) auto
    finally show ?thesis by simp
  qed
  have get: "get (group_by_user live) (uuid_text u) = (if mine = [] then None else Some mine)"
    by (simp add: group_get mine_def)
  have "redis_sessions now (fst (migrate_sessions_pg_to_redis now tbl st)) u =
      (if mine \<noteq> [] \<and> 0 < (Max (set (map us_expires_at mine)) - now) div 1000000
       then map us_jti mine else redis_sessions now st u)"
    unfolding migrate_sessions_pg_to_redis_def live_def[symmetric] sort Let_def
    by (subst migrate_fold[OF group_ok]) (simp_all add: group_keys get full)
  with ttl show ?thesis unfolding lasting jtis by (cases "mine = []") auto
qed

theorem migration_keeps_sessions_witness:
  "redis_sessions 5 (fst (migrate_sessions_pg_to_redis 5
     [\<lparr>us_id = 1, us_user_id = 7, us_jti = ''a'', us_created_at = 0, us_expires_at = sec day\<rparr>] Map.empty)) 7 = [''a'']"
  using migration_keeps_sessions[where now = 5 and u = 7 and st = Map.empty
      and tbl = "[\<lparr>us_id = 1, us_user_id = 7, us_jti = ''a'', us_created_at = 0, us_expires_at = sec day\<rparr>]"]
  by (simp add: pg_good_def day_def pg_sessions_def)

subsection \<open>Back to Postgres\<close>

lemma insert_sessions_distinct:
  "insert_sessions users new_id now ps tbl = Some tbl' \<Longrightarrow>
   distinct (map (fst \<circ> snd) ps) \<and> (fst \<circ> snd) ` set ps \<inter> us_jti ` set tbl = {}"
proof (induction users new_id now ps tbl rule: insert_sessions.induct)
  case (2 users new_id now u jti ex ps tbl)
  then show ?case
    by (auto simp: insert_session_def split: option.splits if_splits)
qed simp

text \<open>
  One session that is listed twice, as every login with the Redis driver leaves it, makes the whole
  migration fail: the table stays as it was, and the count of migrated sessions is reported as if
  it had not.
\<close>

lemma duplicate_session_stops_migration:
  assumes "\<not> distinct (map (fst \<circ> snd) (concat (map (pending_of now tbl) (concat (map (scanned now st) ks)))))"
  shows "fst (migrate_sessions_redis_to_pg users new_id now ks st tbl) = tbl"
  using insert_sessions_distinct assms
  by (auto simp: migrate_sessions_redis_to_pg_def Let_def split: option.splits)

end
