(* ===== verification/Topology.thy ===== *)
theory Topology
  imports Py_Value
begin

text \<open>
  The topology graph (\<open>services/topology.py\<close>) and the clean-up of traced routes
  (\<open>sanitize_traceroute_hops\<close> of \<open>services/diagnostics.py\<close>). The rows of the database come
  decoded from JSON; a set of the code is a list without repetition, in the order of its
  iteration. \<open>node_type\<close> and \<open>status\<close> of a node always equal \<open>type\<close> and \<open>state\<close>.
\<close>

subsection \<open>Routes\<close>

record hop =
  hp_hop :: "int option"
  hp_ip :: "string option"
  hp_rtt_ms :: "real option"

fun collapse_hops :: "bool \<Rightarrow> hop list \<Rightarrow> hop list" where
  \<comment> \<open>the boolean: the hop before was anonymous\<close>
  "collapse_hops prev_was_null [] = []"
| "collapse_hops prev_was_null (h # hs) =
     (if hp_ip h = None then
        (if prev_was_null then collapse_hops True hs
         else \<lparr> hp_hop = hp_hop h, hp_ip = None, hp_rtt_ms = None \<rparr> # collapse_hops True hs)
      else h # collapse_hops False hs)"

definition sanitize_traceroute_hops :: "hop list \<Rightarrow> string option \<Rightarrow> hop list" where
  \<comment> \<open>an empty target counts as none\<close>
  "sanitize_traceroute_hops hops target_ip =
     (let target = (case target_ip of Some t \<Rightarrow> if t = [] then None else Some t | None \<Rightarrow> None)
      in if hops = [] then
           (case target of Some t \<Rightarrow> [\<lparr> hp_hop = Some 1, hp_ip = Some t, hp_rtt_ms = None \<rparr>] | None \<Rightarrow> [])
         else
           (let clean_hops = (if target = None then rev (dropWhile (\<lambda>h. hp_ip h = None) (rev hops)) else hops);
                collapsed_hops = collapse_hops False clean_hops
            in case target of
                 None \<Rightarrow> collapsed_hops
               | Some t \<Rightarrow>
                   if collapsed_hops \<noteq> [] \<and> hp_ip (last collapsed_hops) = Some t then collapsed_hops
                   else (let next_hop_num =
                               (if collapsed_hops = [] then 1
                                else (case hp_hop (last collapsed_hops) of
                                        None \<Rightarrow> int (length collapsed_hops)
                                      | Some n \<Rightarrow> if n = 0 then int (length collapsed_hops) else n) + 1)
                         in collapsed_hops @ [\<lparr> hp_hop = Some next_hop_num, hp_ip = Some t, hp_rtt_ms = None \<rparr>])))"

definition get_subnet_group :: "string option \<Rightarrow> string option" where
  \<comment> \<open>the text of the network of 24 bits around an address\<close>
  "get_subnet_group ip_str =
     (case ip_str of
        None \<Rightarrow> None
      | Some s \<Rightarrow>
          if s = [] \<or> CHR ''/'' \<in> set s then None
          else (case ip_address s of
                  Inl _ \<Rightarrow> None
                | Inr (V4 n) \<Rightarrow>
                    Some (join ''.'' (map dec [n div 2 ^ 24, n div 2 ^ 16 mod 256, n div 2 ^ 8 mod 256, 0]) @ ''/24'')
                | Inr (V6 n _) \<Rightarrow>
                    (let h0 = n div 2 ^ 112; h1 = n div 2 ^ 104 mod 256 * 256
                     in Some ((if h1 \<noteq> 0 then hex h0 @ '':'' @ hex h1 else if h0 \<noteq> 0 then hex h0 else []) @ ''::/24''))))"

subsection \<open>The graph\<close>

record topo_node =
  tn_id :: string
  tn_label :: string
  tn_type :: string
  tn_state :: string
  tn_ip_address :: "string option"
  tn_device_type :: string
  tn_endpoint_id :: "string option"
  tn_is_l2_segment :: bool
  tn_manual_parent_id :: "string option"
  tn_subnet :: "string option"
  tn_level :: nat

record topo_monitored =
  tm_label :: string
  tm_ip_address :: string
  tm_status :: string
  tm_device_type :: string
  tm_is_l2_segment :: bool
  tm_manual_parent_id :: "string option"
  tm_subnet :: "string option"

type_synonym topo_nodes = "(string, topo_node) dict"
type_synonym topo_edges = "(string \<times> string) list"
type_synonym topo_children = "string \<rightharpoonup> string list"

record topology =
  tp_nodes :: topo_nodes
  tp_edges :: topo_edges
  tp_children :: topo_children \<comment> \<open>\<open>_transit_children\<close>\<close>
  tp_monitored_by_id :: "(string, topo_monitored) dict"
  tp_monitored_by_ip :: "string \<rightharpoonup> string"
  tp_disabled :: "string set"
  tp_routes :: "(string, hop list) dict" \<comment> \<open>\<open>_baseline_routes\<close>\<close>
  tp_failed_hop_ips :: "string set"
  tp_failed_endpoint_ids :: "string set"
  tp_cached_graph :: "topo_node list \<times> topo_edges"

definition add_to_set :: "'a \<Rightarrow> 'a list \<Rightarrow> 'a list" where
  "add_to_set x xs = (if x \<in> set xs then xs else xs @ [x])"

definition add_edge :: "string \<Rightarrow> string \<Rightarrow> topo_edges \<times> topo_children \<Rightarrow> topo_edges \<times> topo_children" where
  "add_edge src tgt g =
     (add_to_set (src, tgt) (fst g),
      (snd g)(src \<mapsto> add_to_set tgt (case snd g src of None \<Rightarrow> [] | Some cs \<Rightarrow> cs)))"

definition transit_node :: "string \<Rightarrow> string \<Rightarrow> string \<Rightarrow> string option \<Rightarrow> string \<Rightarrow> string option \<Rightarrow> topo_node" where
  "transit_node i label state ip device subnet =
     \<lparr> tn_id = i, tn_label = label, tn_type = ''transit'', tn_state = state, tn_ip_address = ip,
       tn_device_type = device, tn_endpoint_id = None, tn_is_l2_segment = False, tn_manual_parent_id = None,
       tn_subnet = subnet, tn_level = 0 \<rparr>"

definition root_node :: topo_node where
  "root_node = \<lparr> tn_id = ''root'', tn_label = ''LNMP Engine'', tn_type = ''root'', tn_state = ''UP'',
     tn_ip_address = None, tn_device_type = ''MONITORING_ENGINE'', tn_endpoint_id = None, tn_is_l2_segment = False,
     tn_manual_parent_id = None, tn_subnet = None, tn_level = 0 \<rparr>"

definition underscore :: "string \<Rightarrow> string" where
  "underscore s = map (\<lambda>c. if c = CHR ''.'' then CHR ''_'' else c) s"

definition anon_id :: "string \<Rightarrow> string \<Rightarrow> string" where
  "anon_id tag ep_id = ''anon_'' @ tag @ ''_to_'' @ take 8 ep_id"

definition transit_id :: "string \<Rightarrow> string" where "transit_id ip = ''transit:'' @ ip"

definition stitch_hop ::
  "(string \<rightharpoonup> string) \<Rightarrow> string set \<Rightarrow> string \<Rightarrow> hop \<Rightarrow>
   topo_nodes \<times> (topo_edges \<times> topo_children) \<times> string \<times> string \<Rightarrow>
   topo_nodes \<times> (topo_edges \<times> topo_children) \<times> string \<times> string" where
  \<comment> \<open>one hop of a route; the state: nodes, edges, the previous node and the tag of the last address\<close>
  "stitch_hop by_ip failed ep_id hop st =
     (let (nodes, g, previous, tag) = st;
          (current, nodes, tag) =
            (case hp_ip hop of
               None \<Rightarrow>
                 (let c = anon_id tag ep_id
                  in (c, if get nodes c = None then put c (transit_node c ''* * *'' ''UP'' None ''ANONYMOUS_HOP'' None) nodes
                         else nodes, tag))
             | Some ip \<Rightarrow>
                 (case by_ip ip of
                    Some e \<Rightarrow> (e, nodes, underscore ip)
                  | None \<Rightarrow>
                      (let c = transit_id ip
                       in (c, (case get nodes c of
                                 None \<Rightarrow> put c (transit_node c (''Transit ('' @ ip @ '')'')
                                           (if ip \<in> failed then ''FAILURE_POINT'' else ''UP'') (Some ip)
                                           ''TRANSIT_ROUTER'' (get_subnet_group (Some ip))) nodes
                               | Some n \<Rightarrow> if ip \<in> failed then put c (n\<lparr>tn_state := ''FAILURE_POINT''\<rparr>) nodes else nodes),
                           underscore ip))));
          g = (if previous \<noteq> current then add_edge previous current g else g)
      in (nodes, g, current, tag))"

definition stitch_route ::
  "(string \<rightharpoonup> string) \<Rightarrow> string set \<Rightarrow> string \<Rightarrow> hop list \<Rightarrow> topo_nodes \<times> topo_edges \<times> topo_children \<Rightarrow>
   topo_nodes \<times> topo_edges \<times> topo_children" where
  "stitch_route by_ip failed ep_id hops st =
     (let (nodes, edges, children) = st;
          (nodes, g, previous, tag) =
            fold (stitch_hop by_ip failed ep_id) hops (nodes, (edges, children), ''root'', ''root'')
      in (nodes, if previous \<noteq> ep_id \<and> get nodes ep_id \<noteq> None then add_edge previous ep_id g else g))"

subsection \<open>Failure states\<close>

text \<open>The search for the monitored nodes below a node. The set \<open>visited\<close> is shared by the branches;
  the fuel bounds the depth.\<close>

fun downstream :: "nat \<Rightarrow> (string \<Rightarrow> bool) \<Rightarrow> (string \<Rightarrow> string list) \<Rightarrow> string \<Rightarrow> string set \<Rightarrow> string set \<times> string set"
  and downstream_children ::
    "nat \<Rightarrow> (string \<Rightarrow> bool) \<Rightarrow> (string \<Rightarrow> string list) \<Rightarrow> string list \<Rightarrow> string set \<Rightarrow> string set \<Rightarrow> string set \<times> string set" where
  "downstream 0 mon ch start visited = ({}, visited)"
| "downstream (Suc n) mon ch start visited = downstream_children n mon ch (ch start) (insert start visited) {}"
| "downstream_children n mon ch [] visited monitored = (monitored, visited)"
| "downstream_children n mon ch (child # cs) visited monitored =
     (if child \<in> visited then downstream_children n mon ch cs visited monitored
      else if mon child then downstream_children n mon ch cs visited (insert child monitored)
      else (let (found, visited) = downstream n mon ch child visited
            in downstream_children n mon ch cs visited (monitored \<union> found)))"

definition is_monitored :: "topo_nodes \<Rightarrow> string \<Rightarrow> bool" where
  "is_monitored nodes i = (case get nodes i of None \<Rightarrow> False | Some n \<Rightarrow> tn_type n = ''monitored'')"

definition children_of :: "topo_children \<Rightarrow> string \<Rightarrow> string list" where
  "children_of ch i = (case ch i of None \<Rightarrow> [] | Some cs \<Rightarrow> cs)"

definition get_all_downstream_monitored :: "topo_nodes \<Rightarrow> topo_edges \<Rightarrow> topo_children \<Rightarrow> string \<Rightarrow> string set" where
  \<comment> \<open>no path without repetition is longer than there are edges\<close>
  "get_all_downstream_monitored nodes edges ch i =
     fst (downstream (length edges + 2) (is_monitored nodes) (children_of ch) i {})"

definition is_down :: "string \<Rightarrow> bool" where
  "is_down state \<longleftrightarrow> state \<in> {''DOWN'', ''DOWN-UNSTABLE'', ''FAILURE_POINT''}"

definition infer_down :: "topo_edges \<Rightarrow> topo_children \<Rightarrow> string \<Rightarrow> topo_nodes \<Rightarrow> topo_nodes" where
  \<comment> \<open>the body of the loop of \<open>_propagate_inferred_down\<close> for one node\<close>
  "infer_down edges ch i nodes =
     (case get nodes i of
        None \<Rightarrow> nodes
      | Some n \<Rightarrow>
          if tn_type n = ''transit'' \<and> tn_device_type n = ''TRANSIT_ROUTER'' \<and> tn_state n \<noteq> ''FAILURE_POINT'' then
            (let below = get_all_downstream_monitored nodes edges ch i
             in if below \<noteq> {} \<and> (\<forall>c \<in> below. case get nodes c of None \<Rightarrow> True | Some m \<Rightarrow> is_down (tn_state m))
                then put i (n\<lparr>tn_state := ''INFERRED_DOWN''\<rparr>) nodes else nodes)
          else nodes)"

definition propagate_inferred_down :: "topo_edges \<Rightarrow> topo_children \<Rightarrow> topo_nodes \<Rightarrow> topo_nodes" where
  "propagate_inferred_down edges ch nodes = fold (infer_down edges ch) (keys nodes) nodes"

subsection \<open>Levels\<close>

definition successors :: "topo_nodes \<Rightarrow> topo_edges \<Rightarrow> string \<Rightarrow> string list" where
  \<comment> \<open>\<open>adj\<close>\<close>
  "successors nodes edges u =
     (if get nodes u = None then [] else map snd (filter (\<lambda>(s, t). s = u \<and> get nodes t \<noteq> None) edges))"

definition in_degree :: "topo_nodes \<Rightarrow> topo_edges \<Rightarrow> string \<Rightarrow> int" where
  "in_degree nodes edges v =
     int (length (filter (\<lambda>(s, t). t = v \<and> get nodes s \<noteq> None \<and> get nodes t \<noteq> None) edges))"

definition relax ::
  "nat \<Rightarrow> string \<Rightarrow> string list \<times> (string \<Rightarrow> int) \<times> (string \<rightharpoonup> nat) \<Rightarrow>
   string list \<times> (string \<Rightarrow> int) \<times> (string \<rightharpoonup> nat)" where
  \<comment> \<open>one successor \<open>v\<close> of a node of the level given; the state: queue, degrees and levels\<close>
  "relax u_level v st =
     (let (queue, deg, levels) = st;
          cand_level = u_level + 1;
          levels = (case levels v of
                      None \<Rightarrow> levels(v \<mapsto> cand_level)
                    | Some l \<Rightarrow> if l < cand_level then levels(v \<mapsto> cand_level) else levels);
          deg = deg(v := deg v - 1)
      in (if deg v \<le> 0 then queue @ [v] else queue, deg, levels))"

partial_function (option) level_loop ::
  "(string \<Rightarrow> string list) \<Rightarrow> string list \<times> (string \<Rightarrow> int) \<times> (string \<rightharpoonup> nat) \<Rightarrow> (string \<rightharpoonup> nat) option" where
  "level_loop adj st =
     (case st of
        ([], deg, levels) \<Rightarrow> Some levels
      | (u # queue, deg, levels) \<Rightarrow>
          (let u_level = (case levels u of None \<Rightarrow> 0 | Some l \<Rightarrow> l)
           in level_loop adj (fold (relax u_level) (adj u) (queue, deg, levels))))"

definition compute_levels :: "topo_nodes \<Rightarrow> topo_edges \<Rightarrow> (string \<rightharpoonup> nat) option" where
  "compute_levels nodes edges =
     (let deg = in_degree nodes edges;
          queue = filter (\<lambda>i. deg i = 0 \<or> i = ''root'') (keys nodes);
          levels = (\<lambda>i. if i \<in> set queue then Some 0 else None)
      in level_loop (successors nodes edges) (queue, deg, levels))"

definition set_levels :: "(string \<rightharpoonup> nat) \<Rightarrow> topo_nodes \<Rightarrow> topo_nodes" where
  "set_levels levels nodes =
     map (\<lambda>(i, n). (i, n\<lparr>tn_level := (case levels i of Some l \<Rightarrow> l | None \<Rightarrow> if i \<noteq> ''root'' then 1 else 0)\<rparr>)) nodes"

subsection \<open>Updates\<close>

definition cached :: "topo_nodes \<Rightarrow> topo_edges \<Rightarrow> topo_node list \<times> topo_edges" where
  "cached nodes edges = (map snd nodes, edges)"

definition update_node_status :: "string \<Rightarrow> string \<Rightarrow> topology \<Rightarrow> topology" where
  "update_node_status node_id new_state tp =
     (if node_id \<in> tp_disabled tp then tp
      else (case get (tp_nodes tp) node_id of
              None \<Rightarrow> tp
            | Some n \<Rightarrow>
                (let nodes = put node_id (n\<lparr>tn_state := new_state\<rparr>) (tp_nodes tp);
                     nodes = propagate_inferred_down (tp_edges tp) (tp_children tp) nodes
                 in tp\<lparr>tp_nodes := nodes, tp_cached_graph := cached nodes (tp_edges tp)\<rparr>)))"

definition drop_parents :: "string \<Rightarrow> topo_edges \<times> topo_children \<Rightarrow> topo_edges \<times> topo_children" where
  \<comment> \<open>the stale edges into an endpoint\<close>
  "drop_parents ep_id g =
     (let stale = filter (\<lambda>(src, tgt). tgt = ep_id) (fst g)
      in fold (\<lambda>(src, tgt) (edges, ch).
           (removeAll (src, tgt) edges,
            case ch src of None \<Rightarrow> ch | Some cs \<Rightarrow> ch(src \<mapsto> removeAll tgt cs))) stale g)"

fun active_transit :: "(string \<rightharpoonup> string) \<Rightarrow> string \<Rightarrow> string \<Rightarrow> hop list \<Rightarrow> string set" where
  \<comment> \<open>the transit nodes that a route of the endpoint still uses\<close>
  "active_transit by_ip active_id tag [] = {}"
| "active_transit by_ip active_id tag (h # hs) =
     (case hp_ip h of
        None \<Rightarrow> insert (anon_id tag active_id) (active_transit by_ip active_id tag hs)
      | Some ip \<Rightarrow>
          (case by_ip ip of None \<Rightarrow> {transit_id ip} | Some _ \<Rightarrow> {})
            \<union> active_transit by_ip active_id (underscore ip) hs)"

definition children_from :: "topo_edges \<Rightarrow> topo_children" where
  "children_from edges = snd (fold (\<lambda>(src, tgt) g. add_edge src tgt g) edges ([], Map.empty))"

definition update_endpoint_path :: "string \<Rightarrow> hop list \<Rightarrow> topology \<Rightarrow> topology option" where
  \<comment> \<open>the result is \<open>None\<close> if the computation of the levels does not end\<close>
  "update_endpoint_path ep_id new_hops tp =
     (if ep_id \<in> tp_disabled tp then Some tp
      else (let clean_hops = sanitize_traceroute_hops new_hops None;
                routes = put ep_id clean_hops (tp_routes tp);
                (edges, ch) = drop_parents ep_id (tp_edges tp, tp_children tp);
                (nodes, edges, ch) = stitch_route (tp_monitored_by_ip tp) {} ep_id clean_hops (tp_nodes tp, edges, ch);
                active = (\<Union>(active_id, hops) \<in> set routes.
                   active_transit (tp_monitored_by_ip tp) active_id ''root'' (sanitize_traceroute_hops hops None));
                nodes = filter (\<lambda>(i, n). \<not> (tn_type n = ''transit'' \<and> i \<notin> active)) nodes;
                edges = filter (\<lambda>(src, tgt). get nodes src \<noteq> None \<and> get nodes tgt \<noteq> None) edges;
                ch = children_from edges;
                nodes = propagate_inferred_down edges ch nodes
            in case compute_levels nodes edges of
                 None \<Rightarrow> None
               | Some levels \<Rightarrow>
                   (let nodes = set_levels levels nodes
                    in Some (tp\<lparr>tp_nodes := nodes, tp_edges := edges, tp_children := ch, tp_routes := routes,
                                tp_cached_graph := cached nodes edges\<rparr>))))"

subsection \<open>The rebuild\<close>

record topo_row =
  rw_id :: uuid
  rw_hostname :: "string option"
  rw_ip_address :: string
  rw_device_type :: "string option"
  rw_allow_topology_discovery :: bool
  rw_manual_parent_id :: "uuid option"
  rw_is_l2_segment :: bool
  rw_operational_state :: string
  rw_detailed_state :: string

definition or_text :: "string option \<Rightarrow> string \<Rightarrow> string" where \<comment> \<open>\<open>x or y\<close>\<close>
  "or_text x y = (case x of Some s \<Rightarrow> if s \<noteq> [] then s else y | None \<Rightarrow> y)"

definition monitored_of :: "topo_row \<Rightarrow> topo_monitored" where
  "monitored_of row =
     \<lparr> tm_label = or_text (rw_hostname row) (rw_ip_address row), tm_ip_address = rw_ip_address row,
       tm_status = or_text (Some (rw_detailed_state row)) (or_text (Some (rw_operational_state row)) ''UP''),
       tm_device_type = or_text (rw_device_type row) ''ENDPOINT'', tm_is_l2_segment = rw_is_l2_segment row,
       tm_manual_parent_id = map_option uuid_text (rw_manual_parent_id row),
       tm_subnet = get_subnet_group (Some (rw_ip_address row)) \<rparr>"

definition read_rows ::
  "topo_row list \<Rightarrow> (string, topo_monitored) dict \<times> (string \<rightharpoonup> string) \<times> string set" where
  "read_rows rows =
     fold (\<lambda>row (by_id, by_ip, disabled).
       let ep_id = uuid_text (rw_id row)
       in if \<not> rw_allow_topology_discovery row then (by_id, by_ip, insert ep_id disabled)
          else (put ep_id (monitored_of row) by_id, by_ip(rw_ip_address row \<mapsto> ep_id), disabled))
       rows ([], Map.empty, {})"

definition read_routes :: "(string \<times> hop list option) list \<Rightarrow> (string \<times> hop list option) list \<Rightarrow> (string, hop list) dict" where
  \<comment> \<open>the stored routes, then the latest traces of the endpoints without one\<close>
  "read_routes bl_rows tr_rows =
     (let routes = fold (\<lambda>(i, hops) d. case hops of Some hs \<Rightarrow> put i hs d | None \<Rightarrow> d) bl_rows []
      in fold (\<lambda>(i, hops) d. case hops of Some hs \<Rightarrow> if get d i = None then put i hs d else d | None \<Rightarrow> d) tr_rows routes)"

definition node_of_monitored :: "string set \<Rightarrow> string set \<Rightarrow> string \<Rightarrow> topo_monitored \<Rightarrow> topo_node" where
  "node_of_monitored failed_ips failed_eps i m =
     \<lparr> tn_id = i, tn_label = tm_label m, tn_type = ''monitored'',
       tn_state = (if (tm_ip_address m \<in> failed_ips \<or> i \<in> failed_eps) \<and> tm_status m \<in> {''DOWN'', ''DOWN-UNSTABLE''}
                   then ''FAILURE_POINT'' else tm_status m),
       tn_ip_address = Some (tm_ip_address m), tn_device_type = tm_device_type m, tn_endpoint_id = Some i,
       tn_is_l2_segment = tm_is_l2_segment m, tn_manual_parent_id = tm_manual_parent_id m, tn_subnet = None, tn_level = 0 \<rparr>"

definition attach ::
  "(string \<rightharpoonup> string) \<Rightarrow> string set \<Rightarrow> (string, hop list) dict \<Rightarrow> string \<times> topo_monitored \<Rightarrow>
   topo_nodes \<times> topo_edges \<times> topo_children \<Rightarrow> topo_nodes \<times> topo_edges \<times> topo_children" where
  \<comment> \<open>one endpoint of the merging loop: under its parent, its route, or the root\<close>
  "attach by_ip failed routes ep st =
     (let (ep_id, m) = ep; (nodes, g) = st;
          parent = (case tm_manual_parent_id m of
                      Some p \<Rightarrow> if p \<noteq> [] \<and> get nodes p \<noteq> None then Some p else None
                    | None \<Rightarrow> None);
          hops = sanitize_traceroute_hops (case get routes ep_id of None \<Rightarrow> [] | Some hs \<Rightarrow> hs) None
      in case parent of
           Some p \<Rightarrow> (nodes, add_edge p ep_id g)
         | None \<Rightarrow>
             if hops = [] then (nodes, add_edge ''root'' ep_id g)
             else stitch_route by_ip failed ep_id hops (nodes, g))"

definition hub_id :: "string \<Rightarrow> string" where
  "hub_id subnet = ''subnet:'' @ map (\<lambda>c. if c = CHR ''/'' \<or> c = CHR ''.'' then CHR ''_'' else c) subnet"

definition hub_node :: "string \<Rightarrow> topo_node" where
  "hub_node subnet = \<lparr> tn_id = hub_id subnet, tn_label = ''Subnet ('' @ subnet @ '')'', tn_type = ''subnet_hub'',
     tn_state = ''UP'', tn_ip_address = None, tn_device_type = ''SUBNET_HUB'', tn_endpoint_id = None,
     tn_is_l2_segment = False, tn_manual_parent_id = None, tn_subnet = Some subnet, tn_level = 0 \<rparr>"

definition discard_edge :: "string \<Rightarrow> string \<Rightarrow> topo_edges \<times> topo_children \<Rightarrow> topo_edges \<times> topo_children" where
  "discard_edge src tgt g =
     (removeAll (src, tgt) (fst g),
      case snd g src of None \<Rightarrow> snd g | Some cs \<Rightarrow> (snd g)(src \<mapsto> removeAll tgt cs))"

definition cluster ::
  "string \<times> string list \<Rightarrow> topo_nodes \<times> topo_edges \<times> topo_children \<Rightarrow> topo_nodes \<times> topo_edges \<times> topo_children" where
  \<comment> \<open>the direct endpoints of one subnet\<close>
  "cluster entry st =
     (let (subnet, ep_ids) = entry; (nodes, g) = st; hub = hub_id subnet
      in if length ep_ids < 2 then st
         else (let nodes = (if get nodes hub = None then put hub (hub_node subnet) nodes else nodes);
                   g = add_edge ''root'' hub g
               in (nodes, fold (\<lambda>d g. add_edge hub d (discard_edge ''root'' d g)) ep_ids g)))"

definition direct_by_subnet :: "(string, topo_monitored) dict \<Rightarrow> topo_edges \<Rightarrow> (string, string list) dict" where
  "direct_by_subnet by_id edges =
     fold (\<lambda>(src, ep_id) d.
       case (if src = ''root'' then get by_id ep_id else None) of
         None \<Rightarrow> d
       | Some m \<Rightarrow> (case tm_subnet m of
                      None \<Rightarrow> d
                    | Some s \<Rightarrow> put s ((case get d s of None \<Rightarrow> [] | Some l \<Rightarrow> l) @ [ep_id]) d)) edges []"

definition merged_graph ::
  "(string, topo_monitored) dict \<Rightarrow> (string \<rightharpoonup> string) \<Rightarrow> (string, hop list) dict \<Rightarrow> string set \<Rightarrow> string set \<Rightarrow>
   topo_nodes \<times> topo_edges \<times> topo_children" where
  "merged_graph by_id by_ip routes failed_ips failed_eps =
     (let nodes = fold (\<lambda>(i, m). put i (node_of_monitored failed_ips failed_eps i m)) by_id [(''root'', root_node)];
          (nodes, edges, ch) = fold (attach by_ip failed_ips routes) by_id (nodes, [], Map.empty)
      in fold cluster (direct_by_subnet by_id edges) (nodes, edges, ch))"

definition full_rebuild ::
  "topo_row list \<Rightarrow> (string \<times> hop list option) list \<Rightarrow> (string \<times> hop list option) list \<Rightarrow>
   (uuid \<times> string option) list \<Rightarrow> topology option" where
  \<comment> \<open>the rows: endpoints, stored routes, traces and open incidents\<close>
  "full_rebuild ep_rows bl_rows tr_rows inc_rows =
     (let (by_id, by_ip, disabled) = read_rows ep_rows;
          routes = read_routes bl_rows tr_rows;
          failed_eps = (uuid_text \<circ> fst) ` set inc_rows;
          failed_ips = set (filter (\<lambda>ip. ip \<noteq> []) (List.map_filter snd inc_rows));
          (nodes, edges, ch) = merged_graph by_id by_ip routes failed_ips failed_eps;
          nodes = propagate_inferred_down edges ch nodes
      in case compute_levels nodes edges of
           None \<Rightarrow> None
         | Some levels \<Rightarrow>
             (let nodes = set_levels levels nodes
              in Some \<lparr> tp_nodes = nodes, tp_edges = edges, tp_children = ch, tp_monitored_by_id = by_id,
                        tp_monitored_by_ip = by_ip, tp_disabled = disabled, tp_routes = routes,
                        tp_failed_hop_ips = failed_ips, tp_failed_endpoint_ids = failed_eps,
                        tp_cached_graph = cached nodes edges \<rparr>))"

end
