(* ===== verification/Trace.thy ===== *)
theory Trace
  imports Topology Ping
begin

text \<open>
  Route discovery (\<open>services/diagnostics.py\<close>): the test for a destination on the local subnet,
  the chain of commands, the reading of their output, and the retention clean-up. A spawned
  command is a parameter: it fails, or ends with a return code and its output.
\<close>

subsection \<open>The output of a command\<close>

definition is_line_break :: "char \<Rightarrow> bool" where
  "is_line_break c \<longleftrightarrow> of_char c \<in> {10::nat, 11, 12, 13, 28, 29, 30, 133}"

fun split_lines :: "(char \<Rightarrow> bool) \<Rightarrow> bool \<Rightarrow> string \<Rightarrow> string \<Rightarrow> string list" where
  \<comment> \<open>the boolean: the character before was a carriage return, which ended a line\<close>
  "split_lines brk cr w [] = (if w = [] then [] else [w])"
| "split_lines brk cr w (c # cs) =
     (if cr \<and> of_char c = (10::nat) then split_lines brk False w cs
      else if brk c then w # split_lines brk (of_char c = (13::nat)) [] cs
      else split_lines brk False (w @ [c]) cs)"

definition splitlines :: "string \<Rightarrow> string list" where
  "splitlines s = split_lines is_line_break False [] s"

definition contains :: "string \<Rightarrow> string \<Rightarrow> bool" where
  \<comment> \<open>\<open>w in s\<close>\<close>
  "contains w s \<longleftrightarrow> search (literal w) s \<noteq> None"

definition match_hop_line :: "string \<Rightarrow> (string \<times> string) option" where
  \<comment> \<open>\<open>^\s*(\d+)[:\s]\s*(.*)$\<close> on a line\<close>
  "match_hop_line line =
     (case many1 is_digit (dropWhile is_space line) of
        None \<Rightarrow> None
      | Some (num, rest) \<Rightarrow>
          (case rest of
             [] \<Rightarrow> None
           | c # cs \<Rightarrow> if c = CHR '':'' \<or> is_space c then Some (num, dropWhile is_space cs) else None))"

definition upto3_digits :: "string \<Rightarrow> (string \<times> string) option" where
  \<comment> \<open>\<open>\d{1,3}\<close>\<close>
  "upto3_digits s = (let w = takeWhile is_digit (take 3 s) in if w = [] then None else Some (w, drop (length w) s))"

fun dot_groups :: "nat \<Rightarrow> string \<Rightarrow> string option" where
  \<comment> \<open>\<open>(?:\.\d{1,3}){n}\<close>\<close>
  "dot_groups 0 s = Some []"
| "dot_groups (Suc n) s =
     (case Option.bind (literal ''.'' s) upto3_digits of
        None \<Rightarrow> None
      | Some (w, rest) \<Rightarrow> map_option (\<lambda>more. CHR ''.'' # w @ more) (dot_groups n rest))"

definition match_ip :: "string \<Rightarrow> string option" where
  "match_ip s =
     (case upto3_digits s of
        None \<Rightarrow> None
      | Some (w, rest) \<Rightarrow> map_option (\<lambda>more. w @ more) (dot_groups 3 rest))"

definition match_ms :: "string \<Rightarrow> (string \<times> string) option" where
  \<comment> \<open>\<open>([\d\.]+)\s*ms\<close>\<close>
  "match_ms s =
     (case many1 (\<lambda>c. is_digit c \<or> c = CHR ''.'') s of
        None \<Rightarrow> None
      | Some (w, rest) \<Rightarrow> map_option (Pair w) (literal ''ms'' (dropWhile is_space rest)))"

fun find_all :: "(string \<Rightarrow> ('a \<times> string) option) \<Rightarrow> nat \<Rightarrow> string \<Rightarrow> 'a list" where
  \<comment> \<open>\<open>re.findall\<close>; the number counts the characters that the last match still covers\<close>
  "find_all m k [] = []"
| "find_all m k (c # cs) =
     (if 0 < k then find_all m (k - 1) cs
      else (case m (c # cs) of
              None \<Rightarrow> find_all m 0 cs
            | Some (x, rest) \<Rightarrow> x # find_all m (length cs - length rest) cs))"

definition round3 :: "real \<Rightarrow> real" where
  \<comment> \<open>\<open>round(x, 3)\<close>\<close>
  "round3 x = of_int (round_half_even (1000 * x)) / 1000"

fun floats :: "string list \<Rightarrow> real list result" where
  "floats [] = Inr []"
| "floats (w # ws) =
     (case py_float w of Inl e \<Rightarrow> Inl e | Inr x \<Rightarrow> map_sum id (Cons x) (floats ws))"

definition parse_hop :: "int \<Rightarrow> string \<Rightarrow> hop result" where
  "parse_hop hop_num remainder =
     (if contains ''no reply'' (lower remainder) \<or> remainder \<in> {''*'', ''* *'', ''* * *''}
      then Inr \<lparr> hp_hop = Some hop_num, hp_ip = None, hp_rtt_ms = None \<rparr>
      else (let hop_ip = search match_ip remainder
            in case floats (find_all match_ms 0 remainder) of
                 Inl e \<Rightarrow> Inl e
               | Inr rtt_values \<Rightarrow>
                   Inr \<lparr> hp_hop = Some hop_num, hp_ip = hop_ip,
                         hp_rtt_ms = (if rtt_values = [] then None
                                      else Some (round3 (sum_list rtt_values / real (length rtt_values)))) \<rparr>))"

fun parse_lines :: "string list \<Rightarrow> int set \<Rightarrow> hop list result" where
  \<comment> \<open>the set: \<open>seen_hops\<close>\<close>
  "parse_lines [] seen = Inr []"
| "parse_lines (l # ls) seen =
     (let line = strip l
      in if line = [] \<or> take 10 line = ''traceroute'' then parse_lines ls seen
         else (case match_hop_line line of
                 None \<Rightarrow> parse_lines ls seen
               | Some (num, rest) \<Rightarrow>
                   (let hop_num = int (int_of_digits num)
                    in if 4300 < length num \<or> hop_num \<in> seen then parse_lines ls seen
                       else (case parse_hop hop_num (strip rest) of
                               Inl e \<Rightarrow> Inl e
                             | Inr h \<Rightarrow> map_sum id (Cons h) (parse_lines ls (insert hop_num seen))))))"

definition parse_trace_output :: "string \<Rightarrow> hop list result" where
  "parse_trace_output stdout_str = parse_lines (splitlines stdout_str) {}"

subsection \<open>The local subnet\<close>

record nic_addr =
  na_is_ipv4 :: bool
  na_address :: string
  na_netmask :: "string option"

fun prefix_of_mask :: "nat \<Rightarrow> nat \<Rightarrow> nat option" where
  \<comment> \<open>\<open>_prefix_from_ip_int\<close>: the prefix length \<open>k\<close> or less that has the mask\<close>
  "prefix_of_mask 0 m = (if m = 0 then Some 0 else None)"
| "prefix_of_mask (Suc k) m = (if m = 2 ^ 32 - 2 ^ (32 - Suc k) then Some (Suc k) else prefix_of_mask k m)"

definition make_netmask :: "string \<Rightarrow> nat result" where
  \<comment> \<open>a prefix length in digits, else a mask, else the complement of one\<close>
  "make_netmask s =
     (case (if all_digits s then py_int s else Inl ValueError) of
        Inr n \<Rightarrow> if n \<le> 32 then Inr (nat n) else Inl ValueError
      | Inl _ \<Rightarrow>
          (case parse_ipv4 s of
             Inl e \<Rightarrow> Inl e
           | Inr m \<Rightarrow>
               (case prefix_of_mask 32 m of
                  Some k \<Rightarrow> Inr k
                | None \<Rightarrow> (case prefix_of_mask 32 (2 ^ 32 - 1 - m) of Some k \<Rightarrow> Inr k | None \<Rightarrow> Inl ValueError))))"

definition ipv4_network :: "string \<Rightarrow> string \<Rightarrow> (nat \<times> nat) result" where
  \<comment> \<open>\<open>ip_network(f"{address}/{mask}", strict=False)\<close> of an IPv4 interface\<close>
  "ipv4_network address netmask =
     (case parse_ipv4 address of
        Inl e \<Rightarrow> Inl e
      | Inr n \<Rightarrow> map_sum id (Pair n) (make_netmask netmask))"

fun in_ipv4_network :: "ip_addr \<Rightarrow> nat \<times> nat \<Rightarrow> bool" where
  "in_ipv4_network (V4 a) (n, k) = in_net 32 k n a"
| "in_ipv4_network (V6 _ _) _ = False"

fun on_local_subnet :: "ip_addr \<Rightarrow> nic_addr list \<Rightarrow> bool" where
  "on_local_subnet target [] = False"
| "on_local_subnet target (a # as) =
     (if na_is_ipv4 a \<and> na_address a \<noteq> [] \<and> take 4 (na_address a) \<noteq> ''127.'' then
        (let netmask = (case na_netmask a of Some m \<Rightarrow> if m \<noteq> [] then m else ''24'' | None \<Rightarrow> ''24'');
             local_net = (case ipv4_network (na_address a) netmask of
                            Inr net \<Rightarrow> Inr net
                          | Inl _ \<Rightarrow> ipv4_network (na_address a) ''24'')
         in case local_net of
              Inl _ \<Rightarrow> False
            | Inr net \<Rightarrow> in_ipv4_network target net \<or> on_local_subnet target as)
      else on_local_subnet target as)"

definition is_local_subnet_destination :: "nic_addr list result \<Rightarrow> string \<Rightarrow> bool" where
  \<comment> \<open>the first argument: what \<open>psutil.net_if_addrs\<close> answers\<close>
  "is_local_subnet_destination nics target_ip =
     (case ip_address (strip target_ip) of
        Inl _ \<Rightarrow> False
      | Inr target \<Rightarrow>
          is_loopback target \<or> (case nics of Inl _ \<Rightarrow> False | Inr as \<Rightarrow> on_local_subnet target as))"

subsection \<open>The chain of commands\<close>

datatype trace_command = Icmp_traceroute | Udp_traceroute | Tracepath

type_synonym trace_runs = "trace_command \<Rightarrow> (int \<times> string) result"
  \<comment> \<open>the return code and the output, or the failure to run the command\<close>

definition trace_output :: "trace_runs \<Rightarrow> string" where
  "trace_output run =
     (let checked = (\<lambda>cmd. case run cmd of Inl _ \<Rightarrow> [] | Inr (code, out) \<Rightarrow> if code = 0 then out else []);
          stdout = checked Icmp_traceroute;
          stdout = (if stdout = [] then checked Udp_traceroute else stdout)
      in if stdout = [] then (case run Tracepath of Inl _ \<Rightarrow> [] | Inr (_, out) \<Rightarrow> out) else stdout)"

definition run_traceroute :: "nic_addr list result \<Rightarrow> trace_runs \<Rightarrow> string \<Rightarrow> hop list result" where
  \<comment> \<open>the hops of the result; the mark \<open>is_l2\<close> of a local destination is left out\<close>
  "run_traceroute nics run target_ip =
     (if is_local_subnet_destination nics target_ip then
        Inr [\<lparr> hp_hop = Some 1, hp_ip = Some target_ip, hp_rtt_ms = Some 0.5 \<rparr>]
      else (let stdout_str = trace_output run
            in case (if stdout_str \<noteq> [] then parse_trace_output stdout_str else Inr []) of
                 Inl e \<Rightarrow> Inl e
               | Inr hops \<Rightarrow> Inr (sanitize_traceroute_hops hops (Some target_ip))))"

end
