(* ===== verification/Routes.thy ===== *)
theory Routes
  imports Trace
begin

text \<open>
  Baseline routes (\<open>services/baseline_route.py\<close>): the classifier of the boundary between the
  server's segment and the routed network, and the refresh of the route of an endpoint in the
  tables that the root-cause analysis reads.
\<close>

subsection \<open>The host's own tables\<close>

record net_env =
  ne_route :: "string result" \<comment> \<open>\<open>/proc/net/route\<close>\<close>
  ne_arp :: "string result" \<comment> \<open>\<open>/proc/net/arp\<close>\<close>
  ne_nics :: "nic_addr list result"
  ne_run :: "string \<Rightarrow> trace_runs" \<comment> \<open>the commands, by their target\<close>

definition text_lines :: "string \<Rightarrow> string list" where
  \<comment> \<open>iteration over a text file\<close>
  "text_lines s = split_lines (\<lambda>c. of_char c \<in> {10::nat, 13}) False [] s"

fun words_from :: "string \<Rightarrow> string \<Rightarrow> string list" where
  "words_from w [] = (if w = [] then [] else [w])"
| "words_from w (c # cs) =
     (if is_space c then (if w = [] then [] else [w]) @ words_from [] cs else words_from (w @ [c]) cs)"

definition words :: "string \<Rightarrow> string list" where
  \<comment> \<open>\<open>s.split()\<close>\<close>
  "words s = words_from [] s"

fun gateway_of :: "string list \<Rightarrow> string option" where
  "gateway_of [] = None"
| "gateway_of (l # ls) =
     (case words l of
        _ # dest # gateway_hex # _ \<Rightarrow>
          (if dest = ''00000000'' \<and> gateway_hex \<noteq> ''00000000'' then
             (case py_int16 gateway_hex of
                Inl _ \<Rightarrow> None
              | Inr n \<Rightarrow>
                  if 0 \<le> n \<and> n < 2 ^ 32 then
                    Some (join ''.'' (map (\<lambda>k. dec (nat n div 256 ^ k mod 256)) [0, 1, 2, 3]))
                  else None)
           else gateway_of ls)
      | _ \<Rightarrow> gateway_of ls)"

definition get_default_gateway_ip :: "net_env \<Rightarrow> string option" where
  "get_default_gateway_ip env = (case ne_route env of Inl _ \<Rightarrow> None | Inr s \<Rightarrow> gateway_of (text_lines s))"

definition arp_entry :: "string \<Rightarrow> (string \<rightharpoonup> string) \<Rightarrow> string \<rightharpoonup> string" where
  "arp_entry line arp_map =
     (case words line of
        ip_addr # _ # flags # mac # _ \<Rightarrow>
          (let mac_addr = lower mac
           in if flags \<noteq> ''0x0'' \<and> mac_addr \<noteq> ''00:00:00:00:00:00'' then arp_map(ip_addr \<mapsto> mac_addr) else arp_map)
      | _ \<Rightarrow> arp_map)"

definition get_arp_table :: "net_env \<Rightarrow> string \<rightharpoonup> string" where
  "get_arp_table env =
     (case ne_arp env of Inl _ \<Rightarrow> Map.empty | Inr s \<Rightarrow> fold arp_entry (drop 1 (text_lines s)) Map.empty)"

subsection \<open>The boundary\<close>

definition FHRP_PATTERNS :: "(string \<times> string) list" where
  \<comment> \<open>a question mark stands for \<open>[0-9a-f]\<close>\<close>
  "FHRP_PATTERNS =
     [(''HSRP_V1'', ''00:00:0c:07:ac:??''), (''HSRP_V2'', ''00:00:0c:9f:f?:??''),
      (''VRRP_IPV4'', ''00:00:5e:00:01:??''), (''VRRP_IPV6'', ''00:00:5e:00:02:??''),
      (''GLBP'', ''00:07:b4:??:??:??'')]"

definition matches_mac :: "string \<Rightarrow> string \<Rightarrow> bool" where
  "matches_mac pattern mac =
     list_all2 (\<lambda>p c. if p = CHR ''?'' then hex_val c \<noteq> None else c = p) pattern mac"

definition get_fhrp_type :: "string \<Rightarrow> string option" where
  "get_fhrp_type mac_address =
     (if mac_address = [] then None
      else map_option fst (find (\<lambda>(name, pattern). matches_mac pattern (lower (strip mac_address))) FHRP_PATTERNS))"

fun on_nic :: "ip_addr \<Rightarrow> nic_addr list \<Rightarrow> bool" where
  "on_nic target [] = False"
| "on_nic target (a # as) =
     (case na_netmask a of
        Some netmask \<Rightarrow>
          (if na_is_ipv4 a \<and> na_address a \<noteq> [] \<and> netmask \<noteq> [] then
             (case ipv4_network (na_address a) netmask of
                Inr net \<Rightarrow> in_ipv4_network target net \<or> on_nic target as
              | Inl _ \<Rightarrow> on_nic target as)
           else on_nic target as)
      | None \<Rightarrow> on_nic target as)"

definition is_local_subnet :: "net_env \<Rightarrow> string \<Rightarrow> bool" where
  "is_local_subnet env target_ip_str =
     (case ip_address target_ip_str of
        Inl _ \<Rightarrow> False
      | Inr target \<Rightarrow> is_loopback target \<or> (case ne_nics env of Inl _ \<Rightarrow> False | Inr as \<Rightarrow> on_nic target as))"

record boundary =
  bd_tier :: string
  bd_is_l2 :: bool
  bd_default_gw :: "string option"
  bd_mac :: "string option"
  bd_fhrp :: "string option"

definition classify_boundary_tier :: "net_env \<Rightarrow> string \<Rightarrow> nat \<Rightarrow> boundary" where
  "classify_boundary_tier env target_ip_str total_hops =
     (let tier = (\<lambda>name l2 gw mac fhrp.
            \<lparr> bd_tier = name, bd_is_l2 = l2, bd_default_gw = gw, bd_mac = mac, bd_fhrp = fhrp \<rparr>)
      in case ip_address target_ip_str of
           Inl _ \<Rightarrow> tier ''L3_ROUTED_TRANSIT'' False None None None
         | Inr target \<Rightarrow>
             if is_loopback target then tier ''L2_LOCAL_HOST'' True None None None
             else
               (let default_gw = get_default_gateway_ip env;
                    mac_addr = get_arp_table env target_ip_str;
                    has_mac = (case mac_addr of None \<Rightarrow> False | Some m \<Rightarrow> m \<noteq> []);
                    fhrp_type = (if has_mac then get_fhrp_type (the mac_addr) else None)
                in if fhrp_type \<noteq> None then tier ''L2_L3_GATEWAY_FHRP'' True default_gw mac_addr fhrp_type
                   else if default_gw \<noteq> None \<and> default_gw \<noteq> Some [] \<and> default_gw = Some target_ip_str
                   then tier ''L2_L3_GATEWAY_DEFAULT'' True default_gw mac_addr None
                   else if has_mac \<or> is_local_subnet env target_ip_str
                   then tier ''L2_LOCAL_HOST'' True default_gw mac_addr None
                   else if total_hops = 1 \<and> \<not> is_global target
                   then tier ''L2_LOCAL_HOST'' True default_gw mac_addr None
                   else tier ''L3_ROUTED_TRANSIT'' False default_gw mac_addr None))"

subsection \<open>The refresh\<close>

record route_row =
  rt_total_hops :: nat
  rt_hops :: "hop list"

record target_row =
  tg_id :: uuid
  tg_ip_address :: string
  tg_enable_rca :: bool
  tg_is_l2_segment :: bool
  tg_status :: string
  tg_manual_parent_id :: "uuid option"
  tg_scheduled_discovery :: bool

record incident =
  ic_id :: uuid
  ic_endpoint_id :: uuid
  ic_timestamp :: instant
  ic_failed_hop_number :: "int option"
  ic_failed_hop_ip :: "string option"
  ic_last_known_good :: "string option"
  ic_summary :: string
  ic_baseline :: "hop list"
  ic_failure_trace :: "hop list"
  ic_is_resolved :: bool

record route_db =
  rd_endpoints :: "target_row list"
  rd_baselines :: "(uuid, route_row) dict"
  rd_incidents :: "incident list"

record refresh_result =
  rr_total_hops :: nat
  rr_hops :: "hop list"
  rr_boundary :: boundary

definition reachable :: "hop list \<Rightarrow> bool" where
  "reachable hops = list_ex (\<lambda>h. hp_ip h \<noteq> None) hops"

definition upsert_route :: "uuid \<Rightarrow> hop list \<Rightarrow> route_db \<Rightarrow> route_db" where
  "upsert_route ep hops db =
     db\<lparr>rd_baselines := put ep \<lparr> rt_total_hops = length hops, rt_hops = hops \<rparr> (rd_baselines db)\<rparr>"

definition update_l2 :: "uuid \<Rightarrow> bool \<Rightarrow> route_db \<Rightarrow> route_db" where
  "update_l2 ep l2 db =
     db\<lparr>rd_endpoints := map (\<lambda>e. if tg_id e = ep then e\<lparr>tg_is_l2_segment := l2\<rparr> else e) (rd_endpoints db)\<rparr>"

definition refresh_baseline_route ::
  "net_env \<Rightarrow> uuid \<Rightarrow> string \<Rightarrow> (string \<rightharpoonup> string) \<Rightarrow> route_db \<Rightarrow>
   (refresh_result \<times> (string \<rightharpoonup> string) \<times> route_db) result" where
  \<comment> \<open>the map: \<open>gateway_mac_cache\<close>\<close>
  "refresh_baseline_route env endpoint_id target_ip macs db =
     (case run_traceroute (ne_nics env) (ne_run env target_ip) target_ip of
        Inl e \<Rightarrow> Inl e
      | Inr formatted_hops \<Rightarrow>
          (let bd = classify_boundary_tier env target_ip (length formatted_hops);
               macs = (case bd_mac bd of
                         None \<Rightarrow> macs
                       | Some m \<Rightarrow> if m \<noteq> [] then macs(target_ip \<mapsto> m) else macs);
               existing = (case get (rd_baselines db) endpoint_id of None \<Rightarrow> [] | Some r \<Rightarrow> rt_hops r);
               final_hops = (if \<not> reachable formatted_hops \<and> reachable existing then existing else formatted_hops);
               db = update_l2 endpoint_id (bd_is_l2 bd) (upsert_route endpoint_id final_hops db)
           in Inr (\<lparr> rr_total_hops = length final_hops, rr_hops = final_hops, rr_boundary = bd \<rparr>, macs, db)))"

end
