(* ===== verification/RCA.thy ===== *)
theory RCA
  imports Routes
begin

text \<open>
  Root-cause analysis (\<open>services/rca_engine.py\<close>): the comparison of a live trace with the
  baseline route of an endpoint that went down, the incident it records, and the hook that
  closes the incidents when the endpoint recovers.
\<close>

definition int_text :: "int option \<Rightarrow> string" where
  "int_text n = (case n of None \<Rightarrow> ''None'' | Some k \<Rightarrow> if k < 0 then CHR ''-'' # dec (nat (- k)) else dec (nat k))"

definition pred_text :: "int option \<Rightarrow> string result" where
  \<comment> \<open>the text of \<open>n - 1\<close>, which raises for \<open>None\<close>\<close>
  "pred_text n = (case n of None \<Rightarrow> Inl TypeError | Some k \<Rightarrow> Inr (int_text (Some (k - 1))))"

record verdict =
  vd_failed_hop_number :: "int option"
  vd_failed_hop_ip :: "string option"
  vd_last_known_good :: "string option"
  vd_summary :: string

definition hops_by_num :: "hop list \<Rightarrow> (int, hop) dict" where
  "hops_by_num hops = fold (\<lambda>h d. case hp_hop h of None \<Rightarrow> d | Some n \<Rightarrow> put n h d) hops []"

definition live_hop :: "hop list \<Rightarrow> nat \<Rightarrow> hop \<Rightarrow> hop option" where
  \<comment> \<open>the live hop of the number of the baseline hop, else the one at its index\<close>
  "live_hop live idx b =
     (case Option.bind (hp_hop b) (get (hops_by_num live)) of
        Some h \<Rightarrow> Some h
      | None \<Rightarrow> if idx < length live then Some (live ! idx) else None)"

definition confirmed :: "hop list \<Rightarrow> nat \<Rightarrow> hop \<Rightarrow> bool" where
  "confirmed live idx b =
     (case Option.bind (live_hop live idx b) hp_ip of None \<Rightarrow> False | Some ip \<Rightarrow> Some ip = hp_ip b)"

definition nonempty :: "string option \<Rightarrow> string option" where
  "nonempty s = (case s of None \<Rightarrow> None | Some t \<Rightarrow> if t = [] then None else Some t)"

definition diverged_at :: "string \<Rightarrow> bool \<Rightarrow> hop option \<Rightarrow> hop \<Rightarrow> verdict result" where
  \<comment> \<open>the hop before, and the first hop that is not confirmed\<close>
  "diverged_at target_ip is_global_ip before b =
     (let ip = or_text (hp_ip b) target_ip; num = int_text (hp_hop b);
          v = (\<lambda>good summary. \<lparr> vd_failed_hop_number = hp_hop b, vd_failed_hop_ip = Some ip,
                                 vd_last_known_good = good, vd_summary = summary \<rparr>)
      in case Option.bind before (\<lambda>h. nonempty (hp_ip h)) of
           Some good \<Rightarrow>
             (case pred_text (hp_hop b) of
                Inl e \<Rightarrow> Inl e
              | Inr prev \<Rightarrow>
                  Inr (v (Some good) (''Transit failure at Hop '' @ num @ '' ('' @ ip @ ''). Path confirmed operational through Hop ''
                         @ prev @ '' ('' @ good @ '').'')))
         | None \<Rightarrow>
             Inr (v None (if is_global_ip then ''Remote L3 Routed Destination ('' @ target_ip @ ''). Failure at Hop '' @ num
                            @ '' ('' @ ip @ ''). Path blocked across WAN/carrier network.''
                          else ''Transit failure at Hop '' @ num @ '' ('' @ ip @ ''). No prior operational hop.'')))"

fun compare_hops ::
  "string \<Rightarrow> bool \<Rightarrow> hop list \<Rightarrow> nat \<Rightarrow> hop option \<Rightarrow> hop list \<Rightarrow> verdict option result" where
  "compare_hops target_ip is_global_ip live idx before [] = Inr None"
| "compare_hops target_ip is_global_ip live idx before (b # bs) =
     (if confirmed live idx b then compare_hops target_ip is_global_ip live (idx + 1) (Some b) bs
      else map_sum id Some (diverged_at target_ip is_global_ip before b))"

definition not_diverged :: "string \<Rightarrow> bool \<Rightarrow> hop list \<Rightarrow> verdict result" where
  "not_diverged target_ip is_global_ip baseline =
     (let last_b = (if baseline = [] then \<lparr> hp_hop = Some 1, hp_ip = Some target_ip, hp_rtt_ms = None \<rparr> else last baseline);
          num = hp_hop last_b; ip = or_text (hp_ip last_b) target_ip;
          before = (if 1 < length baseline then nonempty (hp_ip (baseline ! (length baseline - 2))) else None);
          v = (\<lambda>good summary. \<lparr> vd_failed_hop_number = num, vd_failed_hop_ip = Some ip,
                                 vd_last_known_good = good, vd_summary = summary \<rparr>)
      in case before of
           Some good \<Rightarrow>
             (case pred_text num of
                Inl e \<Rightarrow> Inl e
              | Inr prev \<Rightarrow>
                  Inr (v (Some good) (''Failure at destination endpoint '' @ ip @ '' (Hop '' @ int_text num
                         @ ''). Path confirmed operational through Hop '' @ prev @ '' ('' @ good @ '').'')))
         | None \<Rightarrow>
             Inr (v None (if is_global_ip then ''Remote L3 Routed Destination ('' @ target_ip
                            @ ''). Failure isolated to destination host or intermediate WAN carrier path.''
                          else ''Failure at Hop '' @ int_text num @ '' ('' @ ip @ '').'')))"

definition l2_verdict :: "string \<Rightarrow> verdict" where
  "l2_verdict target_ip =
     \<lparr> vd_failed_hop_number = Some 1, vd_failed_hop_ip = Some target_ip, vd_last_known_good = None,
       vd_summary = ''Direct Layer 2 Attachment (Same Subnet). No intermediate L3 routers detected. Failure isolated to local host, NIC, or local L2 switch port.'' \<rparr>"

definition evaluate_rca :: "string \<Rightarrow> bool \<Rightarrow> hop list \<Rightarrow> hop list \<Rightarrow> verdict result" where
  "evaluate_rca target_ip is_l2_segment baseline live =
     (let is_global_ip = (case ip_address target_ip of Inl _ \<Rightarrow> False | Inr a \<Rightarrow> is_global a)
      in if is_l2_segment \<or> (\<not> is_global_ip \<and> length live \<le> 1 \<and> length baseline \<le> 1)
         then Inr (l2_verdict target_ip)
         else (case compare_hops target_ip is_global_ip live 0 None baseline of
                 Inl e \<Rightarrow> Inl e
               | Inr (Some v) \<Rightarrow> Inr v
               | Inr None \<Rightarrow> not_diverged target_ip is_global_ip baseline))"

datatype rca_event =
    Rca_opened uuid uuid "uuid list" verdict \<comment> \<open>incident, endpoint, symptoms\<close>
  | Rca_closed uuid

definition run_differential_rca ::
  "net_env \<Rightarrow> uuid \<Rightarrow> uuid \<Rightarrow> instant \<Rightarrow> route_db \<Rightarrow> (rca_event option \<times> route_db) result" where
  \<comment> \<open>the id and the time that the database gives to a new incident; the event is also the result\<close>
  "run_differential_rca env endpoint_id new_id now db =
     (case find (\<lambda>e. tg_id e = endpoint_id \<and> tg_status e \<noteq> ''DELETED'') (rd_endpoints db) of
        None \<Rightarrow> Inr (None, db)
      | Some ep \<Rightarrow>
          if \<not> tg_enable_rca ep then Inr (None, db)
          else
            (let target_ip = tg_ip_address ep;
                 baseline = (case get (rd_baselines db) endpoint_id of None \<Rightarrow> [] | Some r \<Rightarrow> rt_hops r)
             in case run_traceroute (ne_nics env) (ne_run env target_ip) target_ip of
                  Inl e \<Rightarrow> Inl e
                | Inr live \<Rightarrow>
                    (case evaluate_rca target_ip (tg_is_l2_segment ep) baseline live of
                       Inl e \<Rightarrow> Inl e
                     | Inr v \<Rightarrow>
                         (let inc = \<lparr> ic_id = new_id, ic_endpoint_id = endpoint_id, ic_timestamp = now,
                                      ic_failed_hop_number = vd_failed_hop_number v, ic_failed_hop_ip = vd_failed_hop_ip v,
                                      ic_last_known_good = vd_last_known_good v, ic_summary = vd_summary v,
                                      ic_baseline = baseline, ic_failure_trace = live, ic_is_resolved = False \<rparr>;
                              symptoms = map tg_id (filter (\<lambda>e. tg_manual_parent_id e = Some endpoint_id
                                                                \<and> tg_status e \<noteq> ''DELETED'') (rd_endpoints db))
                          in Inr (Some (Rca_opened new_id endpoint_id symptoms v),
                                  db\<lparr>rd_incidents := rd_incidents db @ [inc]\<rparr>)))))"

definition resolve_incidents :: "uuid \<Rightarrow> route_db \<Rightarrow> route_db" where
  "resolve_incidents ep db =
     db\<lparr>rd_incidents := map (\<lambda>i. if ic_endpoint_id i = ep \<and> \<not> ic_is_resolved i then i\<lparr>ic_is_resolved := True\<rparr> else i)
                          (rd_incidents db)\<rparr>"

definition handle_endpoint_recovery ::
  "net_env \<Rightarrow> uuid \<Rightarrow> string \<Rightarrow> (string \<rightharpoonup> string) \<Rightarrow> route_db \<Rightarrow> (rca_event \<times> (string \<rightharpoonup> string) \<times> route_db) result" where
  \<comment> \<open>one transaction: nothing is kept of a call that raises\<close>
  "handle_endpoint_recovery env endpoint_id target_ip macs db =
     (case refresh_baseline_route env endpoint_id target_ip macs (resolve_incidents endpoint_id db) of
        Inl e \<Rightarrow> Inl e
      | Inr (_, macs, db) \<Rightarrow> Inr (Rca_closed endpoint_id, macs, db))"

end
