(* ===== verification/Trace_Proofs.thy ===== *)
theory Trace_Proofs
  imports Trace
begin

text \<open>
  Facts on route discovery: what \<open>traceroute\<close> prints is read back, and every route that
  \<open>run_traceroute\<close> returns ends at the target.
\<close>

subsection \<open>Matching at the front of a text\<close>

lemma many1_append:
  "\<forall>c \<in> set w. P c \<Longrightarrow> w \<noteq> [] \<Longrightarrow> s = [] \<or> \<not> P (hd s) \<Longrightarrow> many1 P (w @ s) = Some (w, s)"
proof -
  assume a: "\<forall>c \<in> set w. P c" "w \<noteq> []" "s = [] \<or> \<not> P (hd s)"
  then have "takeWhile P s = [] \<and> dropWhile P s = s" by (cases s) auto
  with a show ?thesis by (simp add: many1_def)
qed

lemma many1_None: "s = [] \<or> \<not> P (hd s) \<Longrightarrow> many1 P s = None"
  by (cases s) (auto simp: many1_def Let_def)

lemma literal_append [simp]: "literal w (w @ s) = Some s"
  by (simp add: literal_def)

lemma literal_hd: "w \<noteq> [] \<Longrightarrow> s \<noteq> [] \<Longrightarrow> hd s \<noteq> hd w \<Longrightarrow> literal w s = None"
  by (cases w; cases s) (auto simp: literal_def)

lemma contains_subset: "contains w s \<Longrightarrow> set w \<subseteq> set s"
proof -
  have lit: "literal w s \<noteq> None \<Longrightarrow> set w \<subseteq> set s" for s
    using set_take_subset[of "length w" s] by (auto simp: literal_def split: if_splits)
  show "contains w s \<Longrightarrow> set w \<subseteq> set s"
    unfolding contains_def
  proof (induction s)
    case (Cons c s)
    then show ?case using lit[of "c # s"] by (cases "literal w (c # s)") auto
  qed (auto simp: literal_def split: if_splits)
qed

lemma search_hit: "m s = Some x \<Longrightarrow> search m s = Some x"
  by (cases s) auto

lemma find_all_drop: "find_all m k s = find_all m 0 (drop k s)"
proof (induction s arbitrary: k)
  case (Cons c s)
  then show ?case by (cases k) auto
qed simp

lemma find_all_miss: "\<forall>i < length p. m (drop i p @ s) = None \<Longrightarrow> find_all m 0 (p @ s) = find_all m 0 s"
proof (induction p)
  case (Cons c p)
  from Cons.prems have "m (c # p @ s) = None" by force
  moreover have "\<forall>i < length p. m (drop i p @ s) = None"
    using Cons.prems by (metis Suc_less_eq drop_Suc_Cons length_Cons)
  ultimately show ?case using Cons.IH by simp
qed simp

lemma find_all_hit: "w \<noteq> [] \<Longrightarrow> m (w @ s) = Some (x, s) \<Longrightarrow> find_all m 0 (w @ s) = x # find_all m 0 s"
  by (cases w) (simp, simp, subst find_all_drop, simp)

lemma split_lines_line:
  "\<forall>c \<in> set l. \<not> brk c \<Longrightarrow> brk c' \<Longrightarrow> of_char c' \<noteq> (13::nat) \<Longrightarrow>
   split_lines brk False w (l @ c' # s) = (w @ l) # split_lines brk False [] s"
  by (induction l arbitrary: w) auto

lemma strip_pad:
  assumes "\<forall>c \<in> set p. is_space c" "s \<noteq> []" "\<not> is_space (hd s)" "\<not> is_space (last s)"
  shows "strip (p @ s) = s"
proof -
  have "dropWhile is_space (p @ s) = s" using assms by (cases s) auto
  moreover have "dropWhile is_space (rev s) = rev s"
    using assms by (cases s rule: rev_cases) auto
  ultimately show ?thesis by (simp add: strip_def)
qed

subsection \<open>What the command prints\<close>

definition newline :: char where "newline = char_of (10::nat)"

type_synonym reply = "byte list \<times> real \<times> real" \<comment> \<open>an IPv4 address and two round-trip times\<close>

definition reply_text :: "reply option \<Rightarrow> string" where
  "reply_text r =
     (case r of
        None \<Rightarrow> ''* *''
      | Some (ip, t1, t2) \<Rightarrow> dotted ip @ ''  '' @ fmt3 t1 @ '' ms  '' @ fmt3 t2 @ '' ms'')"

definition trace_line :: "nat \<Rightarrow> reply option \<Rightarrow> string" where
  "trace_line i r = (if i < 10 then '' '' else []) @ dec i @ ''  '' @ reply_text r"

fun trace_body :: "nat \<Rightarrow> reply option list \<Rightarrow> string" where
  "trace_body i [] = []"
| "trace_body i (r # rs) = trace_line i r @ newline # trace_body (Suc i) rs"

definition trace_text :: "string \<Rightarrow> reply option list \<Rightarrow> string" where
  \<comment> \<open>the output of \<open>traceroute -n -q 2\<close>; the title names the target\<close>
  "trace_text title replies = ''traceroute'' @ title @ newline # trace_body 1 replies"

definition hop_of_reply :: "nat \<Rightarrow> reply option \<Rightarrow> hop" where
  "hop_of_reply i r =
     \<lparr> hp_hop = Some (int i), hp_ip = map_option (\<lambda>(ip, _). dotted ip) r,
       hp_rtt_ms = map_option (\<lambda>(_, t1, t2). round3 ((round3 t1 + round3 t2) / 2)) r \<rparr>"

definition reply_ok :: "reply option \<Rightarrow> bool" where
  "reply_ok r \<longleftrightarrow> (case r of None \<Rightarrow> True | Some (ip, t1, t2) \<Rightarrow> length ip = 4 \<and> 0 \<le> t1 \<and> 0 \<le> t2)"

definition numeric :: "char \<Rightarrow> bool" where "numeric c \<longleftrightarrow> is_digit c \<or> c = CHR ''.''"

lemma numeric_facts: "numeric c \<Longrightarrow> \<not> is_space c \<and> \<not> is_line_break c \<and> lower_char c \<noteq> CHR ''n'' \<and> c \<noteq> CHR ''m'' \<and> c \<noteq> CHR ''*''"
  by (auto simp: numeric_def is_digit_def digit_val_def is_space_def is_line_break_def lower_char_def Let_def split: if_splits)

lemma fmt3_numeric:
  assumes "0 \<le> x"
  shows "\<forall>c \<in> set (fmt3 x). numeric c" "fmt3 x \<noteq> []"
proof -
  have "(m::nat) < 1000 \<Longrightarrow> m div 100 < 10" for m by simp
  then show "\<forall>c \<in> set (fmt3 x). numeric c"
    using assms by (auto simp: fmt3_def Let_def numeric_def is_digit_def dest: dec_digits)
  show "fmt3 x \<noteq> []" by (simp add: fmt3_def Let_def)
qed

lemma dotted_numeric: "\<forall>c \<in> set (dotted ip). numeric c"
  using dotted_chars by (auto simp: numeric_def is_digit_def)

lemma py_float_round3: "0 \<le> x \<Longrightarrow> py_float (fmt3 x) = Inr (round3 x)"
  by (simp add: py_float_fmt3 round3_def)


subsection \<open>Reading a line\<close>

lemma upto3_append:
  assumes "\<forall>c \<in> set w. is_digit c" "w \<noteq> []" "length w \<le> 3" "s = [] \<or> \<not> is_digit (hd s)"
  shows "upto3_digits (w @ s) = Some (w, s)"
proof -
  have "takeWhile is_digit (take n s) = []" for n using assms(4) by (cases n; cases s) auto
  then have "takeWhile is_digit (take 3 (w @ s)) = w"
    using assms(1,3) by (simp add: takeWhile_append2)
  with assms(2) show ?thesis by (simp add: upto3_digits_def)
qed

lemma octet_digits: "\<forall>c \<in> set (dec n). is_digit c"
  using dec_digits by (auto simp: is_digit_def)

lemma upto3_octet: "n < 256 \<Longrightarrow> s = [] \<or> \<not> is_digit (hd s) \<Longrightarrow> upto3_digits (dec n @ s) = Some (dec n, s)"
  by (rule upto3_append) (simp_all add: octet_digits length_dec_octet)

lemma not_digit_dot [simp]: "\<not> is_digit CHR ''.''" "\<not> is_digit CHR '' ''"
  by (simp_all add: is_digit_def digit_val_def)

lemma match_ip_dotted:
  assumes "length ip = 4"
  shows "match_ip (dotted ip @ CHR '' '' # s) = Some (dotted ip)"
proof -
  obtain a b c d where ip: "ip = [a, b, c, d]"
    using assms by (auto simp: length_Suc_conv numeral_eq_Suc)
  have o: "unat (x :: byte) < 256" for x by (rule unat_byte_less)
  have dots: "dot_groups 0 s = Some []" for s by simp
  show ?thesis
    by (simp add: match_ip_def ip dotted_def join_def upto3_octet o literal_def numeral_3_eq_3)
qed

lemma match_ms_hit:
  assumes "\<forall>c \<in> set w. numeric c" "w \<noteq> []"
  shows "match_ms (w @ '' ms'' @ s) = Some (w, s)"
proof -
  have "many1 numeric (w @ '' ms'' @ s) = Some (w, '' ms'' @ s)"
    using assms by (intro many1_append) (simp_all add: numeric_def)
  then show ?thesis by (simp add: match_ms_def numeric_def[abs_def] literal_def is_space_def)
qed

lemma match_ms_miss:
  assumes "\<forall>c \<in> set w. numeric c" "s \<noteq> []" "numeric (hd s)"
  shows "match_ms (w @ ''  '' @ s) = None"
proof (cases "w = []")
  case True
  then show ?thesis by (simp add: match_ms_def many1_None)
next
  case False
  have "many1 numeric (w @ ''  '' @ s) = Some (w, ''  '' @ s)"
    using assms False by (intro many1_append) (simp_all add: numeric_def)
  moreover have "dropWhile is_space (''  '' @ s) = s" using assms(2,3) numeric_facts by (cases s) (auto simp: is_space_def)
  moreover have "literal ''ms'' s = None" using assms(2,3) numeric_facts by (intro literal_hd) auto
  ultimately show ?thesis by (simp add: match_ms_def numeric_def[abs_def])
qed

lemma match_ms_blank: "match_ms ('' '' @ s) = None"
  by (simp add: match_ms_def many1_None)

lemma find_ms:
  assumes t: "0 \<le> t1" "0 \<le> t2"
  shows "find_all match_ms 0 (dotted ip @ ''  '' @ fmt3 t1 @ '' ms  '' @ fmt3 t2 @ '' ms'') = [fmt3 t1, fmt3 t2]"
proof -
  note f = fmt3_numeric[OF t(1)] fmt3_numeric[OF t(2)]
  have two: "find_all match_ms 0 (''  '' @ s) = find_all match_ms 0 s" for s
    using match_ms_blank[of s] match_ms_blank[of "CHR '' '' # s"] by simp
  have n1: "numeric (hd (fmt3 t1 @ s))" "fmt3 t1 @ s \<noteq> []" for s using f(1,2) by auto
  have "find_all match_ms 0 (dotted ip @ (''  '' @ fmt3 t1 @ '' ms  '' @ fmt3 t2 @ '' ms''))
      = find_all match_ms 0 (''  '' @ fmt3 t1 @ '' ms  '' @ fmt3 t2 @ '' ms'')"
  proof (rule find_all_miss, intro allI impI)
    fix i
    have "\<forall>c \<in> set (drop i (dotted ip)). numeric c" using dotted_numeric by (auto dest: in_set_dropD)
    from match_ms_miss[OF this n1(2) n1(1)]
    show "match_ms (drop i (dotted ip) @ ''  '' @ fmt3 t1 @ '' ms  '' @ fmt3 t2 @ '' ms'') = None" .
  qed
  also have "\<dots> = find_all match_ms 0 ((fmt3 t1 @ '' ms'') @ ''  '' @ fmt3 t2 @ '' ms'')" using two by simp
  also have "\<dots> = fmt3 t1 # find_all match_ms 0 (''  '' @ fmt3 t2 @ '' ms'')"
    by (rule find_all_hit) (simp_all only: append.assoc match_ms_hit[OF f(1,2)] append_is_Nil_conv simp_thms list.distinct)
  also have "find_all match_ms 0 (''  '' @ fmt3 t2 @ '' ms'') = find_all match_ms 0 ((fmt3 t2 @ '' ms'') @ [])" using two by simp
  also have "\<dots> = fmt3 t2 # find_all match_ms 0 []"
    by (rule find_all_hit) (simp_all only: append.assoc match_ms_hit[OF f(3,4)] append_is_Nil_conv simp_thms list.distinct)
  finally show ?thesis by simp
qed

lemma reply_chars:
  assumes "reply_ok r" "c \<in> set (reply_text r)"
  shows "numeric c \<or> c \<in> set ''* ms''"
  using assms fmt3_numeric(1) dotted_numeric by (fastforce simp: reply_text_def reply_ok_def split: option.splits)

lemma line_char: "numeric c \<or> c \<in> set ''* ms'' \<Longrightarrow> \<not> is_line_break c"
  by (elim disjE, simp add: numeric_facts) (auto simp: is_line_break_def)

lemma reply_ends: "reply_ok r \<Longrightarrow> reply_text r \<noteq> [] \<and> \<not> is_space (hd (reply_text r)) \<and> \<not> is_space (last (reply_text r))"
proof (cases r)
  case (Some x)
  obtain ip t1 t2 where x: "x = (ip, t1, t2)" by (cases x)
  assume "reply_ok r"
  then have "ip \<noteq> []" using Some x by (auto simp: reply_ok_def)
  then have ne: "dotted ip \<noteq> []" by (rule dotted_nonempty)
  then have "\<not> is_space (hd (dotted ip))" using dotted_numeric numeric_facts by (meson hd_in_set)
  with ne show ?thesis by (simp add: Some x reply_text_def is_space_def)
qed (simp add: reply_text_def is_space_def)

lemma parse_reply:
  assumes "reply_ok r"
  shows "parse_hop (int i) (reply_text r) = Inr (hop_of_reply i r)"
proof (cases r)
  case None
  then show ?thesis by (simp add: parse_hop_def reply_text_def hop_of_reply_def)
next
  case (Some x)
  obtain ip t1 t2 where x: "x = (ip, t1, t2)" by (cases x)
  with assms Some have ok: "length ip = 4" "0 \<le> t1" "0 \<le> t2" by (simp_all add: reply_ok_def)
  let ?s = "reply_text r"
  have s: "?s = dotted ip @ ''  '' @ fmt3 t1 @ '' ms  '' @ fmt3 t2 @ '' ms''" by (simp add: Some x reply_text_def)
  have "lower_char c \<noteq> CHR ''n''" if "c \<in> set ?s" for c
    using reply_chars[OF assms that] numeric_facts[of c] by (auto simp: lower_char_def)
  then have "CHR ''n'' \<notin> set (lower ?s)" unfolding lower_def set_map by (metis imageE)
  then have "\<not> contains ''no reply'' (lower ?s)" using contains_subset[of "''no reply''" "lower ?s"] by auto
  moreover have "ip \<noteq> []" using ok(1) by auto
  then have "dotted ip \<noteq> []" by (rule dotted_nonempty)
  then have "hd ?s \<noteq> CHR ''*''" using dotted_numeric numeric_facts by (metis hd_append2 hd_in_set s)
  then have "?s \<notin> {''*'', ''* *'', ''* * *''}" by auto
  moreover have "search match_ip ?s = Some (dotted ip)"
    unfolding s using match_ip_dotted[OF ok(1)] by (intro search_hit) simp
  moreover have "floats (find_all match_ms 0 ?s) = Inr [round3 t1, round3 t2]"
    unfolding s find_ms[OF ok(2,3)] by (simp add: py_float_round3 ok)
  ultimately show ?thesis
    by (simp add: parse_hop_def hop_of_reply_def Some x)
qed

lemma trace_line_facts:
  assumes "reply_ok r" "i < 256"
  shows "\<forall>c \<in> set (trace_line i r). \<not> is_line_break c" "strip (trace_line i r) = dec i @ ''  '' @ reply_text r"
    "match_hop_line (dec i @ ''  '' @ reply_text r) = Some (dec i, reply_text r)"
proof -
  have d: "numeric c" if "c \<in> set (dec i)" for c using octet_digits that by (simp add: numeric_def)
  have ne: "reply_text r \<noteq> []" "\<not> is_space (hd (reply_text r))" "\<not> is_space (last (reply_text r))"
    using reply_ends[OF assms(1)] by simp_all
  show "\<forall>c \<in> set (trace_line i r). \<not> is_line_break c"
  proof
    fix c
    assume "c \<in> set (trace_line i r)"
    then have "c \<in> set (dec i) \<or> c \<in> set (reply_text r) \<or> c = CHR '' ''"
      by (auto simp: trace_line_def split: if_splits)
    then have "numeric c \<or> c \<in> set ''* ms''" using reply_chars[OF assms(1), of c] d by auto
    then show "\<not> is_line_break c" by (rule line_char)
  qed
  have hd: "\<not> is_space (hd (dec i))" using d numeric_facts by (meson dec_nonempty hd_in_set)
  then show "strip (trace_line i r) = dec i @ ''  '' @ reply_text r"
    unfolding trace_line_def using ne by (intro strip_pad) (auto simp: is_space_def)
  have "many1 is_digit (dec i @ ''  '' @ reply_text r) = Some (dec i, ''  '' @ reply_text r)"
    by (rule many1_append) (simp_all add: octet_digits)
  moreover have "dropWhile is_space (dec i @ ''  '' @ reply_text r) = dec i @ ''  '' @ reply_text r"
    using hd by (cases "dec i") auto
  moreover have "dropWhile is_space (reply_text r) = reply_text r" using ne by (cases "reply_text r") auto
  ultimately show "match_hop_line (dec i @ ''  '' @ reply_text r) = Some (dec i, reply_text r)"
    by (simp add: match_hop_line_def is_space_def)
qed

lemma parse_body:
  assumes "\<forall>r \<in> set rs. reply_ok r" "i + length rs \<le> 256" "\<forall>n \<in> seen. n < int i"
  shows "parse_lines (split_lines is_line_break False [] (trace_body i rs)) seen
    = Inr (map2 hop_of_reply [i ..< i + length rs] rs)"
  using assms
proof (induction rs arbitrary: i seen)
  case (Cons r rs)
  have ok: "reply_ok r" "i < 256" using Cons.prems by auto
  note f = trace_line_facts[OF ok]
  have nl: "is_line_break newline" "of_char newline \<noteq> (13::nat)" by (simp_all add: newline_def is_line_break_def)
  have strip: "strip (reply_text r) = reply_text r"
    using strip_pad[of "[]" "reply_text r"] reply_ends[OF ok(1)] by simp
  have "hd (dec i @ ''  '' @ reply_text r) \<noteq> CHR ''t''"
    using octet_digits[of i] by (cases "dec i") (auto simp: is_digit_def digit_val_def)
  then have title: "take 10 (dec i @ ''  '' @ reply_text r) \<noteq> ''traceroute''"
    by (cases "dec i") auto
  have "int_of_digits (dec i) = i" by (simp add: int_of_digits_def digits_val_dec)
  moreover have "\<not> 4300 < length (dec i)" using length_dec_octet[OF ok(2)] by simp
  moreover have "int i \<notin> seen" using Cons.prems(3) by auto
  moreover have "parse_lines (split_lines is_line_break False [] (trace_body (Suc i) rs)) (insert (int i) seen)
      = Inr (map2 hop_of_reply [Suc i ..< Suc i + length rs] rs)"
    using Cons.prems by (intro Cons.IH) auto
  ultimately show ?case
    using title by (simp add: split_lines_line[OF f(1) nl] f(2,3)[unfolded append.simps] strip parse_reply[OF ok(1)] Let_def upt_conv_Cons del: upt_Suc)
qed simp

text \<open>
  What \<open>traceroute\<close> prints is read back: from a title and a line for each hop, with an address and
  two times or with two stars, the parser recovers the number, the address and the mean time of
  every hop, and marks the silent ones.
\<close>

lemma trace_text_roundtrip:
  assumes "\<forall>c \<in> set title. \<not> is_line_break c" "\<forall>r \<in> set replies. reply_ok r" "length replies < 256"
  shows "parse_trace_output (trace_text title replies) = Inr (map2 hop_of_reply [1 ..< 1 + length replies] replies)"
proof -
  have nl: "is_line_break newline" "of_char newline \<noteq> (13::nat)" by (simp_all add: newline_def is_line_break_def)
  have t: "\<forall>c \<in> set (''traceroute'' @ title). \<not> is_line_break c" using assms(1) by (auto simp: is_line_break_def)
  have s: "take 10 (strip (''traceroute'' @ title)) = ''traceroute''"
  proof -
    obtain u where "strip (''traceroute'' @ title) = ''traceroute'' @ u"
    proof -
      have "dropWhile is_space (''traceroute'' @ title) = ''traceroute'' @ title" by (simp add: is_space_def)
      moreover have "\<exists>u. rev (dropWhile is_space (rev (w @ title))) = w @ u" if "w \<noteq> []" "\<not> is_space (last w)" for w
      proof -
        have "dropWhile is_space (rev w) = rev w" using that by (cases w rule: rev_cases) auto
        then show ?thesis by (auto simp: dropWhile_append)
      qed
      from this[of "''traceroute''"] have "\<exists>u. rev (dropWhile is_space (rev (''traceroute'' @ title))) = ''traceroute'' @ u"
        by (simp add: is_space_def)
      ultimately show ?thesis using that unfolding strip_def by metis
    qed
    then show ?thesis by simp
  qed
  have "parse_trace_output (trace_text title replies)
      = parse_lines (split_lines is_line_break False [] (trace_body 1 replies)) {}"
    using split_lines_line[OF t nl, of "[]"] s by (simp add: parse_trace_output_def splitlines_def trace_text_def Let_def)
  also have "\<dots> = Inr (map2 hop_of_reply [1 ..< 1 + length replies] replies)"
    using assms by (intro parse_body) auto
  finally show ?thesis .
qed

end
