(* ===== verification/RCA_Proofs.thy ===== *)
theory RCA_Proofs
  imports RCA Trace_Proofs
begin

text \<open>
  What the root-cause analysis finds: the break of a path, from the text that \<open>traceroute\<close> prints
  to the incident; what a silent router of the baseline does to it; and what is left of the
  baseline when the trace of a recovery fails.
\<close>

subsection \<open>The live trace\<close>

lemma collapse_answered: "\<forall>h \<in> set xs. hp_ip h \<noteq> None \<Longrightarrow> collapse_hops b (xs @ ys) = xs @ collapse_hops (b \<and> xs = []) ys"
  by (induction xs arbitrary: b) auto

lemma collapse_silent: "\<forall>h \<in> set ys. hp_ip h = None \<Longrightarrow> collapse_hops True ys = []"
  by (induction ys) auto

lemma get_hops_by_num:
  assumes "h \<in> set hs" "hp_hop h = Some n" "\<And>h'. h' \<in> set hs \<Longrightarrow> hp_hop h' = Some n \<Longrightarrow> h' = h"
  shows "get (hops_by_num hs) n = Some h"
proof -
  define f where "f = (\<lambda>h (d :: (int, hop) dict). case hp_hop h of None \<Rightarrow> d | Some n \<Rightarrow> put n h d)"
  have A: "get (fold f hs d) n = (if h \<in> set hs then Some h else get d n)"
    if "\<forall>h' \<in> set hs. hp_hop h' = Some n \<longrightarrow> h' = h" for d
    using that
  proof (induction hs arbitrary: d)
    case (Cons x hs)
    have "get (f x d) n = (if x = h then Some h else get d n)"
      using Cons.prems assms(2) by (cases "hp_hop x") (auto simp: f_def)
    moreover have "get (fold f hs (f x d)) n = (if h \<in> set hs then Some h else get (f x d) n)"
      by (rule Cons.IH) (use Cons.prems in \<open>meson list.set_intros(2)\<close>)
    ultimately show ?case by (cases "x = h"; cases "h \<in> set hs") simp_all
  qed simp
  have "get (fold f hs []) n = (if h \<in> set hs then Some h else get [] n)" by (rule A) (use assms(3) in blast)
  then show ?thesis using assms(1) unfolding hops_by_num_def f_def[symmetric] by (simp only: if_True)
qed

lemma hop_ip [simp]:
  "hp_ip (hop_of_reply i (Some r)) = Some (dotted (fst r))" "hp_ip (hop_of_reply i None) = None"
  "hp_hop (hop_of_reply i r') = Some (int i)"
  by (cases r) (simp_all add: hop_of_reply_def)

definition target_hop :: "nat \<Rightarrow> string \<Rightarrow> hop" where
  "target_hop n t = \<lparr> hp_hop = Some (int n), hp_ip = Some t, hp_rtt_ms = None \<rparr>"

definition broken_trace :: "reply list \<Rightarrow> nat \<Rightarrow> string \<Rightarrow> hop list" where
  \<comment> \<open>some hops answer, then \<open>m\<close> are silent; the target is added at the end\<close>
  "broken_trace replies m t =
     (let k = length replies; answered = map2 hop_of_reply [1 ..< k + 1] (map Some replies)
      in if m = 0 then answered @ [target_hop (k + 1) t]
         else answered @ [hop_of_reply (k + 1) None, target_hop (k + 2) t])"

lemma sanitize_broken:
  assumes "t \<noteq> []" "t \<notin> (dotted \<circ> fst) ` set replies"
  shows "sanitize_traceroute_hops
      (map2 hop_of_reply [1 ..< 1 + (length replies + m)] (map Some replies @ replicate m None)) (Some t)
    = broken_trace replies m t"
proof -
  let ?k = "length replies"
  define answered where "answered = map2 hop_of_reply [1 ..< ?k + 1] (map Some replies)"
  define silent where "silent = map2 hop_of_reply [?k + 1 ..< ?k + 1 + m] (replicate m None)"
  have "map2 hop_of_reply ([1 ..< ?k + 1] @ [?k + 1 ..< ?k + 1 + m]) (map Some replies @ replicate m None) = answered @ silent"
    unfolding answered_def silent_def by (subst zip_append) (simp_all del: upt_Suc)
  moreover have "[1 ..< 1 + (?k + m)] = [1 ..< ?k + 1] @ [?k + 1 ..< ?k + 1 + m]"
    using upt_add_eq_append[of 1 "?k + 1" m] by (simp del: upt_Suc add: add.assoc add.commute add.left_commute)
  ultimately have hops: "map2 hop_of_reply [1 ..< 1 + (?k + m)] (map Some replies @ replicate m None) = answered @ silent"
    by (simp only:)
  have ips: "map hp_ip answered = map (Some \<circ> dotted \<circ> fst) replies"
    by (rule nth_equalityI) (auto simp: answered_def simp del: upt_Suc)
  have ans: "hp_ip h \<noteq> None \<and> hp_ip h \<noteq> Some t" if "h \<in> set answered" for h
  proof -
    have "hp_ip h \<in> set (map (Some \<circ> dotted \<circ> fst) replies)" using that ips by (metis image_eqI set_map)
    then obtain r where "r \<in> set replies" "hp_ip h = Some (dotted (fst r))" by fastforce
    with assms(2) show ?thesis by (metis comp_apply image_eqI option.distinct(1) option.inject)
  qed
  have len: "length answered = ?k" by (simp add: answered_def del: upt_Suc)
  have lens: "length silent = m" by (simp add: silent_def del: upt_Suc)
  have last: "hp_hop (last answered) = Some (int ?k)" if "?k \<noteq> 0"
    using that by (simp add: answered_def last_conv_nth del: upt_Suc)
  have la: "hp_ip (last answered) \<noteq> Some t" if "?k \<noteq> 0"
    using ans[of "last answered"] len that by (metis last_in_set length_0_conv)
  have collapsed: "collapse_hops False (answered @ silent) = answered @ (if m = 0 then [] else [hop_of_reply (?k + 1) None])"
  proof (cases m)
    case (Suc j)
    have "silent = hop_of_reply (?k + 1) None # map2 hop_of_reply [?k + 2 ..< ?k + 1 + m] (replicate j None)"
      unfolding silent_def Suc by (subst upt_conv_Cons) simp_all
    moreover have "\<forall>h \<in> set (map2 hop_of_reply is (replicate j None)). hp_ip h = None" for "is"
      by (auto simp: hop_of_reply_def dest: set_zip_rightD)
    moreover have "collapse_hops False (answered @ silent) = answered @ collapse_hops False silent"
      using collapse_answered[of answered False silent] ans by simp
    ultimately show ?thesis using Suc by (simp add: collapse_silent) (simp add: hop_of_reply_def)
  qed (use collapse_answered[of answered False silent] ans in \<open>simp add: silent_def\<close>)
  show ?thesis
  proof (cases "?k = 0 \<and> m = 0")
    case True
    then show ?thesis using assms(1) by (simp add: sanitize_traceroute_hops_def broken_trace_def target_hop_def)
  next
    case False
    then have ne: "answered @ silent \<noteq> []" using len lens by auto
    define c where "c = answered @ (if m = 0 then [] else [hop_of_reply (?k + 1) None])"
    have c: "c \<noteq> []" "hp_ip (last c) \<noteq> Some t" "hp_hop (last c) = Some (int (if m = 0 then ?k else ?k + 1))"
      using False len la last by (auto simp: c_def)
    have "sanitize_traceroute_hops (answered @ silent) (Some t)
        = c @ [\<lparr> hp_hop = Some (int (if m = 0 then ?k else ?k + 1) + 1), hp_ip = Some t, hp_rtt_ms = None \<rparr>]"
      using assms(1) ne c False unfolding sanitize_traceroute_hops_def collapsed c_def[symmetric]
      by (auto simp: Let_def collapsed c_def[symmetric])
    moreover have "broken_trace replies m t = (if m = 0 then answered @ [target_hop (?k + 1) t]
         else answered @ [hop_of_reply (?k + 1) None, target_hop (?k + 2) t])"
      by (simp only: broken_trace_def Let_def answered_def)
    ultimately show ?thesis unfolding hops by (simp add: c_def target_hop_def)
  qed
qed

lemma run_traceroute_ends:
  assumes "run_traceroute nics run t = Inr hops" "t \<noteq> []"
  shows "hops \<noteq> [] \<and> hp_ip (last hops) = Some t"
proof -
  have "sanitize_traceroute_hops hs (Some t) \<noteq> [] \<and> hp_ip (last (sanitize_traceroute_hops hs (Some t))) = Some t" for hs
    using assms(2) by (simp add: sanitize_traceroute_hops_def Let_def)
  with assms(1) show ?thesis by (auto simp: run_traceroute_def Let_def split: if_splits sum.splits)
qed

subsection \<open>The comparison\<close>

lemma compare_confirmed:
  "\<forall>j < length as. confirmed live (idx + j) (as ! j) \<Longrightarrow>
   compare_hops t g live idx before (as @ bs)
     = compare_hops t g live (idx + length as) (if as = [] then before else Some (last as)) bs"
proof (induction as arbitrary: idx before)
  case (Cons a as)
  have "confirmed live idx a" using Cons.prems by force
  moreover have "\<forall>j < length as. confirmed live (Suc idx + j) (as ! j)"
    using Cons.prems by (metis Suc_less_eq add_Suc_shift length_Cons nth_Cons_Suc)
  ultimately show ?case using Cons.IH[of "Suc idx" "Some a"] by simp
qed simp

lemma compare_diverged:
  assumes "\<forall>j < k. confirmed live j (base ! j)" "k < length base" "\<not> confirmed live k (base ! k)"
  shows "compare_hops t g live 0 None base
    = map_sum id Some (diverged_at t g (if k = 0 then None else Some (base ! (k - 1))) (base ! k))"
proof -
  have "base = take k base @ base ! k # drop (Suc k) base" using assms(2) by (rule id_take_nth_drop)
  then have "compare_hops t g live 0 None base
      = compare_hops t g live 0 None (take k base @ base ! k # drop (Suc k) base)" by simp
  also have "\<dots> = compare_hops t g live k (if take k base = [] then None else Some (last (take k base))) (base ! k # drop (Suc k) base)"
    using assms(1,2) by (subst compare_confirmed) simp_all
  also have "(if take k base = [] then None else Some (last (take k base))) = (if k = 0 then None else Some (base ! (k - 1)))"
    using assms(2) by (cases k) (auto simp: take_Suc_conv_app_nth)
  finally show ?thesis using assms(3) by simp
qed

lemma compare_all:
  assumes "\<forall>j < length base. confirmed live j (base ! j)"
  shows "compare_hops t g live 0 None base = Inr None"
  using compare_confirmed[of base live 0 t g None "[]"] assms by simp

text \<open>Where the verdict points, when all hops carry numbers and addresses.\<close>

definition points_at :: "verdict \<Rightarrow> int \<Rightarrow> string \<Rightarrow> string option \<Rightarrow> bool" where
  "points_at v num ip good \<longleftrightarrow>
     vd_failed_hop_number v = Some num \<and> vd_failed_hop_ip v = Some ip \<and> vd_last_known_good v = good"

lemma diverged_points:
  assumes "hp_hop b = Some num" "hp_ip b = Some ip" "ip \<noteq> []"
    and "before = None \<and> good = None \<or> (\<exists>h s. before = Some h \<and> hp_ip h = Some s \<and> s \<noteq> [] \<and> good = Some s)"
  shows "\<exists>v. diverged_at t g before b = Inr v \<and> points_at v num ip good"
  using assms by (auto simp: diverged_at_def Let_def nonempty_def pred_text_def or_text_def points_at_def)

lemma not_diverged_points:
  assumes "2 \<le> length base" "hp_hop (last base) = Some num" "hp_ip (last base) = Some ip" "ip \<noteq> []"
    and "hp_ip (base ! (length base - 2)) = Some good" "good \<noteq> []"
  shows "\<exists>v. not_diverged t g base = Inr v \<and> points_at v num ip (Some good)"
proof -
  have "base \<noteq> []" "1 < length base" using assms(1) by auto
  then show ?thesis
    using assms(2-6) by (simp add: not_diverged_def Let_def nonempty_def pred_text_def or_text_def points_at_def)
qed

subsection \<open>The break of a path\<close>

lemma dotted_inj: "dotted a = dotted b \<Longrightarrow> a \<noteq> [] \<Longrightarrow> b \<noteq> [] \<Longrightarrow> a = b"
proof -
  assume eq: "dotted a = dotted b" and ne: "a \<noteq> []" "b \<noteq> []"
  then have m: "map (\<lambda>x. dec (unat x)) a = map (\<lambda>x. dec (unat x)) b" using split_dotted by metis
  have "inj (\<lambda>x :: byte. dec (unat x))" by (simp add: inj_def word_unat_eq_iff)
  with m show "a = b" by (metis inj_map_eq_map)
qed

definition numbered :: "hop list \<Rightarrow> bool" where
  "numbered hops \<longleftrightarrow> (\<forall>j < length hops. hp_hop (hops ! j) = Some (int (Suc j)))"

lemma confirmed_numbered:
  assumes "numbered live" "j < length live" "hp_hop b = Some (int (Suc j))" "hp_ip b = Some ip"
  shows "confirmed live j b \<longleftrightarrow> hp_ip (live ! j) = Some ip"
proof -
  have "get (hops_by_num live) (int (Suc j)) = Some (live ! j)"
  proof (rule get_hops_by_num)
    fix h'
    assume "h' \<in> set live" "hp_hop h' = Some (int (Suc j))"
    then show "h' = live ! j" using assms(1) by (auto simp: numbered_def in_set_conv_nth)
  qed (use assms(1,2) in \<open>simp_all add: numbered_def\<close>)
  then show ?thesis using assms(3,4) by (auto simp: confirmed_def live_hop_def split: option.splits)
qed

lemma broken_trace_nth:
  fixes replies t m
  defines "live \<equiv> broken_trace replies m t" and "k \<equiv> length replies"
  shows "numbered live" "k < length live" "hp_ip (live ! k) = (if m = 0 then Some t else None)"
    "j < k \<Longrightarrow> hp_ip (live ! j) = Some (dotted (fst (replies ! j)))"
proof -
  define a where "a = map2 hop_of_reply [1 ..< k + 1] (map Some replies)"
  have a: "length a = k" by (simp add: a_def k_def del: upt_Suc)
  have aj: "a ! j = hop_of_reply (Suc j) (Some (replies ! j))" if "j < k" for j
    using that by (simp add: a_def k_def del: upt_Suc)
  have live: "live = (if m = 0 then a @ [target_hop (k + 1) t] else a @ [hop_of_reply (k + 1) None, target_hop (k + 2) t])"
    unfolding live_def k_def a_def broken_trace_def Let_def by (rule refl)
  show "k < length live" "hp_ip (live ! k) = (if m = 0 then Some t else None)"
    using a by (auto simp: live nth_append target_hop_def)
  show "hp_ip (live ! j) = Some (dotted (fst (replies ! j)))" if "j < k"
    using a aj[OF that] that by (simp add: live nth_append)
  show "numbered live"
    unfolding numbered_def
  proof (intro allI impI)
    fix j
    assume j: "j < length live"
    have "j < k \<or> j = k \<or> j = Suc k \<and> m \<noteq> 0" using j a by (cases "m = 0") (auto simp: live)
    then consider "j < k" | "j = k" | "j = Suc k" "m \<noteq> 0" by blast
    then show "hp_hop (live ! j) = Some (int (Suc j))"
      by cases (use a aj in \<open>auto simp: live nth_append target_hop_def\<close>)
  qed
qed

lemma evaluate_break:
  fixes path :: "byte list list"
  assumes path: "2 \<le> length path" "distinct path" "\<forall>ip \<in> set path. ip \<noteq> []" "k < length path"
    and base: "numbered base" "map hp_ip base = map (Some \<circ> dotted) path"
    and replies: "map fst replies = take k path"
  shows "\<exists>v. evaluate_rca (dotted (last path)) False base (broken_trace replies m (dotted (last path))) = Inr v \<and>
    points_at v (int k + 1) (dotted (path ! k)) (if k = 0 then None else Some (dotted (path ! (k - 1))))"
proof -
  define t where "t = dotted (last path)"
  define live where "live = broken_trace replies m t"
  define g where "g = (case ip_address t of Inl _ \<Rightarrow> False | Inr a \<Rightarrow> is_global a)"
  have len: "length base = length path" using base(2) by (metis length_map)
  have k: "length replies = k" using replies path(4) by (metis length_map length_take min.absorb4)
  have b: "hp_hop (base ! j) = Some (int (Suc j))" "hp_ip (base ! j) = Some (dotted (path ! j))" if "j < length path" for j
    using that base(1) len arg_cong[OF base(2), of "\<lambda>xs. xs ! j"] by (simp_all add: numbered_def)
  have ne: "dotted (path ! j) \<noteq> []" if "j < length path" for j
    using that path(3) by (simp add: dotted_nonempty)
  note l = broken_trace_nth[where replies = replies and m = m and t = t, folded live_def, unfolded k]
  have conf: "confirmed live j (base ! j) \<longleftrightarrow> hp_ip (live ! j) = Some (dotted (path ! j))" if "j \<le> k" for j
    using that path(4) l(2) b[of j] by (intro confirmed_numbered[OF l(1)]) auto
  have answered: "confirmed live j (base ! j)" if "j < k" for j
  proof -
    have "fst (replies ! j) = path ! j" using arg_cong[OF replies, of "\<lambda>xs. xs ! j"] that k by simp
    with conf[of j] l(4)[OF that] that show ?thesis by simp
  qed
  have at_k: "confirmed live k (base ! k) \<longleftrightarrow> m = 0 \<and> Suc k = length path"
  proof -
    have "path \<noteq> []" using path(1) by auto
    then have "last path = path ! (length path - 1)" by (rule last_conv_nth)
    moreover have "t = dotted (path ! k) \<longleftrightarrow> last path = path ! k"
      unfolding t_def using dotted_inj path(3,4) \<open>path \<noteq> []\<close> by (metis last_in_set nth_mem)
    ultimately have "t = dotted (path ! k) \<longleftrightarrow> Suc k = length path"
      using path(1,2,4) by (auto simp: nth_eq_iff_index_eq)
    with conf[of k] l(3) show ?thesis by auto
  qed
  have before: "(if k = 0 then None else Some (base ! (k - 1))) = None \<and> (if k = 0 then None else Some (dotted (path ! (k - 1)))) = None
      \<or> (\<exists>h s. (if k = 0 then None else Some (base ! (k - 1))) = Some h \<and> hp_ip h = Some s \<and> s \<noteq> []
            \<and> (if k = 0 then None else Some (dotted (path ! (k - 1)))) = Some s)"
    using path(4) b(2)[of "k - 1"] ne[of "k - 1"] by auto
  have num: "hp_hop (base ! k) = Some (int k + 1)" using b(1)[OF path(4)] by simp
  have eval: "evaluate_rca t False base live = (case compare_hops t g live 0 None base of
                 Inl e \<Rightarrow> Inl e | Inr (Some v) \<Rightarrow> Inr v | Inr None \<Rightarrow> not_diverged t g base)"
    unfolding evaluate_rca_def g_def[symmetric] Let_def using path(1) len by simp
  show ?thesis
    unfolding t_def[symmetric] live_def[symmetric] eval
  proof (cases "m = 0 \<and> Suc k = length path")
    case True
    then have all: "\<forall>j < length base. confirmed live j (base ! j)"
      using answered at_k len less_Suc_eq by metis
    have "base \<noteq> []" using path(1) len by auto
    then have last: "last base = base ! k" "base ! (length base - 2) = base ! (k - 1)" "k \<noteq> 0"
      using True len path(1) by (auto simp: last_conv_nth intro!: arg_cong[of _ _ "(!) base"])
    have "\<exists>v. not_diverged t g base = Inr v \<and> points_at v (int k + 1) (dotted (path ! k)) (Some (dotted (path ! (k - 1))))"
      using path(1,4) len last num b(2)[of k] b(2)[of "k - 1"] ne[of k] ne[of "k - 1"]
      by (intro not_diverged_points) auto
    with last(3) show "\<exists>v. (case compare_hops t g live 0 None base of
                 Inl e \<Rightarrow> Inl e | Inr (Some v) \<Rightarrow> Inr v | Inr None \<Rightarrow> not_diverged t g base) = Inr v \<and>
      points_at v (int k + 1) (dotted (path ! k)) (if k = 0 then None else Some (dotted (path ! (k - 1))))"
      unfolding compare_all[OF all] by simp
  next
    case False
    then have nc: "\<not> confirmed live k (base ! k)" using at_k by simp
    have c: "compare_hops t g live 0 None base
        = map_sum id Some (diverged_at t g (if k = 0 then None else Some (base ! (k - 1))) (base ! k))"
      by (rule compare_diverged) (use answered nc path(4) len in auto)
    obtain v where d: "diverged_at t g (if k = 0 then None else Some (base ! (k - 1))) (base ! k) = Inr v"
        "points_at v (int k + 1) (dotted (path ! k)) (if k = 0 then None else Some (dotted (path ! (k - 1))))"
      using diverged_points[OF num b(2)[OF path(4)] ne[OF path(4)] before] by blast
    then show "\<exists>v. (case compare_hops t g live 0 None base of
                 Inl e \<Rightarrow> Inl e | Inr (Some v) \<Rightarrow> Inr v | Inr None \<Rightarrow> not_diverged t g base) = Inr v \<and>
      points_at v (int k + 1) (dotted (path ! k)) (if k = 0 then None else Some (dotted (path ! (k - 1))))"
      unfolding c d(1) by simp
  qed
qed

text \<open>
  C16. Root-cause analysis finds the break. The baseline of an endpoint behind routers lists the path
  to it; the first \<open>k\<close> hops of the path answer the trace that runs after the failure, and the rest
  are silent. From the text that \<open>traceroute\<close> prints, the incident that is recorded names the
  first hop that does not answer as the failed one, with its number, and the hop before it as the
  last that is known to be good.
\<close>

theorem rca_finds_break:
  assumes ep: "find (\<lambda>e. tg_id e = i \<and> tg_status e \<noteq> ''DELETED'') (rd_endpoints db) = Some ep"
      "tg_enable_rca ep" "\<not> tg_is_l2_segment ep" "tg_ip_address ep = dotted (last path)"
    and path: "2 \<le> length path" "distinct path" "\<forall>ip \<in> set path. length ip = 4" "k < length path"
    and base: "get (rd_baselines db) i = Some row" "numbered (rt_hops row)" "map hp_ip (rt_hops row) = map (Some \<circ> dotted) path"
    and trace: "\<not> is_local_subnet_destination (ne_nics env) (dotted (last path))"
      "ne_run env (dotted (last path)) Icmp_traceroute = Inr (0, trace_text title (map Some replies @ replicate m None))"
      "\<forall>c \<in> set title. \<not> is_line_break c" "length replies + m < 256"
      "map fst replies = take k path" "\<forall>(ip, t1, t2) \<in> set replies. 0 \<le> t1 \<and> 0 \<le> t2"
  shows "\<exists>ev inc. run_differential_rca env i new now db = Inr (ev, db\<lparr>rd_incidents := rd_incidents db @ [inc]\<rparr>) \<and>
    ic_endpoint_id inc = i \<and> ic_failed_hop_number inc = Some (int k + 1) \<and> ic_failed_hop_ip inc = Some (dotted (path ! k)) \<and>
    ic_last_known_good inc = (if k = 0 then None else Some (dotted (path ! (k - 1)))) \<and> \<not> ic_is_resolved inc"
proof -
  let ?t = "dotted (last path)"
  have "path \<noteq> []" using path(1) by auto
  have ips: "\<forall>ip \<in> set path. ip \<noteq> []" using path(3) by force
  have t: "?t \<noteq> []" using ips \<open>path \<noteq> []\<close> by (simp add: dotted_nonempty)
  have ip_in: "fst r \<in> set (take k path)" if "r \<in> set replies" for r
    using that trace(5) by (metis image_eqI set_map)
  have "last path \<notin> set (take k path)"
  proof -
    have "path = take k path @ drop k path" "drop k path \<noteq> []" using path(4) by auto
    then have "last path \<in> set (drop k path)" by (metis last_append last_in_set)
    with path(2) show ?thesis by (metis append_take_drop_id disjoint_iff distinct_append)
  qed
  have not_t: "?t \<notin> (dotted \<circ> fst) ` set replies"
  proof
    assume "?t \<in> (dotted \<circ> fst) ` set replies"
    then obtain r where r: "r \<in> set replies" "?t = dotted (fst r)" by auto
    then have "fst r \<noteq> []" using ip_in ips by (meson in_set_takeD)
    then have "last path = fst r" using dotted_inj[OF r(2)] ips \<open>path \<noteq> []\<close> by simp
    with ip_in[OF r(1)] \<open>last path \<notin> set (take k path)\<close> show False by simp
  qed
  have ok: "reply_ok r" if "r \<in> set (map Some replies @ replicate m None)" for r
  proof (cases r)
    case (Some x)
    with that have x: "x \<in> set replies" by auto
    with ip_in path(3) have "length (fst x) = 4" by (meson in_set_takeD)
    with Some x trace(6) show ?thesis by (auto simp: reply_ok_def)
  qed (simp add: reply_ok_def)
  have "trace_text title (map Some replies @ replicate m None) \<noteq> []" by (simp add: trace_text_def)
  then have out: "trace_output (ne_run env ?t) = trace_text title (map Some replies @ replicate m None)"
    using trace(2) by (simp add: trace_output_def)
  have "parse_trace_output (trace_text title (map Some replies @ replicate m None))
      = Inr (map2 hop_of_reply [1 ..< 1 + (length replies + m)] (map Some replies @ replicate m None))"
    using trace_text_roundtrip[OF trace(3), of "map Some replies @ replicate m None"] ok trace(4) by (simp del: upt_Suc)
  then have run: "run_traceroute (ne_nics env) (ne_run env ?t) ?t = Inr (broken_trace replies m ?t)"
    unfolding run_traceroute_def using trace(1) sanitize_broken[OF t not_t, of m]
    by (simp add: out trace_text_def Let_def del: upt_Suc)
  from evaluate_break[OF path(1,2) ips path(4) base(2,3) trace(5), of m] obtain v where
    v: "evaluate_rca ?t False (rt_hops row) (broken_trace replies m ?t) = Inr v"
    "points_at v (int k + 1) (dotted (path ! k)) (if k = 0 then None else Some (dotted (path ! (k - 1))))" by blast
  show ?thesis
    using ep base(1) run v by (auto simp: run_differential_rca_def Let_def points_at_def)
qed

definition demo_env :: "(string \<Rightarrow> trace_runs) \<Rightarrow> net_env" where
  "demo_env run = \<lparr> ne_route = Inl ValueError, ne_arp = Inl ValueError, ne_nics = Inl ValueError, ne_run = run \<rparr>"

definition demo_target :: "string \<Rightarrow> target_row" where
  "demo_target ip = \<lparr> tg_id = 7, tg_ip_address = ip, tg_enable_rca = True, tg_is_l2_segment = False, tg_status = ''ACTIVE'',
     tg_manual_parent_id = None, tg_scheduled_discovery = True \<rparr>"

definition demo_db :: "string \<Rightarrow> hop list \<Rightarrow> route_db" where
  "demo_db ip hops = \<lparr> rd_endpoints = [demo_target ip], rd_baselines = [(7, \<lparr> rt_total_hops = length hops, rt_hops = hops \<rparr>)],
     rd_incidents = [] \<rparr>"

theorem rca_finds_break_witness:
  "\<exists>ev inc. run_differential_rca
      (demo_env (\<lambda>t c. Inr (0, trace_text '' to 10.9.0.1'' (map Some [([10, 0, 0, 1], 1, 1)] @ replicate 2 None)))) 7 8 0
      (demo_db (dotted (last [[10, 0, 0, 1], [10, 9, 0, 1]]))
        [\<lparr> hp_hop = Some 1, hp_ip = Some (dotted [10, 0, 0, 1]), hp_rtt_ms = None \<rparr>,
         \<lparr> hp_hop = Some 2, hp_ip = Some (dotted [10, 9, 0, 1]), hp_rtt_ms = None \<rparr>])
      = Inr (ev, (demo_db (dotted (last [[10, 0, 0, 1], [10, 9, 0, 1]]))
        [\<lparr> hp_hop = Some 1, hp_ip = Some (dotted [10, 0, 0, 1]), hp_rtt_ms = None \<rparr>,
         \<lparr> hp_hop = Some 2, hp_ip = Some (dotted [10, 9, 0, 1]), hp_rtt_ms = None \<rparr>])\<lparr>rd_incidents := [] @ [inc]\<rparr>) \<and>
    ic_failed_hop_number inc = Some 2 \<and> ic_failed_hop_ip inc = Some (dotted [10, 9, 0, 1]) \<and>
    ic_last_known_good inc = Some (dotted [10, 0, 0, 1])"
proof -
  let ?path = "[[10, 0, 0, 1], [10, 9, 0, 1]] :: byte list list"
  let ?replies = "[([10, 0, 0, 1], 1, 1)] :: reply list"
  let ?hops = "[\<lparr> hp_hop = Some 1, hp_ip = Some (dotted [10, 0, 0, 1]), hp_rtt_ms = None \<rparr>,
         \<lparr> hp_hop = Some 2, hp_ip = Some (dotted [10, 9, 0, 1]), hp_rtt_ms = None \<rparr>]"
  let ?t = "dotted (last ?path)"
  let ?env = "demo_env (\<lambda>t c. Inr (0, trace_text '' to 10.9.0.1'' (map Some ?replies @ replicate 2 None)))"
  have "strip ?t = ?t" by (rule strip_dotted)
  then have l: "\<not> is_local_subnet_destination (ne_nics ?env) ?t"
    by (simp add: is_local_subnet_destination_def demo_env_def ip_address_dotted be_nat_def in_net_def)
  have n: "numbered ?hops"
    unfolding numbered_def
  proof (intro allI impI)
    fix j
    assume "j < length ?hops"
    then have "j = 0 \<or> j = 1" by auto
    then show "hp_hop (?hops ! j) = Some (int (Suc j))" by auto
  qed
  have title: "\<forall>c \<in> set '' to 10.9.0.1''. \<not> is_line_break c" by code_simp
  have "\<exists>ev inc. run_differential_rca ?env 7 8 0 (demo_db ?t ?hops)
      = Inr (ev, (demo_db ?t ?hops)\<lparr>rd_incidents := rd_incidents (demo_db ?t ?hops) @ [inc]\<rparr>) \<and>
    ic_endpoint_id inc = 7 \<and> ic_failed_hop_number inc = Some (int 1 + 1) \<and> ic_failed_hop_ip inc = Some (dotted (?path ! 1)) \<and>
    ic_last_known_good inc = (if (1::nat) = 0 then None else Some (dotted (?path ! (1 - 1)))) \<and> \<not> ic_is_resolved inc"
    by (rule rca_finds_break[where ep = "demo_target ?t" and row = "\<lparr> rt_total_hops = 2, rt_hops = ?hops \<rparr>" and m = 2
          and replies = ?replies and title = "'' to 10.9.0.1''" and path = ?path and k = 1])
      (use l n title in \<open>simp_all add: demo_db_def demo_target_def demo_env_def\<close>)
  then show ?thesis by (auto simp: demo_db_def)
qed

text \<open>
  A silent router in the baseline takes the blame. If the baseline has a hop without an address
  and the trace confirms the hops before it, the analysis names this hop, with the address of the
  target, whatever the rest of the trace shows: a failure behind the silent router is never found.
\<close>

lemma rca_blames_silent_router:
  assumes "evaluate_rca t False base live = Inr v" "2 \<le> length base"
    and "j < length base" "hp_ip (base ! j) = None" "\<forall>i < j. confirmed live i (base ! i)"
  shows "vd_failed_hop_number v = hp_hop (base ! j) \<and> vd_failed_hop_ip v = Some t"
proof -
  define g where "g = (case ip_address t of Inl _ \<Rightarrow> False | Inr a \<Rightarrow> is_global a)"
  have "\<not> confirmed live j (base ! j)" using assms(4) by (auto simp: confirmed_def split: option.splits)
  note c = compare_diverged[OF assms(5,3) this, of t g]
  have "evaluate_rca t False base live = (case compare_hops t g live 0 None base of
                 Inl e \<Rightarrow> Inl e | Inr (Some v) \<Rightarrow> Inr v | Inr None \<Rightarrow> not_diverged t g base)"
    unfolding evaluate_rca_def g_def[symmetric] Let_def using assms(2) by simp
  then have "diverged_at t g (if j = 0 then None else Some (base ! (j - 1))) (base ! j) = Inr v"
    using assms(1) unfolding c
    by (cases "diverged_at t g (if j = 0 then None else Some (base ! (j - 1))) (base ! j)") simp_all
  then show ?thesis
    using assms(4) by (auto simp: diverged_at_def Let_def or_text_def split: option.splits sum.splits)
qed

lemma rca_blames_silent_router_witness:
  "\<exists>v. evaluate_rca ''10.9.0.1'' False
      [\<lparr> hp_hop = Some 1, hp_ip = None, hp_rtt_ms = None \<rparr>, \<lparr> hp_hop = Some 2, hp_ip = Some ''10.0.0.1'', hp_rtt_ms = None \<rparr>,
       \<lparr> hp_hop = Some 3, hp_ip = Some ''10.9.0.1'', hp_rtt_ms = None \<rparr>]
      [\<lparr> hp_hop = Some 1, hp_ip = None, hp_rtt_ms = None \<rparr>, \<lparr> hp_hop = Some 2, hp_ip = Some ''10.0.0.1'', hp_rtt_ms = None \<rparr>] = Inr v
    \<and> vd_failed_hop_number v = Some 1 \<and> vd_failed_hop_ip v = Some ''10.9.0.1''"
proof -
  let ?b = "[\<lparr> hp_hop = Some 1, hp_ip = None, hp_rtt_ms = None \<rparr>, \<lparr> hp_hop = Some 2, hp_ip = Some ''10.0.0.1'', hp_rtt_ms = None \<rparr>,
       \<lparr> hp_hop = Some 3, hp_ip = Some ''10.9.0.1'', hp_rtt_ms = None \<rparr>]"
  let ?l = "[\<lparr> hp_hop = Some 1, hp_ip = None, hp_rtt_ms = None \<rparr>, \<lparr> hp_hop = Some 2, hp_ip = Some ''10.0.0.1'', hp_rtt_ms = None \<rparr>]"
  have "\<not> confirmed ?l 0 (?b ! 0)" by (simp add: confirmed_def split: option.splits)
  then obtain v where v: "evaluate_rca ''10.9.0.1'' False ?b ?l = Inr v"
    by (simp add: evaluate_rca_def diverged_at_def Let_def)
  from rca_blames_silent_router[OF v, of 0] v show ?thesis by simp
qed

subsection \<open>The baseline after a failed trace\<close>

lemma refresh_keeps_trace:
  assumes "refresh_baseline_route env ep t macs db = Inr (res, macs', db')" "t \<noteq> []"
  shows "\<exists>hops. run_traceroute (ne_nics env) (ne_run env t) t = Inr hops \<and>
    get (rd_baselines db') ep = Some \<lparr> rt_total_hops = length hops, rt_hops = hops \<rparr>"
proof -
  obtain hops where h: "run_traceroute (ne_nics env) (ne_run env t) t = Inr hops"
    using assms(1) by (auto simp: refresh_baseline_route_def split: sum.splits)
  from run_traceroute_ends[OF h assms(2)] have "reachable hops"
    unfolding reachable_def list_ex_iff by (metis last_in_set option.distinct(1))
  with assms(1) h show ?thesis
    by (auto simp: refresh_baseline_route_def Let_def update_l2_def upsert_route_def)
qed

lemma failed_trace:
  assumes "\<forall>c. \<exists>e. run c = Inl e" "t \<noteq> []"
  shows "\<exists>rtt. run_traceroute nics run t = Inr [\<lparr> hp_hop = Some 1, hp_ip = Some t, hp_rtt_ms = rtt \<rparr>]"
proof -
  have "trace_output run = []"
    using assms(1)[rule_format, of Icmp_traceroute] assms(1)[rule_format, of Udp_traceroute] assms(1)[rule_format, of Tracepath]
    by (auto simp: trace_output_def)
  then show ?thesis using assms(2) by (auto simp: run_traceroute_def sanitize_traceroute_hops_def)
qed

lemma one_hop_private_is_l2:
  "ip_address t = Inr a \<Longrightarrow> \<not> is_global a \<Longrightarrow> bd_is_l2 (classify_boundary_tier env t 1)"
  by (simp add: classify_boundary_tier_def Let_def)

lemma find_map_id:
  "(\<And>e. Q (f e) = Q e) \<Longrightarrow> find Q (map f xs) = map_option f (find Q xs)"
  by (induction xs) auto

text \<open>
  A recovery whose trace fails destroys the baseline. For an endpoint with a private address,
  when no trace command runs at the time of its recovery, the stored route, however long it was,
  becomes the single hop of the endpoint itself, and the endpoint is marked as being on the local
  segment; every later analysis then blames that segment, whatever its own trace shows.
\<close>

lemma failed_trace_destroys_baseline:
  assumes "find (\<lambda>e. tg_id e = i \<and> tg_status e \<noteq> ''DELETED'') (rd_endpoints db) = Some ep" "tg_ip_address ep = t"
    and "ip_address t = Inr a" "\<not> is_global a" "\<forall>c. \<exists>e. ne_run env t c = Inl e"
  shows "\<exists>ev macs' db' rtt. handle_endpoint_recovery env i t macs db = Inr (ev, macs', db') \<and>
    get (rd_baselines db') i = Some \<lparr> rt_total_hops = 1, rt_hops = [\<lparr> hp_hop = Some 1, hp_ip = Some t, hp_rtt_ms = rtt \<rparr>] \<rparr> \<and>
    (\<forall>env' new now ev' db''. run_differential_rca env' i new now db' = Inr (Some ev', db'') \<longrightarrow>
       ev' = Rca_opened new i (map tg_id (filter (\<lambda>e. tg_manual_parent_id e = Some i \<and> tg_status e \<noteq> ''DELETED'') (rd_endpoints db)))
               (l2_verdict t))"
proof -
  have t: "t \<noteq> []" using assms(3) by (auto simp: ip_address_def parse_ipv4_def parse_ipv6_def)
  from failed_trace[OF assms(5) t] obtain rtt where
    run: "run_traceroute (ne_nics env) (ne_run env t) t = Inr [\<lparr> hp_hop = Some 1, hp_ip = Some t, hp_rtt_ms = rtt \<rparr>]" by blast
  define hops where "hops = [\<lparr> hp_hop = Some (1 :: int), hp_ip = Some t, hp_rtt_ms = rtt \<rparr>]"
  define db' where "db' = update_l2 i True (upsert_route i hops (resolve_incidents i db))"
  have l2: "bd_is_l2 (classify_boundary_tier env t 1)" by (rule one_hop_private_is_l2[OF assms(3,4)])
  have "reachable hops" by (simp add: hops_def reachable_def)
  then have rec: "\<exists>macs'. handle_endpoint_recovery env i t macs db = Inr (Rca_closed i, macs', db')"
    using l2 by (simp add: handle_endpoint_recovery_def refresh_baseline_route_def run hops_def[symmetric] db'_def Let_def)
      (simp add: hops_def)
  have base: "get (rd_baselines db') i = Some \<lparr> rt_total_hops = 1, rt_hops = hops \<rparr>"
    by (simp add: db'_def update_l2_def upsert_route_def hops_def)
  let ?f = "\<lambda>e. if tg_id e = i then e\<lparr>tg_is_l2_segment := True\<rparr> else e"
  have eps: "rd_endpoints db' = map ?f (rd_endpoints db)"
    by (simp add: db'_def update_l2_def upsert_route_def resolve_incidents_def)
  have found: "find (\<lambda>e. tg_id e = i \<and> tg_status e \<noteq> ''DELETED'') (rd_endpoints db') = Some (ep\<lparr>tg_is_l2_segment := True\<rparr>)"
  proof -
    have "tg_id ep = i" using assms(1) by (auto simp: find_Some_iff)
    then show ?thesis
      unfolding eps by (subst find_map_id) (auto simp: assms(1))
  qed
  have symptoms: "map tg_id (filter (\<lambda>e. tg_manual_parent_id e = Some i \<and> tg_status e \<noteq> ''DELETED'') (rd_endpoints db'))
      = map tg_id (filter (\<lambda>e. tg_manual_parent_id e = Some i \<and> tg_status e \<noteq> ''DELETED'') (rd_endpoints db))"
  proof -
    have "map tg_id (filter (\<lambda>e. tg_manual_parent_id e = Some i \<and> tg_status e \<noteq> ''DELETED'') (map ?f xs))
        = map tg_id (filter (\<lambda>e. tg_manual_parent_id e = Some i \<and> tg_status e \<noteq> ''DELETED'') xs)" for xs
      by (induction xs) auto
    then show ?thesis unfolding eps .
  qed
  have "ev' = Rca_opened new i (map tg_id (filter (\<lambda>e. tg_manual_parent_id e = Some i \<and> tg_status e \<noteq> ''DELETED'') (rd_endpoints db)))
               (l2_verdict t)"
    if "run_differential_rca env' i new now db' = Inr (Some ev', db'')" for env' new now ev' db''
    using that assms(2) unfolding run_differential_rca_def found option.case symptoms
    by (auto simp: Let_def evaluate_rca_def split: if_splits sum.splits)
  with rec base show ?thesis by (auto simp: hops_def)
qed

lemma failed_trace_destroys_baseline_witness:
  "\<exists>ev macs' db' rtt. handle_endpoint_recovery (demo_env (\<lambda>t c. Inl ValueError)) 7 (dotted [10, 9, 0, 1]) Map.empty
      (demo_db (dotted [10, 9, 0, 1])
        [\<lparr> hp_hop = Some 1, hp_ip = Some ''10.0.0.1'', hp_rtt_ms = None \<rparr>,
         \<lparr> hp_hop = Some 2, hp_ip = Some (dotted [10, 9, 0, 1]), hp_rtt_ms = None \<rparr>]) = Inr (ev, macs', db') \<and>
    get (rd_baselines db') 7 = Some \<lparr> rt_total_hops = 1,
      rt_hops = [\<lparr> hp_hop = Some 1, hp_ip = Some (dotted [10, 9, 0, 1]), hp_rtt_ms = rtt \<rparr>] \<rparr>"
proof -
  let ?t = "dotted [10, 9, 0, 1]"
  let ?hops = "[\<lparr> hp_hop = Some 1, hp_ip = Some ''10.0.0.1'', hp_rtt_ms = None \<rparr>,
         \<lparr> hp_hop = Some 2, hp_ip = Some ?t, hp_rtt_ms = None \<rparr>]"
  have a: "ip_address ?t = Inr (V4 (be_nat [10, 9, 0, 1]))" by (simp add: ip_address_dotted)
  have g: "\<not> is_global (V4 (be_nat [10, 9, 0, 1]))"
    by (simp add: be_nat_def in_net_def ipv4_private_def in_nets_def ipv4_private_networks_def ipv4_private_exceptions_def)
  show ?thesis
    using failed_trace_destroys_baseline[where i = 7 and db = "demo_db ?t ?hops" and ep = "demo_target ?t" and t = ?t
        and macs = Map.empty and env = "demo_env (\<lambda>t c. Inl ValueError)", OF _ _ a g]
    by (simp add: demo_db_def demo_target_def demo_env_def) blast
qed

end
