(* ===== verification/SSRF.thy ===== *)
theory SSRF
  imports Py_Address
begin

text \<open>
  Outbound destinations (\<open>services/ssrf_validator.py\<close>): the check of a webhook URL before it is
  used, and the network backend that checks the addresses again when it connects. The resolver is
  a parameter: it lists the addresses of a name, or fails. \<open>urlparse\<close> is modelled as far as the
  code reads its result.
\<close>

subsection \<open>The text of an address\<close>

definition v4_text :: "nat \<Rightarrow> string" where
  "v4_text n = join ''.'' (map dec [n div 2 ^ 24, n div 2 ^ 16 mod 256, n div 2 ^ 8 mod 256, n mod 256])"

definition v6_text :: "nat \<Rightarrow> string" where
  \<comment> \<open>the first longest run of two or more zero groups becomes \<open>::\<close>\<close>
  "v6_text n =
     (let ws = map (\<lambda>i. n div 65536 ^ (7 - i) mod 65536) [0..<8];
          (b, l) = best_run ws;
          piece = (\<lambda>i. if 2 \<le> l \<and> b \<le> i \<and> i < b + l then (if i = b then '':'' else [])
                       else (if i = 0 then [] else '':'') @ hex (ws ! i))
      in concat (map piece [0..<8]) @ (if 2 \<le> l \<and> b + l = 8 then '':'' else []))"

fun ip_text :: "ip_addr \<Rightarrow> string" where
  "ip_text (V4 n) = v4_text n"
| "ip_text (V6 n scope) = v6_text n @ (case scope of None \<Rightarrow> [] | Some s \<Rightarrow> CHR ''%'' # s)"

subsection \<open>Addresses\<close>

definition BLOCKED_IPS :: "string list" where
  "BLOCKED_IPS = [''169.254.169.254'', ''fd00:ec2::254'']"

fun in_cgnat :: "ip_addr \<Rightarrow> bool" where
  "in_cgnat (V4 n) = in_net 32 10 0x64400000 n"
| "in_cgnat (V6 _ _) = False"

definition unwrap :: "ip_addr \<Rightarrow> ip_addr" where
  "unwrap ip = (case ipv4_mapped ip of None \<Rightarrow> ip | Some m \<Rightarrow> V4 m)"

definition refused_by_backend :: "bool \<Rightarrow> ip_addr \<Rightarrow> bool" where
  "refused_by_backend allow_private ip \<longleftrightarrow>
     ip_text ip \<in> set BLOCKED_IPS \<or>
     (if \<not> allow_private then \<not> is_global ip \<or> in_cgnat ip
      else is_loopback ip \<or> is_link_local ip \<or> is_multicast ip \<or> is_reserved ip \<or> is_unspecified ip)"

fun checked_addresses :: "bool \<Rightarrow> string list \<Rightarrow> string list result" where
  \<comment> \<open>the texts of the addresses that pass, in order\<close>
  "checked_addresses allow_private [] = Inr []"
| "checked_addresses allow_private (ip_str # rest) =
     (case ip_address ip_str of
        Inl e \<Rightarrow> Inl e
      | Inr a \<Rightarrow>
          (let ip = unwrap a
           in if refused_by_backend allow_private ip then Inl ValueError
              else map_sum id (Cons (ip_text ip)) (checked_addresses allow_private rest)))"

definition connect_tcp :: "bool \<Rightarrow> (string \<Rightarrow> string list result) \<Rightarrow> string \<Rightarrow> string result" where
  \<comment> \<open>the address that the inner backend connects to\<close>
  "connect_tcp allow_private getaddrinfo host =
     (case getaddrinfo host of
        Inl _ \<Rightarrow> Inl ValueError
      | Inr addr_info \<Rightarrow>
          if addr_info = [] then Inl ValueError
          else map_sum id hd (checked_addresses allow_private addr_info))"

subsection \<open>URLs\<close>

record url =
  u_scheme :: string
  u_netloc :: string

definition is_alpha :: "char \<Rightarrow> bool" where
  "is_alpha c \<longleftrightarrow> (let k = of_char c :: nat in 65 \<le> k \<and> k \<le> 90 \<or> 97 \<le> k \<and> k \<le> 122)"

definition before :: "char \<Rightarrow> string \<Rightarrow> string" where "before c s = takeWhile (\<lambda>x. x \<noteq> c) s"
definition after :: "char \<Rightarrow> string \<Rightarrow> string" where "after c s = drop 1 (dropWhile (\<lambda>x. x \<noteq> c) s)"

definition bracketed_ok :: "string \<Rightarrow> bool" where
  \<comment> \<open>the brackets of a network location are balanced and hold an IPv6 address\<close>
  "bracketed_ok netloc \<longleftrightarrow>
     (CHR ''['' \<in> set netloc \<longleftrightarrow> CHR '']'' \<in> set netloc) \<and>
     (CHR ''['' \<in> set netloc \<longrightarrow>
        (case ip_address (before CHR '']'' (after CHR ''['' netloc)) of Inr (V6 _ _) \<Rightarrow> True | _ \<Rightarrow> False))"

definition urlparse :: "string \<Rightarrow> url result" where
  "urlparse s =
     (let s = dropWhile (\<lambda>c. of_char c \<le> (32::nat)) s;
          s = filter (\<lambda>c. of_char c \<notin> {9::nat, 10, 13}) s;
          name = before CHR '':'' s;
          has_scheme = CHR '':'' \<in> set s \<and> name \<noteq> [] \<and> is_alpha (hd name) \<and>
            list_all (\<lambda>c. is_alpha c \<or> digit_val c \<noteq> None \<or> c \<in> set ''+-.'') name;
          rest = (if has_scheme then after CHR '':'' s else s);
          netloc = (if take 2 rest = ''//'' then takeWhile (\<lambda>c. c \<notin> set ''/?#'') (drop 2 rest) else [])
      in if bracketed_ok netloc
         then Inr \<lparr> u_scheme = (if has_scheme then lower name else []), u_netloc = netloc \<rparr>
         else Inl ValueError)"

definition hostinfo :: "string \<Rightarrow> string \<times> string" where
  \<comment> \<open>host and port, after the last \<open>@\<close>\<close>
  "hostinfo netloc =
     (let info = last (split_on CHR ''@'' netloc)
      in if CHR ''['' \<in> set info
         then (before CHR '']'' (after CHR ''['' info), after CHR '':'' (after CHR '']'' (after CHR ''['' info)))
         else (before CHR '':'' info, after CHR '':'' info))"

definition hostname_of :: "url \<Rightarrow> string" where
  \<comment> \<open>empty for none; a zone keeps its case\<close>
  "hostname_of u =
     (let host = fst (hostinfo (u_netloc u))
      in lower (before CHR ''%'' host) @ dropWhile (\<lambda>c. c \<noteq> CHR ''%'') host)"

definition port_ok :: "url \<Rightarrow> bool" where
  "port_ok u \<longleftrightarrow>
     (let port = snd (hostinfo (u_netloc u))
      in port = [] \<or> (all_digits port \<and> (case digits_val 0 port of Some n \<Rightarrow> n \<le> 65535 | None \<Rightarrow> False)))"

datatype url_error = Url_empty | Url_protocol | Url_no_host | Url_ssrf | Url_dns | Url_value

definition refused_by_check :: "bool \<Rightarrow> bool \<Rightarrow> ip_addr \<Rightarrow> bool" where
  "refused_by_check allow_private allow_loopback ip \<longleftrightarrow>
     ip_text ip \<in> set BLOCKED_IPS \<or> (\<not> allow_loopback \<and> is_loopback ip) \<or> is_link_local ip \<or>
     is_multicast ip \<or> is_reserved ip \<or> is_unspecified ip \<or>
     (\<not> allow_private \<and> (\<not> is_global ip \<or> is_private ip \<or> in_cgnat ip))"

fun parse_all :: "string list \<Rightarrow> ip_addr list result" where
  "parse_all [] = Inr []"
| "parse_all (s # ss) = (case ip_address s of Inl e \<Rightarrow> Inl e | Inr a \<Rightarrow> map_sum id (Cons a) (parse_all ss))"

definition resolve :: "(string \<Rightarrow> string list result) \<Rightarrow> url \<Rightarrow> string \<Rightarrow> url_error + ip_addr list" where
  \<comment> \<open>\<open>resolved_ips\<close>: a literal address, or what the resolver lists\<close>
  "resolve getaddrinfo u hostname =
     (case ip_address hostname of
        Inr a \<Rightarrow> Inr [a]
      | Inl _ \<Rightarrow>
          if \<not> port_ok u then Inl Url_value
          else (case getaddrinfo hostname of
                  Inl _ \<Rightarrow> Inl Url_dns
                | Inr addr_info \<Rightarrow>
                    (case parse_all addr_info of
                       Inl _ \<Rightarrow> Inl Url_value
                     | Inr ips \<Rightarrow> if ips = [] then Inl Url_dns else Inr ips)))"

definition validate_outbound_url ::
  "(string \<Rightarrow> string list result) \<Rightarrow> string \<Rightarrow> bool \<Rightarrow> bool \<Rightarrow> url_error + unit" where
  \<comment> \<open>the flags: private and loopback destinations are allowed\<close>
  "validate_outbound_url getaddrinfo s allow_private allow_loopback =
     (if s = [] then Inl Url_empty
      else (case urlparse s of
              Inl _ \<Rightarrow> Inl Url_value
            | Inr parsed \<Rightarrow>
                if u_scheme parsed \<notin> {''http'', ''https''} then Inl Url_protocol
                else (let hostname = hostname_of parsed
                      in if hostname = [] then Inl Url_no_host
                         else if hostname \<in> set BLOCKED_IPS then Inl Url_ssrf
                         else (case resolve getaddrinfo parsed hostname of
                                 Inl e \<Rightarrow> Inl e
                               | Inr ips \<Rightarrow>
                                   if list_ex (\<lambda>ip. refused_by_check allow_private allow_loopback (unwrap ip)) ips
                                   then Inl Url_ssrf else Inr ()))))"

subsection \<open>What is reached\<close>

lemma checked_addresses_all:
  "checked_addresses allow ss = Inr ts \<Longrightarrow>
   \<exists>as. list_all2 (\<lambda>s a. ip_address s = Inr a \<and> \<not> refused_by_backend allow (unwrap a)) ss as \<and> ts = map (ip_text \<circ> unwrap) as"
proof (induction ss arbitrary: ts)
  case (Cons s ss)
  then obtain a where a: "ip_address s = Inr a" by (auto split: sum.splits)
  with Cons.prems have ok: "\<not> refused_by_backend allow (unwrap a)" by (auto simp: Let_def split: if_splits)
  with Cons.prems a obtain us where us: "checked_addresses allow ss = Inr us" "ts = ip_text (unwrap a) # us"
    by (auto simp: Let_def map_sum_Inr)
  from Cons.IH[OF us(1)] obtain as where
    "list_all2 (\<lambda>s a. ip_address s = Inr a \<and> \<not> refused_by_backend allow (unwrap a)) ss as" "us = map (ip_text \<circ> unwrap) as" by blast
  with a ok us(2) show ?case by (intro exI[of _ "a # as"]) simp
qed simp

lemma in_nets_member: "(k, net) \<in> set nets \<Longrightarrow> in_net w k net n \<Longrightarrow> in_nets w nets n"
  by (auto simp: in_nets_def list_ex_iff)

lemma special_v4_private:
  "in_net 32 8 0x7F000000 n \<Longrightarrow> ipv4_private n" "in_net 32 16 0xA9FE0000 n \<Longrightarrow> ipv4_private n" "ipv4_private 0"
  by (auto simp: ipv4_private_def in_nets_def ipv4_private_networks_def ipv4_private_exceptions_def in_net_def)

lemma special_v6_private:
  "\<not> n div 2 ^ 32 = 0xFFFF \<Longrightarrow> in_net 128 10 (0xFE80 * 2 ^ 112) n \<or> n \<le> 1 \<Longrightarrow> is_private (V6 n s)"
  by (auto simp: in_nets_def ipv6_private_networks_def ipv6_private_exceptions_def in_net_def le_Suc_eq)

definition public_address :: "ip_addr \<Rightarrow> bool" where
  "public_address ip \<longleftrightarrow>
     is_global ip \<and> \<not> is_private ip \<and> \<not> in_cgnat ip \<and> \<not> is_loopback ip \<and> \<not> is_link_local ip \<and> \<not> is_unspecified ip"

lemma is_global_public: "ipv4_mapped ip = None \<Longrightarrow> is_global ip \<Longrightarrow> public_address ip"
proof (cases ip)
  case (V4 n)
  assume "is_global ip"
  with V4 have n: "\<not> ipv4_private n" "\<not> in_net 32 10 0x64400000 n" by simp_all
  have "n \<noteq> 0" using n(1) special_v4_private(3) by (cases "n = 0") simp_all
  with V4 n special_v4_private(1,2)[of n] show ?thesis by (auto simp: public_address_def)
next
  case (V6 n s)
  assume m: "ipv4_mapped ip = None" and g: "is_global ip"
  from m V6 have "\<not> n div 2 ^ 32 = 0xFFFF" by (simp split: if_splits)
  with special_v6_private[of n s] g V6 have "\<not> (in_net 128 10 (0xFE80 * 2 ^ 112) n \<or> n \<le> 1)" by auto
  with g V6 show ?thesis by (auto simp: public_address_def)
qed

lemma unwrap_unmapped: "ipv4_mapped (unwrap ip) = None"
  by (cases ip) (auto simp: unwrap_def)

lemma backend_passes: "\<not> refused_by_backend False (unwrap ip) \<Longrightarrow> public_address (unwrap ip) \<and> ip_text (unwrap ip) \<notin> set BLOCKED_IPS"
  using is_global_public[OF unwrap_unmapped] by (auto simp: refused_by_backend_def)

text \<open>
  C7. A connection of the strict client is only made to an address that was checked: every
  address that the resolver listed is a public one, after an IPv4 address was taken out of its IPv6
  form, and the one dialled is the text of the first of them, whatever a second look-up would say.
\<close>

theorem connect_reaches_public:
  assumes "connect_tcp False getaddrinfo host = Inr target"
  shows "\<exists>addr_info as. getaddrinfo host = Inr addr_info \<and>
    list_all2 (\<lambda>s a. ip_address s = Inr a \<and> public_address (unwrap a) \<and> ip_text (unwrap a) \<notin> set BLOCKED_IPS) addr_info as \<and>
    as \<noteq> [] \<and> target = ip_text (unwrap (hd as))"
proof -
  obtain addr_info where r: "getaddrinfo host = Inr addr_info" "addr_info \<noteq> []"
    using assms by (auto simp: connect_tcp_def split: sum.splits if_splits)
  then obtain ts where ts: "checked_addresses False addr_info = Inr ts" "target = hd ts"
    using assms by (auto simp: connect_tcp_def map_sum_Inr)
  from checked_addresses_all[OF ts(1)] obtain as where
    as: "list_all2 (\<lambda>s a. ip_address s = Inr a \<and> \<not> refused_by_backend False (unwrap a)) addr_info as" "ts = map (ip_text \<circ> unwrap) as"
    by blast
  have "list_all2 (\<lambda>s a. ip_address s = Inr a \<and> public_address (unwrap a) \<and> ip_text (unwrap a) \<notin> set BLOCKED_IPS) addr_info as"
    using as(1) by (rule list_all2_mono) (use backend_passes in blast)
  moreover have "as \<noteq> []" using as(1) r(2) by auto
  ultimately show ?thesis using r(1) ts(2) as(2) by (intro exI[of _ addr_info] exI[of _ as]) (simp add: hd_map)
qed

lemma dotted_9999: "dotted [9,9,9,9] = ''9.9.9.9''" and text_9999: "v4_text 0x09090909 = ''9.9.9.9''"
  and ip_9999: "ip_address ''9.9.9.9'' = Inr (V4 0x09090909)"
proof -
  have nine: "dec 9 = ''9''" by (simp add: dec_cases digit_def) code_simp
  show d: "dotted [9,9,9,9] = ''9.9.9.9''" by (simp add: dotted_def join_def nine)
  show "v4_text 0x09090909 = ''9.9.9.9''" by (simp add: v4_text_def join_def nine)
  show "ip_address ''9.9.9.9'' = Inr (V4 0x09090909)"
    using ip_address_dotted[of "[9,9,9,9]"] by (simp add: d be_nat_def)
qed

lemma allowed_9999: "\<not> refused_by_check False False (V4 0x09090909)" "\<not> refused_by_backend False (V4 0x09090909)"
  by (simp_all add: refused_by_check_def refused_by_backend_def text_9999 BLOCKED_IPS_def in_net_def in_nets_def
      ipv4_private_def ipv4_private_networks_def ipv4_private_exceptions_def)

theorem connect_reaches_public_witness:
  "connect_tcp False (\<lambda>_. Inr [''9.9.9.9'']) ''hook.example'' = Inr ''9.9.9.9'' \<and>
   (\<exists>as. list_all2 (\<lambda>s a. ip_address s = Inr a \<and> public_address (unwrap a) \<and> ip_text (unwrap a) \<notin> set BLOCKED_IPS) [''9.9.9.9''] as)"
proof -
  have c: "connect_tcp False (\<lambda>_. Inr [''9.9.9.9'']) ''hook.example'' = Inr ''9.9.9.9''"
    by (simp add: connect_tcp_def ip_9999 unwrap_def allowed_9999 text_9999)
  from connect_reaches_public[OF c] c show ?thesis by auto
qed

subsection \<open>Where the two checks differ\<close>

text \<open>The validator refuses what the connection would: but for the strict flags not the other way
  round. Multicast and translated addresses pass the connection, and the metadata address passes both
  with a zone appended.\<close>

lemma backend_weaker: "\<not> refused_by_check False False (unwrap ip) \<Longrightarrow> \<not> refused_by_backend False (unwrap ip)"
  by (simp add: refused_by_check_def refused_by_backend_def)

lemma multicast_connects: "refused_by_check False False (V4 0xE0000001)" "\<not> refused_by_backend False (V4 0xE0000001)"
proof -
  have t: "v4_text 0xE0000001 = ''224.0.0.1''"
    by (simp add: v4_text_def join_def dec_cases digit_def) code_simp
  show "refused_by_check False False (V4 0xE0000001)" by (simp add: refused_by_check_def in_net_def)
  show "\<not> refused_by_backend False (V4 0xE0000001)"
    by (simp add: refused_by_backend_def t BLOCKED_IPS_def in_net_def in_nets_def
      ipv4_private_def ipv4_private_networks_def ipv4_private_exceptions_def)
qed

lemma zone_not_blocked: "ip_text (V6 n (Some z)) \<notin> set BLOCKED_IPS"
proof -
  have "CHR ''%'' \<in> set (ip_text (V6 n (Some z)))" by simp
  moreover have "CHR ''%'' \<notin> set t" if "t \<in> set BLOCKED_IPS" for t using that by (auto simp: BLOCKED_IPS_def)
  ultimately show ?thesis by blast
qed

lemma metadata_with_zone_connects:
  \<comment> \<open>\<open>fd00:ec2::254%z\<close>, when private destinations are allowed\<close>
  "\<not> refused_by_backend True (V6 (0xFD000EC2 * 2 ^ 96 + 0x254) (Some z))"
  "\<not> refused_by_check True False (V6 (0xFD000EC2 * 2 ^ 96 + 0x254) (Some z))"
  using zone_not_blocked[of "0xFD000EC2 * 2 ^ 96 + 0x254" z]
  by (simp_all add: refused_by_backend_def refused_by_check_def in_net_def ipv6_reserved_networks_def)

end
