(* ===== verification/Alerts.thy ===== *)
theory Alerts
  imports SSRF Trace
begin

text \<open>
  The alert dispatcher (\<open>services/alert_dispatcher.py\<close>): the caches that throttle and suppress
  alerts, the decision for each channel, the delivery with its attempts, and the election of the
  process that dispatches. What the database holds, the providers' replies and the resolver are
  the environment of an event; the payload that the formatters build is left out.
\<close>

subsection \<open>Channels and events\<close>

datatype recipients = Address_text string | Address_list "string list"

record channel_config =
  cf_webhook_url :: "string option"
  cf_smtp_host :: "string option"
  cf_to_emails :: "recipients option"
  cf_to_email :: "recipients option"

record alert_channel =
  ac_id :: uuid
  ac_name :: string
  ac_type :: string
  ac_is_enabled :: bool
  ac_config :: channel_config \<comment> \<open>decrypted\<close>
  ac_endpoint_ids :: "string list"
  ac_subnet_filters :: "string list"
  ac_severity_filters :: "string list"

record alert_event =
  ae_type :: string
  ae_endpoint_id :: "string option"
  ae_node_id :: "string option"
  ae_hostname :: "string option"
  ae_endpoint_name :: "string option"
  ae_ip_address :: "string option"
  ae_operational_state :: "string option"
  ae_current_state :: "string option"
  ae_new_state :: "string option"
  ae_is_symptom :: bool
  ae_suppressed_by_upstream :: bool
  ae_incident_id :: "string option"
  ae_root_id :: "string option"
  ae_symptom_ids :: "string list"
  ae_is_resolved :: bool

fun first_text :: "string option list \<Rightarrow> string \<Rightarrow> string" where
  \<comment> \<open>\<open>a or b or ... or z\<close>\<close>
  "first_text [] z = z"
| "first_text (x # xs) z = or_text x (first_text xs z)"

subsection \<open>The caches\<close>

record suppression =
  sp_incident_id :: string
  sp_parent_id :: string
  sp_expires_at :: instant

record active_rca =
  ar_root_id :: string
  ar_symptoms :: "string list"
  ar_expires_at :: instant

type_synonym rate_key = "uuid \<times> string \<times> string" \<comment> \<open>channel, endpoint, severity\<close>

record dispatcher =
  d_rate_limits :: "(rate_key, instant) dict"
  d_flapping :: "(string, instant list) dict"
  d_suppressed :: "(string, suppression) dict"
  d_rcas :: "(string, active_rca) dict"

definition no_caches :: dispatcher where
  "no_caches = \<lparr> d_rate_limits = [], d_flapping = [], d_suppressed = [], d_rcas = [] \<rparr>"

abbreviation minutes :: "int \<Rightarrow> instant" where "minutes n \<equiv> sec (60 * n)"

definition prune_memory_caches :: "instant \<Rightarrow> dispatcher \<Rightarrow> dispatcher" where
  "prune_memory_caches now d =
     (let active = (\<lambda>ts. filter (\<lambda>t. now - minutes 10 \<le> t) ts)
      in d\<lparr>d_rate_limits := filter (\<lambda>(k, last_sent). \<not> last_sent < now - minutes 60) (d_rate_limits d),
           d_flapping := map (\<lambda>(k, ts). (k, active ts)) (filter (\<lambda>(k, ts). active ts \<noteq> []) (d_flapping d)),
           d_suppressed := filter (\<lambda>(k, s). \<not> sp_expires_at s < now) (d_suppressed d),
           d_rcas := filter (\<lambda>(k, a). \<not> ar_expires_at a < now) (d_rcas d)\<rparr>)"

definition rca_incident :: "instant \<Rightarrow> alert_event \<Rightarrow> dispatcher \<Rightarrow> dispatcher" where
  \<comment> \<open>the branch for \<open>RCA_INCIDENT\<close>\<close>
  "rca_incident now ev d =
     (let inc_id = or_text (ae_incident_id ev) []; root_id = or_text (ae_root_id ev) []
      in if ae_is_resolved ev then
           d\<lparr>d_rcas := del inc_id (d_rcas d),
             d_suppressed := filter (\<lambda>(c, s). \<not> (sp_incident_id s = inc_id \<or> sp_parent_id s = root_id)) (d_suppressed d)\<rparr>
         else
           (let ttl_expires = now + minutes 30;
                entry = \<lparr> sp_incident_id = inc_id, sp_parent_id = root_id, sp_expires_at = ttl_expires \<rparr>;
                d = (if inc_id \<noteq> [] then
                       d\<lparr>d_rcas := put inc_id \<lparr> ar_root_id = root_id, ar_symptoms = ae_symptom_ids ev,
                                               ar_expires_at = ttl_expires \<rparr> (d_rcas d)\<rparr>
                     else d)
            in d\<lparr>d_suppressed := fold (\<lambda>c. put c entry) (ae_symptom_ids ev) (d_suppressed d)\<rparr>))"

definition parent_recovered :: "string \<Rightarrow> dispatcher \<Rightarrow> dispatcher" where
  "parent_recovered ep d =
     d\<lparr>d_rcas := filter (\<lambda>(i, a). ar_root_id a \<noteq> ep) (d_rcas d),
       d_suppressed := filter (\<lambda>(c, s). sp_parent_id s \<noteq> ep) (d_suppressed d)\<rparr>"

definition is_child_suppressed :: "string \<Rightarrow> instant \<Rightarrow> dispatcher \<Rightarrow> bool \<times> dispatcher" where
  "is_child_suppressed ep now d =
     (if ep = [] then (False, d)
      else (case get (d_suppressed d) ep of
              None \<Rightarrow> (False, d)
            | Some s \<Rightarrow> if sp_expires_at s < now then (False, d\<lparr>d_suppressed := del ep (d_suppressed d)\<rparr>) else (True, d)))"

definition check_flapping :: "string \<Rightarrow> instant \<Rightarrow> dispatcher \<Rightarrow> bool \<times> dispatcher" where
  "check_flapping endpoint_key now d =
     (let window = (case get (d_flapping d) endpoint_key of None \<Rightarrow> [] | Some ts \<Rightarrow> ts) @ [now];
          window = filter (\<lambda>t. now - minutes 10 \<le> t) window
      in (4 \<le> length window, d\<lparr>d_flapping := put endpoint_key window (d_flapping d)\<rparr>))"

subsection \<open>The delivery\<close>

datatype http_reply =
    Response int string
  | Request_error string \<comment> \<open>a request or timeout error of the client\<close>
  | Other_error string \<comment> \<open>any other, as the refusal of an address when it connects\<close>

datatype send_error =
    Webhook_url_missing | Url_refused url_error | No_recipient | Unsupported_channel
  | Request_failed string | Mail_failed string

type_synonym outcome = "send_error + string \<times> int option \<times> string" \<comment> \<open>status, code and message\<close>

fun post_attempts :: "(nat \<Rightarrow> http_reply) \<Rightarrow> nat \<Rightarrow> nat \<Rightarrow> outcome \<times> nat" where
  \<comment> \<open>the replies by attempt, the attempt, those left after it; the result comes with the number of posts\<close>
  "post_attempts reply k left =
     (case reply k of
        Response code body \<Rightarrow>
          (if 200 \<le> code \<and> code < 300 then (Inr (''DELIVERED'', Some code, take 500 body), 1)
           else if 400 \<le> code \<and> code < 500 then (Inr (''FAILED'', Some code, take 500 body), 1)
           else (case left of
                   0 \<Rightarrow> (Inr (''FAILED'', Some code, take 500 body), 1)
                 | Suc n \<Rightarrow> (let (r, posts) = post_attempts reply (k + 1) n in (r, posts + 1))))
      | Other_error e \<Rightarrow> (Inl (Request_failed e), 1)
      | Request_error e \<Rightarrow>
          (case left of
             0 \<Rightarrow> (Inl (Request_failed e), 1)
           | Suc n \<Rightarrow> (let (r, posts) = post_attempts reply (k + 1) n in (r, posts + 1))))"

record dispatch_env =
  de_toggle :: "string option result" \<comment> \<open>the setting \<open>alerting_enabled\<close>\<close>
  de_node :: "string \<Rightarrow> (string option \<times> string option) option" \<comment> \<open>label and address in the topology\<close>
  de_row :: "string \<Rightarrow> (string option \<times> string option) option result" \<comment> \<open>host name and address in the table\<close>
  de_channels :: "alert_channel list result" \<comment> \<open>those that are enabled\<close>
  de_getaddrinfo :: "string \<Rightarrow> string list result"
  de_allow_private :: bool \<comment> \<open>\<open>NETMON_ALLOW_PRIVATE_WEBHOOKS\<close>\<close>
  de_reply :: "alert_channel \<Rightarrow> nat \<Rightarrow> http_reply"
  de_smtp :: "alert_channel \<Rightarrow> string \<Rightarrow> string option" \<comment> \<open>the failure of a mail to a recipient, if any\<close>

definition recipients_of :: "recipients option \<Rightarrow> string list" where
  "recipients_of r =
     (case r of
        None \<Rightarrow> []
      | Some (Address_text s) \<Rightarrow>
          filter (\<lambda>e. e \<noteq> []) (map strip (split_on CHR '','' (map (\<lambda>c. if c = CHR '';'' then CHR '','' else c) s)))
      | Some (Address_list es) \<Rightarrow> filter (\<lambda>e. e \<noteq> []) (map strip es))"

definition given :: "recipients option \<Rightarrow> bool" where
  \<comment> \<open>neither missing nor empty\<close>
  "given r \<longleftrightarrow> (case r of None \<Rightarrow> False | Some (Address_text s) \<Rightarrow> s \<noteq> [] | Some (Address_list es) \<Rightarrow> es \<noteq> [])"

definition mentions_refusal :: "string \<Rightarrow> bool" where
  "mentions_refusal s \<longleftrightarrow> contains ''SSRF violation'' s \<or> contains ''Invalid protocol'' s \<or> contains ''blocked'' s"

definition smtp_host_refused :: "dispatch_env \<Rightarrow> string \<Rightarrow> url_error option" where
  \<comment> \<open>other errors are let through, unless the host in their text mentions one of these\<close>
  "smtp_host_refused env host =
     (let s = ''http://'' @ host
      in case validate_outbound_url (de_getaddrinfo env) s True True of
           Inl e \<Rightarrow>
             if e \<in> {Url_ssrf, Url_protocol} \<or> e = Url_no_host \<and> mentions_refusal s
                \<or> e = Url_dns \<and> returns (urlparse s) (\<lambda>u. mentions_refusal (hostname_of u))
             then Some e else None
         | Inr _ \<Rightarrow> None)"

definition send_to_provider :: "dispatch_env \<Rightarrow> alert_channel \<Rightarrow> outcome" where
  "send_to_provider env ch =
     (let ctype = upper (ac_type ch); config = ac_config ch
      in if ctype \<in> {''TEAMS'', ''DISCORD'', ''SLACK'', ''GENERIC_WEBHOOK''} then
           (let webhook_url = or_text (cf_webhook_url config) []
            in if webhook_url = [] then Inl Webhook_url_missing
               else (case validate_outbound_url (de_getaddrinfo env) webhook_url (de_allow_private env) False of
                       Inl e \<Rightarrow> Inl (Url_refused e)
                     | Inr _ \<Rightarrow> fst (post_attempts (de_reply env ch) 0 2)))
         else if ctype = ''EMAIL_SMTP'' then
           (let smtp_host = (case cf_smtp_host config of None \<Rightarrow> ''localhost'' | Some h \<Rightarrow> h);
                to_emails = recipients_of (if given (cf_to_emails config) then cf_to_emails config else cf_to_email config)
            in case smtp_host_refused env smtp_host of
                 Some e \<Rightarrow> Inl (Url_refused e)
               | None \<Rightarrow>
                   if to_emails = [] then Inl No_recipient
                   else (case List.map_filter (de_smtp env ch) to_emails of
                           [] \<Rightarrow> Inr (''DELIVERED'', Some 250, ''Dispatched email to '' @ dec (length to_emails) @ '' recipients.'')
                         | e # _ \<Rightarrow> Inl (Mail_failed e)))
         else Inl Unsupported_channel)"

subsection \<open>The decision for a channel\<close>

record alert =
  at_endpoint_id :: string \<comment> \<open>empty for none\<close>
  at_endpoint_name :: string
  at_ip_address :: string
  at_event_type :: string
  at_severity :: string
  at_timestamp :: instant
  at_is_flapping :: bool

record delivery_log =
  dl_channel_id :: uuid
  dl_channel_name :: string
  dl_endpoint_id :: "uuid option"
  dl_endpoint_name :: string
  dl_event_type :: string
  dl_status :: string
  dl_status_code :: "int option"
  dl_response_message :: "send_error + string option"

definition safe_uuid :: "string \<Rightarrow> uuid option" where
  "safe_uuid s = (if s = [] then None else case UUID s of Inl _ \<Rightarrow> None | Inr u \<Rightarrow> Some u)"

definition delivery_entry :: "alert_channel \<Rightarrow> alert \<Rightarrow> string \<Rightarrow> int option \<Rightarrow> send_error + string \<Rightarrow> delivery_log" where
  "delivery_entry ch a status code message =
     \<lparr> dl_channel_id = ac_id ch, dl_channel_name = ac_name ch, dl_endpoint_id = safe_uuid (at_endpoint_id a),
       dl_endpoint_name = at_endpoint_name a, dl_event_type = at_event_type a, dl_status = status,
       dl_status_code = code,
       dl_response_message = map_sum id (\<lambda>m. if m = [] then None else Some (take 1000 m)) message \<rparr>"

definition parse_network :: "string \<Rightarrow> ip_network result" where
  \<comment> \<open>\<open>ip_network(s, strict=False)\<close>\<close>
  "parse_network s =
     (case split_on CHR ''/'' s of
        [host] \<Rightarrow>
          (case ip_address host of
             Inl e \<Rightarrow> Inl e
           | Inr (V4 n) \<Rightarrow> Inr (Net4 n 32)
           | Inr (V6 n _) \<Rightarrow> Inr (Net6 n 128))
      | [host, netmask] \<Rightarrow>
          (case ipv4_network host netmask of
             Inr (n, k) \<Rightarrow> Inr (Net4 n k)
           | Inl _ \<Rightarrow>
               (case parse_ipv6 host of
                  Inl e \<Rightarrow> Inl e
                | Inr (n, _) \<Rightarrow>
                    (case (if all_digits netmask then digits_val 0 netmask else None) of
                       Some k \<Rightarrow> if k \<le> 128 then Inr (Net6 n k) else Inl ValueError
                     | None \<Rightarrow> Inl ValueError)))
      | _ \<Rightarrow> Inl ValueError)"

definition endpoint_matches :: "alert_channel \<Rightarrow> alert \<Rightarrow> bool" where
  "endpoint_matches ch a \<longleftrightarrow>
     ac_endpoint_ids ch = [] \<or> at_endpoint_id a \<noteq> [] \<and> at_endpoint_id a \<in> set (ac_endpoint_ids ch)"

definition subnet_matches :: "alert_channel \<Rightarrow> alert \<Rightarrow> bool" where
  "subnet_matches ch a \<longleftrightarrow>
     ac_subnet_filters ch = [] \<or>
     returns (ip_address (hd (split_on CHR ''/'' (strip (at_ip_address a)))))
       (\<lambda>ep_ip. list_ex (\<lambda>cidr. returns (parse_network (strip cidr)) (ip_in_network ep_ip)) (ac_subnet_filters ch))"

definition severity_matches :: "alert_channel \<Rightarrow> alert \<Rightarrow> bool" where
  "severity_matches ch a \<longleftrightarrow>
     ac_severity_filters ch = [] \<or>
     (let allowed_sevs = map upper (ac_severity_filters ch); sev_upper = upper (at_severity a)
      in if sev_upper \<in> {''UP'', ''RECOVERED''} then ''UP'' \<in> set allowed_sevs \<or> ''RECOVERED'' \<in> set allowed_sevs
         else sev_upper \<in> set allowed_sevs)"

definition rate_key_of :: "alert_channel \<Rightarrow> alert \<Rightarrow> rate_key" where
  "rate_key_of ch a =
     (ac_id ch,
      if at_endpoint_id a \<noteq> [] then at_endpoint_id a
      else ''event:'' @ at_event_type a @ CHR '':'' # (if at_endpoint_name a \<noteq> [] then at_endpoint_name a else ''global''),
      at_severity a)"

datatype decision = Ignored | Throttled string | Attempt

definition FLAPPING_MESSAGE :: string where
  "FLAPPING_MESSAGE = ''Suppressed: Endpoint is flapping (>= 4 transitions in 10 minutes). Alerts quarantined for 15 minutes.''"

definition RATE_MESSAGE :: string where
  "RATE_MESSAGE = ''Throttled by rate limiter (max 1 alert / 5 minutes per severity).''"

definition decide :: "alert \<Rightarrow> alert_channel \<Rightarrow> (rate_key, instant) dict \<Rightarrow> decision" where
  "decide a ch rl =
     (if \<not> endpoint_matches ch a then Ignored
      else if \<not> subnet_matches ch a then Ignored
      else if \<not> severity_matches ch a then Ignored
      else if at_is_flapping a then Throttled FLAPPING_MESSAGE
      else (case get rl (rate_key_of ch a) of
              Some last_sent \<Rightarrow> if at_timestamp a - last_sent < minutes 5 then Throttled RATE_MESSAGE else Attempt
            | None \<Rightarrow> Attempt))"

datatype alert_effect = Attempted rate_key instant outcome | Logged delivery_log

definition settle :: "alert \<Rightarrow> alert_channel \<Rightarrow> outcome \<Rightarrow> (rate_key, instant) dict \<Rightarrow> (rate_key, instant) dict \<times> delivery_log" where
  \<comment> \<open>after the delivery\<close>
  "settle a ch r rl =
     (case r of
        Inl e \<Rightarrow> (rl, delivery_entry ch a ''FAILED'' None (Inl e))
      | Inr (status, code, message) \<Rightarrow>
          (if status \<in> {''DELIVERED'', ''THROTTLED''} then put (rate_key_of ch a) (at_timestamp a) rl else rl,
           delivery_entry ch a status code (Inr message)))"

definition evaluate_and_send_channel ::
  "dispatch_env \<Rightarrow> alert \<Rightarrow> alert_channel \<Rightarrow> (rate_key, instant) dict \<Rightarrow> (rate_key, instant) dict \<times> alert_effect list" where
  "evaluate_and_send_channel env a ch rl =
     (case decide a ch rl of
        Ignored \<Rightarrow> (rl, [])
      | Throttled message \<Rightarrow> (rl, [Logged (delivery_entry ch a ''THROTTLED'' None (Inr message))])
      | Attempt \<Rightarrow>
          (let r = send_to_provider env ch; (rl, entry) = settle a ch r rl
           in (rl, [Attempted (rate_key_of ch a) (at_timestamp a) r, Logged entry])))"

fun send_channels ::
  "dispatch_env \<Rightarrow> alert \<Rightarrow> alert_channel list \<Rightarrow> (rate_key, instant) dict \<Rightarrow> (rate_key, instant) dict \<times> alert_effect list" where
  \<comment> \<open>the tasks of one event have distinct channels and keys: their order does not matter\<close>
  "send_channels env a [] rl = (rl, [])"
| "send_channels env a (ch # chs) rl =
     (let (rl, effects) = evaluate_and_send_channel env a ch rl; (rl, more) = send_channels env a chs rl
      in (rl, effects @ more))"

subsection \<open>The dispatch of an event\<close>

definition is_alerting_enabled :: "dispatch_env \<Rightarrow> bool" where
  "is_alerting_enabled env =
     (case de_toggle env of
        Inr (Some s) \<Rightarrow> lower (strip s) \<in> {''true'', ''1'', ''yes''}
      | _ \<Rightarrow> True)"

abbreviation unnamed :: "string \<Rightarrow> bool" where "unnamed s \<equiv> s = [] \<or> s = ''Unknown Endpoint''"
abbreviation unaddressed :: "string \<Rightarrow> bool" where "unaddressed s \<equiv> s = [] \<or> s = ''0.0.0.0''"

definition fill_in :: "string option \<times> string option \<Rightarrow> string \<times> string \<Rightarrow> string \<times> string" where
  "fill_in src known =
     (let (n, ip) = known
      in (if unnamed n then or_text (fst src) n else n, if unaddressed ip then or_text (snd src) ip else ip))"

definition event_identity :: "dispatch_env \<Rightarrow> alert_event \<Rightarrow> string \<Rightarrow> string \<times> string" where
  \<comment> \<open>name and address: of the event, else of the topology, else of the table\<close>
  "event_identity env ev ep =
     (let known = (first_text [ae_hostname ev, ae_endpoint_name ev] ''Unknown Endpoint'', or_text (ae_ip_address ev) ''0.0.0.0'')
      in if (unnamed (fst known) \<or> unaddressed (snd known)) \<and> ep \<noteq> [] then
           (let known = (case de_node env ep of None \<Rightarrow> known | Some src \<Rightarrow> fill_in src known)
            in if unnamed (fst known) \<or> unaddressed (snd known)
               then (case de_row env ep of Inr (Some src) \<Rightarrow> fill_in src known | _ \<Rightarrow> known) else known)
         else known)"

definition alert_state :: "alert_event \<Rightarrow> string" where
  "alert_state ev = upper (first_text [ae_operational_state ev, ae_current_state ev, ae_new_state ev] ''UNKNOWN'')"

definition event_endpoint :: "alert_event \<Rightarrow> string" where
  "event_endpoint ev = first_text [ae_endpoint_id ev, ae_node_id ev] []"

definition event_alert :: "dispatch_env \<Rightarrow> instant \<Rightarrow> alert_event \<Rightarrow> alert" where
  "event_alert env now ev =
     (let ep = event_endpoint ev; (endpoint_name, ip) = event_identity env ev ep
      in \<lparr> at_endpoint_id = ep, at_endpoint_name = endpoint_name, at_ip_address = ip, at_event_type = ae_type ev,
            at_severity = alert_state ev, at_timestamp = now, at_is_flapping = False \<rparr>)"

definition active_channels :: "dispatch_env \<Rightarrow> alert_channel list" where
  "active_channels env = (case de_channels env of Inl _ \<Rightarrow> [] | Inr chs \<Rightarrow> chs)"

definition suppress_event :: "instant \<Rightarrow> alert_event \<Rightarrow> dispatcher \<Rightarrow> bool \<times> dispatcher" where
  \<comment> \<open>a recovered parent releases its children; then whether the event is silenced\<close>
  "suppress_event now ev d =
     (let ep = event_endpoint ev;
          d = (if alert_state ev \<in> {''UP'', ''RECOVERED''} \<and> ep \<noteq> [] then parent_recovered ep d else d)
      in if ae_is_symptom ev \<or> ae_suppressed_by_upstream ev then (True, d) else is_child_suppressed ep now d)"

definition send_alert :: "dispatch_env \<Rightarrow> alert \<Rightarrow> dispatcher \<Rightarrow> dispatcher \<times> alert_effect list" where
  "send_alert env a d =
     (let ep_key = (if at_endpoint_id a \<noteq> [] then at_endpoint_id a else at_endpoint_name a);
          (is_flapping, d) = check_flapping ep_key (at_timestamp a) d;
          (rl, effects) = send_channels env (a\<lparr>at_is_flapping := is_flapping\<rparr>) (active_channels env) (d_rate_limits d)
      in (d\<lparr>d_rate_limits := rl\<rparr>, effects))"

definition dispatch_event :: "dispatch_env \<Rightarrow> instant \<Rightarrow> alert_event \<Rightarrow> dispatcher \<Rightarrow> dispatcher \<times> alert_effect list" where
  "dispatch_event env now ev d =
     (if ae_type ev = ''RCA_INCIDENT'' then (rca_incident now ev d, [])
      else if \<not> is_alerting_enabled env then (d, [])
      else
        (let a = event_alert env now ev; (suppressed, d) = suppress_event now ev d
         in if suppressed then
              (d, map (\<lambda>ch. Logged (delivery_entry ch a ''THROTTLED'' None (Inr ''Suppressed by upstream root cause'')))
                    (active_channels env))
            else send_alert env a d))"

subsection \<open>The test of a channel\<close>

definition test_entry :: "alert_channel \<Rightarrow> string \<Rightarrow> int option \<Rightarrow> send_error + string \<Rightarrow> delivery_log" where
  "test_entry ch status code message =
     \<lparr> dl_channel_id = ac_id ch, dl_channel_name = ac_name ch, dl_endpoint_id = None, dl_endpoint_name = ''test-probe-gateway'',
       dl_event_type = ''TEST_PROBE'', dl_status = status, dl_status_code = code,
       dl_response_message = map_sum id (\<lambda>m. if m = [] then None else Some (take 1000 m)) message \<rparr>"

definition send_test_alert :: "dispatch_env \<Rightarrow> alert_channel \<Rightarrow> (bool \<times> int \<times> (send_error + string)) \<times> delivery_log" where
  \<comment> \<open>success, code and message of the answer, and the row that is logged\<close>
  "send_test_alert env ch =
     (let webhook_url = or_text (cf_webhook_url (ac_config ch)) [];
          r = (case (if webhook_url = [] then Inr ()
                     else validate_outbound_url (de_getaddrinfo env) webhook_url (de_allow_private env) False) of
                 Inl e \<Rightarrow> Inl (Url_refused e)
               | Inr _ \<Rightarrow> send_to_provider env ch)
      in case r of
           Inl e \<Rightarrow> ((False, 400, Inl e), test_entry ch ''FAILED'' (Some 400) (Inl e))
         | Inr (status, code, msg) \<Rightarrow>
             (let is_success = (status = ''DELIVERED'')
              in ((is_success,
                   case code of Some c \<Rightarrow> if c \<noteq> 0 then c else (if is_success then 200 else 500)
                              | None \<Rightarrow> (if is_success then 200 else 500),
                   Inr (if msg \<noteq> [] then msg else if is_success then ''Test alert delivered successfully.'' else ''Delivery failed.'')),
                  test_entry ch status code (Inr msg))))"

end
