(* ===== verification/Alerts_Proofs.thy ===== *)
theory Alerts_Proofs
  imports Alerts
begin

text \<open>
  The dispatcher over a sequence of its steps: the rows it logs, the interval between two alerts of
  one kind, and the silence of the symptoms of an incident.
\<close>

datatype dispatcher_step = Prune instant | Dispatch dispatch_env instant alert_event

fun step_time :: "dispatcher_step \<Rightarrow> instant" where
  "step_time (Prune now) = now"
| "step_time (Dispatch env now ev) = now"

fun dispatcher_do :: "dispatcher_step \<Rightarrow> dispatcher \<Rightarrow> dispatcher \<times> alert_effect list" where
  "dispatcher_do (Prune now) d = (prune_memory_caches now d, [])"
| "dispatcher_do (Dispatch env now ev) d = dispatch_event env now ev d"

fun run_dispatcher :: "dispatcher_step list \<Rightarrow> dispatcher \<Rightarrow> dispatcher \<times> alert_effect list" where
  \<comment> \<open>each event is dispatched to its end before the next one\<close>
  "run_dispatcher [] d = (d, [])"
| "run_dispatcher (s # ss) d =
     (let (d, effects) = dispatcher_do s d; (d, more) = run_dispatcher ss d in (d, effects @ more))"

subsection \<open>The rows of the log\<close>

fun outcome_ok :: "outcome \<Rightarrow> bool" where
  "outcome_ok (Inl e) = True"
| "outcome_ok (Inr (status, code, message)) =
     (case code of None \<Rightarrow> False | Some c \<Rightarrow> status = (if 200 \<le> c \<and> c < 300 then ''DELIVERED'' else ''FAILED''))"

declare post_attempts.simps [simp del]

lemma post_attempts_ok: "outcome_ok (fst (post_attempts reply k n)) \<and> snd (post_attempts reply k n) \<le> n + 1"
proof (induction n arbitrary: k)
  case 0
  show ?case by (subst (1 2) post_attempts.simps) (simp split: http_reply.split)
next
  case (Suc n)
  show ?case
    using Suc.IH[of "k + 1"]
    by (subst (1 2) post_attempts.simps) (auto split: http_reply.split prod.splits)
qed

lemma send_to_provider_ok: "outcome_ok (send_to_provider env ch)"
  by (simp add: send_to_provider_def Let_def post_attempts_ok split: sum.split option.split list.split)

definition log_ok :: "delivery_log \<Rightarrow> bool" where
  "log_ok l \<longleftrightarrow>
     (dl_status l = ''THROTTLED'' \<and> dl_status_code l = None \<or>
      dl_status l = ''DELIVERED'' \<and> (\<exists>c. dl_status_code l = Some c \<and> 200 \<le> c \<and> c < 300) \<or>
      dl_status l = ''FAILED'' \<and> (\<forall>c. dl_status_code l = Some c \<longrightarrow> \<not> (200 \<le> c \<and> c < 300))) \<and>
     (case dl_response_message l of Inr (Some m) \<Rightarrow> m \<noteq> [] \<and> length m \<le> 1000 | _ \<Rightarrow> True)"

fun effect_ok :: "alert_effect \<Rightarrow> bool" where
  "effect_ok (Logged l) = log_ok l"
| "effect_ok (Attempted k t r) = outcome_ok r"

lemma entry_throttled: "log_ok (delivery_entry ch a ''THROTTLED'' None (Inr m))"
  by (simp add: log_ok_def delivery_entry_def)

lemma settle_ok: "outcome_ok r \<Longrightarrow> log_ok (snd (settle a ch r rl))"
  by (cases r) (auto simp: settle_def log_ok_def delivery_entry_def split: sum.splits option.splits if_splits)

lemma evaluate_ok: "list_all effect_ok (snd (evaluate_and_send_channel env a ch rl))"
  using settle_ok[OF send_to_provider_ok, of a ch env ch rl]
  by (auto simp: evaluate_and_send_channel_def Let_def entry_throttled send_to_provider_ok split: decision.split prod.split)

lemma send_channels_ok: "list_all effect_ok (snd (send_channels env a chs rl))"
proof (induction chs arbitrary: rl)
  case (Cons ch chs)
  show ?case
    using evaluate_ok[of env a ch rl] Cons.IH
    by (simp add: Let_def case_prod_unfold)
qed simp

lemma send_alert_ok: "list_all effect_ok (snd (send_alert env a d))"
  by (simp add: send_alert_def Let_def case_prod_unfold send_channels_ok)

lemma dispatch_event_ok: "list_all effect_ok (snd (dispatch_event env now ev d))"
  using send_alert_ok by (auto simp: dispatch_event_def Let_def case_prod_unfold list_all_iff entry_throttled)

lemma run_effects_ok: "list_all effect_ok (snd (run_dispatcher ss d))"
proof (induction ss arbitrary: d)
  case (Cons s ss)
  have "list_all effect_ok (snd (dispatcher_do s d))" by (cases s) (simp_all add: dispatch_event_ok)
  then show ?case using Cons.IH by (simp add: Let_def case_prod_unfold)
qed simp

subsection \<open>The interval between two alerts\<close>

fun delivered :: "alert_effect \<Rightarrow> (rate_key \<times> instant) set" where
  "delivered (Attempted k t (Inr (status, code, message))) = (if status = ''DELIVERED'' then {(k, t)} else {})"
| "delivered _ = {}"

fun allowed :: "(rate_key \<times> instant) set \<Rightarrow> alert_effect \<Rightarrow> bool" where
  "allowed D (Attempted k t r) = (\<forall>t0. (k, t0) \<in> D \<longrightarrow> t0 + minutes 5 \<le> t)"
| "allowed D (Logged l) = True"

fun spaced :: "(rate_key \<times> instant) set \<Rightarrow> alert_effect list \<Rightarrow> bool" where
  "spaced D [] = True"
| "spaced D (e # es) \<longleftrightarrow> allowed D e \<and> spaced (D \<union> delivered e) es"

definition deliveries :: "alert_effect list \<Rightarrow> (rate_key \<times> instant) set" where
  "deliveries es = (\<Union>e \<in> set es. delivered e)"

lemma deliveries_simps [simp]: "deliveries [] = {}" "deliveries (e # es) = delivered e \<union> deliveries es"
  "deliveries (es @ fs) = deliveries es \<union> deliveries fs"
  by (auto simp: deliveries_def)

lemma spaced_append: "spaced D (es @ fs) \<longleftrightarrow> spaced D es \<and> spaced (D \<union> deliveries es) fs"
  by (induction es arbitrary: D) (auto simp: Un_assoc)

definition remembered :: "instant \<Rightarrow> (rate_key \<times> instant) set \<Rightarrow> (rate_key, instant) dict \<Rightarrow> bool" where
  \<comment> \<open>a delivery is in the table, or too old to matter\<close>
  "remembered now D rl \<longleftrightarrow>
     dict_ok rl \<and> (\<forall>(k, t) \<in> D. t \<le> now \<and> ((\<exists>t'. get rl k = Some t' \<and> t \<le> t') \<or> t + minutes 5 \<le> now))"

lemma remembered_later: "remembered now D rl \<Longrightarrow> now \<le> now' \<Longrightarrow> remembered now' D rl"
  by (fastforce simp: remembered_def)

lemma get_filter_value:
  "dict_ok rl \<Longrightarrow> get (filter (\<lambda>(k, v). P v) rl) k = (case get rl k of None \<Rightarrow> None | Some v \<Rightarrow> if P v then Some v else None)"
  by (induction rl) (auto simp: dict_ok_Cons split: option.splits)

lemma dict_ok_filter: "dict_ok rl \<Longrightarrow> dict_ok (filter P rl)"
  by (simp add: dict_ok_def distinct_map_filter)

lemma prune_remembered:
  assumes "remembered now D (d_rate_limits d)"
  shows "remembered now D (d_rate_limits (prune_memory_caches now d))"
  using assms
  by (fastforce simp: remembered_def prune_memory_caches_def Let_def dict_ok_filter get_filter_value split: option.splits)

lemma remembered_put:
  assumes "remembered now D rl"
  shows "remembered now (D \<union> {(k, now)}) (put k now rl)"
  unfolding remembered_def
proof (intro conjI ballI)
  show "dict_ok (put k now rl)" using assms by (simp add: remembered_def)
next
  fix x assume "x \<in> D \<union> {(k, now)}"
  with assms show "case x of (k', t) \<Rightarrow> t \<le> now \<and> ((\<exists>t'. get (put k now rl) k' = Some t' \<and> t \<le> t') \<or> t + minutes 5 \<le> now)"
    by (cases x) (fastforce simp: remembered_def)
qed

lemma remembered_fewer: "remembered now D rl \<Longrightarrow> D' \<subseteq> D \<Longrightarrow> remembered now D' rl"
  by (auto simp: remembered_def)

lemma settle_remembered:
  "remembered (at_timestamp a) D rl \<Longrightarrow>
   remembered (at_timestamp a) (D \<union> delivered (Attempted (rate_key_of ch a) (at_timestamp a) r)) (fst (settle a ch r rl))"
  using remembered_put[of "at_timestamp a" D rl "rate_key_of ch a"]
  by (cases r) (auto simp: settle_def elim: remembered_fewer)

lemma evaluate_spaced:
  assumes "remembered (at_timestamp a) D rl" "evaluate_and_send_channel env a ch rl = (rl', es)"
  shows "spaced D es \<and> remembered (at_timestamp a) (D \<union> deliveries es) rl'"
proof (cases "decide a ch rl")
  case Attempt
  let ?k = "rate_key_of ch a" and ?t = "at_timestamp a" and ?r = "send_to_provider env ch"
  obtain entry where s: "settle a ch ?r rl = (rl', entry)" and es: "es = [Attempted ?k ?t ?r, Logged entry]"
    using assms(2) Attempt by (auto simp: evaluate_and_send_channel_def Let_def split: prod.splits)
  have limit: "t' + minutes 5 \<le> ?t" if "get rl ?k = Some t'" for t'
    using Attempt that by (auto simp: decide_def split: if_splits)
  have "allowed D (Attempted ?k ?t ?r)"
    using assms(1) limit by (fastforce simp: remembered_def)
  moreover have "remembered ?t (D \<union> delivered (Attempted ?k ?t ?r)) rl'"
    using settle_remembered[OF assms(1), of ch ?r] s by simp
  ultimately show ?thesis by (simp add: es)
qed (use assms in \<open>auto simp: evaluate_and_send_channel_def\<close>)

lemma send_channels_spaced:
  "remembered (at_timestamp a) D rl \<Longrightarrow> send_channels env a chs rl = (rl', es) \<Longrightarrow>
   spaced D es \<and> remembered (at_timestamp a) (D \<union> deliveries es) rl'"
proof (induction chs arbitrary: D rl es)
  case (Cons ch chs)
  obtain rl1 es1 where 1: "evaluate_and_send_channel env a ch rl = (rl1, es1)" by force
  obtain es2 where 2: "send_channels env a chs rl1 = (rl', es2)" and es: "es = es1 @ es2"
    using Cons.prems(2) 1 by (auto simp: Let_def split: prod.splits)
  from evaluate_spaced[OF Cons.prems(1) 1]
  have s: "spaced D es1" "remembered (at_timestamp a) (D \<union> deliveries es1) rl1" by simp_all
  from Cons.IH[OF s(2) 2] s(1) show ?case by (simp add: es spaced_append Un_assoc)
qed simp

lemma suppress_event_rates [simp]: "d_rate_limits (snd (suppress_event now ev d)) = d_rate_limits d"
  by (auto simp: suppress_event_def Let_def is_child_suppressed_def parent_recovered_def split: option.splits)

lemma dispatch_event_spaced:
  assumes "remembered now D (d_rate_limits d)" "dispatch_event env now ev d = (d', es)"
  shows "spaced D es \<and> remembered now (D \<union> deliveries es) (d_rate_limits d')"
proof -
  let ?a = "event_alert env now ev"
  have t: "at_timestamp ?a = now" by (simp add: event_alert_def Let_def case_prod_unfold)
  have quiet: "spaced D (map (\<lambda>ch. Logged (f ch)) chs) \<and> deliveries (map (\<lambda>ch. Logged (f ch)) chs) = {}" for f and chs :: "alert_channel list"
    by (induction chs) simp_all
  obtain b d1 where su: "suppress_event now ev d = (b, d1)" by force
  have d1: "d_rate_limits d1 = d_rate_limits d" using suppress_event_rates[of now ev d] su by simp
  have send: "spaced D fs \<and> remembered now (D \<union> deliveries fs) (d_rate_limits d2)" if s: "send_alert env ?a d1 = (d2, fs)" for d2 fs
  proof -
    obtain fl d3 where f: "check_flapping (if at_endpoint_id ?a \<noteq> [] then at_endpoint_id ?a else at_endpoint_name ?a) now d1 = (fl, d3)" by force
    then have d3: "d_rate_limits d3 = d_rate_limits d" using d1 by (auto simp: check_flapping_def Let_def)
    obtain rl where c: "send_channels env (?a\<lparr>at_is_flapping := fl\<rparr>) (active_channels env) (d_rate_limits d3) = (rl, fs)"
      "d2 = d3\<lparr>d_rate_limits := rl\<rparr>"
      using s f by (auto simp: send_alert_def Let_def t split: prod.splits)
    show ?thesis using send_channels_spaced[OF _ c(1)] assms(1) d3 c(2) t by simp
  qed
  from assms d1 show ?thesis
    by (auto simp: dispatch_event_def Let_def su quiet rca_incident_def send split: if_splits)
qed

lemma run_spaced:
  "remembered t0 D (d_rate_limits d) \<Longrightarrow> sorted (t0 # map step_time ss) \<Longrightarrow> spaced D (snd (run_dispatcher ss d))"
proof (induction ss arbitrary: t0 D d)
  case (Cons s ss)
  obtain d1 es where 1: "dispatcher_do s d = (d1, es)" by force
  have r: "remembered (step_time s) D (d_rate_limits d)" using Cons.prems remembered_later by simp
  have "spaced D es \<and> remembered (step_time s) (D \<union> deliveries es) (d_rate_limits d1)"
    using 1 r dispatch_event_spaced prune_remembered by (cases s) auto
  with Cons.IH[of "step_time s" "D \<union> deliveries es" d1] Cons.prems show ?case
    by (simp add: 1 Let_def case_prod_unfold spaced_append)
qed simp

text \<open>
  C10. However the events arrive, after an alert of a channel about an endpoint and a state has
  been delivered, the same alert is not sent again within five minutes, as long as one event is
  dispatched to its end before the next one.
\<close>

theorem alert_rate_limit:
  assumes "snd (run_dispatcher ss no_caches) = xs @ Attempted k t (Inr (''DELIVERED'', code, message)) # ys @ Attempted k t' r # zs"
    and "sorted (map step_time ss)"
  shows "t + minutes 5 \<le> t'"
proof -
  define t0 where "t0 = (case ss of [] \<Rightarrow> 0 | s # _ \<Rightarrow> step_time s)"
  have "remembered t0 {} (d_rate_limits no_caches)" by (simp add: remembered_def no_caches_def)
  moreover have "sorted (t0 # map step_time ss)" using assms(2) by (cases ss) (auto simp: t0_def)
  ultimately have "spaced {} (snd (run_dispatcher ss no_caches))" by (rule run_spaced)
  then show ?thesis by (simp add: assms(1) spaced_append)
qed

subsection \<open>A concrete installation\<close>

definition hook :: alert_channel where
  "hook = \<lparr> ac_id = 7, ac_name = ''ops'', ac_type = ''GENERIC_WEBHOOK'', ac_is_enabled = True,
     ac_config = \<lparr> cf_webhook_url = Some ''https://9.9.9.9/hook'', cf_smtp_host = None, cf_to_emails = None, cf_to_email = None \<rparr>,
     ac_endpoint_ids = [], ac_subnet_filters = [], ac_severity_filters = [''DOWN'', ''RECOVERED''] \<rparr>"

definition ops_env :: dispatch_env where
  "ops_env = \<lparr> de_toggle = Inr None, de_node = (\<lambda>_. None), de_row = (\<lambda>_. Inr None), de_channels = Inr [hook],
     de_getaddrinfo = (\<lambda>_. Inl ValueError), de_allow_private = False, de_reply = (\<lambda>_ k. if k = 0 then Response 503 [] else Response 200 ''ok''),
     de_smtp = (\<lambda>_ _. None) \<rparr>"

definition state_event :: "string \<Rightarrow> string \<Rightarrow> alert_event" where
  "state_event ep st = \<lparr> ae_type = ''STATE_TRANSITION'', ae_endpoint_id = Some ep, ae_node_id = None, ae_hostname = Some ''sw1'',
     ae_endpoint_name = None, ae_ip_address = Some ''10.0.0.9'', ae_operational_state = Some st, ae_current_state = None,
     ae_new_state = None, ae_is_symptom = False, ae_suppressed_by_upstream = False, ae_incident_id = None, ae_root_id = None,
     ae_symptom_ids = [], ae_is_resolved = False \<rparr>"

definition incident_event :: "string \<Rightarrow> string \<Rightarrow> string list \<Rightarrow> alert_event" where
  "incident_event inc parent symptoms =
     (state_event parent [])\<lparr> ae_type := ''RCA_INCIDENT'', ae_incident_id := Some inc, ae_root_id := Some parent, ae_symptom_ids := symptoms \<rparr>"

lemma hook_url: "urlparse ''https://9.9.9.9/hook'' = Inr \<lparr> u_scheme = ''https'', u_netloc = ''9.9.9.9'' \<rparr>"
  by (simp add: urlparse_def Let_def before_def after_def is_alpha_def digit_val_def bracketed_ok_def lower_def lower_char_def)


lemma hook_host: "hostname_of \<lparr> u_scheme = ''https'', u_netloc = ''9.9.9.9'' \<rparr> = ''9.9.9.9''"
  by (simp add: hostname_of_def hostinfo_def before_def lower_def lower_char_def Let_def)

lemma hook_ok: "validate_outbound_url f ''https://9.9.9.9/hook'' False False = Inr ()"
  by (simp add: validate_outbound_url_def hook_url hook_host BLOCKED_IPS_def resolve_def ip_9999 allowed_9999 unwrap_def)

lemma hook_sends: "send_to_provider ops_env hook = Inr (''DELIVERED'', Some 200, ''ok'')"
proof -
  have "fst (post_attempts (\<lambda>k. if k = 0 then Response 503 [] else Response 200 ''ok'') 0 2) = Inr (''DELIVERED'', Some 200, ''ok'')"
    by (simp add: post_attempts.simps Let_def numeral_2_eq_2)
  moreover have "upper ''GENERIC_WEBHOOK'' = ''GENERIC_WEBHOOK''" by code_simp
  ultimately show ?thesis
    by (simp add: send_to_provider_def Let_def hook_def ops_env_def hook_ok or_text_def)
qed

lemma ops_alert:
  "ep \<noteq> [] \<Longrightarrow> st \<noteq> [] \<Longrightarrow> event_alert ops_env now (state_event ep st) =
     \<lparr> at_endpoint_id = ep, at_endpoint_name = ''sw1'', at_ip_address = ''10.0.0.9'', at_event_type = ''STATE_TRANSITION'',
       at_severity = upper st, at_timestamp = now, at_is_flapping = False \<rparr>"
  by (simp add: event_alert_def event_endpoint_def event_identity_def state_event_def ops_env_def alert_state_def or_text_def Let_def)

lemma ops_enabled: "is_alerting_enabled ops_env" "active_channels ops_env = [hook]"
  by (simp_all add: is_alerting_enabled_def ops_env_def active_channels_def)

lemma ops_not_rca: "ae_type (state_event ep st) = ''STATE_TRANSITION''" by (simp add: state_event_def)

lemma upper_DOWN: "upper ''DOWN'' = ''DOWN''" "upper ''down'' = ''DOWN''" "upper ''RECOVERED'' = ''RECOVERED''" "upper ''UP'' = ''UP''"
  by code_simp+

definition hook_row :: "string \<Rightarrow> string \<Rightarrow> delivery_log" where
  "hook_row ep st = \<lparr> dl_channel_id = 7, dl_channel_name = ''ops'', dl_endpoint_id = safe_uuid ep, dl_endpoint_name = ''sw1'',
     dl_event_type = ''STATE_TRANSITION'', dl_status = st, dl_status_code = Some 200, dl_response_message = Inr (Some ''ok'') \<rparr>"

lemma hook_down:
  assumes "at_severity a = ''DOWN''" "\<not> at_is_flapping a"
    "\<And>t. get rl (rate_key_of hook a) = Some t \<Longrightarrow> t + minutes 5 \<le> at_timestamp a"
  shows "evaluate_and_send_channel ops_env a hook rl =
    (put (rate_key_of hook a) (at_timestamp a) rl,
     [Attempted (rate_key_of hook a) (at_timestamp a) (Inr (''DELIVERED'', Some 200, ''ok'')),
      Logged (delivery_entry hook a ''DELIVERED'' (Some 200) (Inr ''ok''))])"
proof -
  have "endpoint_matches hook a" "subnet_matches hook a" by (simp_all add: endpoint_matches_def subnet_matches_def hook_def)
  moreover have "severity_matches hook a" by (simp add: severity_matches_def hook_def assms(1) upper_DOWN)
  moreover have "\<not> at_timestamp a - t < minutes 5" if "get rl (rate_key_of hook a) = Some t" for t
    using assms(3)[OF that] by simp
  ultimately have "decide a hook rl = Attempt" using assms(2) by (simp add: decide_def split: option.split)
  then show ?thesis by (simp add: evaluate_and_send_channel_def hook_sends settle_def)
qed

lemma ops_down:
  assumes "ep \<noteq> []" "st \<noteq> []" "upper st = ''DOWN''" "get (d_suppressed d) ep = None" "get (d_flapping d) ep = None"
    "\<And>t. get (d_rate_limits d) (7, ep, ''DOWN'') = Some t \<Longrightarrow> t + minutes 5 \<le> now"
  shows "dispatch_event ops_env now (state_event ep st) d =
    (d\<lparr>d_flapping := put ep [now] (d_flapping d), d_rate_limits := put (7, ep, ''DOWN'') now (d_rate_limits d)\<rparr>,
     [Attempted (7, ep, ''DOWN'') now (Inr (''DELIVERED'', Some 200, ''ok'')), Logged (hook_row ep ''DELIVERED'')])"
proof -
  let ?a = "event_alert ops_env now (state_event ep st)"
  have su: "suppress_event now (state_event ep st) d = (False, d)"
    using assms by (simp add: suppress_event_def event_endpoint_def state_event_def alert_state_def or_text_def is_child_suppressed_def Let_def)
  have k: "rate_key_of hook (?a\<lparr>at_is_flapping := False\<rparr>) = (7, ep, ''DOWN'')"
    using assms by (simp add: ops_alert rate_key_of_def hook_def)
  have row: "delivery_entry hook (?a\<lparr>at_is_flapping := False\<rparr>) ''DELIVERED'' (Some 200) (Inr ''ok'') = hook_row ep ''DELIVERED''"
    using assms by (simp add: ops_alert delivery_entry_def hook_row_def hook_def)
  have fl: "check_flapping ep now d = (False, d\<lparr>d_flapping := put ep [now] (d_flapping d)\<rparr>)"
    using assms(5) by (simp add: check_flapping_def Let_def)
  have "evaluate_and_send_channel ops_env (?a\<lparr>at_is_flapping := False\<rparr>) hook (d_rate_limits d) =
    (put (7, ep, ''DOWN'') now (d_rate_limits d),
     [Attempted (7, ep, ''DOWN'') now (Inr (''DELIVERED'', Some 200, ''ok'')), Logged (hook_row ep ''DELIVERED'')])"
    using hook_down[of "?a\<lparr>at_is_flapping := False\<rparr>" "d_rate_limits d"] assms k row by (simp add: ops_alert)
  then show ?thesis
    using assms(1-3) fl by (simp add: dispatch_event_def ops_not_rca ops_enabled su send_alert_def ops_alert Let_def)
qed

theorem alert_rate_limit_witness:
  "snd (run_dispatcher [Dispatch ops_env 0 (state_event ''a'' ''DOWN''), Prune (minutes 11), Dispatch ops_env (minutes 11) (state_event ''a'' ''down'')] no_caches)
     = [Attempted (7, ''a'', ''DOWN'') 0 (Inr (''DELIVERED'', Some 200, ''ok'')), Logged (hook_row ''a'' ''DELIVERED''),
        Attempted (7, ''a'', ''DOWN'') (minutes 11) (Inr (''DELIVERED'', Some 200, ''ok'')), Logged (hook_row ''a'' ''DELIVERED'')]
     \<and> (0 :: int) + minutes 5 \<le> minutes 11" (is "?run = ?es \<and> _")
proof -
  let ?d = "no_caches\<lparr>d_flapping := [(''a'', [0])], d_rate_limits := [((7, ''a'', ''DOWN''), 0)]\<rparr>"
  have 1: "dispatch_event ops_env 0 (state_event ''a'' ''DOWN'') no_caches =
     (?d, [Attempted (7, ''a'', ''DOWN'') 0 (Inr (''DELIVERED'', Some 200, ''ok'')), Logged (hook_row ''a'' ''DELIVERED'')])"
    by (subst ops_down) (simp_all add: upper_DOWN no_caches_def)
  have 2: "snd (dispatch_event ops_env (minutes 11) (state_event ''a'' ''down'') (prune_memory_caches (minutes 11) ?d)) =
     [Attempted (7, ''a'', ''DOWN'') (minutes 11) (Inr (''DELIVERED'', Some 200, ''ok'')), Logged (hook_row ''a'' ''DELIVERED'')]"
    by (subst ops_down) (simp_all add: upper_DOWN no_caches_def prune_memory_caches_def)
  have r: "?run = [] @ Attempted (7, ''a'', ''DOWN'') 0 (Inr (''DELIVERED'', Some 200, ''ok''))
        # [Logged (hook_row ''a'' ''DELIVERED'')]
        @ Attempted (7, ''a'', ''DOWN'') (minutes 11) (Inr (''DELIVERED'', Some 200, ''ok'')) # [Logged (hook_row ''a'' ''DELIVERED'')]"
    using 2 by (simp add: 1 Let_def case_prod_unfold)
  from alert_rate_limit[OF r] r show ?thesis by simp
qed

subsection \<open>The symptoms of an incident\<close>

fun releases :: "dispatcher_step \<Rightarrow> bool" where
  \<comment> \<open>the events that can end a suppression\<close>
  "releases (Prune now) = False"
| "releases (Dispatch env now ev) =
     (if ae_type ev = ''RCA_INCIDENT'' then ae_is_resolved ev else alert_state ev \<in> {''UP'', ''RECOVERED''})"

definition suppressed_until :: "instant \<Rightarrow> string \<Rightarrow> dispatcher \<Rightarrow> bool" where
  "suppressed_until t c d \<longleftrightarrow> (\<exists>s. get (d_suppressed d) c = Some s \<and> t \<le> sp_expires_at s)"

lemma get_filter_keeps: "get xs k = Some v \<Longrightarrow> P (k, v) \<Longrightarrow> get (filter P xs) k = Some v"
  by (induction xs) auto

lemma get_fold_put: "get (fold (\<lambda>c. put c v) cs xs) k = (if k \<in> set cs then Some v else get xs k)"
  by (induction cs arbitrary: xs) auto

lemma incident_suppresses:
  assumes "\<not> ae_is_resolved inc" "c \<in> set (ae_symptom_ids inc)"
  shows "suppressed_until (t + minutes 30) c (rca_incident t inc d)"
  using assms by (simp add: suppressed_until_def rca_incident_def Let_def get_fold_put)

lemma incident_keeps:
  assumes "suppressed_until u c d" "\<not> ae_is_resolved inc" "u \<le> t + minutes 30"
  shows "suppressed_until u c (rca_incident t inc d)"
  using assms by (auto simp: suppressed_until_def rca_incident_def Let_def get_fold_put)

lemma prune_keeps: "suppressed_until u c d \<Longrightarrow> t \<le> u \<Longrightarrow> suppressed_until u c (prune_memory_caches t d)"
  by (auto simp: suppressed_until_def prune_memory_caches_def Let_def intro!: get_filter_keeps)

lemma child_check_keeps:
  "suppressed_until u c d \<Longrightarrow> t \<le> u \<Longrightarrow> suppressed_until u c (snd (is_child_suppressed ep t d))"
  by (auto simp: suppressed_until_def is_child_suppressed_def split: option.split)

lemma child_check_silences: "suppressed_until u c d \<Longrightarrow> t \<le> u \<Longrightarrow> c \<noteq> [] \<Longrightarrow> fst (is_child_suppressed c t d)"
  by (auto simp: suppressed_until_def is_child_suppressed_def)

lemma suppress_silences:
  "suppressed_until u c d \<Longrightarrow> t \<le> u \<Longrightarrow> c \<noteq> [] \<Longrightarrow> event_endpoint ev = c \<Longrightarrow> alert_state ev \<notin> {''UP'', ''RECOVERED''} \<Longrightarrow>
   fst (suppress_event t ev d)"
  by (auto simp: suppress_event_def Let_def child_check_silences)

lemma send_alert_keeps: "suppressed_until u c d \<Longrightarrow> suppressed_until u c (fst (send_alert env a d))"
  by (simp add: suppressed_until_def send_alert_def check_flapping_def Let_def case_prod_unfold)

lemma step_keeps:
  assumes "suppressed_until u c d" "step_time s \<le> u" "u \<le> step_time s + minutes 30" "\<not> releases s"
  shows "suppressed_until u c (fst (dispatcher_do s d))"
proof (cases s)
  case (Prune t)
  then show ?thesis using assms prune_keeps by simp
next
  case (Dispatch env t ev)
  have "suppressed_until u c (snd (suppress_event t ev d))" if "alert_state ev \<notin> {''UP'', ''RECOVERED''}"
    using that assms Dispatch child_check_keeps by (auto simp: suppress_event_def Let_def)
  then show ?thesis
    using assms Dispatch incident_keeps send_alert_keeps
    by (auto simp: dispatch_event_def Let_def case_prod_unfold split: if_splits)
qed

lemma steps_keep:
  "suppressed_until u c d \<Longrightarrow> \<forall>s \<in> set ss. step_time s \<le> u \<and> u \<le> step_time s + minutes 30 \<and> \<not> releases s \<Longrightarrow>
   suppressed_until u c (fst (run_dispatcher ss d))"
  by (induction ss arbitrary: d) (simp_all add: Let_def case_prod_unfold step_keeps)

fun only_throttled :: "alert_effect \<Rightarrow> bool" where
  "only_throttled (Logged l) \<longleftrightarrow> dl_status l = ''THROTTLED'' \<and> dl_response_message l = Inr (Some ''Suppressed by upstream root cause'')"
| "only_throttled (Attempted k t r) = False"

text \<open>
  C19. Once an incident names an endpoint as a symptom, no alert about this endpoint is sent for
  thirty minutes, whatever happens in between, until something recovers or an incident is resolved:
  each of its events only leaves a throttled row for each channel.
\<close>

theorem symptoms_stay_silent:
  assumes "ae_type inc = ''RCA_INCIDENT''" "\<not> ae_is_resolved inc" "c \<in> set (ae_symptom_ids inc)" "c \<noteq> []"
    and "\<forall>s \<in> set ss. t0 \<le> step_time s \<and> step_time s \<le> t0 + minutes 30 \<and> \<not> releases s" "t \<le> t0 + minutes 30"
    and "event_endpoint ev = c" "ae_type ev \<noteq> ''RCA_INCIDENT''" "alert_state ev \<notin> {''UP'', ''RECOVERED''}"
  shows "list_all only_throttled (snd (dispatch_event env t ev (fst (run_dispatcher (Dispatch env0 t0 inc # ss) d))))"
proof -
  let ?d = "fst (run_dispatcher (Dispatch env0 t0 inc # ss) d)"
  have "suppressed_until (t0 + minutes 30) c ?d"
    using steps_keep[OF incident_suppresses[OF assms(2,3)], of ss t0] assms(1,5)
    by (simp add: dispatch_event_def Let_def case_prod_unfold)
  then have "fst (suppress_event t ev ?d)"
    using suppress_silences assms(4,6,7,9) by blast
  then show ?thesis
    using assms(8) by (simp add: dispatch_event_def Let_def case_prod_unfold list_all_iff delivery_entry_def)
qed

theorem symptoms_stay_silent_witness:
  "list_all only_throttled (snd (dispatch_event ops_env (minutes 29) (state_event ''b'' ''DOWN'')
     (fst (run_dispatcher [Dispatch ops_env 0 (incident_event ''i'' ''a'' [''b'']), Prune (minutes 10),
                           Dispatch ops_env (minutes 20) (state_event ''a'' ''DOWN'')] no_caches))))
   \<and> active_channels ops_env \<noteq> []"
  using symptoms_stay_silent[of "incident_event ''i'' ''a'' [''b'']" "''b''"
      "[Prune (minutes 10), Dispatch ops_env (minutes 20) (state_event ''a'' ''DOWN'')]" 0 "minutes 29" "state_event ''b'' ''DOWN''"
      ops_env ops_env no_caches]
  by (simp add: incident_event_def state_event_def event_endpoint_def alert_state_def or_text_def upper_DOWN ops_enabled)

text \<open>The recovery of the root forgets the outage of its symptoms: the rows above are all that an
  endpoint leaves which went down meanwhile and stays down.\<close>

lemma recovery_releases:
  "ep \<noteq> [] \<Longrightarrow> event_endpoint ev = ep \<Longrightarrow> alert_state ev = ''UP'' \<Longrightarrow> get (d_suppressed d) c = Some s \<Longrightarrow> dict_ok (d_suppressed d) \<Longrightarrow>
   sp_parent_id s = ep \<Longrightarrow> get (d_suppressed (snd (suppress_event now ev d))) c = None"
  by (auto simp: suppress_event_def Let_def parent_recovered_def is_child_suppressed_def get_filter_value
      split: option.split)

subsection \<open>Events dispatched at the same time\<close>

text \<open>Up to ten events are dispatched at once, and the table of the rate limits is only written when a
  delivery ends: what is checked and what is in flight are kept apart here.\<close>

type_synonym in_flight = "(rate_key, instant) dict \<times> (alert \<times> alert_channel) list"

inductive channel_step :: "dispatch_env \<Rightarrow> in_flight \<Rightarrow> alert_effect list \<Rightarrow> in_flight \<Rightarrow> bool" for env where
  Check: "decide a ch rl = Attempt \<Longrightarrow> channel_step env (rl, fl) [] (rl, (a, ch) # fl)"
| Finish: "(a, ch) \<in> set fl \<Longrightarrow> settle a ch (send_to_provider env ch) rl = (rl', l) \<Longrightarrow>
     channel_step env (rl, fl) [Attempted (rate_key_of ch a) (at_timestamp a) (send_to_provider env ch), Logged l]
       (rl', remove1 (a, ch) fl)"

inductive channel_run :: "dispatch_env \<Rightarrow> in_flight \<Rightarrow> alert_effect list \<Rightarrow> in_flight \<Rightarrow> bool" for env where
  run_Nil: "channel_run env s [] s"
| run_Cons: "channel_step env s es s' \<Longrightarrow> channel_run env s' fs s'' \<Longrightarrow> channel_run env s (es @ fs) s''"

definition down_alert :: "instant \<Rightarrow> alert" where
  "down_alert t = \<lparr> at_endpoint_id = ''a'', at_endpoint_name = ''sw1'', at_ip_address = ''10.0.0.9'', at_event_type = ''STATE_TRANSITION'',
     at_severity = ''DOWN'', at_timestamp = t, at_is_flapping = False \<rparr>"

lemma concurrent_alerts_not_limited:
  \<comment> \<open>two deliveries of one alert within a second\<close>
  "\<exists>s. channel_run ops_env ([], [])
     [Attempted (7, ''a'', ''DOWN'') 0 (Inr (''DELIVERED'', Some 200, ''ok'')), Logged (hook_row ''a'' ''DELIVERED''),
      Attempted (7, ''a'', ''DOWN'') (sec 1) (Inr (''DELIVERED'', Some 200, ''ok'')), Logged (hook_row ''a'' ''DELIVERED'')] s"
proof -
  let ?k = "(7, ''a'', ''DOWN'') :: rate_key"
  have sev: "severity_matches hook (down_alert t)" for t by (simp add: severity_matches_def hook_def down_alert_def upper_DOWN)
  have d: "decide (down_alert t) hook [] = Attempt" for t
    using sev by (simp add: decide_def endpoint_matches_def subnet_matches_def) (simp add: hook_def down_alert_def)
  have st: "settle (down_alert t) hook (send_to_provider ops_env hook) rl = (put ?k t rl, hook_row ''a'' ''DELIVERED'')" for t rl
    by (simp add: hook_sends settle_def rate_key_of_def delivery_entry_def hook_row_def) (simp add: down_alert_def hook_def)
  have k: "rate_key_of hook (down_alert t) = ?k" "at_timestamp (down_alert t) = t" for t
    by (simp_all add: rate_key_of_def down_alert_def hook_def)
  let ?a = "(down_alert 0, hook)" and ?b = "(down_alert (sec 1), hook)"
  have 1: "channel_step ops_env ([], []) [] ([], [?a])" "channel_step ops_env ([], [?a]) [] ([], [?b, ?a])"
    by (rule Check[OF d])+
  note e = Finish[where env = ops_env, OF _ st, unfolded hook_sends k]
  have 2: "channel_step ops_env ([], [?b, ?a]) [Attempted ?k 0 (Inr (''DELIVERED'', Some 200, ''ok'')), Logged (hook_row ''a'' ''DELIVERED'')]
      (put ?k 0 [], remove1 ?a [?b, ?a])" by (rule e) simp
  have 3: "channel_step ops_env (put ?k 0 [], remove1 ?a [?b, ?a])
      [Attempted ?k (sec 1) (Inr (''DELIVERED'', Some 200, ''ok'')), Logged (hook_row ''a'' ''DELIVERED'')]
      (put ?k (sec 1) (put ?k 0 []), remove1 ?b (remove1 ?a [?b, ?a]))" by (rule e) (simp add: down_alert_def)
  from run_Cons[OF 1(1) run_Cons[OF 1(2) run_Cons[OF 2 run_Cons[OF 3 run_Nil]]]] show ?thesis by auto
qed

subsection \<open>Rows of the log\<close>


lemma send_test_alert_ok:
  "log_ok (snd (send_test_alert env ch))"
  "fst (fst (send_test_alert env ch)) \<longleftrightarrow> dl_status (snd (send_test_alert env ch)) = ''DELIVERED''"
proof -
  define r where "r = (case (if or_text (cf_webhook_url (ac_config ch)) [] = [] then Inr ()
                     else validate_outbound_url (de_getaddrinfo env) (or_text (cf_webhook_url (ac_config ch)) []) (de_allow_private env) False) of
                 Inl e \<Rightarrow> Inl (Url_refused e)
               | Inr _ \<Rightarrow> send_to_provider env ch)"
  have "outcome_ok r" unfolding r_def using send_to_provider_ok[of env ch] by (simp split: sum.split)
  then show "log_ok (snd (send_test_alert env ch))"
    "fst (fst (send_test_alert env ch)) \<longleftrightarrow> dl_status (snd (send_test_alert env ch)) = ''DELIVERED''"
    unfolding send_test_alert_def Let_def r_def[symmetric]
    by (cases r; auto simp: test_entry_def log_ok_def split: option.splits if_splits)+
qed

end
