(* ===== verification/Topology_Proofs.thy ===== *)
theory Topology_Proofs
  imports Topology
begin

text \<open>
  Facts on the topology graph: the search below a node finds what is reachable, the levels are
  computed in finitely many steps and are longest paths, and which transit nodes are shown as
  down.
\<close>

subsection \<open>The search below a node\<close>

definition silent_steps :: "(string \<Rightarrow> bool) \<Rightarrow> (string \<Rightarrow> string list) \<Rightarrow> (string \<times> string) set" where
  \<comment> \<open>steps to a node that is not monitored\<close>
  "silent_steps mon ch = {(x, c). c \<in> set (ch x) \<and> \<not> mon c}"

definition settled_child :: "(string \<Rightarrow> bool) \<Rightarrow> string set \<Rightarrow> string set \<Rightarrow> string \<Rightarrow> bool" where
  "settled_child mon M V c \<longleftrightarrow> c \<in> V \<or> (mon c \<and> c \<in> M)"

lemma settled_child_mono: "settled_child mon M V c \<Longrightarrow> M \<subseteq> M' \<Longrightarrow> V \<subseteq> V' \<Longrightarrow> settled_child mon M' V' c"
  by (auto simp: settled_child_def)

definition found_by :: "(string \<Rightarrow> bool) \<Rightarrow> (string \<Rightarrow> string list) \<Rightarrow> string set \<Rightarrow> string set \<times> string set \<Rightarrow> bool" where
  \<comment> \<open>from the visited set \<open>W\<close>, the children of what was visited since are visited or found\<close>
  "found_by mon ch W r \<longleftrightarrow> (case r of (M, W') \<Rightarrow> W \<subseteq> W' \<and>
     (\<forall>x \<in> W' - W. \<forall>c \<in> set (ch x). settled_child mon M W' c))"

definition searched ::
  "(string \<Rightarrow> bool) \<Rightarrow> (string \<Rightarrow> string list) \<Rightarrow> string \<Rightarrow> string set \<Rightarrow> string set \<times> string set \<Rightarrow> bool" where
  "searched mon ch s V r \<longleftrightarrow> found_by mon ch V r \<and> s \<in> snd r \<and>
     (\<forall>c \<in> fst r. mon c \<and> (\<exists>x \<in> snd r - V. c \<in> set (ch x))) \<and>
     (\<forall>x \<in> snd r - V. (s, x) \<in> (silent_steps mon ch)\<^sup>*)"

definition searched_children ::
  "(string \<Rightarrow> bool) \<Rightarrow> (string \<Rightarrow> string list) \<Rightarrow> string list \<Rightarrow> string set \<Rightarrow> string set \<Rightarrow> string set \<times> string set \<Rightarrow> bool" where
  "searched_children mon ch cs W A r \<longleftrightarrow> found_by mon ch W r \<and> A \<subseteq> fst r \<and>
     (\<forall>c \<in> set cs. settled_child mon (fst r) (snd r) c) \<and>
     (\<forall>c \<in> fst r - A. mon c \<and> (c \<in> set cs \<or> (\<exists>x \<in> snd r - W. c \<in> set (ch x)))) \<and>
     (\<forall>x \<in> snd r - W. \<exists>c \<in> set cs. \<not> mon c \<and> (c, x) \<in> (silent_steps mon ch)\<^sup>*)"

lemma found_by_trans:
  assumes "found_by mon ch W (M, W1)" "found_by mon ch W1 (M', W2)" "M \<subseteq> M'"
  shows "found_by mon ch W (M', W2)"
  using assms settled_child_mono[of mon M W1 _ M' W2] by (fastforce simp: found_by_def)

lemma searched_child:
  assumes s: "searched mon ch c W (M1, W1)" and r: "searched_children mon ch cs W1 (A \<union> M1) r" and c: "\<not> mon c"
  shows "searched_children mon ch (c # cs) W A r"
proof -
  obtain M W2 where r_eq: "r = (M, W2)" by (cases r)
  have sub: "M1 \<subseteq> M" "A \<subseteq> M" "W \<subseteq> W1" "W1 \<subseteq> W2"
    using s r by (auto simp: r_eq searched_def searched_children_def found_by_def)
  have "found_by mon ch W (M, W2)"
    by (rule found_by_trans[of _ _ _ M1 W1]) (use s r sub in \<open>auto simp: r_eq searched_def searched_children_def\<close>)
  moreover have "settled_child mon M W2 x" if "x \<in> set (c # cs)" for x
    using that s r sub by (auto simp: r_eq searched_def searched_children_def settled_child_def)
  moreover have "mon x \<and> (x \<in> set (c # cs) \<or> (\<exists>y \<in> W2 - W. x \<in> set (ch y)))" if "x \<in> M - A" for x
  proof (cases "x \<in> M1")
    case True
    with s have "mon x" "\<exists>y \<in> W1 - W. x \<in> set (ch y)" by (simp_all add: searched_def)
    with sub(4) show ?thesis by blast
  next
    case False
    with that r have "mon x" "x \<in> set cs \<or> (\<exists>y \<in> W2 - W1. x \<in> set (ch y))" by (auto simp: r_eq searched_children_def)
    with sub(3) show ?thesis by auto
  qed
  moreover have "\<exists>d \<in> set (c # cs). \<not> mon d \<and> (d, x) \<in> (silent_steps mon ch)\<^sup>*" if "x \<in> W2 - W" for x
  proof (cases "x \<in> W1")
    case True
    with that s have "(c, x) \<in> (silent_steps mon ch)\<^sup>*" by (auto simp: searched_def)
    with c show ?thesis by auto
  next
    case False
    with that r show ?thesis by (auto simp: r_eq searched_children_def)
  qed
  ultimately show ?thesis using sub by (simp add: r_eq searched_children_def)
qed

lemma downstream_search:
  "finite {i. ch i \<noteq> []} \<Longrightarrow> card ({i. ch i \<noteq> []} - V) + 1 \<le> n \<Longrightarrow> s \<notin> V \<Longrightarrow>
    searched mon ch s V (downstream n mon ch s V)"
  "finite {i. ch i \<noteq> []} \<Longrightarrow> card ({i. ch i \<noteq> []} - W) + 1 \<le> n \<or> cs = [] \<Longrightarrow>
    searched_children mon ch cs W A (downstream_children n mon ch cs W A)"
proof (induction n mon ch s V and n mon ch cs W A rule: downstream_downstream_children.induct)
  case (2 n mon ch s V)
  let ?X = "{i. ch i \<noteq> []}"
  have "card (?X - insert s V) + 1 \<le> n \<or> ch s = []"
  proof (cases "ch s = []")
    case False
    then have "s \<in> ?X - V" using 2 by simp
    then have "card (?X - insert s V) < card (?X - V)"
      using 2(2) by (metis Diff_insert card_Diff1_less finite_Diff)
    with 2(3) show ?thesis by simp
  qed simp
  from 2(1)[OF 2(2) this] have "searched_children mon ch (ch s) (insert s V) {} (downstream (Suc n) mon ch s V)" by simp
  moreover obtain M V' where r: "downstream (Suc n) mon ch s V = (M, V')" by fastforce
  ultimately have c: "searched_children mon ch (ch s) (insert s V) {} (M, V')" by simp
  have step: "\<not> mon c \<Longrightarrow> c \<in> set (ch s) \<Longrightarrow> (c, x) \<in> (silent_steps mon ch)\<^sup>* \<Longrightarrow> (s, x) \<in> (silent_steps mon ch)\<^sup>*" for c x
    by (rule converse_rtrancl_into_rtrancl[of s c]) (simp add: silent_steps_def)
  have new: "x = s \<or> x \<in> V' - insert s V" if "x \<in> V' - V" for x using that by auto
  have sV: "s \<in> V'" "V \<subseteq> V'" "s \<in> V' - V" using c 2(4) by (auto simp: searched_children_def found_by_def)
  have "settled_child mon M V' d" if "x \<in> V' - V" "d \<in> set (ch x)" for x d
    using new[OF that(1)] that(2) c by (auto simp: searched_children_def found_by_def)
  moreover have "mon d \<and> (\<exists>x \<in> V' - V. d \<in> set (ch x))" if "d \<in> M" for d
  proof -
    have "mon d" "d \<in> set (ch s) \<or> (\<exists>x \<in> V' - insert s V. d \<in> set (ch x))"
      using c that by (auto simp: searched_children_def)
    with sV(3) show ?thesis by blast
  qed
  moreover have "(s, x) \<in> (silent_steps mon ch)\<^sup>*" if "x \<in> V' - V" for x
  proof (cases "x = s")
    case False
    with that have "x \<in> V' - insert s V" by simp
    moreover have "\<forall>x \<in> V' - insert s V. \<exists>d \<in> set (ch s). \<not> mon d \<and> (d, x) \<in> (silent_steps mon ch)\<^sup>*"
      using c by (simp add: searched_children_def)
    ultimately have "\<exists>d \<in> set (ch s). \<not> mon d \<and> (d, x) \<in> (silent_steps mon ch)\<^sup>*" by (rule bspec[rotated])
    then show ?thesis using step by blast
  qed simp
  ultimately show ?case using sV unfolding r searched_def found_by_def by simp
next
  case (4 n mon ch c cs W A)
  have n: "card ({i. ch i \<noteq> []} - W) + 1 \<le> n" using 4(6) by simp
  consider "c \<in> W" | "c \<notin> W" "mon c" | "c \<notin> W" "\<not> mon c" by blast
  then show ?case
  proof cases
    case 1
    with 4(1)[OF 1 4(5)] n show ?thesis
      by (auto simp: searched_children_def found_by_def settled_child_def case_prod_beta)
  next
    case 2
    with 4(2)[OF 2 4(5)] n show ?thesis
      by (auto simp: searched_children_def found_by_def settled_child_def case_prod_beta)
  next
    case 3
    obtain M1 W1 where d: "downstream n mon ch c W = (M1, W1)" by fastforce
    have s: "searched mon ch c W (M1, W1)" using 4(3)[OF 3 4(5) n 3(1)] d by simp
    then have "W \<subseteq> W1" by (simp add: searched_def found_by_def)
    then have "card ({i. ch i \<noteq> []} - W1) \<le> card ({i. ch i \<noteq> []} - W)" using 4(5) by (intro card_mono) auto
    with n have "searched_children mon ch cs W1 (A \<union> M1) (downstream_children n mon ch cs W1 (A \<union> M1))"
      using 4(4)[OF 3 d[symmetric] refl 4(5)] by simp
    from searched_child[OF s this 3(2)] show ?thesis using 3 d by simp
  qed
qed (auto simp: searched_children_def found_by_def)

lemma downstream_finds:
  assumes "finite {i. ch i \<noteq> []}" "card {i. ch i \<noteq> []} + 1 \<le> n" "\<not> mon s"
  shows "fst (downstream n mon ch s {}) = {c. mon c \<and> (\<exists>x. (s, x) \<in> (silent_steps mon ch)\<^sup>* \<and> c \<in> set (ch x))}"
proof -
  obtain M V where r: "downstream n mon ch s {} = (M, V)" by fastforce
  have s: "searched mon ch s {} (M, V)" using downstream_search(1)[of ch "{}" n s mon] assms r by simp
  have V: "x \<in> V" if "(s, x) \<in> (silent_steps mon ch)\<^sup>*" for x
    using that
  proof induction
    case base
    show ?case using s by (simp add: searched_def)
  next
    case (step x y)
    then show ?case using s by (auto simp: searched_def found_by_def settled_child_def silent_steps_def)
  qed
  have silent: "x \<in> V \<Longrightarrow> \<not> mon x" for x
    using s assms(3) by (auto simp: searched_def silent_steps_def elim: rtranclE)
  show ?thesis
  proof (intro set_eqI iffI)
    fix c
    assume "c \<in> fst (downstream n mon ch s {})"
    then show "c \<in> {c. mon c \<and> (\<exists>x. (s, x) \<in> (silent_steps mon ch)\<^sup>* \<and> c \<in> set (ch x))}"
      using s r by (auto simp: searched_def)
  next
    fix c
    assume "c \<in> {c. mon c \<and> (\<exists>x. (s, x) \<in> (silent_steps mon ch)\<^sup>* \<and> c \<in> set (ch x))}"
    then obtain x where x: "mon c" "x \<in> V" "c \<in> set (ch x)" using V by auto
    then have "settled_child mon M V c" using s by (auto simp: searched_def found_by_def)
    with x silent show "c \<in> fst (downstream n mon ch s {})" by (auto simp: r settled_child_def)
  qed
qed

definition consistent :: "topo_edges \<Rightarrow> topo_children \<Rightarrow> bool" where
  \<comment> \<open>\<open>_transit_children\<close> mirrors the edges\<close>
  "consistent edges ch \<longleftrightarrow> (\<forall>x c. c \<in> set (children_of ch x) \<longleftrightarrow> (x, c) \<in> set edges)"

definition below :: "topo_nodes \<Rightarrow> topo_edges \<Rightarrow> string \<Rightarrow> string set" where
  \<comment> \<open>the monitored nodes reached through nodes that are not\<close>
  "below nodes edges i =
     {c. is_monitored nodes c \<and> (\<exists>x. (i, x) \<in> {(x, y) \<in> set edges. \<not> is_monitored nodes y}\<^sup>* \<and> (x, c) \<in> set edges)}"

lemma downstream_below:
  assumes "consistent edges ch" "\<not> is_monitored nodes i"
  shows "get_all_downstream_monitored nodes edges ch i = below nodes edges i"
proof -
  have X: "{x. children_of ch x \<noteq> []} = fst ` set edges"
  proof (intro set_eqI iffI)
    fix x
    assume "x \<in> {x. children_of ch x \<noteq> []}"
    then obtain c where "c \<in> set (children_of ch x)" by (cases "children_of ch x") auto
    with assms(1) show "x \<in> fst ` set edges" by (force simp: consistent_def)
  next
    fix x
    assume "x \<in> fst ` set edges"
    then obtain c where "(x, c) \<in> set edges" by auto
    with assms(1) have "c \<in> set (children_of ch x)" by (simp add: consistent_def)
    then show "x \<in> {x. children_of ch x \<noteq> []}" by auto
  qed
  have "card (fst ` set edges) \<le> length edges"
    by (rule le_trans[OF card_image_le card_length]) simp
  then have "card {x. children_of ch x \<noteq> []} + 1 \<le> length edges + 2" by (simp add: X)
  from downstream_finds[of "children_of ch" "length edges + 2" "is_monitored nodes" i, OF _ this assms(2)]
  have "get_all_downstream_monitored nodes edges ch i
      = {c. is_monitored nodes c \<and> (\<exists>x. (i, x) \<in> (silent_steps (is_monitored nodes) (children_of ch))\<^sup>* \<and> c \<in> set (children_of ch x))}"
    by (simp add: X get_all_downstream_monitored_def)
  moreover have "silent_steps (is_monitored nodes) (children_of ch) = {(x, y) \<in> set edges. \<not> is_monitored nodes y}"
    using assms(1) by (auto simp: silent_steps_def consistent_def)
  ultimately show ?thesis using assms(1) by (simp add: below_def consistent_def)
qed

definition down_router :: "topo_node \<Rightarrow> bool" where
  \<comment> \<open>a node that the propagation considers\<close>
  "down_router n \<longleftrightarrow> tn_type n = ''transit'' \<and> tn_device_type n = ''TRANSIT_ROUTER'' \<and> tn_state n \<noteq> ''FAILURE_POINT''"

definition all_below_down :: "topo_nodes \<Rightarrow> topo_edges \<Rightarrow> string \<Rightarrow> bool" where
  "all_below_down nodes edges i \<longleftrightarrow> below nodes edges i \<noteq> {} \<and>
     (\<forall>c \<in> below nodes edges i. is_down (tn_state (the (get nodes c))))"

lemma below_node: "c \<in> below nodes edges i \<Longrightarrow> is_monitored nodes c \<and> (\<exists>n. get nodes c = Some n)"
  by (auto simp: below_def is_monitored_def split: option.splits)

lemma infer_down_get:
  assumes "consistent edges ch"
  shows "get (infer_down edges ch j nodes) i =
    (if i = j then map_option (\<lambda>n. if down_router n \<and> all_below_down nodes edges j
                                   then n\<lparr>tn_state := ''INFERRED_DOWN''\<rparr> else n) (get nodes j)
     else get nodes i)"
proof (cases "get nodes j")
  case (Some n)
  show ?thesis
  proof (cases "down_router n")
    case True
    then have "\<not> is_monitored nodes j" by (simp add: is_monitored_def Some down_router_def)
    note b = downstream_below[OF assms this]
    have "(\<forall>c \<in> below nodes edges j. case get nodes c of None \<Rightarrow> True | Some m \<Rightarrow> is_down (tn_state m))
        \<longleftrightarrow> (\<forall>c \<in> below nodes edges j. is_down (tn_state (the (get nodes c))))"
      using below_node by (intro ball_cong refl) fastforce
    with True b show ?thesis
      by (simp add: infer_down_def Some Let_def all_below_down_def) (simp add: down_router_def)
  next
    case False
    then show ?thesis by (auto simp: infer_down_def Some down_router_def)
  qed
qed (simp add: infer_down_def)

definition same_kind :: "topo_nodes \<Rightarrow> topo_nodes \<Rightarrow> bool" where
  "same_kind N N' \<longleftrightarrow> (\<forall>i. is_monitored N' i = is_monitored N i \<and> (is_monitored N i \<longrightarrow> get N' i = get N i))"

lemma same_kind_below: "same_kind N N' \<Longrightarrow> all_below_down N' edges i = all_below_down N edges i"
proof -
  assume same: "same_kind N N'"
  then have b: "below N' edges i = below N edges i" by (simp add: below_def same_kind_def)
  have "get N' c = get N c" if "c \<in> below N edges i" for c
    using same below_node[OF that] by (simp add: same_kind_def)
  with b show ?thesis by (simp add: all_below_down_def)
qed

lemma same_kind_infer:
  assumes "same_kind N N'" "consistent edges ch"
  shows "same_kind N (infer_down edges ch j N')"
proof -
  have "is_monitored (infer_down edges ch j N') i = is_monitored N' i \<and>
      (is_monitored N' i \<longrightarrow> get (infer_down edges ch j N') i = get N' i)" for i
    by (auto simp: is_monitored_def infer_down_get[OF assms(2)] down_router_def split: option.splits)
  with assms(1) show ?thesis by (simp add: same_kind_def)
qed

lemma propagate_fold:
  assumes "consistent edges ch" "distinct ks" "same_kind N N'" "\<forall>j \<in> set ks. get N' j = get N j"
  shows "get (fold (infer_down edges ch) ks N') i =
    (if i \<in> set ks then map_option (\<lambda>n. if down_router n \<and> all_below_down N edges i
                                   then n\<lparr>tn_state := ''INFERRED_DOWN''\<rparr> else n) (get N i)
     else get N' i)"
  using assms(2-4)
proof (induction ks arbitrary: N')
  case (Cons k ks)
  let ?N = "infer_down edges ch k N'"
  have "\<forall>j \<in> set ks. get ?N j = get N j" using Cons.prems by (auto simp: infer_down_get[OF assms(1)])
  with Cons.IH[of ?N] same_kind_infer[OF Cons.prems(2) assms(1)] Cons.prems(1)
  have "get (fold (infer_down edges ch) ks ?N) i =
      (if i \<in> set ks then map_option (\<lambda>n. if down_router n \<and> all_below_down N edges i
                                   then n\<lparr>tn_state := ''INFERRED_DOWN''\<rparr> else n) (get N i) else get ?N i)"
    by simp
  with Cons.prems show ?case
    by (auto simp: infer_down_get[OF assms(1)] same_kind_below)
qed simp

lemma propagate_get:
  assumes "consistent edges ch" "dict_ok nodes"
  shows "get (propagate_inferred_down edges ch nodes) i =
    map_option (\<lambda>n. if down_router n \<and> all_below_down nodes edges i
                    then n\<lparr>tn_state := ''INFERRED_DOWN''\<rparr> else n) (get nodes i)"
proof -
  have "get nodes i = None" if "i \<notin> set (keys nodes)" using that by (simp add: map_of_eq_None_iff)
  with propagate_fold[OF assms(1), of "keys nodes" nodes nodes i] assms(2) show ?thesis
    by (auto simp: propagate_inferred_down_def dict_ok_def same_kind_def)
qed

text \<open>
  C40. After a change of state of an endpoint, a transit router is shown as down exactly if it was
  so before or every monitored endpoint below it, and at least one, is now down; one that an
  incident names as the failure stays that. So a router that was once inferred down stays so when
  the endpoints below it recover.
\<close>

theorem router_shown_down:
  assumes "tp' = update_node_status i s tp" "i \<notin> tp_disabled tp" "get (tp_nodes tp) i = Some m" "is_monitored (tp_nodes tp) i"
    and "dict_ok (tp_nodes tp)" "consistent (tp_edges tp) (tp_children tp)"
    and "get (tp_nodes tp) r = Some n" "tn_type n = ''transit''" "tn_device_type n = ''TRANSIT_ROUTER''"
  shows "map_option tn_state (get (tp_nodes tp') r) = Some
    (if tn_state n \<noteq> ''FAILURE_POINT'' \<and> below (tp_nodes tp) (tp_edges tp) r \<noteq> {} \<and>
        (\<forall>c \<in> below (tp_nodes tp) (tp_edges tp) r. is_down (if c = i then s else tn_state (the (get (tp_nodes tp) c))))
     then ''INFERRED_DOWN'' else tn_state n)"
proof -
  let ?N = "put i (m\<lparr>tn_state := s\<rparr>) (tp_nodes tp)"
  have kind: "is_monitored ?N = is_monitored (tp_nodes tp)"
    using assms(3) by (auto simp: is_monitored_def fun_eq_iff)
  then have b: "below ?N (tp_edges tp) r = below (tp_nodes tp) (tp_edges tp) r" by (simp add: below_def)
  have ri: "r \<noteq> i" using assms(4,7,8) by (auto simp: is_monitored_def)
  have "tp_nodes tp' = propagate_inferred_down (tp_edges tp) (tp_children tp) ?N"
    using assms(2,3) by (simp add: assms(1) update_node_status_def Let_def)
  then have "get (tp_nodes tp') r = map_option (\<lambda>n. if down_router n \<and> all_below_down ?N (tp_edges tp) r
                    then n\<lparr>tn_state := ''INFERRED_DOWN''\<rparr> else n) (get ?N r)"
    using propagate_get[OF assms(6), of ?N r] assms(5) by simp
  moreover have "all_below_down ?N (tp_edges tp) r \<longleftrightarrow> below (tp_nodes tp) (tp_edges tp) r \<noteq> {} \<and>
      (\<forall>c \<in> below (tp_nodes tp) (tp_edges tp) r. is_down (if c = i then s else tn_state (the (get (tp_nodes tp) c))))"
  proof -
    have "tn_state (the (get ?N c)) = (if c = i then s else tn_state (the (get (tp_nodes tp) c)))" for c by simp
    then show ?thesis by (simp only: all_below_down_def b)
  qed
  ultimately show ?thesis
    using assms(7-9) ri by (auto simp: down_router_def)
qed

subsection \<open>Levels\<close>

lemma fold_relax:
  assumes "distinct vs"
  shows "fold (relax l) vs (queue, deg, levels) =
    (queue @ filter (\<lambda>v. deg v \<le> 1) vs,
     (\<lambda>v. if v \<in> set vs then deg v - 1 else deg v),
     (\<lambda>v. if v \<in> set vs then Some (case levels v of None \<Rightarrow> Suc l | Some k \<Rightarrow> max k (Suc l)) else levels v))"
  using assms
proof (induction vs arbitrary: queue deg levels)
  case (Cons v vs)
  define deg1 where "deg1 = deg(v := deg v - 1)"
  define levels1 where "levels1 = levels(v \<mapsto> (case levels v of None \<Rightarrow> Suc l | Some k \<Rightarrow> max k (Suc l)))"
  define queue1 where "queue1 = (if deg v \<le> 1 then queue @ [v] else queue)"
  have r: "relax l v (queue, deg, levels) = (queue1, deg1, levels1)"
    by (auto simp: relax_def Let_def queue1_def deg1_def levels1_def max_def fun_eq_iff split: option.splits)
  have q: "queue1 @ filter (\<lambda>v. deg1 v \<le> 1) vs = queue @ filter (\<lambda>v. deg v \<le> 1) (v # vs)"
  proof -
    have "filter (\<lambda>v. deg1 v \<le> 1) vs = filter (\<lambda>v. deg v \<le> 1) vs"
      using Cons.prems by (auto simp: deg1_def intro!: filter_cong)
    then show ?thesis by (simp add: queue1_def)
  qed
  have d: "(\<lambda>x. if x \<in> set vs then deg1 x - 1 else deg1 x) = (\<lambda>x. if x \<in> set (v # vs) then deg x - 1 else deg x)"
    using Cons.prems by (auto simp: fun_eq_iff deg1_def)
  have l: "(\<lambda>x. if x \<in> set vs then Some (case levels1 x of None \<Rightarrow> Suc l | Some k \<Rightarrow> max k (Suc l)) else levels1 x)
      = (\<lambda>x. if x \<in> set (v # vs) then Some (case levels x of None \<Rightarrow> Suc l | Some k \<Rightarrow> max k (Suc l)) else levels x)"
    using Cons.prems by (auto simp: fun_eq_iff levels1_def)
  have "fold (relax l) (v # vs) (queue, deg, levels) = fold (relax l) vs (queue1, deg1, levels1)"
    by (simp only: fold_simps r)
  also have "\<dots> = (queue1 @ filter (\<lambda>v. deg1 v \<le> 1) vs,
      (\<lambda>x. if x \<in> set vs then deg1 x - 1 else deg1 x),
      (\<lambda>x. if x \<in> set vs then Some (case levels1 x of None \<Rightarrow> Suc l | Some k \<Rightarrow> max k (Suc l)) else levels1 x))"
    by (rule Cons.IH) (use Cons.prems in simp)
  finally show ?case unfolding q d l .
qed simp

text \<open>The edges between nodes, as a relation; the loop keeps an invariant relative to the set of
  nodes that left the queue.\<close>

definition edge_rel :: "topo_nodes \<Rightarrow> topo_edges \<Rightarrow> (string \<times> string) set" where
  "edge_rel nodes edges = {(s, t) \<in> set edges. get nodes s \<noteq> None \<and> get nodes t \<noteq> None}"

definition preds :: "(string \<times> string) set \<Rightarrow> string \<Rightarrow> string set" where
  "preds E v = {s. (s, v) \<in> E}"

definition level_inv ::
  "string set \<Rightarrow> (string \<times> string) set \<Rightarrow> string set \<Rightarrow> string list \<times> (string \<Rightarrow> int) \<times> (string \<rightharpoonup> nat) \<Rightarrow> bool" where
  "level_inv N E D st \<longleftrightarrow> (case st of (queue, deg, levels) \<Rightarrow>
     distinct queue \<and> set queue \<inter> D = {} \<and> D \<union> set queue = {v \<in> N. preds E v \<subseteq> D} \<and>
     (\<forall>v \<in> N. deg v = int (card (preds E v - D))) \<and>
     (\<forall>v \<in> D. preds E v \<subseteq> D) \<and>
     (\<forall>v \<in> N. levels v = (if preds E v = {} then Some 0
        else if preds E v \<inter> D = {} then None
        else Some (Max ((\<lambda>s. Suc (the (levels s))) ` (preds E v \<inter> D))))))"

lemma level_inv_step:
  assumes inv: "level_inv N E D (u # queue, deg, levels)"
    and E: "E \<subseteq> N \<times> N" "finite N" and adj: "set vs = {v. (u, v) \<in> E}" "distinct vs"
    and l: "l = (case levels u of None \<Rightarrow> 0 | Some k \<Rightarrow> k)"
  shows "level_inv N E (insert u D) (fold (relax l) vs (queue, deg, levels))"
proof -
  note i = inv[unfolded level_inv_def prod.case]
  have fin: "finite (preds E v)" for v using E by (auto simp: preds_def intro: finite_subset)
  have u: "u \<in> N" "u \<notin> D" "preds E u \<subseteq> D" "u \<notin> set queue" using i by auto
  have vs: "v \<in> set vs \<longleftrightarrow> u \<in> preds E v" for v by (simp add: adj(1) preds_def)
  have vsN: "set vs \<subseteq> N" using adj(1) E(1) by auto
  have vsD: "v \<notin> D" "v \<noteq> u" "v \<notin> set queue" if "v \<in> set vs" for v
    using that u i vs[of v] by auto
  have deg': "(if v \<in> set vs then deg v - 1 else deg v) = int (card (preds E v - insert u D))" if "v \<in> N" for v
  proof (cases "v \<in> set vs")
    case True
    then have "u \<in> preds E v - D" using vs u(2) by simp
    then have "card (preds E v - D) = Suc (card (preds E v - insert u D))"
      using fin[of v] by (metis Diff_insert card_Suc_Diff1 finite_Diff)
    with True that i show ?thesis by simp
  next
    case False
    then have "preds E v - insert u D = preds E v - D" using vs by auto
    with False that i show ?thesis by simp
  qed
  have queue': "v \<in> set vs \<and> deg v \<le> 1 \<longleftrightarrow> v \<in> N \<and> u \<in> preds E v \<and> preds E v \<subseteq> insert u D" for v
  proof -
    have "deg v \<le> 1 \<longleftrightarrow> preds E v \<subseteq> insert u D" if "v \<in> set vs"
    proof -
      have "int (card (preds E v - insert u D)) = deg v - 1" using deg'[of v] that vsN by auto
      then have "deg v \<le> 1 \<longleftrightarrow> card (preds E v - insert u D) = 0" by linarith
      also have "\<dots> \<longleftrightarrow> preds E v \<subseteq> insert u D" using fin[of v] by auto
      finally show ?thesis .
    qed
    with vs[of v] vsN show ?thesis by auto
  qed
  have levels_u: "levels u = Some l" using i u l by (auto split: if_splits)
  let ?lv = "\<lambda>v. if v \<in> set vs then Some (case levels v of None \<Rightarrow> Suc l | Some k \<Rightarrow> max k (Suc l)) else levels v"
  have keep: "?lv s = levels s" if "s \<in> insert u D" for s using that vsD by auto
  have lv: "?lv v = (if preds E v = {} then Some 0
        else if preds E v \<inter> insert u D = {} then None
        else Some (Max ((\<lambda>s. Suc (the (?lv s))) ` (preds E v \<inter> insert u D))))" if v: "v \<in> N" for v
  proof -
    have img: "(\<lambda>s. Suc (the (?lv s))) ` (preds E v \<inter> insert u D) = (\<lambda>s. Suc (the (levels s))) ` (preds E v \<inter> insert u D)"
      using keep by (intro image_cong refl) auto
    show ?thesis
    proof (cases "v \<in> set vs")
      case True
      then have up: "u \<in> preds E v" using vs by simp
      have ins: "(\<lambda>s. Suc (the (levels s))) ` (preds E v \<inter> insert u D) = insert (Suc l) ((\<lambda>s. Suc (the (levels s))) ` (preds E v \<inter> D))"
        using up levels_u by auto
      have old: "levels v = (if preds E v \<inter> D = {} then None else Some (Max ((\<lambda>s. Suc (the (levels s))) ` (preds E v \<inter> D))))"
        using i v up by auto
      have ne: "preds E v \<noteq> {}" "preds E v \<inter> insert u D \<noteq> {}" using up by auto
      have "(case levels v of None \<Rightarrow> Suc l | Some k \<Rightarrow> max k (Suc l))
          = Max (insert (Suc l) ((\<lambda>s. Suc (the (levels s))) ` (preds E v \<inter> D)))"
        using fin[of v] by (cases "preds E v \<inter> D = {}") (simp_all add: old Max_insert max.commute)
      then show ?thesis using True ne unfolding img ins by simp
    next
      case False
      then have "preds E v \<inter> insert u D = preds E v \<inter> D" using vs by auto
      with False i v img show ?thesis by simp
    qed
  qed
  have "distinct (queue @ filter (\<lambda>v. deg v \<le> 1) vs)" using i adj(2) vsD by auto
  moreover have "set (queue @ filter (\<lambda>v. deg v \<le> 1) vs) \<inter> insert u D = {}"
    using i u vsD by auto
  moreover have "insert u D \<union> set (queue @ filter (\<lambda>v. deg v \<le> 1) vs) = {v \<in> N. preds E v \<subseteq> insert u D}"
  proof -
    have "insert u D \<union> set queue = {v \<in> N. preds E v \<subseteq> D}" using i by auto
    moreover have "set (filter (\<lambda>v. deg v \<le> 1) vs) = {v \<in> N. u \<in> preds E v \<and> preds E v \<subseteq> insert u D}"
      using queue' by auto
    ultimately show ?thesis by auto
  qed
  moreover have "\<forall>v \<in> insert u D. preds E v \<subseteq> insert u D" using i u by auto
  ultimately show ?thesis
    unfolding fold_relax[OF adj(2)] level_inv_def prod.case using deg' lv by blast
qed

lemma level_loop_ends:
  assumes "level_inv N E D st" "E \<subseteq> N \<times> N" "finite N"
    and adj: "\<And>u. u \<in> N \<Longrightarrow> set (adj u) = {v. (u, v) \<in> E} \<and> distinct (adj u)"
  shows "\<exists>D deg levels. level_loop adj st = Some levels \<and> level_inv N E D ([], deg, levels)"
  using assms(1)
proof (induction "card (N - D)" arbitrary: D st rule: less_induct)
  case less
  obtain queue deg levels where st: "st = (queue, deg, levels)" by (cases st)
  show ?case
  proof (cases queue)
    case Nil
    with less.prems st show ?thesis by (auto simp: level_loop.simps)
  next
    case (Cons u queue')
    have u: "u \<in> N - D" using less.prems by (auto simp: st Cons level_inv_def)
    define l where "l = (case levels u of None \<Rightarrow> 0 | Some k \<Rightarrow> k)"
    have inv: "level_inv N E (insert u D) (fold (relax l) (adj u) (queue', deg, levels))"
      by (rule level_inv_step[OF less.prems[unfolded st Cons] assms(2,3)]) (use adj u in \<open>auto simp: l_def\<close>)
    have "card (N - insert u D) < card (N - D)"
      using u assms(3) by (metis Diff_insert card_Diff1_less finite_Diff)
    from less.hyps[OF this inv] show ?thesis
      by (subst level_loop.simps) (simp add: st Cons l_def Let_def)
  qed
qed

definition below_cycle :: "(string \<times> string) set \<Rightarrow> string \<Rightarrow> bool" where
  "below_cycle E v \<longleftrightarrow> (\<exists>u. (u, u) \<in> E\<^sup>+ \<and> (u, v) \<in> E\<^sup>*)"

lemma settled_by_end:
  assumes inv: "level_inv N E D ([], deg, levels)" and E: "E \<subseteq> N \<times> N" "finite N" and v: "v \<in> N" "\<not> below_cycle E v"
  shows "v \<in> D"
proof (rule ccontr)
  assume "v \<notin> D"
  define A where "A = {u. (u, v) \<in> E\<^sup>*}"
  define F where "F = E \<inter> A \<times> A"
  have "acyclic F"
  proof (rule acyclicI, intro allI notI)
    fix u
    assume u: "(u, u) \<in> F\<^sup>+"
    then have "u \<in> A" by (induction rule: trancl_induct) (auto simp: F_def)
    moreover have "(u, u) \<in> E\<^sup>+" using u by (rule trancl_mono) (simp add: F_def)
    ultimately show False using v(2) by (auto simp: below_cycle_def A_def)
  qed
  moreover have "finite F" using E by (auto simp: F_def intro: finite_subset)
  ultimately have wf: "wf F" by (simp add: finite_acyclic_wf)
  have "v \<in> {u \<in> A \<inter> N. u \<notin> D}" using v(1) \<open>v \<notin> D\<close> by (simp add: A_def)
  then obtain m where m: "m \<in> A" "m \<in> N" "m \<notin> D" and min: "\<And>y. (y, m) \<in> F \<Longrightarrow> y \<notin> {u \<in> A \<inter> N. u \<notin> D}"
    using wf by (auto elim!: wfE_min[where Q = "{u \<in> A \<inter> N. u \<notin> D}"])
  have "\<not> preds E m \<subseteq> D" using inv m(2,3) by (auto simp: level_inv_def)
  then obtain s where s: "(s, m) \<in> E" "s \<notin> D" by (auto simp: preds_def)
  then have "s \<in> A" using m(1) by (auto simp: A_def intro: converse_rtrancl_into_rtrancl)
  with s m(1) E(1) min[of s] show False by (auto simp: F_def)
qed

lemma compute_levels_spec:
  assumes ok: "dict_ok nodes" "distinct edges" and root: "preds (edge_rel nodes edges) ''root'' = {}"
  defines "E \<equiv> edge_rel nodes edges"
  shows "\<exists>levels. compute_levels nodes edges = Some levels \<and>
    (\<forall>v \<in> set (keys nodes). \<not> below_cycle E v \<longrightarrow>
       levels v = Some (if preds E v = {} then 0 else Max ((\<lambda>s. Suc (the (levels s))) ` preds E v)))"
proof -
  let ?N = "set (keys nodes)"
  have node: "get nodes i \<noteq> None \<longleftrightarrow> i \<in> ?N" for i by (simp add: map_of_eq_None_iff)
  have E: "E \<subseteq> ?N \<times> ?N" unfolding E_def edge_rel_def node by auto
  have fin: "finite (preds E v)" for v by (rule finite_subset[of _ ?N]) (use E in \<open>auto simp: preds_def\<close>)
  have deg: "in_degree nodes edges v = int (card (preds E v))" for v
  proof -
    let ?in = "filter (\<lambda>(s, t). t = v \<and> get nodes s \<noteq> None \<and> get nodes t \<noteq> None) edges"
    have "length ?in = card (set ?in)" by (rule distinct_card[symmetric]) (use ok(2) in simp)
    also have "set ?in = (\<lambda>s. (s, v)) ` preds E v" by (auto simp: preds_def E_def edge_rel_def)
    also have "card \<dots> = card (preds E v)" by (intro card_image) (simp add: inj_on_def)
    finally show ?thesis by (simp add: in_degree_def)
  qed
  let ?queue = "filter (\<lambda>i. in_degree nodes edges i = 0 \<or> i = ''root'') (keys nodes)"
  have queue: "set ?queue = {v \<in> ?N. preds E v = {}}" using root fin by (auto simp: deg E_def[symmetric])
  have adj: "set (successors nodes edges u) = {v. (u, v) \<in> E} \<and> distinct (successors nodes edges u)" if "u \<in> ?N" for u
  proof -
    have u: "get nodes u \<noteq> None" using node that by blast
    let ?out = "filter (\<lambda>(s, t). s = u \<and> get nodes t \<noteq> None) edges"
    have "inj_on snd (set ?out)" by (auto simp: inj_on_def)
    then have "distinct (map snd ?out)" using ok(2) by (simp only: distinct_map distinct_filter)
    moreover have "snd ` set ?out = {v. (u, v) \<in> E}" using u by (force simp: E_def edge_rel_def)
    ultimately show ?thesis using u by (auto simp: successors_def)
  qed
  have "level_inv ?N E {} (?queue, in_degree nodes edges, \<lambda>i. if i \<in> set ?queue then Some 0 else None)"
    unfolding level_inv_def prod.case
  proof (intro conjI)
    show "distinct ?queue" using ok(1) by (simp add: dict_ok_def)
  qed (use queue in \<open>auto simp: deg\<close>)
  from level_loop_ends[OF this E _ adj] obtain D deg' levels where
    l: "compute_levels nodes edges = Some levels" and inv: "level_inv ?N E D ([], deg', levels)"
    by (auto simp: compute_levels_def Let_def)
  have "levels v = Some (if preds E v = {} then 0 else Max ((\<lambda>s. Suc (the (levels s))) ` preds E v))"
    if v: "v \<in> ?N" "\<not> below_cycle E v" for v
  proof -
    have "v \<in> D" by (rule settled_by_end[OF inv E _ v]) simp
    moreover have "\<forall>v \<in> D. preds E v \<subseteq> D" using inv unfolding level_inv_def prod.case by blast
    ultimately have "preds E v \<inter> D = preds E v" by blast
    moreover have "\<forall>v \<in> ?N. levels v = (if preds E v = {} then Some 0
        else if preds E v \<inter> D = {} then None
        else Some (Max ((\<lambda>s. Suc (the (levels s))) ` (preds E v \<inter> D))))"
      using inv unfolding level_inv_def prod.case by blast
    then have "levels v = (if preds E v = {} then Some 0
        else if preds E v \<inter> D = {} then None
        else Some (Max ((\<lambda>s. Suc (the (levels s))) ` (preds E v \<inter> D))))"
      using v(1) by (rule bspec)
    ultimately show ?thesis by (simp split: if_split)
  qed
  with l show ?thesis by blast
qed

subsection \<open>What the rebuild keeps\<close>

definition graph_ok :: "topo_nodes \<times> topo_edges \<times> topo_children \<Rightarrow> bool" where
  "graph_ok st \<longleftrightarrow> (case st of (nodes, edges, ch) \<Rightarrow>
     dict_ok nodes \<and> distinct edges \<and> consistent edges ch \<and> (\<forall>(s, t) \<in> set edges. t \<noteq> ''root''))"

lemma children_upd: "children_of (ch(x \<mapsto> cs)) y = (if y = x then cs else children_of ch y)"
  by (simp add: children_of_def)

lemma add_edge_eq: "add_edge s t (edges, ch) = (add_to_set (s, t) edges, ch(s \<mapsto> add_to_set t (children_of ch s)))"
  by (simp add: add_edge_def children_of_def)

lemma set_add_to_set [simp]: "set (add_to_set x xs) = insert x (set xs)" "distinct xs \<Longrightarrow> distinct (add_to_set x xs)"
  by (auto simp: add_to_set_def)

lemma graph_ok_add: "graph_ok (nodes, g) \<Longrightarrow> t \<noteq> ''root'' \<Longrightarrow> graph_ok (nodes, add_edge s t g)"
  by (cases g) (auto simp: graph_ok_def add_edge_eq consistent_def children_upd)

lemma graph_ok_discard: "graph_ok (nodes, g) \<Longrightarrow> graph_ok (nodes, discard_edge s t g)"
proof -
  assume ok: "graph_ok (nodes, g)"
  obtain edges ch where g: "g = (edges, ch)" by (cases g)
  have "children_of (snd (discard_edge s t g)) y = (if y = s then removeAll t (children_of ch s) else children_of ch y)" for y
    by (auto simp: discard_edge_def g children_of_def split: option.splits)
  moreover have "fst (discard_edge s t g) = removeAll (s, t) edges" by (simp add: discard_edge_def g)
  ultimately show ?thesis
    using ok distinct_removeAll[of edges "(s, t)"] unfolding graph_ok_def consistent_def g
    by (cases "discard_edge s t (edges, ch)") auto
qed

lemma graph_ok_put: "graph_ok (nodes, g) \<Longrightarrow> graph_ok (put i n nodes, g)"
  by (cases g) (simp add: graph_ok_def)

lemma not_root: "anon_id tag e \<noteq> ''root''" "transit_id ip \<noteq> ''root''" "hub_id s \<noteq> ''root''"
  by (simp_all add: anon_id_def transit_id_def hub_id_def)

lemma stitch_hop_ok:
  assumes "graph_ok (nodes, g)" "\<And>ip e. by_ip ip = Some e \<Longrightarrow> e \<noteq> ''root''"
    and "stitch_hop by_ip failed ep h (nodes, g, previous, tag) = (nodes', g', previous', tag')"
  shows "graph_ok (nodes', g')"
proof -
  define step where "step = (case hp_ip h of
               None \<Rightarrow>
                 (let c = anon_id tag ep
                  in (c, if get nodes c = None then put c (transit_node c ''* * *'' ''UP'' None ''ANONYMOUS_HOP'' None) nodes
                         else nodes, tag))
             | Some ip \<Rightarrow>
                 (case by_ip ip of
                    Some e \<Rightarrow> (e, nodes, underscore ip)
                  | None \<Rightarrow>
                      (let c = transit_id ip
                       in (c, (case get nodes c of
                                 None \<Rightarrow> put c (transit_node c (''Transit ('' @ ip @ '')'')
                                           (if ip \<in> failed then ''FAILURE_POINT'' else ''UP'') (Some ip)
                                           ''TRANSIT_ROUTER'' (get_subnet_group (Some ip))) nodes
                               | Some n \<Rightarrow> if ip \<in> failed then put c (n\<lparr>tn_state := ''FAILURE_POINT''\<rparr>) nodes else nodes),
                           underscore ip))))"
  obtain current nodes1 tag1 where c: "step = (current, nodes1, tag1)" by (cases step)
  have "current \<noteq> ''root''"
    using c assms(2) not_root by (auto simp: step_def Let_def split: option.splits)
  moreover have "graph_ok (nodes1, g)"
    using c assms(1) by (auto simp: step_def Let_def graph_ok_put split: option.splits if_splits)
  moreover have "stitch_hop by_ip failed ep h (nodes, g, previous, tag)
      = (nodes1, if previous \<noteq> current then add_edge previous current g else g, current, tag1)"
    unfolding stitch_hop_def prod.case Let_def[of "(nodes, g, previous, tag)"] step_def[symmetric] c by (simp add: Let_def)
  ultimately show ?thesis using assms(3) by (simp add: graph_ok_add split: if_splits)
qed

lemma stitch_route_ok:
  assumes "graph_ok (nodes, g)" "\<And>ip e. by_ip ip = Some e \<Longrightarrow> e \<noteq> ''root''" "ep \<noteq> ''root''"
  shows "graph_ok (stitch_route by_ip failed ep hops (nodes, g))"
proof -
  have "case fold (stitch_hop by_ip failed ep) hops (nodes, g, p, t) of (nodes', g', _) \<Rightarrow> graph_ok (nodes', g')" for p t
    using assms(1)
  proof (induction hops arbitrary: nodes g p t)
    case (Cons h hops)
    obtain n1 g1 p1 t1 where h: "stitch_hop by_ip failed ep h (nodes, g, p, t) = (n1, g1, p1, t1)"
      by (cases "stitch_hop by_ip failed ep h (nodes, g, p, t)") auto
    from Cons.IH[OF stitch_hop_ok[OF Cons.prems assms(2) h]] show ?case by (simp add: h)
  qed simp
  then show ?thesis
    using assms(3) by (cases g) (auto simp: stitch_route_def Let_def case_prod_beta graph_ok_add)
qed

lemma attach_ok:
  assumes "graph_ok st" "\<And>ip e. by_ip ip = Some e \<Longrightarrow> e \<noteq> ''root''" "fst ep \<noteq> ''root''"
  shows "graph_ok (attach by_ip failed routes ep st)"
  using assms stitch_route_ok[of "fst st" "snd st" by_ip "fst ep" failed]
  by (auto simp: attach_def Let_def case_prod_beta graph_ok_add split: option.splits)

lemma cluster_ok:
  assumes "graph_ok st" "\<forall>i \<in> set (snd entry). i \<noteq> ''root''"
  shows "graph_ok (cluster entry st)"
proof -
  have loop: "graph_ok (nodes, fold (\<lambda>d g. add_edge hub d (discard_edge ''root'' d g)) ds g)"
    if "graph_ok (nodes, g)" "\<forall>i \<in> set ds. i \<noteq> ''root''" for nodes g hub ds
    using that by (induction ds arbitrary: g) (auto simp: graph_ok_add graph_ok_discard)
  obtain subnet ds nodes g where e: "entry = (subnet, ds)" "st = (nodes, g)" by (metis surj_pair)
  have "graph_ok (if get nodes (hub_id subnet) = None then put (hub_id subnet) (hub_node subnet) nodes else nodes,
      add_edge ''root'' (hub_id subnet) g)"
    using assms(1) by (auto simp: e intro!: graph_ok_add graph_ok_put not_root)
  with loop assms show ?thesis by (auto simp: cluster_def e Let_def)
qed

lemma fold_inv: "(\<And>x a. P a \<Longrightarrow> P (f x a)) \<Longrightarrow> P a \<Longrightarrow> P (fold f xs a)"
  by (induction xs arbitrary: a) auto

lemma put_all: "\<forall>e \<in> set d. P (snd e) \<Longrightarrow> P v \<Longrightarrow> \<forall>e \<in> set (put k v d). P (snd e)"
  by (induction d) auto

lemma direct_by_subnet_ids:
  assumes "\<forall>i \<in> set (keys by_id). i \<noteq> ''root''"
  shows "\<forall>e \<in> set (direct_by_subnet by_id edges). \<forall>i \<in> set (snd e). i \<noteq> ''root''"
proof -
  define f where "f = (\<lambda>(src, ep_id) d.
       case (if src = ''root'' then get by_id ep_id else None) of
         None \<Rightarrow> d
       | Some m \<Rightarrow> (case tm_subnet m of
                      None \<Rightarrow> d
                    | Some s \<Rightarrow> put s ((case get d s of None \<Rightarrow> [] | Some l \<Rightarrow> l) @ [ep_id]) d))"
  have "\<forall>e \<in> set (f e d). \<forall>i \<in> set (snd e). i \<noteq> ''root''"
    if d: "\<forall>e \<in> set d. \<forall>i \<in> set (snd e). i \<noteq> ''root''" for e d
  proof -
    obtain src ep where e: "e = (src, ep)" by (cases e)
    define l where "l = (\<lambda>s. case get d s of None \<Rightarrow> [] | Some l \<Rightarrow> l)"
    have l: "\<forall>i \<in> set (l s). i \<noteq> ''root''" for s
    proof (cases "get d s")
      case (Some xs)
      with bspec[OF d map_of_SomeD[OF Some]] show ?thesis by (simp add: l_def)
    qed (simp add: l_def)
    have upd: "\<forall>e \<in> set (put s (l s @ [ep]) d). \<forall>i \<in> set (snd e). i \<noteq> ''root''" if "ep \<noteq> ''root''" for s
      by (rule put_all[OF d]) (use l that in auto)
    show ?thesis
    proof (cases "if src = ''root'' then get by_id ep else None")
      case None
      with d show ?thesis by (simp add: f_def e)
    next
      case (Some m)
      then have "ep \<in> set (keys by_id)" by (auto dest!: map_of_SomeD split: if_splits intro!: rev_image_eqI)
      with assms have ep: "ep \<noteq> ''root''" by blast
      have "f e d = (case tm_subnet m of None \<Rightarrow> d | Some s \<Rightarrow> put s (l s @ [ep]) d)"
        by (simp only: f_def e prod.case Some option.case l_def)
      with upd[OF ep] d show ?thesis by (cases "tm_subnet m") simp_all
    qed
  qed
  then have "\<forall>e \<in> set (fold f es d). \<forall>i \<in> set (snd e). i \<noteq> ''root''"
    if "\<forall>e \<in> set d. \<forall>i \<in> set (snd e). i \<noteq> ''root''" for es d
    by (rule fold_inv[where P = "\<lambda>d. \<forall>e \<in> set d. \<forall>i \<in> set (snd e). i \<noteq> ''root''", OF _ that])
  from this[of "[]"] show ?thesis unfolding direct_by_subnet_def f_def[symmetric] by simp
qed

lemma uuid_not_root: "uuid_text u \<noteq> ''root''"
proof -
  have "CHR ''-'' \<in> set (uuid_text u)" by (simp add: uuid_text_def Let_def)
  moreover have "CHR ''-'' \<notin> set ''root''" by simp
  ultimately show ?thesis by metis
qed

lemma put_keys: "\<forall>i \<in> set (keys d). P i \<Longrightarrow> P k \<Longrightarrow> \<forall>i \<in> set (keys (put k v d)). P i"
  by (auto simp: update_keys)

lemma read_rows_ids:
  assumes "read_rows rows = (by_id, by_ip, disabled)"
  shows "(\<forall>i \<in> set (keys by_id). i \<noteq> ''root'') \<and> (\<forall>ip e. by_ip ip = Some e \<longrightarrow> e \<noteq> ''root'')"
proof -
  define P where "P = (\<lambda>(by_id :: (string, topo_monitored) dict, by_ip :: string \<rightharpoonup> string, disabled :: string set).
    (\<forall>i \<in> set (keys by_id). i \<noteq> ''root'') \<and> (\<forall>ip e. by_ip ip = Some e \<longrightarrow> e \<noteq> ''root''))"
  have "P (read_rows rows)"
    unfolding read_rows_def
  proof (rule fold_inv)
    fix row st
    assume P: "P st"
    obtain by_id by_ip disabled where st: "st = (by_id, by_ip, disabled)" by (cases st)
    have "\<forall>i \<in> set (keys by_id). i \<noteq> ''root''" using P by (simp add: P_def st)
    note k = put_keys[OF this uuid_not_root]
    show "P ((\<lambda>(by_id, by_ip, disabled). let ep_id = uuid_text (rw_id row)
         in if \<not> rw_allow_topology_discovery row then (by_id, by_ip, insert ep_id disabled)
            else (put ep_id (monitored_of row) by_id, by_ip(rw_ip_address row \<mapsto> ep_id), disabled)) st)"
      using P k uuid_not_root by (simp add: P_def st Let_def)
  qed (simp add: P_def)
  with assms show ?thesis by (simp add: P_def)
qed

lemma fold_put_ok: "dict_ok d \<Longrightarrow> dict_ok (fold (\<lambda>(i, m). put i (f i m)) xs d)"
  by (rule fold_inv) auto

lemma merged_graph_ok:
  assumes "\<forall>i \<in> set (keys by_id). i \<noteq> ''root''" "\<And>ip e. by_ip ip = Some e \<Longrightarrow> e \<noteq> ''root''"
  shows "graph_ok (merged_graph by_id by_ip routes failed_ips failed_eps)"
proof -
  define nodes where "nodes = fold (\<lambda>(i, m). put i (node_of_monitored failed_ips failed_eps i m)) by_id [(''root'', root_node)]"
  have attach: "graph_ok (fold (attach by_ip failed_ips routes) eps st)" if "graph_ok st" "set eps \<subseteq> set by_id" for eps st
    using that
  proof (induction eps arbitrary: st)
    case (Cons ep eps)
    have "fst ep \<noteq> ''root''" using Cons.prems(2) assms(1) by auto
    from attach_ok[OF Cons.prems(1) assms(2) this] Cons show ?case by simp
  qed simp
  have "dict_ok nodes" unfolding nodes_def by (rule fold_put_ok) (simp add: dict_ok_def)
  then have "graph_ok (nodes, [], Map.empty)" by (simp add: graph_ok_def consistent_def children_of_def)
  from attach[OF this subset_refl] obtain nodes1 edges ch
    where a: "fold (attach by_ip failed_ips routes) by_id (nodes, [], Map.empty) = (nodes1, edges, ch)"
      and ok: "graph_ok (nodes1, edges, ch)"
    by (cases "fold (attach by_ip failed_ips routes) by_id (nodes, [], Map.empty)") simp
  have cluster: "graph_ok (fold cluster es st)"
    if "graph_ok st" "\<forall>e \<in> set es. \<forall>i \<in> set (snd e). i \<noteq> ''root''" for es st
    using that by (induction es arbitrary: st) (simp_all add: cluster_ok)
  from cluster[OF ok direct_by_subnet_ids[OF assms(1)]] show ?thesis
    by (simp add: merged_graph_def nodes_def[symmetric] a)
qed

lemma infer_down_keys: "keys (infer_down edges ch i nodes) = keys nodes"
  by (auto simp: infer_down_def Let_def update_keys split: option.splits dest: map_of_SomeD intro: rev_image_eqI)

lemma propagate_keys: "keys (propagate_inferred_down edges ch nodes) = keys nodes"
  unfolding propagate_inferred_down_def
  by (rule fold_inv[where P = "\<lambda>n. keys n = keys nodes"]) (simp_all add: infer_down_keys)

lemma set_levels_get:
  "get (set_levels levels nodes) i = map_option (\<lambda>n. n\<lparr>tn_level := (case levels i of Some l \<Rightarrow> l | None \<Rightarrow> if i \<noteq> ''root'' then 1 else 0)\<rparr>) (get nodes i)"
  by (induction nodes) (auto simp: set_levels_def)

lemma set_levels_keys: "keys (set_levels levels nodes) = keys nodes"
  by (simp add: set_levels_def comp_def case_prod_beta)

lemma get_node: "get nodes i \<noteq> None \<longleftrightarrow> i \<in> set (keys nodes)"
  by (simp only: map_of_eq_None_iff not_not set_map)

lemma edge_rel_keys: "keys N = keys N' \<Longrightarrow> edge_rel N edges = edge_rel N' edges"
  unfolding edge_rel_def get_node by simp

lemma below_cycle_pred: "s \<in> preds E v \<Longrightarrow> below_cycle E s \<Longrightarrow> below_cycle E v"
  unfolding below_cycle_def preds_def by (meson mem_Collect_eq rtrancl.rtrancl_into_rtrancl)

definition level_of :: "topology \<Rightarrow> string \<Rightarrow> nat" where
  "level_of tp i = tn_level (the (get (tp_nodes tp) i))"

definition links :: "topology \<Rightarrow> (string \<times> string) set" where
  "links tp = edge_rel (tp_nodes tp) (tp_edges tp)"

text \<open>The levels that are put into the nodes.\<close>

lemma levels_in_nodes:
  assumes "dict_ok nodes" "distinct edges" "\<forall>(s, t) \<in> set edges. t \<noteq> ''root''"
  shows "\<exists>levels. compute_levels nodes edges = Some levels \<and>
    (\<forall>v \<in> set (keys nodes). \<not> below_cycle (edge_rel nodes edges) v \<longrightarrow>
       tn_level (the (get (set_levels levels nodes) v)) =
         (if preds (edge_rel nodes edges) v = {} then 0
          else Max ((\<lambda>s. Suc (tn_level (the (get (set_levels levels nodes) s)))) ` preds (edge_rel nodes edges) v)))"
proof -
  define E where "E = edge_rel nodes edges"
  have "preds E ''root'' = {}" using assms(3) by (auto simp: E_def preds_def edge_rel_def)
  from compute_levels_spec[OF assms(1,2) this[unfolded E_def]] obtain levels where
    c: "compute_levels nodes edges = Some levels" and
    l: "\<And>v. v \<in> set (keys nodes) \<Longrightarrow> \<not> below_cycle E v \<Longrightarrow>
       levels v = Some (if preds E v = {} then 0 else Max ((\<lambda>s. Suc (the (levels s))) ` preds E v))"
    unfolding E_def by blast
  have lv: "tn_level (the (get (set_levels levels nodes) v)) = the (levels v)"
    if "v \<in> set (keys nodes)" "\<not> below_cycle E v" for v
  proof -
    have "get nodes v \<noteq> None" using that(1) unfolding get_node .
    then obtain n where "get nodes v = Some n" by blast
    with l[OF that] show ?thesis by (simp add: set_levels_get)
  qed
  have sub: "s \<in> set (keys nodes)" if "s \<in> preds E v" for s v
    using that by (auto simp: E_def preds_def edge_rel_def dest: map_of_SomeD intro: rev_image_eqI)
  have "tn_level (the (get (set_levels levels nodes) v)) = (if preds E v = {} then 0
          else Max ((\<lambda>s. Suc (tn_level (the (get (set_levels levels nodes) s)))) ` preds E v))"
    if v: "v \<in> set (keys nodes)" "\<not> below_cycle E v" for v
  proof -
    have "(\<lambda>s. Suc (tn_level (the (get (set_levels levels nodes) s)))) ` preds E v = (\<lambda>s. Suc (the (levels s))) ` preds E v"
      using lv sub below_cycle_pred v(2) by (intro image_cong refl) metis
    with lv[OF v] l[OF v] show ?thesis by simp
  qed
  with c show ?thesis unfolding E_def by blast
qed

text \<open>
  C39. The rebuild of the graph always ends, whatever the routes, the parents and the incidents,
  and however the routes loop; the level it gives a node that no cycle leads to is the length of
  the longest path to it.
\<close>

theorem rebuild_levels:
  "\<exists>tp. full_rebuild ep_rows bl_rows tr_rows inc_rows = Some tp \<and>
     (\<forall>v \<in> set (keys (tp_nodes tp)). \<not> below_cycle (links tp) v \<longrightarrow>
        level_of tp v = (if preds (links tp) v = {} then 0 else Max ((\<lambda>s. Suc (level_of tp s)) ` preds (links tp) v)))"
proof -
  obtain by_id by_ip disabled where r: "read_rows ep_rows = (by_id, by_ip, disabled)" by (cases "read_rows ep_rows")
  define failed_ips where "failed_ips = set (filter (\<lambda>ip. ip \<noteq> []) (List.map_filter snd inc_rows))"
  define failed_eps where "failed_eps = (uuid_text \<circ> fst) ` set inc_rows"
  obtain nodes0 edges ch where m: "merged_graph by_id by_ip (read_routes bl_rows tr_rows) failed_ips failed_eps = (nodes0, edges, ch)"
    by (cases "merged_graph by_id by_ip (read_routes bl_rows tr_rows) failed_ips failed_eps")
  have ok: "graph_ok (nodes0, edges, ch)"
    unfolding m[symmetric] by (rule merged_graph_ok) (use read_rows_ids[OF r] in auto)
  define nodes where "nodes = propagate_inferred_down edges ch nodes0"
  have "dict_ok nodes" "distinct edges" "\<forall>(s, t) \<in> set edges. t \<noteq> ''root''"
    using ok by (simp_all add: graph_ok_def dict_ok_def nodes_def propagate_keys)
  from levels_in_nodes[OF this] obtain levels where c: "compute_levels nodes edges = Some levels"
    and l: "\<forall>v \<in> set (keys nodes). \<not> below_cycle (edge_rel nodes edges) v \<longrightarrow>
       tn_level (the (get (set_levels levels nodes) v)) =
         (if preds (edge_rel nodes edges) v = {} then 0
          else Max ((\<lambda>s. Suc (tn_level (the (get (set_levels levels nodes) s)))) ` preds (edge_rel nodes edges) v))" by blast
  have "full_rebuild ep_rows bl_rows tr_rows inc_rows = Some
      \<lparr> tp_nodes = set_levels levels nodes, tp_edges = edges, tp_children = ch, tp_monitored_by_id = by_id,
        tp_monitored_by_ip = by_ip, tp_disabled = disabled, tp_routes = read_routes bl_rows tr_rows,
        tp_failed_hop_ips = failed_ips, tp_failed_endpoint_ids = failed_eps,
        tp_cached_graph = cached (set_levels levels nodes) edges \<rparr>"
    unfolding full_rebuild_def r Let_def prod.case failed_ips_def[symmetric] failed_eps_def[symmetric] m
      nodes_def[symmetric] c option.case by (rule refl)
  then obtain tp where tp: "full_rebuild ep_rows bl_rows tr_rows inc_rows = Some tp"
    "tp_nodes tp = set_levels levels nodes" "tp_edges tp = edges" by simp
  have "links tp = edge_rel nodes edges" unfolding links_def tp(2,3) by (rule edge_rel_keys) (simp only: set_levels_keys)
  with l tp(1) show ?thesis
    unfolding level_of_def by (intro exI[of _ tp]) (simp only: tp(2) set_levels_keys simp_thms)
qed

subsection \<open>An example\<close>

lemma rebuild_parts:
  assumes "read_rows ep_rows = (by_id, by_ip, disabled)" "full_rebuild ep_rows bl_rows tr_rows inc_rows = Some tp"
    and "merged_graph by_id by_ip (read_routes bl_rows tr_rows) (set (filter (\<lambda>ip. ip \<noteq> []) (List.map_filter snd inc_rows)))
           ((uuid_text \<circ> fst) ` set inc_rows) = (nodes, edges, ch)"
  shows "keys (tp_nodes tp) = keys nodes" "tp_edges tp = edges"
  using assms(2) unfolding full_rebuild_def assms(1,3) Let_def prod.case
  by (auto simp: set_levels_keys propagate_keys split: option.splits)

lemma ranked_no_cycle:
  fixes f :: "string \<Rightarrow> nat"
  assumes "\<forall>(s, t) \<in> E. f s < f t"
  shows "\<not> below_cycle E v"
proof -
  have "f u < f w" if "(u, w) \<in> E\<^sup>+" for u w
    using that by (induction rule: trancl_induct) (use assms in fastforce)+
  then show ?thesis by (auto simp: below_cycle_def)
qed

definition demo_row :: topo_row where
  "demo_row = \<lparr> rw_id = 7, rw_hostname = None, rw_ip_address = ''10.0.0.1'', rw_device_type = None,
     rw_allow_topology_discovery = True, rw_manual_parent_id = None, rw_is_l2_segment = False,
     rw_operational_state = ''UP'', rw_detailed_state = ''UP'' \<rparr>"

definition demo_id :: string where "demo_id = ''00000000-0000-0000-0000-000000000007''"
definition demo_hops :: "hop list" where
  "demo_hops = [\<lparr> hp_hop = Some 1, hp_ip = Some ''10.9.9.9'', hp_rtt_ms = None \<rparr>]"

lemma demo_rebuild:
  assumes "full_rebuild [demo_row] [(demo_id, Some demo_hops)] [] [] = Some tp"
  shows "keys (tp_nodes tp) = [''root'', demo_id, ''transit:10.9.9.9'']"
    "tp_edges tp = [(''root'', ''transit:10.9.9.9''), (''transit:10.9.9.9'', demo_id)]"
proof -
  have u: "uuid_text 7 = demo_id" by code_simp
  define m where "m = monitored_of demo_row"
  have mm: "tm_manual_parent_id m = None" by (simp add: m_def monitored_of_def demo_row_def)
  have r: "read_rows [demo_row] = ([(demo_id, m)], [''10.0.0.1'' \<mapsto> demo_id], {})"
    by (simp add: read_rows_def u m_def Let_def) (simp add: demo_row_def u)
  have routes: "read_routes [(demo_id, Some demo_hops)] [] = [(demo_id, demo_hops)]" by (simp add: read_routes_def)
  define g where "g = merged_graph [(demo_id, m)] [''10.0.0.1'' \<mapsto> demo_id] [(demo_id, demo_hops)] {} {}"
  have "sanitize_traceroute_hops demo_hops None = demo_hops" by code_simp
  moreover have ne: "demo_id \<noteq> ''root''" "''transit:10.9.9.9'' \<noteq> demo_id" "demo_hops \<noteq> []" by code_simp+
  ultimately have "keys (fst g) = [''root'', demo_id, ''transit:10.9.9.9''] \<and>
      fst (snd g) = [(''root'', ''transit:10.9.9.9''), (''transit:10.9.9.9'', demo_id)]"
    unfolding g_def merged_graph_def
    by (simp add: attach_def mm stitch_route_def demo_hops_def stitch_hop_def transit_id_def add_edge_def
        add_to_set_def direct_by_subnet_def Let_def cluster_def)
  moreover have "merged_graph [(demo_id, m)] [''10.0.0.1'' \<mapsto> demo_id] (read_routes [(demo_id, Some demo_hops)] [])
      (set (filter (\<lambda>ip. ip \<noteq> []) (List.map_filter snd []))) ((uuid_text \<circ> fst) ` set []) = (fst g, fst (snd g), snd (snd g))"
    by (simp add: routes g_def List.map_filter_def)
  note rebuild_parts[OF r assms this]
  ultimately show "keys (tp_nodes tp) = [''root'', demo_id, ''transit:10.9.9.9'']"
    "tp_edges tp = [(''root'', ''transit:10.9.9.9''), (''transit:10.9.9.9'', demo_id)]"
    by simp_all
qed

theorem rebuild_levels_witness:
  "\<exists>tp. full_rebuild [demo_row] [(demo_id, Some demo_hops)] [] [] = Some tp \<and> level_of tp demo_id = 2"
proof -
  obtain tp where tp: "full_rebuild [demo_row] [(demo_id, Some demo_hops)] [] [] = Some tp"
    and l: "\<And>v. v \<in> set (keys (tp_nodes tp)) \<Longrightarrow> \<not> below_cycle (links tp) v \<Longrightarrow>
        level_of tp v = (if preds (links tp) v = {} then 0 else Max ((\<lambda>s. Suc (level_of tp s)) ` preds (links tp) v))"
    using rebuild_levels[of "[demo_row]" "[(demo_id, Some demo_hops)]" "[]" "[]"] by blast
  let ?t = "''transit:10.9.9.9''"
  note d = demo_rebuild[OF tp]
  have ne: "demo_id \<noteq> ''root''" "?t \<noteq> demo_id" "?t \<noteq> ''root''" by code_simp+
  have links: "links tp = {(''root'', ?t), (?t, demo_id)}"
    unfolding links_def edge_rel_def get_node d by auto
  have nc: "\<not> below_cycle (links tp) v" for v
    by (rule ranked_no_cycle[where f = "\<lambda>i. if i = ''root'' then 0 else if i = ?t then 1 else 2"])
       (use ne in \<open>simp add: links\<close>)
  have p: "preds (links tp) demo_id = {?t}" "preds (links tp) ?t = {''root''}" "preds (links tp) ''root'' = {}"
    using ne by (auto simp: links preds_def)
  have "level_of tp ''root'' = 0" "level_of tp ?t = Suc (level_of tp ''root'')" "level_of tp demo_id = Suc (level_of tp ?t)"
    using l[OF _ nc, of "''root''"] l[OF _ nc, of ?t] l[OF _ nc, of demo_id] by (simp_all add: d p)
  with tp show ?thesis by simp
qed

definition demo_topology :: topology where
  \<comment> \<open>the engine, a router and an endpoint below it\<close>
  "demo_topology =
     \<lparr> tp_nodes = [(''root'', root_node), (''ep'', root_node\<lparr>tn_type := ''monitored''\<rparr>),
                  (''r'', transit_node ''r'' ''r'' ''UP'' None ''TRANSIT_ROUTER'' None)],
       tp_edges = [(''root'', ''r''), (''r'', ''ep'')], tp_children = [''root'' \<mapsto> [''r''], ''r'' \<mapsto> [''ep'']],
       tp_monitored_by_id = [], tp_monitored_by_ip = Map.empty, tp_disabled = {}, tp_routes = [],
       tp_failed_hop_ips = {}, tp_failed_endpoint_ids = {}, tp_cached_graph = ([], []) \<rparr>"

theorem router_shown_down_witness:
  "map_option tn_state (get (tp_nodes (update_node_status ''ep'' ''DOWN'' demo_topology)) ''r'') = Some ''INFERRED_DOWN''"
proof -
  let ?N = "tp_nodes demo_topology" and ?E = "tp_edges demo_topology"
  have ok: "dict_ok ?N" "consistent ?E (tp_children demo_topology)"
    by (auto simp: demo_topology_def dict_ok_def consistent_def children_of_def)
  have "\<not> is_monitored ?N ''r''" "is_monitored ?N ''ep''"
    by (simp_all add: demo_topology_def is_monitored_def transit_node_def)
  note k = this
  have "below ?N ?E ''r'' = {''ep''}"
    unfolding downstream_below[OF ok(2) k(1), symmetric] by code_simp
  note b = this
  have "''ep'' \<notin> tp_disabled demo_topology" "get ?N ''ep'' = Some (root_node\<lparr>tn_type := ''monitored''\<rparr>)"
    "get ?N ''r'' = Some (transit_node ''r'' ''r'' ''UP'' None ''TRANSIT_ROUTER'' None)"
    by (simp_all add: demo_topology_def)
  note n = this
  have d: "is_down ''DOWN''" by (simp add: is_down_def)
  show ?thesis
    using router_shown_down[OF refl n(1,2) k(2) ok n(3), where s = "''DOWN''"] b by (simp add: d transit_node_def)
qed

end
