(* ===== verification/Relay.thy ===== *)
theory Relay
  imports Alerts_Proofs State_Machine Topology_Proofs Routes
begin

text \<open>
  What the state changes of the engine lead to in the back end: the messages that the event broker
  carries, the relay that takes them into the topology (\<open>services/telemetry_relay.py\<close>), the queue of
  route discoveries (\<open>services/baseline_route.py\<close>), and the alerts.
\<close>

subsection \<open>Messages\<close>

record message =
  ms_endpoint_id :: "string option"
  ms_node_id :: "string option"
  ms_hostname :: "string option"
  ms_ip_address :: "string option"
  ms_current_state :: "string option"
  ms_operational_state :: "string option"
  ms_new_state :: "string option"

fun broker_message :: "effect \<Rightarrow> (string \<times> message) option" where
  \<comment> \<open>the channel and the payload that a transition publishes\<close>
  "broker_message (Broker_node_state_change ep s) =
     Some (''NODE_STATE_CHANGE'',
       \<lparr> ms_endpoint_id = Some (uuid_text ep), ms_node_id = None, ms_hostname = None, ms_ip_address = None,
         ms_current_state = None, ms_operational_state = None, ms_new_state = Some s \<rparr>)"
| "broker_message (Broker_state_transition tr) =
     Some (''STATE_TRANSITION'',
       \<lparr> ms_endpoint_id = Some (uuid_text (tr_endpoint_id tr)), ms_node_id = None, ms_hostname = tr_hostname tr,
         ms_ip_address = tr_ip_address tr, ms_current_state = None,
         ms_operational_state = Some (tr_operational_state tr), ms_new_state = None \<rparr>)"
| "broker_message _ = None"

definition alert_event_of :: "string \<times> message \<Rightarrow> alert_event" where
  \<comment> \<open>what the dispatcher reads from a payload of the state machine\<close>
  "alert_event_of cm =
     (let m = snd cm
      in \<lparr> ae_type = fst cm, ae_endpoint_id = ms_endpoint_id m, ae_node_id = ms_node_id m, ae_hostname = ms_hostname m,
           ae_endpoint_name = None, ae_ip_address = ms_ip_address m, ae_operational_state = ms_operational_state m,
           ae_current_state = ms_current_state m, ae_new_state = ms_new_state m, ae_is_symptom = False,
           ae_suppressed_by_upstream = False, ae_incident_id = None, ae_root_id = None, ae_symptom_ids = [],
           ae_is_resolved = False \<rparr>)"

subsection \<open>The queue of discoveries\<close>

record discovery =
  dq_queue :: "(uuid \<times> string) list"
  dq_in_progress :: "uuid set"

definition start_discovery :: "uuid \<Rightarrow> string \<Rightarrow> discovery \<Rightarrow> discovery" where
  "start_discovery u ip d = d\<lparr>dq_in_progress := insert u (dq_in_progress d), dq_queue := dq_queue d @ [(u, ip)]\<rparr>"

definition maybe_trigger_auto_discovery :: "topology \<Rightarrow> string \<Rightarrow> string option \<Rightarrow> discovery \<Rightarrow> discovery" where
  "maybe_trigger_auto_discovery tp ep ip d =
     (case UUID ep of
        Inl _ \<Rightarrow> d
      | Inr ep_uuid \<Rightarrow>
          if ep_uuid \<in> dq_in_progress d then d
          else (let known_hops = (case get (tp_routes tp) ep of None \<Rightarrow> [] | Some hs \<Rightarrow> hs);
                    node_ip = (case get (tp_nodes tp) ep of None \<Rightarrow> None | Some n \<Rightarrow> tn_ip_address n);
                    resolved_ip = or_text ip (or_text node_ip [])
                in if known_hops = [] \<and> resolved_ip \<noteq> [] then start_discovery ep_uuid resolved_ip d else d))"

record discovery_row =
  dr_id :: uuid
  dr_ip_address :: string
  dr_status :: string
  dr_enable_scheduled_discovery :: bool
  dr_operational_state :: "string option" \<comment> \<open>of the latest event\<close>

definition due_for_discovery :: "discovery_row \<Rightarrow> bool" where
  "due_for_discovery r \<longleftrightarrow>
     dr_status r \<noteq> ''DELETED'' \<and> dr_enable_scheduled_discovery r \<and>
     (case dr_operational_state r of None \<Rightarrow> True | Some s \<Rightarrow> s = ''UP'')"

definition enqueue_row :: "discovery_row \<Rightarrow> discovery \<times> nat \<Rightarrow> discovery \<times> nat" where
  "enqueue_row r dn =
     (let (d, count) = dn
      in if dr_id r \<in> dq_in_progress d then dn else (start_discovery (dr_id r) (dr_ip_address r) d, count + 1))"

definition enqueue_scheduled_discovery :: "discovery_row list \<Rightarrow> discovery \<Rightarrow> discovery \<times> nat" where
  "enqueue_scheduled_discovery rows d = fold enqueue_row (filter due_for_discovery rows) (d, 0)"

record topology_rows =
  ts_endpoints :: "topo_row list"
  ts_baselines :: "(string \<times> hop list option) list"
  ts_traces :: "(string \<times> hop list option) list"
  ts_incidents :: "(uuid \<times> string option) list"

record consumer =
  cn_macs :: "string \<rightharpoonup> string"
  cn_db :: route_db
  cn_topology :: topology
  cn_discovery :: discovery

definition take_discovery :: "consumer \<Rightarrow> ((uuid \<times> string) \<times> consumer) option" where
  "take_discovery c =
     (case dq_queue (cn_discovery c) of
        [] \<Rightarrow> None
      | e # rest \<Rightarrow> Some (e, c\<lparr>cn_discovery := (cn_discovery c)\<lparr>dq_queue := rest\<rparr>\<rparr>))"

definition finish_discovery :: "net_env \<Rightarrow> (route_db \<Rightarrow> topology_rows) \<Rightarrow> uuid \<times> string \<Rightarrow> consumer \<Rightarrow> consumer option" where
  \<comment> \<open>the refresh of a taken endpoint; the rows of the rebuild come from the database\<close>
  "finish_discovery env rows e c =
     (let (u, ip) = e; disc = (cn_discovery c)\<lparr>dq_in_progress := dq_in_progress (cn_discovery c) - {u}\<rparr>
      in case refresh_baseline_route env u ip (cn_macs c) (cn_db c) of
           Inl _ \<Rightarrow> Some (c\<lparr>cn_discovery := disc\<rparr>)
         | Inr (res, macs, db) \<Rightarrow>
             (case update_endpoint_path (uuid_text u) (rr_hops res) (cn_topology c) of
                None \<Rightarrow> None
              | Some tp \<Rightarrow>
                  (case (if dq_queue disc = [] then
                           (let ts = rows db in full_rebuild (ts_endpoints ts) (ts_baselines ts) (ts_traces ts) (ts_incidents ts))
                         else Some tp) of
                     None \<Rightarrow> None
                   | Some tp \<Rightarrow> Some \<lparr> cn_macs = macs, cn_db = db, cn_topology = tp, cn_discovery = disc \<rparr>)))"

subsection \<open>The relay\<close>

definition handle_relayed_event ::
  "string \<times> message \<Rightarrow> topology \<times> discovery \<Rightarrow> (topology \<times> discovery) \<times> (string \<times> message) list" where
  \<comment> \<open>the last component: what is pushed to the browsers\<close>
  "handle_relayed_event cm td =
     (let (channel, data) = cm; (tp, d) = td
      in (if channel = ''STATE_TRANSITION'' then
            (let ep = or_text (ms_endpoint_id data) [];
                 new_state = or_text (ms_current_state data) (or_text (ms_operational_state data) [])
             in if ep \<noteq> [] \<and> new_state \<noteq> [] then
                  (let tp = update_node_status ep new_state tp
                   in (tp, if upper new_state = ''UP'' then maybe_trigger_auto_discovery tp ep (ms_ip_address data) d else d))
                else (tp, d))
          else if channel = ''NODE_STATE_CHANGE'' then
            (let node_id = or_text (ms_node_id data) (or_text (ms_endpoint_id data) []);
                 new_state = or_text (ms_operational_state data) (or_text (ms_new_state data) [])
             in if node_id \<noteq> [] \<and> new_state \<noteq> [] then (update_node_status node_id new_state tp, d) else (tp, d))
          else (tp, d), [cm]))"

fun relay_all :: "(string \<times> message) list \<Rightarrow> topology \<times> discovery \<Rightarrow> topology \<times> discovery" where
  "relay_all [] td = td"
| "relay_all (cm # cms) td = relay_all cms (fst (handle_relayed_event cm td))"

subsection \<open>Each endpoint is discovered once at a time\<close>

definition discovery_ok :: "uuid option \<Rightarrow> discovery \<Rightarrow> bool" where
  \<comment> \<open>the endpoint the consumer works on\<close>
  "discovery_ok working d \<longleftrightarrow>
     distinct (map fst (dq_queue d)) \<and> (\<forall>u. working = Some u \<longrightarrow> u \<notin> fst ` set (dq_queue d)) \<and>
     dq_in_progress d = fst ` set (dq_queue d) \<union> set_option working"

lemma discovery_ok_start: "discovery_ok w d \<Longrightarrow> u \<notin> dq_in_progress d \<Longrightarrow> discovery_ok w (start_discovery u ip d)"
  by (cases w) (auto simp: discovery_ok_def start_discovery_def)

lemma discovery_ok_auto: "discovery_ok w d \<Longrightarrow> discovery_ok w (maybe_trigger_auto_discovery tp ep ip d)"
  by (auto simp: maybe_trigger_auto_discovery_def Let_def discovery_ok_start split: sum.split)

lemma discovery_ok_relay: "discovery_ok w (snd td) \<Longrightarrow> discovery_ok w (snd (fst (handle_relayed_event cm td)))"
  by (simp add: handle_relayed_event_def Let_def case_prod_unfold discovery_ok_auto)

lemma discovery_ok_scheduled: "discovery_ok w d \<Longrightarrow> discovery_ok w (fst (enqueue_scheduled_discovery rows d))"
proof -
  have "discovery_ok w (fst dn) \<Longrightarrow> discovery_ok w (fst (fold enqueue_row rs dn))" for rs dn
    by (induction rs arbitrary: dn) (simp_all add: enqueue_row_def case_prod_unfold discovery_ok_start)
  from this[of "(d, 0)"] show "discovery_ok w d \<Longrightarrow> ?thesis" by (simp add: enqueue_scheduled_discovery_def)
qed

lemma take_discovery_ok:
  "take_discovery c = Some ((u, ip), c') \<Longrightarrow> discovery_ok None (cn_discovery c) \<Longrightarrow> discovery_ok (Some u) (cn_discovery c')"
  by (cases "dq_queue (cn_discovery c)") (force simp: take_discovery_def discovery_ok_def)+

lemma finish_discovery_queue:
  "finish_discovery env rows (u, ip) c = Some c' \<Longrightarrow>
   cn_discovery c' = (cn_discovery c)\<lparr>dq_in_progress := dq_in_progress (cn_discovery c) - {u}\<rparr>"
  by (auto simp: finish_discovery_def Let_def split: sum.splits option.splits)

lemma finish_discovery_ok:
  "finish_discovery env rows (u, ip) c = Some c' \<Longrightarrow> discovery_ok (Some u) (cn_discovery c) \<Longrightarrow> discovery_ok None (cn_discovery c')"
  by (frule finish_discovery_queue) (auto simp: discovery_ok_def)

inductive discovery_step :: "(uuid \<times> string) option \<times> consumer \<Rightarrow> (uuid \<times> string) option \<times> consumer \<Rightarrow> bool" where
  Relayed: "handle_relayed_event cm (cn_topology c, cn_discovery c) = ((tp, d), sse) \<Longrightarrow>
    discovery_step (w, c) (w, c\<lparr>cn_topology := tp, cn_discovery := d\<rparr>)"
| Midnight: "discovery_step (w, c) (w, c\<lparr>cn_discovery := fst (enqueue_scheduled_discovery rows (cn_discovery c))\<rparr>)"
| Take: "take_discovery c = Some (e, c') \<Longrightarrow> discovery_step (None, c) (Some e, c')"
| Refreshed: "finish_discovery env rows e c = Some c' \<Longrightarrow> discovery_step (Some e, c) (None, c')"

inductive_cases discovery_stepE: "discovery_step (w, c) (w', c')"

text \<open>
  Whatever is relayed, scheduled, taken and refreshed, no endpoint waits for its discovery
  twice or waits while it is being refreshed, and the set that guards this holds just the endpoints
  that wait or are in work: none is locked out for good.
\<close>

lemma discovery_each_once:
  assumes "discovery_step\<^sup>*\<^sup>* (None, c) (w, c')" "cn_discovery c = \<lparr> dq_queue = [], dq_in_progress = {} \<rparr>"
  shows "discovery_ok (map_option fst w) (cn_discovery c')"
proof -
  have "discovery_ok (map_option fst (fst s)) (cn_discovery (snd s))" if "discovery_step\<^sup>*\<^sup>* (None, c) s" for s
    using that
  proof (induction rule: rtranclp_induct)
    case base
    then show ?case by (simp add: assms(2) discovery_ok_def)
  next
    case (step s s')
    from step(2,3) show ?case
    proof cases
      case (Relayed cm c1 tp d sse w1)
      with step(3) discovery_ok_relay[of _ "(cn_topology c1, cn_discovery c1)" cm] show ?thesis by simp
    next
      case (Take c1 e c2)
      then show ?thesis using take_discovery_ok[of c1 "fst e" "snd e" c2] step(3) by simp
    next
      case (Refreshed env rows e c1 c2)
      then show ?thesis using finish_discovery_ok[of env rows "fst e" "snd e" c1 c2] step(3) by simp
    qed (use discovery_ok_scheduled step(3) in simp)
  qed
  from this[OF assms(1)] show ?thesis by simp
qed

definition idle_consumer :: consumer where
  "idle_consumer = \<lparr> cn_macs = Map.empty, cn_db = \<lparr> rd_endpoints = [], rd_baselines = [], rd_incidents = [] \<rparr>,
     cn_topology = demo_topology, cn_discovery = \<lparr> dq_queue = [], dq_in_progress = {} \<rparr> \<rparr>"

definition due_row :: "uuid \<Rightarrow> discovery_row" where
  "due_row u = \<lparr> dr_id = u, dr_ip_address = ''10.0.0.1'', dr_status = ''ACTIVE'', dr_enable_scheduled_discovery = True,
     dr_operational_state = None \<rparr>"

lemma discovery_each_once_witness:
  "\<exists>c. discovery_step\<^sup>*\<^sup>* (None, idle_consumer) (Some (1, ''10.0.0.1''), c) \<and> dq_queue (cn_discovery c) = [(2, ''10.0.0.1'')] \<and>
     discovery_ok (Some 1) (cn_discovery c)"
proof -
  let ?rows = "[due_row 1, due_row 2, due_row 1]"
  define c1 where "c1 = idle_consumer\<lparr>cn_discovery := fst (enqueue_scheduled_discovery ?rows (cn_discovery idle_consumer))\<rparr>"
  define c2 where "c2 = c1\<lparr>cn_discovery := (cn_discovery c1)\<lparr>dq_queue := [(2, ''10.0.0.1'')]\<rparr>\<rparr>"
  have d1: "cn_discovery c1 = \<lparr> dq_queue = [(1, ''10.0.0.1''), (2, ''10.0.0.1'')], dq_in_progress = {1, 2} \<rparr>"
    by (auto simp: c1_def idle_consumer_def enqueue_scheduled_discovery_def due_for_discovery_def due_row_def enqueue_row_def
        start_discovery_def)
  have "discovery_step (None, idle_consumer) (None, c1)" unfolding c1_def by (rule Midnight)
  moreover have "discovery_step (None, c1) (Some (1, ''10.0.0.1''), c2)"
    by (rule Take) (simp add: take_discovery_def d1 c2_def)
  ultimately have run: "discovery_step\<^sup>*\<^sup>* (None, idle_consumer) (Some (1, ''10.0.0.1''), c2)" by simp
  moreover have "dq_queue (cn_discovery c2) = [(2, ''10.0.0.1'')]" by (simp add: c2_def)
  ultimately show ?thesis using discovery_each_once[OF run] by (auto simp: idle_consumer_def)
qed

subsection \<open>What a confirmed change leads to\<close>

lemma cycle_messages:
  assumes "process_cycle n env r st tbl = (st', tbl', es)" "en_event_broker env"
    "s_confirmed_detailed_state st' \<noteq> s_confirmed_detailed_state st"
  shows "\<exists>m. List.map_filter broker_message es =
      [(''NODE_STATE_CHANGE'', \<lparr> ms_endpoint_id = Some (uuid_text (s_endpoint_id st)), ms_node_id = None, ms_hostname = None,
          ms_ip_address = None, ms_current_state = None, ms_operational_state = None,
          ms_new_state = Some (s_confirmed_detailed_state st') \<rparr>),
       (''STATE_TRANSITION'', m)] \<and>
     ms_endpoint_id m = Some (uuid_text (s_endpoint_id st)) \<and> ms_node_id m = None \<and> ms_current_state m = None \<and>
     ms_operational_state m = Some (s_confirmed_operational_state st')"
    "(s_confirmed_operational_state st', s_confirmed_detailed_state st') = classify_with (en_baseline env) r"
proof -
  let ?new = "classify_with (en_baseline env) r"
  note core = process_cycle_core[OF assms(1), unfolded confirmed_state_simps]
  from assms(3) have c: "snd (confirm n ?new st)" unfolding confirm_changes(1) core(2) .
  from confirm_changes(2)[OF c] show new: "(s_confirmed_operational_state st', s_confirmed_detailed_state st') = ?new"
    by (simp add: core(2,3))
  have "es = transition_effects env st r ?new" using assms(1) c by (simp add: process_cycle_eq Let_def case_prod_beta)
  moreover have "filter (\<lambda>e. broker_message e \<noteq> None) (rca_effects env st x) = []" for x
    by (simp add: rca_effects_def)
  ultimately show "\<exists>m. List.map_filter broker_message es =
      [(''NODE_STATE_CHANGE'', \<lparr> ms_endpoint_id = Some (uuid_text (s_endpoint_id st)), ms_node_id = None, ms_hostname = None,
          ms_ip_address = None, ms_current_state = None, ms_operational_state = None,
          ms_new_state = Some (s_confirmed_detailed_state st') \<rparr>),
       (''STATE_TRANSITION'', m)] \<and>
     ms_endpoint_id m = Some (uuid_text (s_endpoint_id st)) \<and> ms_node_id m = None \<and> ms_current_state m = None \<and>
     ms_operational_state m = Some (s_confirmed_operational_state st')"
    using assms(2) new[symmetric]
    by (simp add: transition_effects_def Let_def case_prod_beta List.map_filter_def)
qed

definition tracked :: "topology \<Rightarrow> string \<Rightarrow> bool" where
  \<comment> \<open>the node of an enabled endpoint in a well-formed topology\<close>
  "tracked tp i \<longleftrightarrow>
     i \<notin> tp_disabled tp \<and> is_monitored (tp_nodes tp) i \<and> dict_ok (tp_nodes tp) \<and> consistent (tp_edges tp) (tp_children tp)"

definition shown_state :: "topology \<Rightarrow> string \<Rightarrow> string option" where
  "shown_state tp i = map_option tn_state (get (tp_nodes tp) i)"

lemma update_shows:
  assumes "tracked tp i"
  shows "shown_state (update_node_status i s tp) i = Some s" "tracked (update_node_status i s tp) i"
proof -
  obtain m where m: "get (tp_nodes tp) i = Some m" "tn_type m = ''monitored''"
    using assms by (auto simp: tracked_def is_monitored_def split: option.splits)
  let ?N = "put i (m\<lparr>tn_state := s\<rparr>) (tp_nodes tp)"
  let ?P = "propagate_inferred_down (tp_edges tp) (tp_children tp) ?N"
  have u: "tp_nodes (update_node_status i s tp) = ?P" "tp_disabled (update_node_status i s tp) = tp_disabled tp"
    "tp_edges (update_node_status i s tp) = tp_edges tp" "tp_children (update_node_status i s tp) = tp_children tp"
    using assms m by (simp_all add: update_node_status_def tracked_def Let_def)
  have "get ?P i = Some (m\<lparr>tn_state := s\<rparr>)"
    using assms m propagate_get[of "tp_edges tp" "tp_children tp" ?N i] by (simp add: tracked_def down_router_def)
  then show "shown_state (update_node_status i s tp) i = Some s" "tracked (update_node_status i s tp) i"
    using assms m u by (simp_all add: shown_state_def tracked_def is_monitored_def dict_ok_def propagate_keys)
      (metis dict_ok_def dict_ok_put)
qed

lemma classified_nonempty: "classify_with b r = (op, det) \<Longrightarrow> op \<noteq> [] \<and> det \<noteq> []"
  by (auto simp: classify_with_def classify_ping_result_def Let_def split: if_splits option.splits)

lemma relay_status:
  assumes "tracked tp i" "i \<noteq> []" "s \<noteq> []" "ms_endpoint_id m = Some i" "ms_node_id m = None"
  shows "channel = ''NODE_STATE_CHANGE'' \<Longrightarrow> ms_operational_state m = None \<Longrightarrow> ms_new_state m = Some s \<Longrightarrow>
      fst (fst (handle_relayed_event (channel, m) (tp, d))) = update_node_status i s tp"
    "channel = ''STATE_TRANSITION'' \<Longrightarrow> ms_current_state m = None \<Longrightarrow> ms_operational_state m = Some s \<Longrightarrow>
      fst (fst (handle_relayed_event (channel, m) (tp, d))) = update_node_status i s tp"
  using assms by (simp_all add: handle_relayed_event_def or_text_def Let_def)

text \<open>
  After a confirmed change, the engine publishes the detailed state on one channel and the
  operational state on another, each read by a task of its own: the state that the topology of the
  back end shows in the end is the one of the message that arrives last. For an endpoint that
  becomes unstable the two differ, and it is shown as up or as unstable by chance.
\<close>

lemma relay_order_decides:
  assumes "process_cycle n env r st tbl = (st', tbl', es)" "en_event_broker env"
    and "s_confirmed_detailed_state st' \<noteq> s_confirmed_detailed_state st"
    and "tracked tp (uuid_text (s_endpoint_id st))" "msgs = List.map_filter broker_message es"
  shows "shown_state (fst (relay_all msgs (tp, d))) (uuid_text (s_endpoint_id st)) = Some (s_confirmed_operational_state st') \<and>
    shown_state (fst (relay_all (rev msgs) (tp, d))) (uuid_text (s_endpoint_id st)) = Some (s_confirmed_detailed_state st')"
proof -
  let ?i = "uuid_text (s_endpoint_id st)"
  let ?s = "s_confirmed_operational_state st'" and ?t = "s_confirmed_detailed_state st'"
  from cycle_messages[OF assms(1-3)] obtain m1 m2 where
    ms: "msgs = [(''NODE_STATE_CHANGE'', m1), (''STATE_TRANSITION'', m2)]"
    and m1: "ms_endpoint_id m1 = Some ?i" "ms_node_id m1 = None" "ms_operational_state m1 = None" "ms_new_state m1 = Some ?t"
    and m2: "ms_endpoint_id m2 = Some ?i" "ms_node_id m2 = None" "ms_current_state m2 = None" "ms_operational_state m2 = Some ?s"
    and new: "classify_with (en_baseline env) r = (?s, ?t)"
    unfolding assms(5) by auto
  have ne: "?i \<noteq> []" "?s \<noteq> []" "?t \<noteq> []" using classified_nonempty[OF new] by (simp_all add: uuid_text_def Let_def)
  have a: "fst (fst (handle_relayed_event (''NODE_STATE_CHANGE'', m1) (tp', d'))) = update_node_status ?i ?t tp'"
    if "tracked tp' ?i" for tp' d' using relay_status(1)[OF that ne(1,3) m1(1,2) refl m1(3,4)] .
  have b: "fst (fst (handle_relayed_event (''STATE_TRANSITION'', m2) (tp', d'))) = update_node_status ?i ?s tp'"
    if "tracked tp' ?i" for tp' d' using relay_status(2)[OF that ne(1,2) m2(1,2) refl m2(3,4)] .
  have split: "fst (relay_all [x, y] td) = fst (fst (handle_relayed_event y (fst (handle_relayed_event x td))))" for x y td by simp
  have "shown_state (fst (relay_all msgs (tp, d))) ?i = Some ?s"
    unfolding ms split
    by (metis a b assms(4) update_shows prod.collapse)
  moreover have "shown_state (fst (relay_all (rev msgs) (tp, d))) ?i = Some ?t"
    unfolding ms rev.simps append.simps split
    by (metis a b assms(4) update_shows prod.collapse)
  ultimately show ?thesis ..
qed

definition one_lost :: ping_result where
  "one_lost = \<lparr>success_count = 4, failed_count = 1, avg_rtt_ms = Some 12\<rparr>"

definition broker_env :: cycle_env where "broker_env = (plain_env (sec 180) 13)\<lparr>en_event_broker := True\<rparr>"

definition wavering :: endpoint_state where
  "wavering = plain_state\<lparr>s_pending_detailed_state := Some ''UP-UNSTABLE'', s_pending_cycle_count := 1\<rparr>"

definition lone_topology :: topology where
  "lone_topology = demo_topology\<lparr>tp_nodes := [(''root'', root_node), (uuid_text 1, root_node\<lparr>tn_type := ''monitored''\<rparr>)],
     tp_edges := [], tp_children := Map.empty\<rparr>"

lemma wavering_cycle:
  assumes "process_cycle 2 broker_env one_lost wavering [] = (st', tbl', es)"
  shows "s_confirmed_operational_state st' = ''UP''" "s_confirmed_detailed_state st' = ''UP-UNSTABLE''"
proof -
  have "classify_with (en_baseline broker_env) one_lost = (''UP'', ''UP-UNSTABLE'')"
    by (simp add: classify_with_def classify_ping_result_def total_count_def one_lost_def broker_env_def plain_env_def)
  then show "s_confirmed_operational_state st' = ''UP''" "s_confirmed_detailed_state st' = ''UP-UNSTABLE''"
    unfolding process_cycle_core(2,3)[OF assms] confirmed_state_simps
    by (simp_all add: confirm_def wavering_def plain_state_def)
qed

lemma relay_order_decides_witness:
  "\<exists>st' tbl' es. process_cycle 2 broker_env one_lost wavering [] = (st', tbl', es) \<and>
     shown_state (fst (relay_all (List.map_filter broker_message es) (lone_topology, \<lparr> dq_queue = [], dq_in_progress = {} \<rparr>))) (uuid_text 1) = Some ''UP'' \<and>
     shown_state (fst (relay_all (rev (List.map_filter broker_message es)) (lone_topology, \<lparr> dq_queue = [], dq_in_progress = {} \<rparr>))) (uuid_text 1) = Some ''UP-UNSTABLE''"
proof -
  obtain st' tbl' es where p: "process_cycle 2 broker_env one_lost wavering [] = (st', tbl', es)"
    by (metis prod.exhaust)
  have "tracked lone_topology (uuid_text 1)"
    using uuid_not_root[of 1]
    by (simp add: tracked_def lone_topology_def demo_topology_def is_monitored_def dict_ok_def consistent_def children_of_def)
  then have t: "tracked lone_topology (uuid_text (s_endpoint_id wavering))" by (simp add: wavering_def plain_state_def)
  have b: "en_event_broker broker_env" by (simp add: broker_env_def)
  have c: "s_confirmed_detailed_state st' \<noteq> s_confirmed_detailed_state wavering"
    using wavering_cycle[OF p] by (simp add: wavering_def plain_state_def)
  from relay_order_decides[OF p b c t refl, of "\<lparr> dq_queue = [], dq_in_progress = {} \<rparr>"] wavering_cycle[OF p] p show ?thesis
    by (auto simp: wavering_def plain_state_def)
qed

text \<open>The dispatcher reads the operational state as well: an endpoint that was up and becomes unstable
  raises the alert of a recovery, which the default filters of a channel let through.\<close>

lemma degradation_alerted_as_recovery:
  assumes "process_cycle 2 broker_env one_lost wavering [] = (st', tbl', es)"
  shows "\<exists>m. (''STATE_TRANSITION'', m) \<in> set (List.map_filter broker_message es) \<and>
    alert_state (alert_event_of (''STATE_TRANSITION'', m)) = ''UP'' \<and>
    severity_matches hook (event_alert env now (alert_event_of (''STATE_TRANSITION'', m)))"
proof -
  have c: "s_confirmed_detailed_state st' \<noteq> s_confirmed_detailed_state wavering"
    using wavering_cycle[OF assms] by (simp add: wavering_def plain_state_def)
  have b: "en_event_broker broker_env" by (simp add: broker_env_def)
  from cycle_messages(1)[OF assms b c] obtain m where
    m: "(''STATE_TRANSITION'', m) \<in> set (List.map_filter broker_message es)" "ms_operational_state m = Some ''UP''"
    using wavering_cycle(1)[OF assms] by force
  have "alert_state (alert_event_of (''STATE_TRANSITION'', m)) = ''UP''"
    by (simp add: alert_state_def alert_event_of_def m(2) or_text_def upper_DOWN)
  with m(1) show ?thesis
    by (intro exI[of _ m]) (simp add: severity_matches_def event_alert_def case_prod_unfold Let_def hook_def upper_DOWN)
qed

end
