(* ===== verification/Leader.thy ===== *)
theory Leader
  imports Lnmp_Prelude
begin

text \<open>
  The election among the workers of the back end (\<open>AlertDispatcher.start\<close>, \<open>_standby_election_loop\<close>,
  \<open>stop\<close> and \<open>enqueue_event\<close> of \<open>services/alert_dispatcher.py\<close>): one Postgres advisory lock, held by a
  connection, and what each worker believes. That the server grants the lock to one session at a
  time and frees it when the session ends is the documented behaviour of Postgres.
\<close>

subsection \<open>A worker\<close>

record 'e worker =
  w_running :: bool
  w_is_leader :: bool
  w_lock_conn :: bool \<comment> \<open>\<open>_lock_conn\<close> is set\<close>
  w_electing :: bool \<comment> \<open>the standby loop runs\<close>
  w_listeners :: nat \<comment> \<open>the tasks that read the broker\<close>
  w_queue :: "'e list"

definition new_worker :: "'e worker" where
  "new_worker = \<lparr> w_running = False, w_is_leader = False, w_lock_conn = False, w_electing = False, w_listeners = 0, w_queue = [] \<rparr>"

definition promote :: "bool \<Rightarrow> 'e worker \<Rightarrow> 'e worker" where
  "promote conn w = w\<lparr>w_lock_conn := conn, w_is_leader := True, w_listeners := w_listeners w + 2\<rparr>"

definition start_worker :: "bool \<Rightarrow> bool result \<Rightarrow> 'e worker \<Rightarrow> 'e worker" where
  \<comment> \<open>whether the database is Postgres, and the answer to the attempt to lock\<close>
  "start_worker postgres answer w =
     (if w_running w then w
      else (let w = w\<lparr>w_running := True\<rparr>
            in if \<not> postgres then promote (w_lock_conn w) w
               else (case answer of
                       Inr True \<Rightarrow> promote True w
                     | Inr False \<Rightarrow> w\<lparr>w_lock_conn := False, w_is_leader := False, w_electing := True\<rparr>
                     | Inl _ \<Rightarrow> w\<lparr>w_lock_conn := False, w_is_leader := False, w_electing := True\<rparr>)))"

definition standby_attempt :: "bool \<Rightarrow> bool result \<Rightarrow> 'e worker \<Rightarrow> 'e worker" where
  \<comment> \<open>one round of the loop\<close>
  "standby_attempt postgres answer w =
     (if \<not> w_electing w then w
      else if \<not> postgres then (promote (w_lock_conn w) w)\<lparr>w_electing := False\<rparr>
      else (case answer of Inr True \<Rightarrow> (promote True w)\<lparr>w_electing := False\<rparr> | _ \<Rightarrow> w))"

definition stop_worker :: "'e worker \<Rightarrow> 'e worker" where
  "stop_worker w = w\<lparr>w_running := False, w_electing := False, w_listeners := 0, w_lock_conn := False, w_is_leader := False\<rparr>"

definition enqueue_alert :: "'e \<Rightarrow> 'e worker \<Rightarrow> 'e worker" where
  "enqueue_alert e w =
     (if \<not> w_running w \<or> \<not> w_is_leader w then w
      else if 1000 \<le> length (w_queue w) then w
      else w\<lparr>w_queue := w_queue w @ [e]\<rparr>)"

subsection \<open>The workers and the lock\<close>

type_synonym 'e workers = "nat option \<times> (nat \<Rightarrow> 'e worker)"
  \<comment> \<open>the worker whose session holds the lock, and the workers\<close>

definition try_lock :: "nat option \<Rightarrow> bool" where "try_lock holder \<longleftrightarrow> holder = None"

inductive cluster_step :: "bool \<Rightarrow> 'e workers \<Rightarrow> 'e workers \<Rightarrow> bool" for lossy where
  Start: "\<not> w_running (ws p) \<Longrightarrow> cluster_step lossy (h, ws)
    (if try_lock h then Some p else h, ws(p := start_worker True (Inr (try_lock h)) (ws p)))"
| Start_fails: "\<not> w_running (ws p) \<Longrightarrow> cluster_step lossy (h, ws) (h, ws(p := start_worker True (Inl e) (ws p)))"
| Retry: "w_electing (ws p) \<Longrightarrow> cluster_step lossy (h, ws)
    (if try_lock h then Some p else h, ws(p := standby_attempt True (Inr (try_lock h)) (ws p)))"
| Stop: "cluster_step lossy (h, ws) (if h = Some p then None else h, ws(p := stop_worker (ws p)))"
| Event: "cluster_step lossy (h, ws) (h, ws(p := enqueue_alert e (ws p)))"
| Connection_lost: "lossy \<Longrightarrow> cluster_step lossy (h, ws) (None, ws)"

inductive reachable_cluster :: "bool \<Rightarrow> 'e workers \<Rightarrow> bool" for lossy where
  init: "reachable_cluster lossy (None, \<lambda>_. new_worker)"
| step: "reachable_cluster lossy c \<Longrightarrow> cluster_step lossy c c' \<Longrightarrow> reachable_cluster lossy c'"

definition worker_ok :: "'e worker \<Rightarrow> bool" where
  \<comment> \<open>a leader runs, listens to both channels and has left the election; nobody else listens\<close>
  "worker_ok w \<longleftrightarrow>
     (if w_is_leader w then w_running w \<and> w_lock_conn w \<and> \<not> w_electing w \<and> w_listeners w = 2
      else \<not> w_lock_conn w \<and> w_listeners w = 0 \<and> (w_running w = w_electing w)) \<and> length (w_queue w) \<le> 1000"

definition agree :: "bool \<Rightarrow> nat option \<Rightarrow> 'e worker \<Rightarrow> nat \<Rightarrow> bool" where
  \<comment> \<open>who holds the lock leads, and unless connections get lost nobody else does\<close>
  "agree lossy h w p \<longleftrightarrow> (h = Some p \<longrightarrow> w_is_leader w) \<and> (\<not> lossy \<longrightarrow> w_is_leader w \<longrightarrow> h = Some p)"

fun cluster_ok :: "bool \<Rightarrow> 'e workers \<Rightarrow> bool" where
  "cluster_ok lossy (h, ws) \<longleftrightarrow> (\<forall>p. worker_ok (ws p)) \<and> (\<forall>p. agree lossy h (ws p) p)"

lemma worker_ok_new: "worker_ok new_worker" by (simp add: worker_ok_def new_worker_def)

lemma worker_ok_stop: "worker_ok w \<Longrightarrow> worker_ok (stop_worker w)" "\<not> w_is_leader (stop_worker w)"
  by (simp_all add: worker_ok_def stop_worker_def)

lemma worker_ok_enqueue: "worker_ok w \<Longrightarrow> worker_ok (enqueue_alert e w)" "w_is_leader (enqueue_alert e w) = w_is_leader w"
  unfolding enqueue_alert_def by (simp_all split: if_split) (simp add: worker_ok_def)

lemma worker_ok_start:
  "worker_ok w \<Longrightarrow> worker_ok (start_worker True r w)"
  "worker_ok w \<Longrightarrow> \<not> w_running w \<Longrightarrow> w_is_leader (start_worker True r w) \<longleftrightarrow> r = Inr True"
  by (cases r; cases "w_is_leader w"; simp add: worker_ok_def start_worker_def promote_def Let_def split: bool.split)+

lemma worker_ok_standby:
  "worker_ok w \<Longrightarrow> worker_ok (standby_attempt True r w)"
  "worker_ok w \<Longrightarrow> w_electing w \<Longrightarrow> w_is_leader (standby_attempt True r w) \<longleftrightarrow> r = Inr True"
  by (cases r; cases "w_is_leader w"; simp add: worker_ok_def standby_attempt_def promote_def split: bool.split)+

lemmas worker_ok_ops = worker_ok_new worker_ok_stop worker_ok_enqueue worker_ok_start worker_ok_standby

lemma not_leader: "worker_ok w \<Longrightarrow> \<not> w_running w \<or> w_electing w \<Longrightarrow> \<not> w_is_leader w"
  by (auto simp: worker_ok_def)

lemma agree_simps [simp]: "w_is_leader w \<Longrightarrow> agree lossy h w p \<longleftrightarrow> lossy \<or> h = Some p"
  "\<not> w_is_leader w \<Longrightarrow> agree lossy h w p \<longleftrightarrow> h \<noteq> Some p"
  by (auto simp: agree_def)

lemma won_ok:
  \<comment> \<open>a worker that was no leader asks for the lock\<close>
  assumes "\<forall>p. agree lossy h (ws p) p" "\<not> w_is_leader (ws p)" "w_is_leader w = try_lock h"
  shows "agree lossy (if try_lock h then Some p else h) ((ws(p := w)) q) q"
  using assms(1)[rule_format, of p] assms(1)[rule_format, of q] assms(2,3)
  by (cases "q = p"; cases h; cases "w_is_leader (ws q)") (simp_all add: try_lock_def)

lemma kept_ok:
  \<comment> \<open>a worker whose role does not change\<close>
  assumes "\<forall>p. agree lossy h (ws p) p" "w_is_leader w = w_is_leader (ws p)"
  shows "agree lossy h ((ws(p := w)) q) q"
  using assms(1)[rule_format, of p] assms(1)[rule_format, of q] assms(2)
  by (cases "q = p"; cases "w_is_leader w"; cases "w_is_leader (ws q)") simp_all

lemma left_ok:
  assumes "\<forall>p. agree lossy h (ws p) p" "\<not> w_is_leader w"
  shows "agree lossy (if h = Some p then None else h) ((ws(p := w)) q) q"
  using assms(1)[rule_format, of q] assms(2)
  by (cases "q = p"; cases "w_is_leader (ws q)") auto

lemma cluster_upd:
  "\<forall>p. worker_ok (ws p) \<Longrightarrow> worker_ok w \<Longrightarrow> (\<And>q. agree lossy h' ((ws(p := w)) q) q) \<Longrightarrow> cluster_ok lossy (h', ws(p := w))"
  by simp

lemma cluster_ok_step: "cluster_step lossy c c' \<Longrightarrow> cluster_ok lossy c \<Longrightarrow> cluster_ok lossy c'"
proof (induction rule: cluster_step.induct)
  case (Start ws p h)
  then have ok: "\<forall>p. worker_ok (ws p)" "\<forall>p. agree lossy h (ws p) p" by simp_all
  have w: "worker_ok (ws p)" "\<not> w_is_leader (ws p)" using ok(1) Start(1) not_leader by blast+
  have "w_is_leader (start_worker True (Inr (try_lock h)) (ws p)) = try_lock h"
    using worker_ok_start(2)[OF w(1) Start(1)] by simp
  with ok w show ?case by (intro cluster_upd won_ok worker_ok_start(1)) blast+
next
  case (Start_fails ws p h e)
  then have ok: "\<forall>p. worker_ok (ws p)" "\<forall>p. agree lossy h (ws p) p" by simp_all
  from ok(1) Start_fails have "w_is_leader (start_worker True (Inl e) (ws p)) = w_is_leader (ws p)"
    by (simp add: worker_ok_start not_leader)
  with ok show ?case by (intro cluster_upd kept_ok) (blast intro: worker_ok_start)+
next
  case (Retry ws p h)
  then have ok: "\<forall>p. worker_ok (ws p)" "\<forall>p. agree lossy h (ws p) p" by simp_all
  have w: "worker_ok (ws p)" "\<not> w_is_leader (ws p)" using ok(1) Retry(1) not_leader by blast+
  have "w_is_leader (standby_attempt True (Inr (try_lock h)) (ws p)) = try_lock h"
    using worker_ok_standby(2)[OF w(1) Retry(1)] by simp
  with ok w show ?case by (intro cluster_upd won_ok worker_ok_standby(1)) blast+
next
  case (Stop h ws p)
  then have ok: "\<forall>p. worker_ok (ws p)" "\<forall>p. agree lossy h (ws p) p" by simp_all
  then show ?case by (intro cluster_upd left_ok worker_ok_stop) blast+
next
  case (Event h ws p e)
  then have ok: "\<forall>p. worker_ok (ws p)" "\<forall>p. agree lossy h (ws p) p" by simp_all
  then show ?case by (intro cluster_upd kept_ok worker_ok_enqueue) blast+
next
  case (Connection_lost h ws)
  then show ?case by (simp add: agree_def)
qed

lemma reachable_ok: "reachable_cluster lossy c \<Longrightarrow> cluster_ok lossy c"
proof (induction rule: reachable_cluster.induct)
  case init
  then show ?case by (simp add: worker_ok_ops agree_def) (simp add: new_worker_def)
qed (rule cluster_ok_step)

text \<open>
  C32. Of all the workers of the back end at most one dispatches alerts, however they start, stop
  and retry, as long as no session of the lock is lost: it holds the lock, and it alone listens to
  the broker.
\<close>

theorem one_alert_leader:
  assumes "reachable_cluster False (h, ws)" "w_is_leader (ws p)"
  shows "h = Some p \<and> w_running (ws p) \<and> (\<forall>q. w_is_leader (ws q) \<longrightarrow> q = p) \<and>
    (\<forall>q. w_listeners (ws q) = (if q = p then 2 else 0))"
proof -
  have ok: "\<forall>p. worker_ok (ws p)" "\<forall>p. agree False h (ws p) p" using reachable_ok[OF assms(1)] by simp_all
  have h: "h = Some p" using ok(2)[rule_format, of p] assms(2) by simp
  have sole: "q = p" if "w_is_leader (ws q)" for q using ok(2)[rule_format, of q] that h by simp
  have "w_listeners (ws q) = (if q = p then 2 else 0)" for q
  proof (cases "w_is_leader (ws q)")
    case True
    with ok(1)[rule_format, of q] sole[OF True] show ?thesis by (simp add: worker_ok_def)
  next
    case False
    with assms(2) have "q \<noteq> p" by blast
    with False ok(1)[rule_format, of q] show ?thesis by (simp add: worker_ok_def)
  qed
  moreover have "w_running (ws p)" using ok(1)[rule_format, of p] assms(2) by (simp add: worker_ok_def)
  ultimately show ?thesis using h sole by blast
qed

definition two_workers :: "nat \<Rightarrow> unit worker" where
  \<comment> \<open>the first has won, the second has come later\<close>
  "two_workers = (\<lambda>_. new_worker)(0 := start_worker True (Inr True) new_worker, 1 := start_worker True (Inr False) new_worker)"

lemma two_workers_reachable: "reachable_cluster lossy (Some 0, two_workers)"
proof -
  have "cluster_step lossy (None, \<lambda>_. new_worker) (Some 0, (\<lambda>_. new_worker)(0 := start_worker True (Inr True) new_worker))"
    using Start[of "\<lambda>_. new_worker" 0 lossy None] by (simp add: try_lock_def) (simp add: new_worker_def)
  moreover have "cluster_step lossy (Some 0, (\<lambda>_. new_worker)(0 := start_worker True (Inr True) new_worker)) (Some 0, two_workers)"
    using Start[of "(\<lambda>_. new_worker)(0 := start_worker True (Inr True) new_worker)" 1 lossy "Some 0"]
    by (simp add: try_lock_def two_workers_def) (simp add: new_worker_def)
  ultimately show ?thesis by (blast intro: init step)
qed

theorem one_alert_leader_witness:
  "reachable_cluster False (Some 0, two_workers) \<and> w_is_leader (two_workers 0) \<and> w_electing (two_workers 1) \<and> w_listeners (two_workers 1) = 0"
proof -
  have l: "w_is_leader (two_workers 0)" by (simp add: two_workers_def start_worker_def promote_def new_worker_def Let_def)
  have "w_electing (two_workers 1)" by (simp add: two_workers_def start_worker_def new_worker_def Let_def)
  moreover have "\<forall>q. w_listeners (two_workers q) = (if q = 0 then 2 else 0)"
    using one_alert_leader[OF two_workers_reachable l] by blast
  then have "w_listeners (two_workers 1) = 0" by (rule allE[of _ 1]) simp
  ultimately show ?thesis using two_workers_reachable l by blast
qed

lemma failover:
  \<comment> \<open>once the lock is free, the next round of any standby worker wins\<close>
  assumes "reachable_cluster lossy (None, ws)" "w_electing (ws p)"
  shows "\<exists>ws'. cluster_step lossy (None, ws) (Some p, ws') \<and> w_is_leader (ws' p)"
proof -
  have "worker_ok (ws p)" using reachable_ok[OF assms(1)] by simp
  then have "w_is_leader (standby_attempt True (Inr True) (ws p))" using worker_ok_standby(2) assms(2) by blast
  then show ?thesis
    using Retry[where ws = ws and p = p and lossy = lossy and h = None, OF assms(2)]
    by (intro exI[of _ "ws(p := standby_attempt True (Inr True) (ws p))"]) (simp add: try_lock_def)
qed

text \<open>A leader never looks at its connection again: when the session ends, the server gives the lock to
  the next one, and both dispatch.\<close>

lemma two_leaders: "\<exists>ws :: nat \<Rightarrow> unit worker. reachable_cluster True (Some 1, ws) \<and> w_is_leader (ws 0) \<and> w_is_leader (ws 1)"
proof -
  let ?ws = "two_workers(1 := standby_attempt True (Inr True) (two_workers 1))"
  have e: "w_electing (two_workers 1)" by (simp add: two_workers_def start_worker_def new_worker_def Let_def)
  have "reachable_cluster True (None, two_workers)"
    using two_workers_reachable Connection_lost[of True "Some 0" two_workers] by (blast intro: step)
  moreover have "cluster_step True (None, two_workers) (Some 1, ?ws)"
    using Retry[where ws = two_workers and p = 1 and lossy = True and h = None, OF e] by (simp add: try_lock_def)
  ultimately have "reachable_cluster True (Some 1, ?ws)" by (rule step)
  moreover have "w_is_leader (?ws 0)" by (simp add: two_workers_def start_worker_def promote_def new_worker_def Let_def)
  moreover have "w_is_leader (?ws 1)" using e by (simp add: standby_attempt_def promote_def)
  ultimately show ?thesis by blast
qed

end
