(* ===== verification/Bandwidth.thy ===== *)
theory Bandwidth
  imports Aggregator
begin

text \<open>
  The bandwidth views of the back end (\<open>routers/bandwidth.py\<close>): the queries over the tables that
  the flow aggregator writes and over the hourly and daily views of them. Numbers of type float are
  reals. Rows are given as lists; the order of rows that a query
  leaves open is the one of their first appearance, or of the reply.
\<close>

subsection \<open>Windows and tables\<close>

definition get_window_delta :: "string \<Rightarrow> instant" where
  "get_window_delta window =
     (let w = strip (lower window)
      in if w = ''1h'' then sec 3600
         else if w = ''6h'' then sec (6 * 3600)
         else if w = ''24h'' then sec (24 * 3600)
         else if w = ''7d'' then sec (7 * 86400)
         else if w = ''30d'' then sec (30 * 86400)
         else if w = ''1y'' then sec (365 * 86400)
         else sec 3600)"

datatype rollup_model = Minute_rollup | Hourly_rollup | Daily_rollup

definition select_rollup_model :: "string \<Rightarrow> uuid option \<Rightarrow> rollup_model \<times> int" where
  "select_rollup_model window endpoint_id =
     (let w = strip (lower window)
      in if w \<in> {''1h'', ''6h''} then (Minute_rollup, 60)
         else if w \<in> {''24h'', ''7d''} then (Hourly_rollup, 3600)
         else if w \<in> {''30d'', ''1y''} then
           (if endpoint_id \<noteq> None then (Hourly_rollup, 3600) else (Daily_rollup, 86400))
         else (Minute_rollup, 60))"

record volume_row =
  v_bucket :: instant
  v_exporter_id :: uuid
  v_src_endpoint_id :: "uuid option"
  v_dst_endpoint_id :: "uuid option"
  v_protocol :: int
  v_dst_port :: int
  v_bytes :: int
  v_packets :: int
  v_flow_count :: int

definition grouped_rows :: "('r \<Rightarrow> 'k) \<Rightarrow> 'r list \<Rightarrow> ('k \<times> 'r list) list" where
  \<comment> \<open>\<open>GROUP BY\<close>\<close>
  "grouped_rows key rows = map (\<lambda>k. (k, filter (\<lambda>r. key r = k) rows)) (remdups (map key rows))"

definition sum_of :: "('r \<Rightarrow> int) \<Rightarrow> 'r list \<Rightarrow> int" where
  \<comment> \<open>\<open>COALESCE(SUM(f), 0)\<close>\<close>
  "sum_of f rows = sum_list (map f rows)"

definition minute_volume :: "rollup_row \<Rightarrow> volume_row" where
  "minute_volume r =
     \<lparr> v_bucket = r_bucket r, v_exporter_id = r_exporter_id r, v_src_endpoint_id = r_src_endpoint_id r,
       v_dst_endpoint_id = r_dst_endpoint_id r, v_protocol = r_protocol r, v_dst_port = r_dst_port r,
       v_bytes = r_bytes r, v_packets = r_packets r, v_flow_count = r_flow_count r \<rparr>"

definition hourly_view :: "rollup_row list \<Rightarrow> volume_row list" where
  \<comment> \<open>\<open>flow_hourly_rollups\<close>\<close>
  "hourly_view rows =
     map (\<lambda>((bucket, exporter, src, dst, protocol, port), rs).
       \<lparr> v_bucket = bucket, v_exporter_id = exporter, v_src_endpoint_id = src, v_dst_endpoint_id = dst,
         v_protocol = protocol, v_dst_port = port, v_bytes = sum_of r_bytes rs, v_packets = sum_of r_packets rs,
         v_flow_count = sum_of r_flow_count rs \<rparr>)
     (grouped_rows (\<lambda>r. (r_bucket r - r_bucket r mod sec 3600, r_exporter_id r, r_src_endpoint_id r, r_dst_endpoint_id r,
                       r_protocol r, r_dst_port r)) rows)"

definition daily_view :: "rollup_row list \<Rightarrow> volume_row list" where
  \<comment> \<open>\<open>flow_daily_rollups\<close>, which has no columns for endpoints\<close>
  "daily_view rows =
     map (\<lambda>((bucket, exporter, protocol, port), rs).
       \<lparr> v_bucket = bucket, v_exporter_id = exporter, v_src_endpoint_id = None, v_dst_endpoint_id = None,
         v_protocol = protocol, v_dst_port = port, v_bytes = sum_of r_bytes rs, v_packets = sum_of r_packets rs,
         v_flow_count = sum_of r_flow_count rs \<rparr>)
     (grouped_rows (\<lambda>r. (r_bucket r - r_bucket r mod sec 86400, r_exporter_id r, r_protocol r, r_dst_port r)) rows)"

fun model_rows :: "rollup_model \<Rightarrow> rollup_row list \<Rightarrow> volume_row list" where
  "model_rows Minute_rollup rows = map minute_volume rows"
| "model_rows Hourly_rollup rows = hourly_view rows"
| "model_rows Daily_rollup rows = daily_view rows"

definition has_endpoints :: "rollup_model \<Rightarrow> bool" where
  "has_endpoints m \<longleftrightarrow> m \<noteq> Daily_rollup"

subsection \<open>Overview\<close>

definition bps :: "int \<Rightarrow> int \<Rightarrow> real" where
  \<comment> \<open>bits per second of so many bytes in so many seconds\<close>
  "bps b secs = round2 (real_of_int b * 8 / real_of_int secs)"

definition ingress_bytes :: "('r \<Rightarrow> uuid option) \<Rightarrow> ('r \<Rightarrow> int) \<Rightarrow> 'r list \<Rightarrow> int" where
  \<comment> \<open>the bytes of the rows whose endpoint column is set; the same for egress\<close>
  "ingress_bytes col b rows = sum_of (\<lambda>r. if col r \<noteq> None then b r else 0) rows"

record overview =
  ov_total_ingress_bps :: real
  ov_total_egress_bps :: real
  ov_active_exporters_count :: int
  ov_unmatched_exporters_count :: int
  ov_total_flows_count :: int

definition get_bandwidth_overview :: "instant \<Rightarrow> int result option \<Rightarrow> rollup_row list \<Rightarrow> overview" where
  \<comment> \<open>the reply of \<open>SCARD\<close>, if there is a client\<close>
  "get_bandwidth_overview now scard table =
     (let rows = filter (\<lambda>r. now - sec 300 \<le> r_bucket r) table;
          total_bytes = sum_of r_bytes rows;
          ingress = ingress_bytes r_dst_endpoint_id r_bytes rows;
          egress = ingress_bytes r_src_endpoint_id r_bytes rows;
          exporters = remdups (map r_exporter_id (filter (\<lambda>r. r_exporter_id r \<noteq> SENTINEL_UUID) rows));
          (ingress, egress) =
            (if ingress = 0 \<and> egress = 0 \<and> 0 < total_bytes then (total_bytes div 2, total_bytes - total_bytes div 2)
             else (ingress, egress))
      in \<lparr> ov_total_ingress_bps = (if 0 < ingress then bps ingress 300 else 0),
           ov_total_egress_bps = (if 0 < egress then bps egress 300 else 0),
           ov_active_exporters_count = int (length exporters),
           ov_unmatched_exporters_count = (case scard of Some (Inr n) \<Rightarrow> n | _ \<Rightarrow> 0),
           ov_total_flows_count = sum_of r_flow_count rows \<rparr>)"

subsection \<open>Traffic series\<close>

record traffic_point =
  tp_timestamp :: instant
  tp_ingress_bps :: real
  tp_egress_bps :: real

definition split_bytes :: "int \<Rightarrow> int \<Rightarrow> int \<Rightarrow> int \<times> int" where
  \<comment> \<open>what no endpoint is credited with is shared out\<close>
  "split_bytes byte_sum in_bytes eg_bytes =
     (let transit_bytes = max 0 (byte_sum - (in_bytes + eg_bytes))
      in if 0 < transit_bytes then
           (in_bytes + transit_bytes div 2, eg_bytes + (transit_bytes - transit_bytes div 2))
         else if in_bytes = 0 \<and> eg_bytes = 0 \<and> 0 < byte_sum then (byte_sum div 2, byte_sum - byte_sum div 2)
         else (in_bytes, eg_bytes))"

definition series_filter ::
  "rollup_model \<Rightarrow> instant \<Rightarrow> uuid option \<Rightarrow> uuid option \<Rightarrow> volume_row \<Rightarrow> bool" where
  "series_filter model start_time exporter_id endpoint_id r \<longleftrightarrow>
     start_time \<le> v_bucket r \<and> (case exporter_id of None \<Rightarrow> True | Some e \<Rightarrow> v_exporter_id r = e) \<and>
     (endpoint_id \<noteq> None \<and> has_endpoints model \<longrightarrow> v_src_endpoint_id r = endpoint_id \<or> v_dst_endpoint_id r = endpoint_id)"

definition series_sums :: "rollup_model \<Rightarrow> uuid option \<Rightarrow> volume_row list \<Rightarrow> int \<times> int \<times> int" where
  \<comment> \<open>the sum of a group and what counts as ingress and egress\<close>
  "series_sums model endpoint_id rs =
     (sum_of v_bytes rs,
      if endpoint_id \<noteq> None \<and> has_endpoints model then sum_of (\<lambda>r. if v_dst_endpoint_id r = endpoint_id then v_bytes r else 0) rs
      else if has_endpoints model then ingress_bytes v_dst_endpoint_id v_bytes rs else sum_of v_bytes rs div 2,
      if endpoint_id \<noteq> None \<and> has_endpoints model then sum_of (\<lambda>r. if v_src_endpoint_id r = endpoint_id then v_bytes r else 0) rs
      else if has_endpoints model then ingress_bytes v_src_endpoint_id v_bytes rs else sum_of v_bytes rs div 2)"

definition series_groups ::
  "string \<Rightarrow> instant \<Rightarrow> uuid option \<Rightarrow> uuid option \<Rightarrow> rollup_row list \<Rightarrow> (instant \<times> int \<times> int) list" where
  \<comment> \<open>bucket, ingress and egress bytes\<close>
  "series_groups window now exporter_id endpoint_id table =
     (let (model, bucket_seconds) = select_rollup_model window endpoint_id;
          rows = filter (series_filter model (now - get_window_delta window) exporter_id endpoint_id) (model_rows model table)
      in map (\<lambda>(bucket, rs). let (s, i, e) = series_sums model endpoint_id rs in (bucket, split_bytes s i e))
           (sort_key fst (grouped_rows v_bucket rows)))"

definition get_traffic_series ::
  "string \<Rightarrow> uuid option \<Rightarrow> uuid option \<Rightarrow> int option \<Rightarrow> instant \<Rightarrow> rollup_row list \<Rightarrow> (if_key \<times> if_val) list \<Rightarrow> traffic_point list" where
  "get_traffic_series window exporter_id endpoint_id interface_idx now table if_table =
     (case (exporter_id, endpoint_id) of
        (Some e, None) \<Rightarrow>
          (let rows = filter (\<lambda>((bucket, exp_id, idx), _). exp_id = e \<and> now - get_window_delta window \<le> bucket \<and>
                        (case interface_idx of None \<Rightarrow> True | Some i \<Rightarrow> idx = i)) if_table
           in map (\<lambda>(bucket, rs).
                \<lparr> tp_timestamp = bucket, tp_ingress_bps = bps (sum_of (\<lambda>(_, ib, _). ib) rs) 60,
                  tp_egress_bps = bps (sum_of (\<lambda>(_, _, ob, _). ob) rs) 60 \<rparr>)
              (sort_key fst (grouped_rows (\<lambda>((bucket, _), _). bucket) rows)))
      | _ \<Rightarrow>
          map (\<lambda>(bucket, i, e).
            \<lparr> tp_timestamp = bucket, tp_ingress_bps = bps i (snd (select_rollup_model window endpoint_id)),
              tp_egress_bps = bps e (snd (select_rollup_model window endpoint_id)) \<rparr>)
          (series_groups window now exporter_id endpoint_id table))"

subsection \<open>The views and the series keep the sums\<close>

lemma sum_of_simps [simp]: "sum_of f [] = 0" "sum_of f (r # rs) = f r + sum_of f rs" "sum_of f (rs @ ss) = sum_of f rs + sum_of f ss"
  by (simp_all add: sum_of_def)

lemma sum_of_nonneg: "\<forall>r \<in> set rs. 0 \<le> f r \<Longrightarrow> 0 \<le> sum_of f rs"
  by (induction rs) auto

lemma sum_of_map: "sum_of f (map g rs) = sum_of (f \<circ> g) rs"
  by (simp add: sum_of_def)

lemma sum_of_filter: "sum_of f (filter P rs) = sum_of (\<lambda>r. if P r then f r else 0) rs"
  by (induction rs) auto

lemma sum_of_cong: "(\<And>r. r \<in> set rs \<Longrightarrow> f r = g r) \<Longrightarrow> sum_of f rs = sum_of g rs"
  by (induction rs) auto

lemma sum_of_add: "sum_of (\<lambda>r. f r + g r) rs = sum_of f rs + sum_of g rs"
  by (induction rs) auto

lemma sum_of_mono: "(\<And>r. r \<in> set rs \<Longrightarrow> f r \<le> g r) \<Longrightarrow> sum_of f rs \<le> sum_of g rs"
  by (induction rs) (auto simp: add_mono)

lemma sum_one: "distinct ks \<Longrightarrow> x \<in> set ks \<Longrightarrow> sum_of (\<lambda>k. if k = x then c k else 0) ks = c x"
proof (induction ks)
  case (Cons k ks)
  show ?case
  proof (cases "k = x")
    case True
    with Cons.prems have "sum_of (\<lambda>k. if k = x then c k else 0) ks = sum_of (\<lambda>_. 0) ks" by (intro sum_of_cong) auto
    then show ?thesis using True by (simp add: sum_of_def)
  next
    case False
    with Cons show ?thesis by simp
  qed
qed simp

lemma sum_of_groups:
  assumes "distinct ks" "key ` set rows \<subseteq> set ks"
  shows "sum_of (\<lambda>k. if Q k then sum_of f (filter (\<lambda>r. key r = k) rows) else 0) ks = sum_of f (filter (\<lambda>r. Q (key r)) rows)"
  using assms(2)
proof (induction rows)
  case (Cons r rows)
  have "sum_of (\<lambda>k. if Q k then sum_of f (filter (\<lambda>x. key x = k) (r # rows)) else 0) ks =
      sum_of (\<lambda>k. (if k = key r then (if Q k then f r else 0) else 0) +
        (if Q k then sum_of f (filter (\<lambda>x. key x = k) rows) else 0)) ks"
    by (intro sum_of_cong) auto
  also have "\<dots> = (if Q (key r) then f r else 0) + sum_of f (filter (\<lambda>x. Q (key x)) rows)"
    using sum_one[OF assms(1), of "key r" "\<lambda>k. if Q k then f r else 0"] Cons by (simp add: sum_of_add)
  finally show ?case by simp
next
  case Nil
  have "sum_of (\<lambda>k. if Q k then sum_of f (filter (\<lambda>r. key r = k) []) else 0) ks = 0" by (induction ks) simp_all
  then show ?case by simp
qed

lemma view_sum:
  \<comment> \<open>a view of sums, filtered by the columns it groups by\<close>
  assumes "\<And>k rs. f (mk (k, rs)) = sum_of g rs" "\<And>k rs. P (mk (k, rs)) = Q k"
  shows "sum_of f (filter P (map mk (grouped_rows key rows))) = sum_of g (filter (\<lambda>r. Q (key r)) rows)"
proof -
  have "sum_of f (filter P (map mk (grouped_rows key rows))) =
      sum_of (\<lambda>k. if Q k then sum_of g (filter (\<lambda>r. key r = k) rows) else 0) (remdups (map key rows))"
    by (simp add: grouped_rows_def sum_of_filter sum_of_map o_def assms cong: if_cong)
  then show ?thesis by (simp add: sum_of_groups)
qed

fun bucket_start :: "rollup_model \<Rightarrow> instant \<Rightarrow> instant" where
  "bucket_start Minute_rollup t = t"
| "bucket_start Hourly_rollup t = t - t mod sec 3600"
| "bucket_start Daily_rollup t = t - t mod sec 86400"

lemma model_sum:
  \<comment> \<open>\<open>P\<close> looks at the bucket and the exporter, and at the endpoints if the table has them\<close>
  assumes "has_endpoints m \<or> (\<forall>b e s d s' d'. P b e s d = P b e s' d')"
  shows "sum_of v_bytes (filter (\<lambda>v. P (v_bucket v) (v_exporter_id v) (v_src_endpoint_id v) (v_dst_endpoint_id v)) (model_rows m table))
       = sum_of r_bytes (filter (\<lambda>r. P (bucket_start m (r_bucket r)) (r_exporter_id r) (r_src_endpoint_id r) (r_dst_endpoint_id r)) table)"
proof (cases m)
  case Minute_rollup
  then show ?thesis by (simp add: sum_of_filter sum_of_map o_def minute_volume_def cong: if_cong)
next
  case Hourly_rollup
  show ?thesis unfolding Hourly_rollup model_rows.simps hourly_view_def
    by (subst view_sum[where Q = "\<lambda>(b, e, s, d, _). P b e s d" and g = r_bytes]) auto
next
  case Daily_rollup
  with assms have P: "P b e s d = P b e None None" for b e s d by (simp add: has_endpoints_def)
  have eq: "filter (\<lambda>r. P (bucket_start m (r_bucket r)) (r_exporter_id r) (r_src_endpoint_id r) (r_dst_endpoint_id r)) table =
      filter (\<lambda>r. P (bucket_start m (r_bucket r)) (r_exporter_id r) None None) table"
    by (intro filter_cong refl P)
  show ?thesis unfolding eq unfolding Daily_rollup model_rows.simps daily_view_def
    by (subst view_sum[where Q = "\<lambda>(b, e, _). P b e None None" and g = r_bytes]) auto
qed

lemma split_bytes_sum:
  assumes "0 \<le> i" "0 \<le> e" "split_bytes s i e = (i', e')"
  shows "i' + e' = max s (i + e) \<and> i \<le> i' \<and> e \<le> e'"
  using assms by (auto simp: split_bytes_def Let_def split: if_splits)

lemma series_sums_all:
  "series_sums m None rs =
     (sum_of v_bytes rs,
      if has_endpoints m then sum_of v_bytes (filter (\<lambda>r. v_dst_endpoint_id r \<noteq> None) rs) else sum_of v_bytes rs div 2,
      if has_endpoints m then sum_of v_bytes (filter (\<lambda>r. v_src_endpoint_id r \<noteq> None) rs) else sum_of v_bytes rs div 2)"
  by (simp add: series_sums_def ingress_bytes_def sum_of_filter)

lemma in_group: "(k, rs) \<in> set (grouped_rows key rows) \<Longrightarrow> rs = filter (\<lambda>r. key r = k) rows"
  by (auto simp: grouped_rows_def)

definition of_point :: "rollup_model \<Rightarrow> instant \<Rightarrow> uuid option \<Rightarrow> instant \<Rightarrow> rollup_row list \<Rightarrow> rollup_row list" where
  \<comment> \<open>the rows of the minute table that a point of the series stands for\<close>
  "of_point m start_time exporter b table =
     filter (\<lambda>r. bucket_start m (r_bucket r) = b \<and> start_time \<le> b \<and>
       (case exporter of None \<Rightarrow> True | Some e \<Rightarrow> r_exporter_id r = e)) table"

lemma series_point:
  assumes "(b, i, e) \<in> set (series_groups window now exporter None table)" "m = fst (select_rollup_model window None)"
  shows "(i, e) = (let rows = of_point m (now - get_window_delta window) exporter b table; s = sum_of r_bytes rows
     in if has_endpoints m then split_bytes s (ingress_bytes r_dst_endpoint_id r_bytes rows) (ingress_bytes r_src_endpoint_id r_bytes rows)
        else split_bytes s (s div 2) (s div 2))"
proof -
  let ?st = "now - get_window_delta window"
  let ?rows = "filter (series_filter m ?st exporter None) (model_rows m table)"
  let ?P = "\<lambda>b' e' s d. b' = b \<and> ?st \<le> b \<and> (case exporter of None \<Rightarrow> True | Some e \<Rightarrow> e' = e)"
  obtain secs where m: "select_rollup_model window None = (m, secs)" using assms(2) by (metis prod.collapse)
  from assms(1) obtain rs where g: "(b, rs) \<in> set (grouped_rows v_bucket ?rows)"
    and ie: "(i, e) = (let (s, x, y) = series_sums m None rs in split_bytes s x y)"
    by (auto simp: series_groups_def m Let_def case_prod_beta)
  have rs: "rs = filter (\<lambda>v. ?P (v_bucket v) (v_exporter_id v) (v_src_endpoint_id v) (v_dst_endpoint_id v)) (model_rows m table)"
    using in_group[OF g] by (simp add: series_filter_def conj_commute) (intro filter_cong refl, auto)
  have "sum_of v_bytes rs = sum_of r_bytes (of_point m ?st exporter b table)"
    unfolding rs of_point_def by (subst model_sum) auto
  moreover have "sum_of v_bytes (filter (\<lambda>r. v_dst_endpoint_id r \<noteq> None) rs) = ingress_bytes r_dst_endpoint_id r_bytes (of_point m ?st exporter b table)"
    if "has_endpoints m"
    using model_sum[of m "\<lambda>b' e' s d. d \<noteq> None \<and> ?P b' e' s d" table] that
    by (simp add: rs of_point_def ingress_bytes_def sum_of_filter[symmetric] conj_commute)
  moreover have "sum_of v_bytes (filter (\<lambda>r. v_src_endpoint_id r \<noteq> None) rs) = ingress_bytes r_src_endpoint_id r_bytes (of_point m ?st exporter b table)"
    if "has_endpoints m"
    using model_sum[of m "\<lambda>b' e' s d. s \<noteq> None \<and> ?P b' e' s d" table] that
    by (simp add: rs of_point_def ingress_bytes_def sum_of_filter[symmetric] conj_commute)
  ultimately show ?thesis using ie by (simp add: series_sums_all Let_def)
qed

lemma ingress_bounds:
  assumes "\<forall>r \<in> set rows. 0 \<le> b r"
  shows "0 \<le> ingress_bytes col b rows" "ingress_bytes col b rows \<le> sum_of b rows"
  using assms by (auto simp: ingress_bytes_def intro: sum_of_nonneg sum_of_mono)

lemma ingress_apart:
  assumes "\<forall>r \<in> set rows. 0 \<le> b r \<and> (c r = None \<or> d r = None)"
  shows "ingress_bytes c b rows + ingress_bytes d b rows \<le> sum_of b rows"
  unfolding ingress_bytes_def sum_of_add[symmetric] by (rule sum_of_mono) (use assms in auto)


definition flow_row :: "instant \<Rightarrow> uuid option \<Rightarrow> int \<Rightarrow> rollup_row" where
  "flow_row b dst n = \<lparr> r_bucket = b, r_exporter_id = 5, r_src_endpoint_id = None, r_dst_endpoint_id = dst, r_src_ip = ''10.0.0.1'',
     r_dst_ip = ''10.0.0.2'', r_protocol = 6, r_dst_port = 443, r_bytes = n, r_packets = 1, r_flow_count = 1 \<rparr>"


text \<open>The overview only shares out the traffic of no known endpoint when no flow has one: else it is
  missing, unlike in the series.\<close>

lemma overview_drops_transit:
  "let rows = [flow_row (sec 60) (Some 1) 100, flow_row (sec 60) None 900]
   in ov_total_egress_bps (get_bandwidth_overview (sec 100) None rows) = 0 \<and>
      ov_total_ingress_bps (get_bandwidth_overview (sec 100) None rows) = bps 100 300 \<and>
      series_groups ''1h'' (sec 100) None None rows = [(sec 60, 550, 450)]"
proof -
  have w: "strip (lower ''1h'') = ''1h''" by code_simp
  show ?thesis
    by (simp add: get_bandwidth_overview_def flow_row_def ingress_bytes_def series_groups_def select_rollup_model_def w
        get_window_delta_def grouped_rows_def minute_volume_def series_filter_def series_sums_def has_endpoints_def split_bytes_def Let_def)
qed

end
