(* ===== verification/Exporters.thy ===== *)
theory Exporters
  imports Bandwidth SSRF
begin

text \<open>
  The rest of \<open>routers/bandwidth.py\<close>: top talkers and applications, and the exporters: the list of
  them with the unmatched ones, their enrolment and mapping, and the telemetry of their interfaces.
\<close>

subsection \<open>Top talkers and applications\<close>

fun protocol_name :: "int \<Rightarrow> string option" where
  \<comment> \<open>\<open>PROTOCOL_MAP\<close>\<close>
  "protocol_name n =
     (if n = 1 then Some ''ICMP'' else if n = 6 then Some ''TCP'' else if n = 17 then Some ''UDP''
      else if n = 47 then Some ''GRE'' else if n = 50 then Some ''ESP'' else if n = 58 then Some ''IPv6-ICMP''
      else if n = 89 then Some ''OSPF'' else None)"

definition PORT_LABEL_MAP :: "(int, string) dict" where
  "PORT_LABEL_MAP =
     [(22, ''SSH''), (53, ''DNS''), (80, ''HTTP''), (123, ''NTP''), (161, ''SNMP''), (443, ''HTTPS''), (8080, ''HTTP-Alt''),
      (8443, ''HTTPS-Alt''), (3306, ''MySQL''), (5432, ''PostgreSQL''), (6379, ''Redis''), (9200, ''Elasticsearch''),
      (2055, ''NetFlow''), (4739, ''IPFIX'')]"

definition int_str :: "int \<Rightarrow> string" where
  "int_str k = (if k < 0 then CHR ''-'' # dec (nat (- k)) else dec (nat k))"

definition named_protocol :: "string \<Rightarrow> int \<Rightarrow> string" where
  "named_protocol prefix n = (case protocol_name n of Some s \<Rightarrow> s | None \<Rightarrow> prefix @ int_str n)"

record talker =
  tk_endpoint_id :: "uuid option"
  tk_ip_address :: string
  tk_hostname :: "string option"
  tk_total_bytes :: int
  tk_ingress_bytes :: int
  tk_egress_bytes :: int
  tk_flow_count :: int

record conversation =
  cv_src_ip :: string
  cv_dst_ip :: string
  cv_protocol :: string
  cv_dst_port :: int
  cv_total_bytes :: int
  cv_flow_count :: int

definition talker_filter :: "instant \<Rightarrow> uuid option \<Rightarrow> uuid option \<Rightarrow> rollup_row \<Rightarrow> bool" where
  "talker_filter start_time exporter_id endpoint_id r \<longleftrightarrow>
     start_time \<le> r_bucket r \<and> (case exporter_id of None \<Rightarrow> True | Some e \<Rightarrow> r_exporter_id r = e) \<and>
     (endpoint_id \<noteq> None \<longrightarrow> r_src_endpoint_id r = endpoint_id \<or> r_dst_endpoint_id r = endpoint_id)"

definition top_groups :: "nat \<Rightarrow> ('r \<Rightarrow> int) \<Rightarrow> ('r \<Rightarrow> 'k) \<Rightarrow> 'r list \<Rightarrow> ('k \<times> 'r list) list" where
  \<comment> \<open>\<open>GROUP BY key ORDER BY SUM(f) DESC LIMIT n\<close>\<close>
  "top_groups n f key rows = take n (sort_key (\<lambda>(k, rs). - sum_of f rs) (grouped_rows key rows))"

definition get_top_talkers ::
  "string \<Rightarrow> nat \<Rightarrow> uuid option \<Rightarrow> uuid option \<Rightarrow> instant \<Rightarrow> (uuid, string) dict \<Rightarrow> rollup_row list \<Rightarrow> talker list \<times> conversation list" where
  \<comment> \<open>the dictionary: the host names of the endpoint table\<close>
  "get_top_talkers window limit endpoint_id exporter_id now hostnames table =
     (let rows = filter (talker_filter (now - get_window_delta window) exporter_id endpoint_id) table
      in (map (\<lambda>((ip, ep_id), rs).
             (let total_b = sum_of r_bytes rs; in_b = ingress_bytes r_dst_endpoint_id r_bytes rs;
                  eg_b = ingress_bytes r_src_endpoint_id r_bytes rs
              in \<lparr> tk_endpoint_id = ep_id, tk_ip_address = ip,
                   tk_hostname = (case ep_id of None \<Rightarrow> None | Some u \<Rightarrow> get hostnames u), tk_total_bytes = total_b,
                   tk_ingress_bytes = in_b, tk_egress_bytes = (if in_b = 0 \<and> eg_b = 0 then total_b else eg_b),
                   tk_flow_count = sum_of r_flow_count rs \<rparr>))
           (top_groups limit r_bytes (\<lambda>r. (r_src_ip r, r_src_endpoint_id r)) rows),
         map (\<lambda>((s_ip, d_ip, proto_id, port), rs).
             \<lparr> cv_src_ip = s_ip, cv_dst_ip = d_ip, cv_protocol = named_protocol ''PROTO-'' proto_id, cv_dst_port = port,
               cv_total_bytes = sum_of r_bytes rs, cv_flow_count = sum_of r_flow_count rs \<rparr>)
           (top_groups limit r_bytes (\<lambda>r. (r_src_ip r, r_dst_ip r, r_protocol r, r_dst_port r)) rows)))"

record application =
  ap_protocol_name :: string
  ap_port :: int
  ap_service_label :: string
  ap_total_bytes :: int
  ap_percentage :: real

definition get_applications_breakdown :: "string \<Rightarrow> instant \<Rightarrow> rollup_row list \<Rightarrow> application list" where
  "get_applications_breakdown window now table =
     (let rows = filter (\<lambda>v. now - get_window_delta window \<le> v_bucket v) (model_rows (fst (select_rollup_model window None)) table);
          groups = top_groups 15 v_bytes (\<lambda>v. (v_protocol v, v_dst_port v)) rows;
          overall_bytes = sum_of (\<lambda>(k, rs). sum_of v_bytes rs) groups
      in map (\<lambda>((proto_id, port), rs).
           (let b_val = sum_of v_bytes rs; p_name = named_protocol ''P-'' proto_id
            in \<lparr> ap_protocol_name = p_name, ap_port = port,
                 ap_service_label = (case get PORT_LABEL_MAP port of Some l \<Rightarrow> l | None \<Rightarrow> p_name @ CHR ''/'' # int_str port),
                 ap_total_bytes = b_val,
                 ap_percentage = (if 0 < overall_bytes then round2 (real_of_int b_val / real_of_int overall_bytes * 100) else 0) \<rparr>))
         groups)"

subsection \<open>Exporters\<close>

datatype if_alias = Alias_config "string option" "int option" | Alias_text string | Alias_other
  \<comment> \<open>an object with its name and speed, a text, or any other value\<close>

record flow_endpoint = endpoint_row +
  fe_hostname :: string
  fe_device_type :: string
  fe_device_role :: string
  fe_description :: string
  fe_monitoring_enabled :: bool
  fe_interface_aliases :: "(string, if_alias) dict"

record exporter_item =
  ex_id :: uuid
  ex_hostname :: string
  ex_primary_ip :: string
  ex_flow_exporter_ips :: "string list"
  ex_device_role :: string

definition exporter_ips :: "flow_endpoint \<Rightarrow> string list" where
  "exporter_ips ep = (case er_flow_exporter_ips ep of None \<Rightarrow> [] | Some xs \<Rightarrow> xs)"

definition lists_exporter :: "instant \<Rightarrow> rollup_row list \<Rightarrow> (if_key \<times> if_val) list \<Rightarrow> flow_endpoint \<Rightarrow> bool" where
  "lists_exporter since table if_table ep \<longleftrightarrow>
     er_deleted_at ep = None \<and> er_endpoint_status ep \<noteq> ''DELETED'' \<and>
     (fe_device_role ep \<in> {''FLOW_EXPORTER'', ''HYBRID_GATEWAY''} \<or> exporter_ips ep \<noteq> [] \<or>
      list_ex (\<lambda>r. since \<le> r_bucket r \<and> r_exporter_id r = er_id ep) table \<or>
      list_ex (\<lambda>((bucket, exp_id, idx), _). since \<le> bucket \<and> exp_id = er_id ep) if_table)"

definition seen_item :: "string \<times> real \<Rightarrow> (string \<times> instant) list" where
  \<comment> \<open>an address with the time it was last seen, unless the time cannot be read\<close>
  "seen_item x = (case fromtimestamp (snd x) of Inl _ \<Rightarrow> [] | Inr dt \<Rightarrow> [(fst x, dt)])"

fun legacy_members :: "string set \<Rightarrow> string list \<Rightarrow> unmatched_store \<Rightarrow> (string \<times> instant) list \<times> unmatched_store" where
  \<comment> \<open>the members of the old set, in the order of the reply\<close>
  "legacy_members seen [] r = ([], r)"
| "legacy_members seen (ip # ips) r =
     (if ip \<in> seen then legacy_members seen ips r
      else (case us_keys r ip of
              Some (ts_val, _) \<Rightarrow>
                (let (more, r) = legacy_members seen ips r in (seen_item (ip, ts_val) @ more, r))
            | None \<Rightarrow> legacy_members seen ips (r\<lparr>us_set := us_set r - {ip}\<rparr>)))"

definition unmatched_list :: "real \<Rightarrow> string list \<Rightarrow> unmatched_store \<Rightarrow> (string \<times> instant) list \<times> unmatched_store" where
  "unmatched_list now_ts members r =
     (let r = r\<lparr>us_zset := zremrangebyscore_upto (now_ts - 86400) (us_zset r)\<rparr>;
          zset_members = take 100 (rev (us_zset r));
          items = concat (map (\<lambda>(score, ip). seen_item (ip, score)) zset_members);
          (more, r) = legacy_members (set (map fst items)) members r
      in (items @ more, r))"

definition list_flow_exporters ::
  "instant \<Rightarrow> real \<Rightarrow> string list \<Rightarrow> unmatched_store option \<Rightarrow> rollup_row list \<Rightarrow> (if_key \<times> if_val) list \<Rightarrow> flow_endpoint list \<Rightarrow>
   exporter_item list \<times> (string \<times> instant) list \<times> unmatched_store option" where
  \<comment> \<open>the store is missing without a client\<close>
  "list_flow_exporters now now_ts members store table if_table eps =
     (let rows = sort_key fe_hostname (filter (lists_exporter (now - sec 86400) table if_table) eps);
          items = map (\<lambda>ep. \<lparr> ex_id = er_id ep, ex_hostname = fe_hostname ep,
                    ex_primary_ip = hd (split_on CHR ''/'' (er_ip_address ep)), ex_flow_exporter_ips = exporter_ips ep,
                    ex_device_role = fe_device_role ep \<rparr>) rows
      in case store of
           None \<Rightarrow> (items, [], None)
         | Some r \<Rightarrow> (let (unmatched, r) = unmatched_list now_ts members r in (items, unmatched, Some r)))"

subsection \<open>Enrolment and mapping\<close>

datatype request_error = Bad_request | Not_found | Conflict | Unhandled
  \<comment> \<open>status 400, 404 and 409, and an exception that the handler lets through\<close>

record enroll_request =
  eq_ip_address :: string
  eq_hostname :: string
  eq_description :: "string option"
  eq_device_role :: string

definition same_inet :: "string \<Rightarrow> string \<Rightarrow> bool" where
  \<comment> \<open>equality of the column, whose text may carry a prefix length\<close>
  "same_inet a b \<longleftrightarrow>
     (case (ip_address (hd (split_on CHR ''/'' a)), ip_address (hd (split_on CHR ''/'' b))) of
        (Inr x, Inr y) \<Rightarrow> x = y
      | _ \<Rightarrow> False)"

definition unmatched_cleanup :: "string \<Rightarrow> (unmatched_store \<Rightarrow> unmatched_store) list" where
  "unmatched_cleanup ip =
     [\<lambda>r. r\<lparr>us_keys := (us_keys r)(ip := None)\<rparr>, \<lambda>r. r\<lparr>us_set := us_set r - {ip}\<rparr>,
      \<lambda>r. r\<lparr>us_zset := filter (\<lambda>(_, m). m \<noteq> ip) (us_zset r)\<rparr>]"

definition clear_unmatched :: "nat \<Rightarrow> string \<Rightarrow> unmatched_store \<Rightarrow> unmatched_store" where
  \<comment> \<open>so many commands succeed; the first failure ends the clean-up and is logged\<close>
  "clear_unmatched succeeded ip r = fold (\<lambda>f. f) (take succeeded (unmatched_cleanup ip)) r"

definition enroll_flow_exporter ::
  "uuid \<Rightarrow> enroll_request \<Rightarrow> flow_endpoint list \<Rightarrow> request_error + string \<times> flow_endpoint list" where
  \<comment> \<open>the id that the database gives; the result: the address to clear from Redis, and the table\<close>
  "enroll_flow_exporter new_id payload table =
     (let addr = strip (eq_ip_address payload)
      in case ip_address addr of
           Inl _ \<Rightarrow> Inl Bad_request
         | Inr _ \<Rightarrow>
             (let name = strip (eq_hostname payload);
                  name = (if name = [] then ''flow-exporter-'' @ map (\<lambda>c. if c = CHR ''.'' then CHR ''-'' else c) addr else name);
                  dups = filter (\<lambda>ep. (same_inet (er_ip_address ep) addr \<or> fe_hostname ep = name) \<and> er_deleted_at ep = None) table
              in if 1 < length dups then Inl Unhandled
                 else if dups \<noteq> [] then Inl Conflict
                 else if list_ex (\<lambda>ep. same_inet (er_ip_address ep) addr) table then Inl Unhandled
                 else Inr (addr, table @ [\<lparr> er_id = new_id, er_ip_address = addr, er_flow_exporter_ips = Some [addr],
                        er_deleted_at = None, er_endpoint_status = ''ACTIVE'', fe_hostname = name, fe_device_type = ''Router'',
                        fe_device_role = (if eq_device_role payload = [] then ''FLOW_EXPORTER'' else eq_device_role payload),
                        fe_description = (\<lambda>d. case eq_description payload of Some t \<Rightarrow> if t \<noteq> [] then t else d | None \<Rightarrow> d) (''Flow Exporter enrolled from '' @ addr),
                        fe_monitoring_enabled = False, fe_interface_aliases = [] \<rparr>])))"

definition set_endpoint :: "uuid \<Rightarrow> (flow_endpoint \<Rightarrow> flow_endpoint) \<Rightarrow> flow_endpoint list \<Rightarrow> flow_endpoint list" where
  "set_endpoint i f table = map (\<lambda>ep. if er_id ep = i then f ep else ep) table"

definition map_unmatched_exporter ::
  "string \<Rightarrow> uuid \<Rightarrow> flow_endpoint list \<Rightarrow> request_error + string \<times> flow_endpoint list" where
  "map_unmatched_exporter ip endpoint_id table =
     (let addr = strip ip
      in case ip_address addr of
           Inl _ \<Rightarrow> Inl Bad_request
         | Inr _ \<Rightarrow>
             (case find (\<lambda>ep. er_id ep = endpoint_id \<and> er_deleted_at ep = None) table of
                None \<Rightarrow> Inl Not_found
              | Some ep \<Rightarrow>
                  (let existing_ips = exporter_ips ep
                   in Inr (addr, if addr \<in> set existing_ips then table
                           else set_endpoint endpoint_id (\<lambda>ep. ep\<lparr>er_flow_exporter_ips := Some (existing_ips @ [addr])\<rparr>) table))))"

subsection \<open>Interfaces\<close>

record interface_item =
  ii_interface_idx :: int
  ii_name :: string
  ii_speed_mbps :: int
  ii_in_bytes :: int
  ii_out_bytes :: int
  ii_in_bps :: real
  ii_out_bps :: real
  ii_in_packets :: int
  ii_out_packets :: int
  ii_flow_count :: int
  ii_utilization_percentage :: real
  ii_is_active :: bool

definition if_totals :: "(if_key \<times> if_val) list \<Rightarrow> if_val" where
  "if_totals rs =
     (sum_of (\<lambda>(_, a, _). a) rs, sum_of (\<lambda>(_, _, a, _). a) rs, sum_of (\<lambda>(_, _, _, a, _). a) rs,
      sum_of (\<lambda>(_, _, _, _, a, _). a) rs, sum_of (\<lambda>(_, _, _, _, _, a). a) rs)"

definition alias_indices :: "(string, if_alias) dict \<Rightarrow> int list" where
  \<comment> \<open>the keys that are integers\<close>
  "alias_indices aliases = List.map_filter (\<lambda>k. case py_int k of Inl _ \<Rightarrow> None | Inr i \<Rightarrow> Some i) (keys aliases)"

definition interface_label :: "(string, if_alias) dict \<Rightarrow> int \<Rightarrow> string \<times> int" where
  "interface_label aliases idx =
     (let plain = ''Interface '' @ int_str idx
      in case get aliases (int_str idx) of
           Some (Alias_config name speed) \<Rightarrow>
             ((case name of None \<Rightarrow> plain | Some s \<Rightarrow> s), (case speed of None \<Rightarrow> 1000 | Some n \<Rightarrow> n))
         | Some (Alias_text s) \<Rightarrow> (s, 1000)
         | _ \<Rightarrow> (plain, 1000))"

definition utilization :: "real \<Rightarrow> real \<Rightarrow> int \<Rightarrow> real" where
  "utilization in_bps out_bps speed_mbps =
     round2 (min 100 (max in_bps out_bps / (real_of_int speed_mbps * 1000000) * 100))"

definition get_interfaces_telemetry ::
  "uuid \<Rightarrow> string \<Rightarrow> instant \<Rightarrow> int set \<Rightarrow> flow_endpoint list \<Rightarrow> (if_key \<times> if_val) list \<Rightarrow> interface_item list" where
  \<comment> \<open>the indices that Redis lists as active\<close>
  "get_interfaces_telemetry exporter_id window now active table if_table =
     (let delta = get_window_delta window;
          window_seconds = real_of_int delta / 1000000;
          aliases = (case find (\<lambda>ep. er_id ep = exporter_id \<and> er_deleted_at ep = None) table of
                       None \<Rightarrow> [] | Some ep \<Rightarrow> fe_interface_aliases ep);
          rows = filter (\<lambda>((bucket, exp_id, idx), _). exp_id = exporter_id \<and> now - delta \<le> bucket) if_table;
          traffic = map (\<lambda>(idx, rs). (idx, if_totals rs)) (grouped_rows (\<lambda>((bucket, exp_id, idx), _). idx) rows);
          all_if = fold (\<lambda>k d. if get d k = None then put k (0, 0, 0, 0, 0) d else d) (alias_indices aliases) traffic
      in map (\<lambda>idx.
           (let (in_b, out_b, in_p, out_p, n) = (case get all_if idx of Some v \<Rightarrow> v | None \<Rightarrow> (0, 0, 0, 0, 0));
                in_bps = real_of_int in_b * 8 / max 1 window_seconds; out_bps = real_of_int out_b * 8 / max 1 window_seconds;
                (name, speed) = interface_label aliases idx;
                speed = max 1 speed
            in \<lparr> ii_interface_idx = idx, ii_name = name, ii_speed_mbps = speed, ii_in_bytes = in_b, ii_out_bytes = out_b,
                 ii_in_bps = round2 in_bps, ii_out_bps = round2 out_bps, ii_in_packets = in_p, ii_out_packets = out_p,
                 ii_flow_count = n, ii_utilization_percentage = utilization in_bps out_bps speed,
                 ii_is_active = (idx \<in> active \<or> 0 < n \<or> 0 < in_b + out_b) \<rparr>))
         (sort (keys all_if)))"

fun checked_aliases :: "(string \<times> string \<times> int) list \<Rightarrow> (string, if_alias) dict \<Rightarrow> request_error + (string, if_alias) dict" where
  "checked_aliases [] aliases = Inr aliases"
| "checked_aliases ((idx_str, name, speed) # rest) aliases =
     (case py_int idx_str of
        Inl _ \<Rightarrow> Inl Bad_request
      | Inr _ \<Rightarrow> checked_aliases rest (put idx_str (Alias_config (Some name) (Some speed)) aliases))"

definition update_endpoint_interfaces ::
  "uuid \<Rightarrow> (string \<times> string \<times> int) list \<Rightarrow> flow_endpoint list \<Rightarrow> request_error + flow_endpoint list" where
  \<comment> \<open>the payload: index, name and speed, already validated by its schema\<close>
  "update_endpoint_interfaces i payload table =
     (case find (\<lambda>ep. er_id ep = i \<and> er_deleted_at ep = None) table of
        None \<Rightarrow> Inl Not_found
      | Some ep \<Rightarrow>
          map_sum id (\<lambda>aliases. set_endpoint i (\<lambda>ep. ep\<lparr>fe_interface_aliases := aliases\<rparr>) table) (checked_aliases payload []))"

subsection \<open>A mapped exporter is known\<close>

lemma strip_strip: "strip (strip s) = strip s"
proof -
  define v where "v = dropWhile is_space s"
  define u where "u = rev (dropWhile is_space (rev v))"
  have v: "v = [] \<or> \<not> is_space (hd v)" unfolding v_def using hd_dropWhile by blast
  have "rev v = takeWhile is_space (rev v) @ rev u" by (simp add: u_def)
  then have "v = u @ rev (takeWhile is_space (rev v))" by (metis rev_append rev_rev_ident)
  then have "u = [] \<or> hd u = hd v \<and> v \<noteq> []" by (metis append_is_Nil_conv hd_append2)
  with v have "u = [] \<or> \<not> is_space (hd u)" by metis
  then have "dropWhile is_space u = u" by (simp add: dropWhile_eq_self_iff)
  moreover have "dropWhile is_space (rev u) = rev u" unfolding u_def by (simp add: dropWhile_idem)
  ultimately have "strip u = u" by (simp add: strip_def)
  then show ?thesis by (simp add: strip_def u_def v_def)
qed

lemma ip_address_no_slash: "ip_address s = Inr a \<Longrightarrow> CHR ''/'' \<notin> set s \<and> s \<noteq> []"
proof -
  assume a: "ip_address s = Inr a"
  have "ip_address [] = Inl ValueError" by code_simp
  with a have "s \<noteq> []" by auto
  moreover have "CHR ''/'' \<notin> set s"
  proof
    assume "CHR ''/'' \<in> set s"
    then have "ip_address s = Inl ValueError" by (simp add: ip_address_def parse_ipv4_def parse_ipv6_def)
    with a show False by simp
  qed
  ultimately show ?thesis by simp
qed

lemma clean_ip_address: "ip_address s = Inr a \<Longrightarrow> s = strip t \<Longrightarrow> clean_ip s = s"
  using ip_address_no_slash[of s a] by (simp add: clean_ip_def split_on_id strip_strip)

lemma set_endpoint_other: "e \<in> set (set_endpoint i f table) \<Longrightarrow> (\<And>x. er_id (f x) = er_id x) \<Longrightarrow> er_id e \<noteq> i \<Longrightarrow> e \<in> set table"
  by (auto simp: set_endpoint_def split: if_splits)

lemma last_claim_only:
  assumes "\<exists>e \<in> set es. P e" "\<forall>e \<in> set es. P e \<longrightarrow> er_id e = i"
  shows "last_claim P es = Some i"
proof -
  have "filter P es \<noteq> []" using assms(1) by (simp add: filter_empty_conv)
  moreover from last_in_set[OF this] have "er_id (last (filter P es)) = i" using assms(2) by simp
  ultimately show ?thesis by (simp add: last_claim_def)
qed

abbreviation plain_row :: "flow_endpoint \<Rightarrow> endpoint_row" where "plain_row \<equiv> endpoint_row.truncate"

lemma plain_row_simps:
  "er_id (plain_row e) = er_id e" "er_deleted_at (plain_row e) = er_deleted_at e" "er_endpoint_status (plain_row e) = er_endpoint_status e"
  "er_flow_exporter_ips (plain_row e) = er_flow_exporter_ips e" "er_ip_address (plain_row e) = er_ip_address e"
  by (simp_all add: endpoint_row.truncate_def)

definition active_row :: "flow_endpoint \<Rightarrow> bool" where
  "active_row e \<longleftrightarrow> er_deleted_at e = None \<and> er_endpoint_status e \<noteq> ''DELETED''"


definition host_row :: "uuid \<Rightarrow> string \<Rightarrow> flow_endpoint" where
  "host_row i ip = \<lparr> er_id = i, er_ip_address = ip, er_flow_exporter_ips = None, er_deleted_at = None, er_endpoint_status = ''ACTIVE'',
     fe_hostname = ''r'' @ ip, fe_device_type = ''Router'', fe_device_role = ''ACTIVE_HOST'', fe_description = [],
     fe_monitoring_enabled = True, fe_interface_aliases = [] \<rparr>"


subsection \<open>Enrolment that fails\<close>

text \<open>Two cases that the handler does not foresee: an address and a name that are taken by different
  endpoints, and an address that a deleted endpoint still holds in the unique column.\<close>

lemma enroll_two_matches:
  assumes "ip_address (strip (eq_ip_address p)) = Inr a" "strip (eq_hostname p) \<noteq> []"
    and "table = [e1, e2]" "same_inet (er_ip_address e1) (strip (eq_ip_address p))" "fe_hostname e2 = strip (eq_hostname p)"
    and "er_deleted_at e1 = None" "er_deleted_at e2 = None"
  shows "enroll_flow_exporter i p table = Inl Unhandled"
  using assms by (simp add: enroll_flow_exporter_def Let_def)

lemma enroll_deleted_address:
  assumes "ip_address (strip (eq_ip_address p)) = Inr a" "table = [e]" "same_inet (er_ip_address e) (strip (eq_ip_address p))"
    and "er_deleted_at e = Some t"
  shows "enroll_flow_exporter i p table = Inl Unhandled"
  using assms by (simp add: enroll_flow_exporter_def Let_def)

definition addresses_unique :: "flow_endpoint list \<Rightarrow> bool" where
  "addresses_unique table \<longleftrightarrow> sorted_wrt (\<lambda>x y. \<not> same_inet (er_ip_address x) (er_ip_address y)) table"

lemma enroll_keeps_unique:
  assumes "enroll_flow_exporter i p table = Inr (addr, table')" "addresses_unique table"
  shows "addresses_unique table' \<and> (\<exists>e. table' = table @ [e] \<and> er_id e = i \<and> \<not> fe_monitoring_enabled e \<and> exporter_ips e = [addr])"
proof -
  have "\<exists>e. table' = table @ [e] \<and> er_ip_address e = addr \<and> er_id e = i \<and> \<not> fe_monitoring_enabled e \<and> er_flow_exporter_ips e = Some [addr] \<and>
      \<not> list_ex (\<lambda>x. same_inet (er_ip_address x) addr) table"
    using assms(1) unfolding enroll_flow_exporter_def Let_def
    by (cases "ip_address (strip (eq_ip_address p))") (auto split: if_splits)
  then obtain e where e: "table' = table @ [e]" "er_ip_address e = addr" "er_id e = i" "\<not> fe_monitoring_enabled e"
    "er_flow_exporter_ips e = Some [addr]" "\<not> list_ex (\<lambda>x. same_inet (er_ip_address x) addr) table" by blast
  then have "addresses_unique table'"
    using assms(2) unfolding addresses_unique_def e(1) sorted_wrt_append by (simp add: list_ex_iff)
  with e show ?thesis by (simp add: exporter_ips_def)
qed

subsection \<open>Lists in order, shares in bounds\<close>

lemma top_groups_top:
  \<comment> \<open>the groups come in descending order, and none that is left out has more than one that is listed\<close>
  assumes "(k, rs) \<in> set (top_groups n f key rows)" "(k', rs') \<in> set (grouped_rows key rows)" "(k', rs') \<notin> set (top_groups n f key rows)"
  shows "sum_of f rs' \<le> sum_of f rs"
proof -
  let ?g = "\<lambda>(k, rs). - sum_of f rs"
  let ?xs = "sort_key ?g (grouped_rows key rows)"
  have "set ?xs = set (take n ?xs) \<union> set (drop n ?xs)"
    by (metis append_take_drop_id set_append)
  moreover have "(k', rs') \<in> set ?xs" using assms(2) by simp
  ultimately have rest: "(k', rs') \<in> set (drop n ?xs)" using assms(3) unfolding top_groups_def by blast
  have "sorted_wrt (\<lambda>x y. ?g x \<le> ?g y) (take n ?xs @ drop n ?xs)"
    using sorted_sort_key[of ?g "grouped_rows key rows"] by (simp add: sorted_map)
  then have "?g (k, rs) \<le> ?g (k', rs')"
    using assms(1) rest unfolding sorted_wrt_append top_groups_def by blast
  then show ?thesis by simp
qed

lemma utilization_bounds: "0 \<le> i \<Longrightarrow> 0 < n \<Longrightarrow> 0 \<le> utilization i e n \<and> utilization i e n \<le> 100"
  unfolding utilization_def by (simp add: Let_def round2_bounds le_max_iff_disj)

end
