(* ===== verification/Endpoint_Repo.thy ===== *)
theory Endpoint_Repo
  imports Exporters Engine Uptime Topology Routes
begin

text \<open>
  The table of endpoints with the constraints of its columns (\<open>models/endpoint.py\<close>) and the
  repository over it (\<open>repositories/endpoint_repo.py\<close>): look-up, insertion, restoration, update,
  deletion, the search for cycles of parents, and the endpoints with their newest state. A statement
  that violates a constraint raises, which the handlers let through. Which texts the database reads
  as addresses is a parameter; texts are ordered by their characters.
\<close>

subsection \<open>Rows and constraints\<close>

record device =
  dv_id :: uuid
  dv_ip_address :: string
  dv_hostname :: string
  dv_device_type :: string
  dv_location :: "string option"
  dv_description :: "string option"
  dv_monitoring_enabled :: bool
  dv_endpoint_status :: string
  dv_allow_incident_trace :: bool
  dv_allow_topology_discovery :: bool
  dv_enable_rca :: bool
  dv_enable_scheduled_discovery :: bool
  dv_is_l2_segment :: bool
  dv_flow_exporter_ips :: "string list option"
  dv_flow_interface_aliases :: "(string, if_alias) dict option" \<comment> \<open>\<open>None\<close>: the JSON value \<open>null\<close>\<close>
  dv_device_role :: string
  dv_manual_parent_id :: "uuid option"
  dv_created_by :: "uuid option"
  dv_created_at :: instant
  dv_updated_at :: instant
  dv_deleted_at :: "instant option"

definition fits_column :: "nat \<Rightarrow> string \<Rightarrow> bool" where \<comment> \<open>\<open>VARCHAR(n)\<close>\<close>
  "fits_column n s \<longleftrightarrow> length s \<le> n \<and> CHR 0x00 \<notin> set s"

definition accepts :: "(string \<Rightarrow> bool) \<Rightarrow> uuid set \<Rightarrow> device \<Rightarrow> bool" where
  \<comment> \<open>types, \<open>NOT NULL\<close>, the check of the status and the foreign key to the ids of the table\<close>
  "accepts inet ids d \<longleftrightarrow>
     inet (dv_ip_address d) \<and> fits_column 255 (dv_hostname d) \<and> fits_column 100 (dv_device_type d) \<and>
     (case dv_location d of None \<Rightarrow> True | Some s \<Rightarrow> fits_column 255 s) \<and>
     (case dv_description d of None \<Rightarrow> True | Some s \<Rightarrow> CHR 0x00 \<notin> set s) \<and>
     dv_endpoint_status d \<in> {''ACTIVE'', ''DISABLED'', ''DELETED''} \<and>
     (case dv_flow_exporter_ips d of None \<Rightarrow> False | Some xs \<Rightarrow> list_all inet xs) \<and>
     (case dv_manual_parent_id d of None \<Rightarrow> True | Some p \<Rightarrow> p \<in> ids)"

definition ids_of :: "device list \<Rightarrow> uuid set" where "ids_of t = dv_id ` set t"

definition insert_device :: "(string \<Rightarrow> bool) \<Rightarrow> device \<Rightarrow> device list \<Rightarrow> request_error + device list" where
  "insert_device inet d t =
     (if accepts inet (insert (dv_id d) (ids_of t)) d \<and> dv_id d \<notin> ids_of t \<and>
         \<not> list_ex (\<lambda>e. same_inet (dv_ip_address e) (dv_ip_address d)) t
      then Inr (t @ [d]) else Inl Unhandled)"

definition update_devices ::
  "(string \<Rightarrow> bool) \<Rightarrow> (device \<Rightarrow> bool) \<Rightarrow> (device \<Rightarrow> device) \<Rightarrow> device list \<Rightarrow> request_error + device list" where
  \<comment> \<open>\<open>UPDATE\<close> with columns other than the id and the address\<close>
  "update_devices inet P f t =
     (if list_all (\<lambda>d. P d \<longrightarrow> accepts inet (ids_of t) (f d)) t
      then Inr (map (\<lambda>d. if P d then f d else d) t) else Inl Unhandled)"

subsection \<open>Look-up\<close>

definition scalar_one_or_none :: "'a list \<Rightarrow> request_error + 'a option" where
  "scalar_one_or_none xs = (case xs of [] \<Rightarrow> Inr None | [x] \<Rightarrow> Inr (Some x) | _ \<Rightarrow> Inl Unhandled)"

definition not_deleted :: "device \<Rightarrow> bool" where
  "not_deleted d \<longleftrightarrow> dv_endpoint_status d \<noteq> ''DELETED''"

definition get_by_id :: "uuid \<Rightarrow> bool \<Rightarrow> device list \<Rightarrow> request_error + device option" where
  "get_by_id i include_deleted t =
     scalar_one_or_none (filter (\<lambda>d. dv_id d = i \<and> (include_deleted \<or> not_deleted d)) t)"

definition get_by_ip :: "(string \<Rightarrow> bool) \<Rightarrow> string \<Rightarrow> bool \<Rightarrow> device list \<Rightarrow> request_error + device option" where
  "get_by_ip inet ip include_deleted t =
     (if inet ip
      then scalar_one_or_none (filter (\<lambda>d. same_inet (dv_ip_address d) ip \<and> (include_deleted \<or> not_deleted d)) t)
      else Inl Unhandled)"

subsection \<open>Statements\<close>

record device_request =
  rq_ip_address :: string
  rq_hostname :: string
  rq_device_type :: string
  rq_location :: "string option"
  rq_description :: "string option"
  rq_monitoring_enabled :: bool
  rq_allow_incident_trace :: bool
  rq_allow_topology_discovery :: bool
  rq_enable_rca :: bool
  rq_enable_scheduled_discovery :: bool
  rq_is_l2_segment :: bool
  rq_flow_exporter_ips :: "string list option"
  rq_flow_interface_aliases :: "(string, string) dict option"
  rq_manual_parent_id :: "uuid option"

definition alias_texts :: "(string, string) dict \<Rightarrow> (string, if_alias) dict" where
  "alias_texts xs = map (\<lambda>(k, s). (k, Alias_text s)) xs"

definition new_device :: "uuid \<Rightarrow> uuid option \<Rightarrow> instant \<Rightarrow> device_request \<Rightarrow> device" where
  \<comment> \<open>the row that \<open>create_endpoint\<close> inserts: a list of addresses that is \<open>None\<close> is left to the
     default of the column, an object that is \<open>None\<close> is stored as \<open>null\<close>\<close>
  "new_device new_id admin now r =
     \<lparr> dv_id = new_id, dv_ip_address = rq_ip_address r, dv_hostname = rq_hostname r, dv_device_type = rq_device_type r,
       dv_location = rq_location r, dv_description = rq_description r, dv_monitoring_enabled = rq_monitoring_enabled r,
       dv_endpoint_status = ''ACTIVE'', dv_allow_incident_trace = rq_allow_incident_trace r,
       dv_allow_topology_discovery = rq_allow_topology_discovery r, dv_enable_rca = rq_enable_rca r,
       dv_enable_scheduled_discovery = rq_enable_scheduled_discovery r, dv_is_l2_segment = rq_is_l2_segment r,
       dv_flow_exporter_ips = Some (case rq_flow_exporter_ips r of None \<Rightarrow> [] | Some xs \<Rightarrow> xs),
       dv_flow_interface_aliases = map_option alias_texts (rq_flow_interface_aliases r),
       dv_device_role = ''ACTIVE_HOST'', dv_manual_parent_id = rq_manual_parent_id r, dv_created_by = admin,
       dv_created_at = now, dv_updated_at = now, dv_deleted_at = None \<rparr>"

definition restored :: "instant \<Rightarrow> device_request \<Rightarrow> device \<Rightarrow> device" where
  \<comment> \<open>every value is set, \<open>None\<close> as well\<close>
  "restored now r d =
     d\<lparr> dv_hostname := rq_hostname r, dv_device_type := rq_device_type r,
        dv_location := rq_location r, dv_description := rq_description r, dv_monitoring_enabled := rq_monitoring_enabled r,
        dv_allow_incident_trace := rq_allow_incident_trace r,
        dv_allow_topology_discovery := rq_allow_topology_discovery r, dv_enable_rca := rq_enable_rca r,
        dv_enable_scheduled_discovery := rq_enable_scheduled_discovery r, dv_is_l2_segment := rq_is_l2_segment r,
        dv_manual_parent_id := rq_manual_parent_id r, dv_flow_exporter_ips := rq_flow_exporter_ips r,
        dv_flow_interface_aliases := map_option alias_texts (rq_flow_interface_aliases r),
        dv_endpoint_status := ''ACTIVE'', dv_deleted_at := None, dv_updated_at := now \<rparr>"

definition restore_endpoint ::
  "(string \<Rightarrow> bool) \<Rightarrow> uuid \<Rightarrow> instant \<Rightarrow> device_request \<Rightarrow> device list \<Rightarrow> request_error + device list" where
  "restore_endpoint inet i now r = update_devices inet (\<lambda>d. dv_id d = i) (restored now r)"

record update_request =
  up_hostname :: "string option"
  up_device_type :: "string option"
  up_location :: "string option"
  up_description :: "string option"
  up_monitoring_enabled :: "bool option"
  up_allow_incident_trace :: "bool option"
  up_allow_topology_discovery :: "bool option"
  up_enable_rca :: "bool option"
  up_enable_scheduled_discovery :: "bool option"
  up_is_l2_segment :: "bool option"
  up_flow_exporter_ips :: "string list option"
  up_flow_interface_aliases :: "(string, string) dict option"
  up_manual_parent_id :: "uuid option"
  up_endpoint_status :: "string option"

primrec if_given :: "'a option \<Rightarrow> 'a \<Rightarrow> 'a" where
  "if_given None old = old"
| "if_given (Some x) old = x"

definition updated :: "instant \<Rightarrow> update_request \<Rightarrow> device \<Rightarrow> device" where
  "updated now u d =
     d\<lparr> dv_hostname := if_given (up_hostname u) (dv_hostname d), dv_device_type := if_given (up_device_type u) (dv_device_type d),
        dv_location := if_given (map_option Some (up_location u)) (dv_location d),
        dv_description := if_given (map_option Some (up_description u)) (dv_description d),
        dv_monitoring_enabled := if_given (up_monitoring_enabled u) (dv_monitoring_enabled d),
        dv_allow_incident_trace := if_given (up_allow_incident_trace u) (dv_allow_incident_trace d),
        dv_allow_topology_discovery := if_given (up_allow_topology_discovery u) (dv_allow_topology_discovery d),
        dv_enable_rca := if_given (up_enable_rca u) (dv_enable_rca d),
        dv_enable_scheduled_discovery := if_given (up_enable_scheduled_discovery u) (dv_enable_scheduled_discovery d),
        dv_is_l2_segment := if_given (up_is_l2_segment u) (dv_is_l2_segment d),
        dv_flow_exporter_ips := if_given (map_option Some (up_flow_exporter_ips u)) (dv_flow_exporter_ips d),
        dv_flow_interface_aliases :=
          if_given (map_option (\<lambda>xs. Some (alias_texts xs)) (up_flow_interface_aliases u)) (dv_flow_interface_aliases d),
        dv_manual_parent_id := if_given (map_option Some (up_manual_parent_id u)) (dv_manual_parent_id d),
        dv_endpoint_status := if_given (up_endpoint_status u) (dv_endpoint_status d), dv_updated_at := now \<rparr>"

definition repo_update ::
  "(string \<Rightarrow> bool) \<Rightarrow> uuid \<Rightarrow> instant \<Rightarrow> update_request \<Rightarrow> device list \<Rightarrow> request_error + device list" where
  \<comment> \<open>\<open>EndpointRepository.update_endpoint\<close>\<close>
  "repo_update inet i now u = update_devices inet (\<lambda>d. dv_id d = i \<and> not_deleted d) (updated now u)"

definition soft_delete_endpoint ::
  "(string \<Rightarrow> bool) \<Rightarrow> uuid \<Rightarrow> instant \<Rightarrow> device list \<Rightarrow> request_error + device list" where
  "soft_delete_endpoint inet i now = update_devices inet (\<lambda>d. dv_id d = i \<and> not_deleted d)
     (\<lambda>d. d\<lparr> dv_endpoint_status := ''DELETED'', dv_deleted_at := Some now, dv_updated_at := now \<rparr>)"

subsection \<open>Parents\<close>

definition parent_id :: "device list \<Rightarrow> uuid \<Rightarrow> uuid option" where
  "parent_id t i = (case find (\<lambda>d. dv_id d = i) t of None \<Rightarrow> None | Some d \<Rightarrow> dv_manual_parent_id d)"

function cycle_loop :: "device list \<Rightarrow> uuid option \<Rightarrow> uuid set \<Rightarrow> bool" where
  "cycle_loop t None visited = False"
| "cycle_loop t (Some cur) visited =
     (if cur \<in> visited then True else cycle_loop t (parent_id t cur) (insert cur visited))"
  by pat_completeness auto
termination
proof (relation "measure (\<lambda>(_, _, visited). card (- visited))")
  fix t cur and visited :: "uuid set"
  assume "cur \<notin> visited"
  then have "- insert cur visited \<subset> - visited" by blast
  then show "((t, parent_id t cur, insert cur visited), (t, Some cur, visited)) \<in> measure (\<lambda>(_, _, visited). card (- visited))"
    by (simp add: psubset_card_mono)
qed simp

definition detect_parent_cycle :: "uuid \<Rightarrow> uuid option \<Rightarrow> device list \<Rightarrow> bool" where
  "detect_parent_cycle endpoint_id parent t =
     (case parent of
        None \<Rightarrow> False
      | Some p \<Rightarrow> if endpoint_id = p then True else cycle_loop t (Some p) {endpoint_id})"

subsection \<open>Endpoints with their state\<close>

record device_stats =
  ds_device :: device
  ds_operational_state :: string
  ds_detailed_state :: string
  ds_health_score :: real
  ds_avg_rtt_ms :: "real option"
  ds_last_seen :: "instant option"
  ds_up_events_count :: int
  ds_uptime_seconds :: int

fun distinct_on :: "('a \<Rightarrow> 'k) \<Rightarrow> 'a list \<Rightarrow> 'a list" where
  \<comment> \<open>\<open>DISTINCT ON\<close>: the first row of each key\<close>
  "distinct_on key [] = []"
| "distinct_on key (x # xs) = x # filter (\<lambda>y. key y \<noteq> key x) (distinct_on key xs)"

definition newest_events :: "event_table \<Rightarrow> event list" where
  "newest_events evs = distinct_on ev_endpoint_id (sort_key ev_endpoint_id (sort_key (\<lambda>e. - ev_start_time e) evs))"

definition newest_event :: "uuid \<Rightarrow> event_table \<Rightarrow> event list" where
  "newest_event i evs = take 1 (sort_key (\<lambda>e. - ev_start_time e) (filter (\<lambda>e. ev_endpoint_id e = i) evs))"

definition up_within :: "instant \<Rightarrow> instant \<Rightarrow> event \<Rightarrow> bool" where
  "up_within since_utc now_utc e \<longleftrightarrow>
     ev_operational_state e = ''UP'' \<and> ev_start_time e < now_utc \<and>
     (case ev_end_time e of None \<Rightarrow> True | Some t \<Rightarrow> since_utc < t)"

definition clamped_duration :: "instant \<Rightarrow> instant \<Rightarrow> event \<Rightarrow> int" where
  "clamped_duration since_utc now_utc e =
     max 0 (min (case ev_end_time e of None \<Rightarrow> now_utc | Some t \<Rightarrow> t) now_utc - max (ev_start_time e) since_utc)"

definition up_stats :: "instant \<Rightarrow> instant \<Rightarrow> event list \<Rightarrow> int \<times> int" where
  \<comment> \<open>the number of events, and the microseconds they last\<close>
  "up_stats since_utc now_utc es = (int (length es), sum_of (clamped_duration since_utc now_utc) es)"

definition shown :: "device \<Rightarrow> 'a \<Rightarrow> 'a \<Rightarrow> 'a" where
  "shown d passive v = (if dv_device_role d = ''FLOW_EXPORTER'' then passive else if \<not> dv_monitoring_enabled d then passive else v)"

definition joined :: "device \<Rightarrow> event option \<Rightarrow> (int \<times> int) option \<Rightarrow> device_stats" where
  \<comment> \<open>the columns of a row of the outer joins\<close>
  "joined d newest up =
     \<lparr> ds_device = d,
       ds_operational_state = shown d ''PASSIVE'' (case newest of None \<Rightarrow> ''DOWN'' | Some e \<Rightarrow> ev_operational_state e),
       ds_detailed_state = shown d ''PASSIVE'' (case newest of None \<Rightarrow> ''DOWN'' | Some e \<Rightarrow> ev_detailed_state e),
       ds_health_score = shown d 100 (case newest of None \<Rightarrow> 0 | Some e \<Rightarrow> ev_health_score e),
       ds_avg_rtt_ms = Option.bind newest ev_avg_rtt_ms, ds_last_seen = map_option ev_start_time newest,
       ds_up_events_count = (case up of None \<Rightarrow> 0 | Some (n, s) \<Rightarrow> n),
       ds_uptime_seconds = (case up of None \<Rightarrow> 0 | Some (n, s) \<Rightarrow> whole_seconds s) \<rparr>"

definition list_with_stats ::
  "string option \<Rightarrow> instant \<Rightarrow> instant \<Rightarrow> nat option \<Rightarrow> nat option \<Rightarrow> device list \<Rightarrow> event_table \<Rightarrow> device_stats list" where
  "list_with_stats status since_utc now_utc page page_size t evs =
     (let newest = newest_events evs;
          up_counts = map (\<lambda>(i, es). (i, up_stats since_utc now_utc es))
            (grouped_rows ev_endpoint_id (filter (up_within since_utc now_utc) evs));
          rows = map (\<lambda>d. joined d (find (\<lambda>e. ev_endpoint_id e = dv_id d) newest) (map_of up_counts (dv_id d)))
            (sort_key dv_hostname (filter (\<lambda>d. not_deleted d \<and> (case status of None \<Rightarrow> True | Some s \<Rightarrow> dv_endpoint_status d = s)) t))
      in case (page, page_size) of
           (Some p, Some n) \<Rightarrow> take n (drop ((p - 1) * n) rows)
         | _ \<Rightarrow> rows)"

definition get_detail_with_stats :: "uuid \<Rightarrow> instant \<Rightarrow> instant \<Rightarrow> device list \<Rightarrow> event_table \<Rightarrow> device_stats option" where
  "get_detail_with_stats i since_utc now_utc t evs =
     (let newest = newest_event i evs;
          up = up_stats since_utc now_utc (filter (\<lambda>e. ev_endpoint_id e = i \<and> up_within since_utc now_utc e) evs)
      in case filter (\<lambda>d. dv_id d = i \<and> not_deleted d) t of
           [] \<Rightarrow> None
         | d # _ \<Rightarrow> Some (joined d (find (\<lambda>e. ev_endpoint_id e = dv_id d) newest) (Some up)))"

subsection \<open>Traces and incidents\<close>

record 'a diagnostic_trace =
  dt_id :: uuid
  dt_endpoint_id :: uuid
  dt_timestamp :: instant
  dt_trigger_reason :: string
  dt_trace_data :: 'a

definition get_traces :: "uuid \<Rightarrow> nat \<Rightarrow> 'a diagnostic_trace list \<Rightarrow> 'a diagnostic_trace list" where
  "get_traces i limit ts = take limit (sort_key (\<lambda>r. - dt_timestamp r) (filter (\<lambda>r. dt_endpoint_id r = i) ts))"

definition get_latest_rca :: "uuid \<Rightarrow> incident list \<Rightarrow> incident option" where
  "get_latest_rca i ics =
     (case sort_key (\<lambda>r. - ic_timestamp r) (filter (\<lambda>r. ic_endpoint_id r = i) ics) of [] \<Rightarrow> None | r # _ \<Rightarrow> Some r)"

end
