(* ===== verification/Endpoint_API.thy ===== *)
theory Endpoint_API
  imports Endpoint_Repo
begin

text \<open>
  The requests over endpoints (\<open>routers/endpoints.py\<close>): lists and details with their availability,
  creation, change, deletion, the refresh of a baseline route. A request that fails leaves the table
  as it is; the tasks and the rebuild of the topology that follow a commit are values. The
  authentication and the audit log are left out.
\<close>

subsection \<open>Reading\<close>

record page_meta =
  pm_total :: nat
  pm_page :: nat
  pm_page_size :: nat
  pm_total_pages :: nat

type_synonym endpoint_item = "device_stats \<times> real" \<comment> \<open>with the availability of the last 24 hours\<close>

definition uptime_24h :: "instant \<Rightarrow> instant \<Rightarrow> instant \<Rightarrow> service_table option \<Rightarrow> device_stats \<Rightarrow> real" where
  "uptime_24h offset since_utc now_utc gaps row =
     calculate_uptime offset
       \<lparr> q_created_at = Aware (dv_created_at (ds_device row)), q_start_time = Aware since_utc, q_end_time = Aware now_utc,
         q_now = Aware now_utc, q_up_events_count = ds_up_events_count row, q_unknown_seconds = 0,
         q_gap_intervals = Some (map (\<lambda>(s, e). (Aware s, Aware e))
           (get_service_gap_intervals offset gaps (Aware since_utc) (Aware now_utc))),
         q_uptime_seconds = Some (ds_uptime_seconds row) \<rparr>"

definition ALLOWED_STATUSES :: "string set" where
  "ALLOWED_STATUSES = {''ACTIVE'', ''DISABLED'', ''MONITORED'', ''UNMONITORED''}"

definition list_endpoints ::
  "instant \<Rightarrow> instant \<Rightarrow> string option \<Rightarrow> nat option \<Rightarrow> nat option \<Rightarrow> device list \<Rightarrow> event_table \<Rightarrow> service_table option \<Rightarrow>
   request_error + endpoint_item list \<times> page_meta" where
  "list_endpoints offset now_utc status page page_size t evs gaps =
     (let since_utc = now_utc - sec 86400;
          clean_status = map_option (\<lambda>s. upper (strip s)) status;
          calc_page = (if page_size \<noteq> None \<and> page = None then Some 1 else page);
          calc_page_size = (if page \<noteq> None \<and> page_size = None then Some 50 else page_size);
          rows = list_with_stats clean_status since_utc now_utc calc_page calc_page_size t evs
      in if clean_status \<notin> insert None (Some ` ALLOWED_STATUSES) then Inl Bad_request
         else Inr (map (\<lambda>row. (row, uptime_24h offset since_utc now_utc gaps row)) rows,
                   \<lparr> pm_total = length rows, pm_page = 1, pm_page_size = max 1 (length rows), pm_total_pages = 1 \<rparr>))"

definition endpoint_detail ::
  "instant \<Rightarrow> instant \<Rightarrow> uuid \<Rightarrow> device list \<Rightarrow> event_table \<Rightarrow> service_table option \<Rightarrow> request_error + endpoint_item" where
  \<comment> \<open>\<open>get_endpoint\<close> of the router\<close>
  "endpoint_detail offset now_utc i t evs gaps =
     (let since_utc = now_utc - sec 86400
      in case get_detail_with_stats i since_utc now_utc t evs of
           None \<Rightarrow> Inl Not_found
         | Some row \<Rightarrow> Inr (row, uptime_24h offset since_utc now_utc gaps row))"

definition get_endpoint_traces :: "uuid \<Rightarrow> 'a diagnostic_trace list \<Rightarrow> 'a diagnostic_trace list" where
  "get_endpoint_traces i ts = get_traces i 10 ts"

definition get_endpoint_rca :: "uuid \<Rightarrow> incident list \<Rightarrow> incident option" where
  "get_endpoint_rca i ics = get_latest_rca i ics"

subsection \<open>Writing\<close>

datatype endpoint_reply = Restored uuid | Created uuid | Updated | No_changes | Deleted

datatype endpoint_effect = Discover uuid string | Rebuild
  \<comment> \<open>\<open>_bg_run_initial_discovery\<close> and \<open>full_rebuild\<close>\<close>

type_synonym endpoint_result = "request_error + endpoint_reply \<times> device list \<times> endpoint_effect list"

definition validate_ip_format :: "string \<Rightarrow> string result" where
  "validate_ip_format v =
     (if v = [] \<or> strip v = [] then Inl ValueError
      else (case ip_address (strip v) of Inl _ \<Rightarrow> Inl ValueError | Inr _ \<Rightarrow> Inr (strip v)))"

definition create_endpoint ::
  "(string \<Rightarrow> bool) \<Rightarrow> uuid \<Rightarrow> uuid option \<Rightarrow> instant \<Rightarrow> device_request \<Rightarrow> device list \<Rightarrow> endpoint_result" where
  \<comment> \<open>the id is the one that the database gives\<close>
  "create_endpoint inet new_id admin now r t =
     (case get_by_ip inet (rq_ip_address r) False t of
        Inl e \<Rightarrow> Inl e
      | Inr (Some d) \<Rightarrow> Inl Conflict
      | Inr None \<Rightarrow>
          (case get_by_ip inet (rq_ip_address r) True t of
             Inl e \<Rightarrow> Inl e
           | Inr existing_deleted \<Rightarrow>
               (case (case existing_deleted of Some d \<Rightarrow> if \<not> not_deleted d then Some (dv_id d) else None | None \<Rightarrow> None) of
                  Some i \<Rightarrow>
                    map_sum id (\<lambda>t. (Restored i, t, [Discover i (rq_ip_address r)])) (restore_endpoint inet i now r t)
                | None \<Rightarrow>
                    map_sum id (\<lambda>t. (Created new_id, t, [Discover new_id (rq_ip_address r)]))
                      (insert_device inet (new_device new_id admin now r) t))))"

definition no_updates :: "update_request \<Rightarrow> bool" where
  "no_updates u \<longleftrightarrow>
     up_hostname u = None \<and> up_device_type u = None \<and> up_location u = None \<and> up_description u = None \<and>
     up_monitoring_enabled u = None \<and> up_allow_incident_trace u = None \<and> up_allow_topology_discovery u = None \<and>
     up_enable_rca u = None \<and> up_enable_scheduled_discovery u = None \<and> up_is_l2_segment u = None \<and>
     up_flow_exporter_ips u = None \<and> up_flow_interface_aliases u = None \<and> up_manual_parent_id u = None \<and>
     up_endpoint_status u = None"

definition patch_checks :: "uuid \<Rightarrow> update_request \<Rightarrow> device list \<Rightarrow> request_error option" where
  \<comment> \<open>what is read before the update; \<open>None\<close>: nothing objects\<close>
  "patch_checks i u t =
     (case get_by_id i False t of
        Inl e \<Rightarrow> Some e
      | Inr None \<Rightarrow> Some Not_found
      | Inr (Some d) \<Rightarrow>
          (case up_manual_parent_id u of
             None \<Rightarrow> None
           | Some p \<Rightarrow>
               if p = i then Some Bad_request
               else if detect_parent_cycle i (Some p) t then Some Bad_request
               else None))"

definition patch_endpoint :: "(string \<Rightarrow> bool) \<Rightarrow> uuid \<Rightarrow> instant \<Rightarrow> update_request \<Rightarrow> device list \<Rightarrow> endpoint_result" where
  \<comment> \<open>\<open>update_endpoint\<close> of the router\<close>
  "patch_endpoint inet i now u t =
     (case patch_checks i u t of
        Some e \<Rightarrow> Inl e
      | None \<Rightarrow>
          if no_updates u then Inr (No_changes, t, [])
          else map_sum id (\<lambda>t. (Updated, t, [Rebuild])) (repo_update inet i now u t))"

definition delete_endpoint :: "(string \<Rightarrow> bool) \<Rightarrow> uuid \<Rightarrow> instant \<Rightarrow> device list \<Rightarrow> endpoint_result" where
  "delete_endpoint inet i now t =
     (case get_by_id i False t of
        Inl e \<Rightarrow> Inl e
      | Inr None \<Rightarrow> Inl Not_found
      | Inr (Some d) \<Rightarrow> map_sum id (\<lambda>t. (Deleted, t, [Rebuild])) (soft_delete_endpoint inet i now t))"

definition trigger_refresh_baseline ::
  "net_env \<Rightarrow> uuid \<Rightarrow> (string \<rightharpoonup> string) \<Rightarrow> device list \<Rightarrow> route_db \<Rightarrow> topology \<Rightarrow>
   request_error + refresh_result \<times> (string \<rightharpoonup> string) \<times> route_db \<times> topology option" where
  \<comment> \<open>no topology: the computation of the levels does not end\<close>
  "trigger_refresh_baseline env i macs t db tp =
     (case get_by_id i False t of
        Inl e \<Rightarrow> Inl e
      | Inr None \<Rightarrow> Inl Not_found
      | Inr (Some d) \<Rightarrow>
          (case refresh_baseline_route env i (dv_ip_address d) macs db of
             Inl _ \<Rightarrow> Inl Unhandled
           | Inr (res, macs, db) \<Rightarrow> Inr (res, macs, db, update_endpoint_path (uuid_text i) (rr_hops res) tp)))"

datatype endpoint_request =
    Create uuid "uuid option" instant device_request
  | Patch uuid instant update_request
  | Delete uuid instant

fun handle_request :: "(string \<Rightarrow> bool) \<Rightarrow> endpoint_request \<Rightarrow> device list \<Rightarrow> endpoint_result" where
  "handle_request inet (Create new_id admin now r) t = create_endpoint inet new_id admin now r t"
| "handle_request inet (Patch i now u) t = patch_endpoint inet i now u t"
| "handle_request inet (Delete i now) t = delete_endpoint inet i now t"

inductive served :: "(string \<Rightarrow> bool) \<Rightarrow> device list \<Rightarrow> device list \<Rightarrow> bool" for inet where
  \<comment> \<open>one request after the other\<close>
  served_ok: "handle_request inet req t = Inr (reply, t', effects) \<Longrightarrow> served inet t t'"
| served_error: "handle_request inet req t = Inl e \<Longrightarrow> served inet t t"

definition engine_row :: "(instant \<Rightarrow> string) \<Rightarrow> device \<Rightarrow> orm_row" where
  \<comment> \<open>the row as the monitoring engine reads it; the function gives the text of an instant\<close>
  "engine_row show_time d =
     (dv_id d,
      [''ip_address'' \<mapsto> PStr (dv_ip_address d), ''hostname'' \<mapsto> PStr (dv_hostname d),
       ''device_type'' \<mapsto> PStr (dv_device_type d),
       ''location'' \<mapsto> (case dv_location d of None \<Rightarrow> PNone | Some s \<Rightarrow> PStr s),
       ''endpoint_status'' \<mapsto> PStr (dv_endpoint_status d), ''monitoring_enabled'' \<mapsto> PBool (dv_monitoring_enabled d),
       ''allow_incident_trace'' \<mapsto> PBool (dv_allow_incident_trace d),
       ''allow_topology_discovery'' \<mapsto> PBool (dv_allow_topology_discovery d), ''enable_rca'' \<mapsto> PBool (dv_enable_rca d),
       ''enable_scheduled_discovery'' \<mapsto> PBool (dv_enable_scheduled_discovery d),
       ''is_l2_segment'' \<mapsto> PBool (dv_is_l2_segment d),
       ''manual_parent_id'' \<mapsto> (case dv_manual_parent_id d of None \<Rightarrow> PNone | Some p \<Rightarrow> PUuid p),
       ''created_at'' \<mapsto> PTime (dv_created_at d) (show_time (dv_created_at d))])"

subsection \<open>The table stays well-formed\<close>

definition table_ok :: "(string \<Rightarrow> bool) \<Rightarrow> device list \<Rightarrow> bool" where
  \<comment> \<open>the constraints of the table\<close>
  "table_ok inet t \<longleftrightarrow> distinct (map dv_id t) \<and> list_all (accepts inet (ids_of t)) t \<and>
     sorted_wrt (\<lambda>x y. \<not> same_inet (dv_ip_address x) (dv_ip_address y)) t"

end
