(* ===== verification/Endpoint_Proofs.thy ===== *)
theory Endpoint_Proofs
  imports Endpoint_API
begin

text \<open>
  What the requests over endpoints promise: the constraints of the table, parents without cycles,
  one endpoint for an address, equal answers of list and detail, and the sweeps that the engine
  runs afterwards.
\<close>

subsection \<open>Statements on the table\<close>

lemma map_sum_InrD: "map_sum f g x = Inr y \<Longrightarrow> \<exists>z. x = Inr z \<and> y = g z"
  by (cases x) auto

lemma one_or_none_simps:
  "scalar_one_or_none xs = Inr None \<longleftrightarrow> xs = []" "scalar_one_or_none xs = Inr (Some x) \<longleftrightarrow> xs = [x]"
  by (auto simp: scalar_one_or_none_def split: list.splits)

lemma updated_simps [simp]:
  "dv_id (updated now u d) = dv_id d" "dv_ip_address (updated now u d) = dv_ip_address d"
  "dv_id (restored now r d) = dv_id d" "dv_ip_address (restored now r d) = dv_ip_address d"
  "dv_manual_parent_id (restored now r d) = rq_manual_parent_id r"
  "dv_manual_parent_id (updated now u d) = if_given (map_option Some (up_manual_parent_id u)) (dv_manual_parent_id d)"
  by (simp_all add: updated_def restored_def)

lemma update_devices_ok:
  assumes "update_devices inet P f t = Inr t'" "\<And>d. dv_id (f d) = dv_id d" "\<And>d. dv_ip_address (f d) = dv_ip_address d"
  shows "t' = map (\<lambda>d. if P d then f d else d) t" "map dv_id t' = map dv_id t" "ids_of t' = ids_of t"
    and "table_ok inet t \<Longrightarrow> table_ok inet t'"
proof -
  show t': "t' = map (\<lambda>d. if P d then f d else d) t"
    using assms(1) by (simp add: update_devices_def split: if_splits)
  show ids: "map dv_id t' = map dv_id t" by (simp add: t' assms(2))
  then show eq: "ids_of t' = ids_of t" unfolding ids_of_def by (metis list.set_map)
  have acc: "\<forall>d \<in> set t. P d \<longrightarrow> accepts inet (ids_of t) (f d)"
    using assms(1) by (simp add: update_devices_def list_all_iff split: if_splits)
  have ip: "(\<lambda>x y. \<not> same_inet (dv_ip_address (if P x then f x else x)) (dv_ip_address (if P y then f y else y)))
      = (\<lambda>x y. \<not> same_inet (dv_ip_address x) (dv_ip_address y))"
    by (intro ext) (simp add: assms(3))
  show "table_ok inet t'" if "table_ok inet t"
  proof -
    have "list_all (accepts inet (ids_of t)) t'" using that acc by (auto simp: table_ok_def list_all_iff t')
    with that show ?thesis unfolding table_ok_def ids eq by (simp add: t' sorted_wrt_map ip)
  qed
qed

lemma accepts_more: "accepts inet ids d \<Longrightarrow> ids \<subseteq> ids' \<Longrightarrow> accepts inet ids' d"
  by (auto simp: accepts_def split: option.splits)

lemma insert_device_ok:
  assumes "insert_device inet d t = Inr t'"
  shows "t' = t @ [d]" "dv_id d \<notin> ids_of t" "table_ok inet t \<Longrightarrow> table_ok inet t'"
proof -
  show t': "t' = t @ [d]" and new: "dv_id d \<notin> ids_of t"
    using assms by (simp_all add: insert_device_def split: if_splits)
  have acc: "accepts inet (insert (dv_id d) (ids_of t)) d" "\<forall>e \<in> set t. \<not> same_inet (dv_ip_address e) (dv_ip_address d)"
    using assms by (simp_all add: insert_device_def list_ex_iff split: if_splits)
  have ids: "ids_of (t @ [d]) = insert (dv_id d) (ids_of t)" by (simp add: ids_of_def)
  show "table_ok inet t'" if ok: "table_ok inet t"
    using ok acc new accepts_more[of inet "ids_of t" _ "insert (dv_id d) (ids_of t)"]
    unfolding table_ok_def t' ids by (auto simp: list_all_iff sorted_wrt_append ids_of_def)
qed

lemma create_cases:
  assumes "create_endpoint inet new_id admin now r t = Inr (reply, t', effects)"
  obtains (restored) i where "reply = Restored i" "restore_endpoint inet i now r t = Inr t'"
      "\<exists>d \<in> set t. dv_id d = i \<and> same_inet (dv_ip_address d) (rq_ip_address r) \<and> \<not> not_deleted d"
  | (created) "reply = Created new_id" "insert_device inet (new_device new_id admin now r) t = Inr t'"
proof -
  from assms obtain ex where "get_by_ip inet (rq_ip_address r) False t = Inr None" and ex: "get_by_ip inet (rq_ip_address r) True t = Inr ex"
    by (auto simp: create_endpoint_def split: sum.splits option.splits)
  show thesis
  proof (cases "\<exists>d. ex = Some d \<and> \<not> not_deleted d")
    case True
    then obtain d where d: "ex = Some d" "\<not> not_deleted d" by blast
    with ex have "filter (\<lambda>d. same_inet (dv_ip_address d) (rq_ip_address r)) t = [d]"
      by (simp add: get_by_ip_def one_or_none_simps split: if_splits)
    then have "d \<in> set t" "same_inet (dv_ip_address d) (rq_ip_address r)" by (auto simp: filter_eq_Cons_iff)
    with d ex assms restored[of "dv_id d"] show thesis
      by (auto simp: create_endpoint_def dest!: map_sum_InrD split: sum.splits option.splits)
  next
    case False
    with ex assms created show thesis
      by (auto simp: create_endpoint_def dest!: map_sum_InrD split: sum.splits option.splits if_splits)
  qed
qed

lemma request_table_ok:
  assumes "handle_request inet req t = Inr (reply, t', effects)" "table_ok inet t"
  shows "table_ok inet t'"
proof (cases req)
  case (Create new_id admin now r)
  with assms(1) have c: "create_endpoint inet new_id admin now r t = Inr (reply, t', effects)" by simp
  show ?thesis
  proof (rule create_cases[OF c])
    fix i
    assume "restore_endpoint inet i now r t = Inr t'"
    from update_devices_ok(4)[OF this[unfolded restore_endpoint_def] _ _ assms(2)] show ?thesis by simp
  qed (auto dest: insert_device_ok(3) simp: assms(2))
next
  case (Patch i now u)
  with assms(1) have "t' = t \<or> repo_update inet i now u t = Inr t'"
    by (auto simp: patch_endpoint_def dest!: map_sum_InrD split: option.splits if_splits)
  with update_devices_ok(4)[of inet _ "updated now u" t t'] assms(2) show ?thesis by (auto simp: repo_update_def)
next
  case (Delete i now)
  with assms(1) have "soft_delete_endpoint inet i now t = Inr t'"
    by (auto simp: delete_endpoint_def dest!: map_sum_InrD split: option.splits sum.splits)
  from update_devices_ok(4)[OF this[unfolded soft_delete_endpoint_def] _ _ assms(2)] show ?thesis by simp
qed

lemma served_table_ok: "(served inet)\<^sup>*\<^sup>* t t' \<Longrightarrow> table_ok inet t \<Longrightarrow> table_ok inet t'"
proof (induction rule: rtranclp_induct)
  case (step t1 t2)
  then show ?case by (auto elim!: served.cases intro: request_table_ok)
qed simp

subsection \<open>Parents\<close>

definition parent_edges :: "device list \<Rightarrow> (uuid \<times> uuid) set" where
  "parent_edges t = {(i, p). parent_id t i = Some p}"

lemma cycle_loop_sound:
  "\<not> cycle_loop t c visited \<Longrightarrow> c = Some p \<Longrightarrow> x \<in> visited \<Longrightarrow> (p, x) \<notin> (parent_edges t)\<^sup>*"
proof (induction t c visited arbitrary: p rule: cycle_loop.induct)
  case (2 t cur visited)
  from 2 have p: "p = cur" "cur \<notin> visited" by (auto split: if_splits)
  show ?case
  proof
    assume "(p, x) \<in> (parent_edges t)\<^sup>*"
    moreover have "p \<noteq> x" using p 2(4) by blast
    ultimately obtain q where "(cur, q) \<in> parent_edges t" "(q, x) \<in> (parent_edges t)\<^sup>*"
      unfolding p(1) by (metis converse_rtranclE)
    moreover then have q: "parent_id t cur = Some q" by (simp add: parent_edges_def)
    moreover have "\<not> cycle_loop t (parent_id t cur) (insert cur visited)" using 2(2) p(2) by simp
    ultimately show False using 2(1)[OF p(2) _ q] 2(4) by blast
  qed
qed simp

lemma cycle_loop_complete:
  "cycle_loop t c visited \<Longrightarrow> acyclic (parent_edges t) \<Longrightarrow> c = Some p \<Longrightarrow>
    \<forall>x \<in> visited. x = e \<or> (x, p) \<in> (parent_edges t)\<^sup>+ \<Longrightarrow> (p, e) \<in> (parent_edges t)\<^sup>*"
proof (induction t c visited arbitrary: p rule: cycle_loop.induct)
  case (2 t cur visited)
  from 2(4) have p: "p = cur" by simp
  show ?case
  proof (cases "cur \<in> visited")
    case True
    with 2(5) have "cur = e \<or> (cur, cur) \<in> (parent_edges t)\<^sup>+" unfolding p by blast
    with 2(3) show ?thesis unfolding p acyclic_def by auto
  next
    case False
    with 2(2) have loop: "cycle_loop t (parent_id t cur) (insert cur visited)" by simp
    then obtain q where q: "parent_id t cur = Some q" by (cases "parent_id t cur") auto
    then have edge: "(cur, q) \<in> parent_edges t" by (simp add: parent_edges_def)
    have "\<forall>x \<in> insert cur visited. x = e \<or> (x, q) \<in> (parent_edges t)\<^sup>+"
      using 2(5) edge unfolding p by (auto intro: trancl_into_trancl)
    from 2(1)[OF False loop 2(3) q this] edge show ?thesis unfolding p by (rule converse_rtrancl_into_rtrancl[rotated])
  qed
qed simp

lemma detect_parent_cycle_iff:
  assumes "acyclic (parent_edges t)"
  shows "detect_parent_cycle i (Some p) t \<longleftrightarrow> (p, i) \<in> (parent_edges t)\<^sup>*"
proof (cases "i = p")
  case False
  then have "detect_parent_cycle i (Some p) t = cycle_loop t (Some p) {i}" by (simp add: detect_parent_cycle_def)
  moreover have "cycle_loop t (Some p) {i} \<Longrightarrow> (p, i) \<in> (parent_edges t)\<^sup>*"
    by (rule cycle_loop_complete[where visited = "{i}" and c = "Some p"]) (simp_all add: assms)
  moreover have "\<not> cycle_loop t (Some p) {i} \<Longrightarrow> (p, i) \<notin> (parent_edges t)\<^sup>*"
    by (rule cycle_loop_sound[where visited = "{i}" and c = "Some p"]) simp_all
  ultimately show ?thesis by blast
qed (simp add: detect_parent_cycle_def)

lemma parent_id_map:
  assumes "distinct (map dv_id t)" "\<And>d. dv_id (f d) = dv_id d"
  shows "parent_id (map (\<lambda>d. if P d then f d else d) t) i =
    (case find (\<lambda>d. dv_id d = i) t of None \<Rightarrow> None | Some d \<Rightarrow> dv_manual_parent_id (if P d then f d else d))"
  unfolding parent_id_def using assms(2) by (induction t) auto

lemma no_new_edges:
  assumes "update_devices inet P f t = Inr t'" "\<And>d. dv_id (f d) = dv_id d" "\<And>d. dv_ip_address (f d) = dv_ip_address d"
    and "distinct (map dv_id t)" "\<And>d. dv_manual_parent_id (f d) = dv_manual_parent_id d"
  shows "parent_edges t' = parent_edges t"
  using parent_id_map[of t f P] assms(2,4,5) unfolding update_devices_ok(1)[OF assms(1-3)]
  by (auto simp: parent_edges_def parent_id_def split: option.splits if_splits)

lemma one_new_edge:
  assumes "update_devices inet P f t = Inr t'" "\<And>d. dv_id (f d) = dv_id d" "\<And>d. dv_ip_address (f d) = dv_ip_address d"
    and "distinct (map dv_id t)" "\<And>d. P d \<Longrightarrow> dv_id d = i \<and> dv_manual_parent_id (f d) = Some p"
  shows "parent_edges t' \<subseteq> insert (i, p) (parent_edges t)"
proof (rule subsetI)
  fix e
  assume "e \<in> parent_edges t'"
  then obtain j q where e: "e = (j, q)" "parent_id t' j = Some q" by (auto simp: parent_edges_def)
  then obtain d where d: "find (\<lambda>d. dv_id d = j) t = Some d" "dv_manual_parent_id (if P d then f d else d) = Some q"
    using parent_id_map[of t f P j] assms(2,4) unfolding update_devices_ok(1)[OF assms(1-3)] by (auto split: option.splits)
  then have "dv_id d = j" by (auto simp: find_Some_iff)
  with d e assms(5)[of d] show "e \<in> insert (i, p) (parent_edges t)"
    by (cases "P d") (auto simp: parent_edges_def parent_id_def)
qed

lemma find_SomeD: "find P xs = Some x \<Longrightarrow> x \<in> set xs \<and> P x"
  by (induction xs) (auto split: if_splits)

lemma parent_known:
  assumes "table_ok inet t" "parent_id t i = Some p"
  shows "p \<in> ids_of t"
proof -
  obtain d where d: "d \<in> set t" "dv_manual_parent_id d = Some p"
    using assms(2) by (auto simp: parent_id_def dest: find_SomeD split: option.splits)
  then have "accepts inet (ids_of t) d" using assms(1) by (auto simp: table_ok_def list_all_iff)
  with d(2) show ?thesis by (simp add: accepts_def)
qed

lemma find_append_new: "dv_id d \<notin> ids_of t \<Longrightarrow>
  find (\<lambda>x. dv_id x = i) (t @ [d]) = (if i = dv_id d then Some d else find (\<lambda>x. dv_id x = i) t)"
  by (induction t) (auto simp: ids_of_def)

lemma insert_edges:
  assumes "insert_device inet d t = Inr t'" "table_ok inet t" "dv_manual_parent_id d \<noteq> Some (dv_id d)" "acyclic (parent_edges t)"
  shows "acyclic (parent_edges t')"
proof -
  note ins = insert_device_ok[OF assms(1)]
  have edges: "parent_edges t' \<subseteq> (case dv_manual_parent_id d of None \<Rightarrow> parent_edges t | Some p \<Rightarrow> insert (dv_id d, p) (parent_edges t))"
    using ins(2) unfolding ins(1) parent_edges_def parent_id_def by (auto simp: find_append_new split: option.splits if_splits)
  have "dv_id d \<notin> snd ` parent_edges t" using parent_known[OF assms(2)] ins(2) by (auto simp: parent_edges_def)
  then have "(p, dv_id d) \<notin> (parent_edges t)\<^sup>*" if "p \<noteq> dv_id d" for p
    using that by (metis Range.intros Range_snd rtranclE)
  then show ?thesis
    using edges assms(3,4) by (cases "dv_manual_parent_id d") (auto intro: acyclic_subset simp: acyclic_insert elim!: acyclic_subset[rotated])
qed


text \<open>
  C6. Requests over endpoints keep the constraints of the table and the tree of manual parents: from
  a table without cycles, a request that creates, changes or deletes an endpoint leads to one, unless
  it restores a deleted endpoint.
\<close>

theorem parents_stay_acyclic:
  assumes "handle_request inet req t = Inr (reply, t', effects)" "table_ok inet t" "acyclic (parent_edges t)"
    and "\<forall>i. reply \<noteq> Restored i"
    and "\<forall>new_id admin now r. req = Create new_id admin now r \<longrightarrow> rq_manual_parent_id r \<noteq> Some new_id"
  shows "acyclic (parent_edges t') \<and> table_ok inet t'"
proof -
  have uniq: "distinct (map dv_id t)" using assms(2) by (simp add: table_ok_def)
  have "acyclic (parent_edges t')"
  proof (cases req)
    case (Create new_id admin now r)
    with assms(1) have c: "create_endpoint inet new_id admin now r t = Inr (reply, t', effects)" by simp
    show ?thesis
    proof (rule create_cases[OF c])
      assume "insert_device inet (new_device new_id admin now r) t = Inr t'"
      from insert_edges[OF this assms(2) _ assms(3)] assms(5) Create show ?thesis by (simp add: new_device_def)
    qed (use assms(4) in blast)
  next
    case (Patch i now u)
    with assms(1) have chk: "patch_checks i u t = None" and "t' = t \<or> repo_update inet i now u t = Inr t'"
      by (auto simp: patch_endpoint_def dest!: map_sum_InrD split: option.splits if_splits)
    then consider "t' = t" | "repo_update inet i now u t = Inr t'" by blast
    then show ?thesis
    proof cases
      case 2
      note up = 2[unfolded repo_update_def]
      show ?thesis
      proof (cases "up_manual_parent_id u")
        case None
        have "parent_edges t' = parent_edges t" by (rule no_new_edges[OF up _ _ uniq]) (simp_all add: None)
        with assms(3) show ?thesis by simp
      next
        case (Some p)
        have "parent_edges t' \<subseteq> insert (i, p) (parent_edges t)" by (rule one_new_edge[OF up _ _ uniq]) (simp_all add: Some)
        moreover have "\<not> detect_parent_cycle i (Some p) t"
          using chk Some by (auto simp: patch_checks_def split: sum.splits option.splits if_splits)
        then have "(p, i) \<notin> (parent_edges t)\<^sup>*" by (simp add: detect_parent_cycle_iff[OF assms(3)])
        ultimately show ?thesis using assms(3) by (meson acyclic_insert acyclic_subset)
      qed
    qed (simp add: assms(3))
  next
    case (Delete i now)
    with assms(1) have "soft_delete_endpoint inet i now t = Inr t'"
      by (auto simp: delete_endpoint_def dest!: map_sum_InrD split: option.splits sum.splits)
    then have "parent_edges t' = parent_edges t"
      unfolding soft_delete_endpoint_def by (rule no_new_edges[OF _ _ _ uniq]) simp_all
    with assms(3) show ?thesis by simp
  qed
  with request_table_ok[OF assms(1,2)] show ?thesis by simp
qed


definition any_inet :: "string \<Rightarrow> bool" where "any_inet s \<longleftrightarrow> ip_address s \<noteq> Inl ValueError"

definition request_for :: "string \<Rightarrow> uuid option \<Rightarrow> string list option \<Rightarrow> device_request" where
  "request_for ip parent ips =
     \<lparr> rq_ip_address = ip, rq_hostname = ''sw'', rq_device_type = ''SWITCH'', rq_location = None, rq_description = None,
       rq_monitoring_enabled = True, rq_allow_incident_trace = True, rq_allow_topology_discovery = True, rq_enable_rca = True,
       rq_enable_scheduled_discovery = True, rq_is_l2_segment = False, rq_flow_exporter_ips = ips,
       rq_flow_interface_aliases = None, rq_manual_parent_id = parent \<rparr>"

definition device_at :: "uuid \<Rightarrow> string \<Rightarrow> uuid option \<Rightarrow> device" where
  "device_at i ip parent = new_device i None 0 (request_for ip parent None)"

definition with_parent :: "uuid \<Rightarrow> update_request" where
  "with_parent p =
     \<lparr> up_hostname = None, up_device_type = None, up_location = None, up_description = None, up_monitoring_enabled = None,
       up_allow_incident_trace = None, up_allow_topology_discovery = None, up_enable_rca = None,
       up_enable_scheduled_discovery = None, up_is_l2_segment = None, up_flow_exporter_ips = None,
       up_flow_interface_aliases = None, up_manual_parent_id = Some p, up_endpoint_status = None \<rparr>"

lemma ip_ones: "ip_address ''1.1.1.1'' = Inr (V4 0x01010101)" and ip_twos: "ip_address ''2.2.2.2'' = Inr (V4 0x02020202)"
proof -
  have d: "dec (Suc 0) = ''1''" "dec 2 = ''2''" by (simp_all add: dec_cases digit_def) (code_simp, code_simp)
  have "dotted [1,1,1,1] = ''1.1.1.1''" "dotted [2,2,2,2] = ''2.2.2.2''" by (simp_all add: dotted_def join_def d)
  then show "ip_address ''1.1.1.1'' = Inr (V4 0x01010101)" "ip_address ''2.2.2.2'' = Inr (V4 0x02020202)"
    using ip_address_dotted[of "[1,1,1,1]"] ip_address_dotted[of "[2,2,2,2]"] by (simp_all add: be_nat_def)
qed

lemma example_inets [simp]:
  "any_inet ''1.1.1.1''" "any_inet ''2.2.2.2''" "same_inet ''1.1.1.1'' ''1.1.1.1''" "same_inet ''2.2.2.2'' ''2.2.2.2''"
  "\<not> same_inet ''1.1.1.1'' ''2.2.2.2''" "\<not> same_inet ''2.2.2.2'' ''1.1.1.1''"
  by (simp_all add: any_inet_def same_inet_def ip_ones ip_twos)

lemmas example_defs = device_at_def request_for_def new_device_def accepts_def fits_column_def ids_of_def not_deleted_def
  get_by_id_def get_by_ip_def scalar_one_or_none_def

theorem parents_stay_acyclic_witness:
  "\<exists>t'. handle_request any_inet (Patch 1 9 (with_parent 2)) [device_at 1 ''1.1.1.1'' None, device_at 2 ''2.2.2.2'' None]
      = Inr (Updated, t', [Rebuild]) \<and> parent_id t' 1 = Some 2 \<and> acyclic (parent_edges t')"
proof -
  let ?t = "[device_at 1 ''1.1.1.1'' None, device_at 2 ''2.2.2.2'' None]"
  obtain t' where h: "handle_request any_inet (Patch 1 9 (with_parent 2)) ?t = Inr (Updated, t', [Rebuild])"
    and p: "parent_id t' 1 = Some 2"
    by (simp add: patch_endpoint_def patch_checks_def with_parent_def detect_parent_cycle_def parent_id_def no_updates_def
        repo_update_def update_devices_def updated_def example_defs)
  have ok: "table_ok any_inet ?t" by (simp add: table_ok_def example_defs)
  have "parent_edges ?t = {}" by (auto simp: parent_edges_def parent_id_def example_defs split: if_splits)
  then have "acyclic (parent_edges ?t)" by (simp add: acyclic_def)
  from parents_stay_acyclic[OF h ok this] h p show ?thesis by simp
qed

subsection \<open>Where cycles of parents come from\<close>

text \<open>A restored endpoint gets its parent unchecked, while the endpoints below it have kept it as
  their parent; and two requests whose checks run before either update.\<close>

lemma restore_makes_cycle:
  "let gone = (device_at 1 ''1.1.1.1'' None)\<lparr>dv_endpoint_status := ''DELETED'', dv_deleted_at := Some 5\<rparr>;
       t = [gone, device_at 2 ''2.2.2.2'' (Some 1)]
   in table_ok any_inet t \<and> acyclic (parent_edges t) \<and>
      (\<exists>t'. create_endpoint any_inet 3 None 9 (request_for ''1.1.1.1'' (Some 2) (Some [])) t
          = Inr (Restored 1, t', [Discover 1 ''1.1.1.1'']) \<and> \<not> acyclic (parent_edges t'))"
proof -
  define gone where "gone = (device_at 1 ''1.1.1.1'' None)\<lparr>dv_endpoint_status := ''DELETED'', dv_deleted_at := Some 5\<rparr>"
  let ?t = "[gone, device_at 2 ''2.2.2.2'' (Some 1)]"
  have ok: "table_ok any_inet ?t" by (simp add: table_ok_def gone_def example_defs)
  have "parent_edges ?t = {(2, 1)}" by (auto simp: parent_edges_def parent_id_def gone_def example_defs split: if_splits)
  moreover have "acyclic {(2::uuid, 1)}" by (simp add: acyclic_insert) (simp add: acyclic_def)
  ultimately have ac: "acyclic (parent_edges ?t)" by simp
  obtain t' where t': "create_endpoint any_inet 3 None 9 (request_for ''1.1.1.1'' (Some 2) (Some [])) ?t
      = Inr (Restored 1, t', [Discover 1 ''1.1.1.1''])" "parent_id t' 1 = Some 2" "parent_id t' 2 = Some 1"
    by (simp add: create_endpoint_def gone_def restore_endpoint_def update_devices_def restored_def parent_id_def example_defs)
  then have "(1, 2) \<in> parent_edges t'" "(2, 1) \<in> parent_edges t'" by (simp_all add: parent_edges_def)
  then have "(1, 1) \<in> (parent_edges t')\<^sup>+" by (meson r_into_trancl trancl_trans)
  then have "\<not> acyclic (parent_edges t')" by (auto simp: acyclic_def)
  with ok ac t'(1) show ?thesis unfolding gone_def Let_def by blast
qed

lemma concurrent_patches_make_cycle:
  "let t = [device_at 1 ''1.1.1.1'' None, device_at 2 ''2.2.2.2'' None]
   in patch_checks 1 (with_parent 2) t = None \<and> patch_checks 2 (with_parent 1) t = None \<and>
      (\<exists>t1 t2. repo_update any_inet 1 9 (with_parent 2) t = Inr t1 \<and> repo_update any_inet 2 9 (with_parent 1) t1 = Inr t2 \<and>
         \<not> acyclic (parent_edges t2))"
proof -
  let ?t = "[device_at 1 ''1.1.1.1'' None, device_at 2 ''2.2.2.2'' None]"
  have chk: "patch_checks 1 (with_parent 2) ?t = None" "patch_checks 2 (with_parent 1) ?t = None"
    by (simp_all add: patch_checks_def with_parent_def detect_parent_cycle_def parent_id_def example_defs)
  obtain t1 t2 where t: "repo_update any_inet 1 9 (with_parent 2) ?t = Inr t1" "repo_update any_inet 2 9 (with_parent 1) t1 = Inr t2"
    "parent_id t2 1 = Some 2" "parent_id t2 2 = Some 1"
    by (simp add: repo_update_def update_devices_def updated_def with_parent_def parent_id_def example_defs)
  then have "(1, 2) \<in> parent_edges t2" "(2, 1) \<in> parent_edges t2" by (simp_all add: parent_edges_def)
  then have "(1, 1) \<in> (parent_edges t2)\<^sup>+" by (meson r_into_trancl trancl_trans)
  then have "\<not> acyclic (parent_edges t2)" by (auto simp: acyclic_def)
  with chk t(1,2) show ?thesis unfolding Let_def by blast
qed


text \<open>No request but the restoration takes a parent away: one that is not given is left as it is.\<close>

lemma parent_never_cleared:
  "dv_manual_parent_id (updated now u d) = None \<Longrightarrow> dv_manual_parent_id d = None"
  by (cases "up_manual_parent_id u") simp_all

subsection \<open>One endpoint for an address\<close>

definition holders :: "string \<Rightarrow> device list \<Rightarrow> device list" where
  "holders ip t = filter (\<lambda>d. same_inet (dv_ip_address d) ip) t"

lemma same_inet_trans: "same_inet x z \<Longrightarrow> same_inet y z \<Longrightarrow> same_inet x y"
  by (auto simp: same_inet_def split: sum.splits)

lemma holders_unique:
  assumes "sorted_wrt (\<lambda>x y. \<not> same_inet (dv_ip_address x) (dv_ip_address y)) t"
  shows "holders ip t = [] \<or> (\<exists>d. holders ip t = [d])"
proof -
  have "sorted_wrt (\<lambda>x y. \<not> same_inet (dv_ip_address x) (dv_ip_address y)) (holders ip t)"
    using assms by (simp add: holders_def sorted_wrt_filter)
  moreover have "\<forall>d \<in> set (holders ip t). same_inet (dv_ip_address d) ip" by (simp add: holders_def)
  ultimately show ?thesis
    by (cases "holders ip t" rule: remdups_adj.cases) (auto dest: same_inet_trans)
qed

lemma get_by_ip_holders:
  "get_by_ip inet ip incl t =
     (if inet ip then scalar_one_or_none (filter (\<lambda>d. incl \<or> not_deleted d) (holders ip t)) else Inl Unhandled)"
  by (simp add: get_by_ip_def holders_def conj_commute)

lemma holders_map:
  "(\<And>d. dv_ip_address (f d) = dv_ip_address d) \<Longrightarrow>
   holders ip (map (\<lambda>d. if P d then f d else d) t) = map (\<lambda>d. if P d then f d else d) (holders ip t)"
  unfolding holders_def by (induction t) auto

lemma holders_mem: "holders ip t = [d] \<Longrightarrow> d \<in> set t \<and> same_inet (dv_ip_address d) ip"
proof -
  assume "holders ip t = [d]"
  then have "d \<in> set (holders ip t)" by simp
  then show ?thesis by (simp add: holders_def)
qed

lemma validated_inet:
  assumes "validate_ip_format v = Inr ip"
  shows "same_inet ip ip"
proof -
  obtain a where a: "ip_address ip = Inr a"
    using assms by (auto simp: validate_ip_format_def split: if_splits sum.splits)
  moreover from ip_address_no_slash[OF this] have "split_on CHR ''/'' ip = [ip]" by (simp add: split_on_id)
  ultimately show ?thesis by (simp add: same_inet_def)
qed



definition gone_device :: device where
  "gone_device = (device_at 1 ''1.1.1.1'' None)\<lparr>dv_endpoint_status := ''DELETED'', dv_deleted_at := Some 5\<rparr>"


subsection \<open>List and detail\<close>

lemma find_filter: "find P xs = (case filter P xs of [] \<Rightarrow> None | y # ys \<Rightarrow> Some y)"
  by (induction xs) auto

lemma filter_distinct_on: "find (\<lambda>y. key y = k) (distinct_on key xs) = find (\<lambda>y. key y = k) xs"
proof (induction xs)
  case (Cons x xs)
  have "find (\<lambda>y. key y = k) (filter (\<lambda>y. key y \<noteq> key x) ys) = find (\<lambda>y. key y = k) ys" if "key x \<noteq> k" for ys
    using that by (induction ys) auto
  with Cons show ?case by simp
qed simp

lemma find_latest: "find (\<lambda>e. ev_endpoint_id e = i) (newest_events evs) = find (\<lambda>e. ev_endpoint_id e = i) (newest_event i evs)"
proof -
  let ?xs = "sort_key (\<lambda>e. - ev_start_time e) (filter (\<lambda>e. ev_endpoint_id e = i) evs)"
  have "filter (\<lambda>e. ev_endpoint_id e = i) (sort_key ev_endpoint_id (sort_key (\<lambda>e. - ev_start_time e) evs)) = ?xs"
    by (simp add: sort_key_stable filter_sort)
  moreover have "filter (\<lambda>e. ev_endpoint_id e = i) (take 1 ?xs) = take 1 ?xs"
    by (rule filter_True) (auto dest: in_set_takeD)
  ultimately show ?thesis
    by (cases ?xs) (simp_all only: newest_events_def newest_event_def filter_distinct_on, simp_all add: find_filter)
qed

lemma joined_no_events: "joined d l (map_of ups i) = joined d l (Some (up_stats s n (filter P evs)))"
  if "ups = map (\<lambda>(i, es). (i, up_stats s n es)) (grouped_rows ev_endpoint_id (filter Q evs))"
    and "P = (\<lambda>e. ev_endpoint_id e = i \<and> Q e)"
proof -
  have "map_of ups i = (if i \<in> ev_endpoint_id ` set (filter Q evs)
      then Some (up_stats s n (filter (\<lambda>e. ev_endpoint_id e = i) (filter Q evs))) else None)"
    unfolding that(1) grouped_rows_def by (auto simp: map_of_map_restrict restrict_map_def o_def map_of_eq_None_iff image_iff)
  moreover have "filter P evs = filter (\<lambda>e. ev_endpoint_id e = i) (filter Q evs)" by (simp add: that(2) conj_commute)
  moreover have "filter (\<lambda>e. ev_endpoint_id e = i) (filter Q evs) = []" if "i \<notin> ev_endpoint_id ` set (filter Q evs)"
    using that by (auto simp: filter_empty_conv)
  ultimately show ?thesis by (auto simp: joined_def up_stats_def sum_of_def whole_seconds_def)
qed


lemma list_rows:
  "list_with_stats None since now_utc None None t evs =
     map (\<lambda>d. joined d (find (\<lambda>e. ev_endpoint_id e = dv_id d) (newest_event (dv_id d) evs))
       (Some (up_stats since now_utc (filter (\<lambda>e. ev_endpoint_id e = dv_id d \<and> up_within since now_utc e) evs))))
     (sort_key dv_hostname (filter not_deleted t))"
  unfolding list_with_stats_def Let_def option.case find_latest by (simp add: joined_no_events[OF refl refl])

text \<open>
  C28. The list of endpoints and the detail of one agree: the detail exists just if the endpoint is in the unfiltered
  list, and shows the same state, the same health and the same availability, though the two queries find the latest
  event and the time up in different ways.
\<close>

theorem detail_matches_list:
  assumes "distinct (map dv_id t)"
  shows "\<exists>items meta. list_endpoints offset now_utc None None None t evs gaps = Inr (items, meta) \<and> pm_total meta = length items \<and>
    (\<forall>x. endpoint_detail offset now_utc i t evs gaps = Inr x \<longleftrightarrow> x \<in> set items \<and> dv_id (ds_device (fst x)) = i)"
proof -
  let ?since = "now_utc - sec 86400"
  define row where "row d = joined d (find (\<lambda>e. ev_endpoint_id e = dv_id d) (newest_event (dv_id d) evs))
       (Some (up_stats ?since now_utc (filter (\<lambda>e. ev_endpoint_id e = dv_id d \<and> up_within ?since now_utc e) evs)))" for d
  define item where "item d = (row d, uptime_24h offset ?since now_utc gaps (row d))" for d
  have dev: "dv_id (ds_device (fst (item d))) = dv_id d" for d by (simp add: item_def row_def joined_def)
  obtain meta where list: "list_endpoints offset now_utc None None None t evs gaps = Inr (map item (sort_key dv_hostname (filter not_deleted t)), meta)"
    and total: "pm_total meta = length (map item (sort_key dv_hostname (filter not_deleted t)))"
  proof -
    have "map (\<lambda>row. (row, uptime_24h offset ?since now_utc gaps row)) (list_with_stats None ?since now_utc None None t evs) =
        map item (sort_key dv_hostname (filter not_deleted t))"
      unfolding list_rows row_def[symmetric] by (simp add: o_def item_def)
    with arg_cong[OF this, of length] that show thesis by (auto simp: list_endpoints_def Let_def)
  qed
  have detail: "endpoint_detail offset now_utc i t evs gaps =
      (case filter (\<lambda>d. dv_id d = i \<and> not_deleted d) t of [] \<Rightarrow> Inl Not_found | d # _ \<Rightarrow> Inr (item d))"
  proof (cases "filter (\<lambda>d. dv_id d = i \<and> not_deleted d) t")
    case (Cons d ds)
    then have "d \<in> set (filter (\<lambda>d. dv_id d = i \<and> not_deleted d) t)" by simp
    then have "dv_id d = i" by simp
    with Cons show ?thesis by (simp add: endpoint_detail_def get_detail_with_stats_def Let_def item_def row_def)
  qed (simp add: endpoint_detail_def get_detail_with_stats_def)
  have one: "d = e" if "d \<in> set t" "e \<in> set t" "dv_id d = dv_id e" for d e
    using that assms by (metis distinct_map inj_onD)
  have "(endpoint_detail offset now_utc i t evs gaps = Inr x) =
      (x \<in> set (map item (sort_key dv_hostname (filter not_deleted t))) \<and> dv_id (ds_device (fst x)) = i)" for x
  proof (cases "filter (\<lambda>d. dv_id d = i \<and> not_deleted d) t")
    case Nil
    then show ?thesis using dev by (auto simp: detail filter_empty_conv)
  next
    case (Cons d ds)
    then have "d \<in> set (filter (\<lambda>d. dv_id d = i \<and> not_deleted d) t)" by simp
    then have d: "d \<in> set t" "dv_id d = i" "not_deleted d" by auto
    have "(endpoint_detail offset now_utc i t evs gaps = Inr x) = (x = item d)" unfolding detail Cons by auto
    moreover have "x = item d" if "x \<in> set (map item (sort_key dv_hostname (filter not_deleted t)))" "dv_id (ds_device (fst x)) = i"
    proof -
      from that(1) obtain e where e: "e \<in> set t" "x = item e" by auto
      with that(2) dev d(2) have "dv_id d = dv_id e" by simp
      with e one[OF d(1) e(1)] show ?thesis by simp
    qed
    moreover have "item d \<in> set (map item (sort_key dv_hostname (filter not_deleted t)))" using d by simp
    ultimately show ?thesis using dev[of d] d(2) by blast
  qed
  with list total show ?thesis by blast
qed


definition up_event :: "uuid \<Rightarrow> instant \<Rightarrow> event" where
  "up_event i t = \<lparr> ev_id = 7, ev_endpoint_id = i, ev_operational_state = ''UP'', ev_detailed_state = ''UP'', ev_success_count = 10,
     ev_failed_count = 0, ev_health_score = 100, ev_avg_rtt_ms = None, ev_is_split_event = False, ev_start_time = t,
     ev_end_time = None, ev_duration_seconds = 0, ev_monitoring_cycle_count = 1 \<rparr>"

theorem detail_matches_list_witness:
  "\<exists>x items meta. endpoint_detail 0 (sec 90000) 1 [device_at 1 ''1.1.1.1'' None] [up_event 1 (sec 80000)] None = Inr x \<and>
     ds_uptime_seconds (fst x) = 10000 \<and>
     list_endpoints 0 (sec 90000) None None None [device_at 1 ''1.1.1.1'' None] [up_event 1 (sec 80000)] None = Inr (items, meta) \<and>
     x \<in> set items"
proof -
  let ?t = "[device_at 1 ''1.1.1.1'' None]" and ?e = "[up_event 1 (sec 80000)]"
  have d: "distinct (map dv_id ?t)" by simp
  have s: "whole_seconds 10000000000 = 10000" using whole_seconds_sec[of 10000] by simp
  obtain x where x: "endpoint_detail 0 (sec 90000) 1 ?t ?e None = Inr x" "ds_uptime_seconds (fst x) = 10000"
    by (simp add: endpoint_detail_def get_detail_with_stats_def newest_event_def up_stats_def up_within_def up_event_def
        clamped_duration_def joined_def example_defs s)
  with detail_matches_list[OF d, of 0 "sec 90000" ?e None 1] show ?thesis by blast
qed

subsection \<open>Pages\<close>

lemma pages_concat:
  \<comment> \<open>the pages one after the other are the list\<close>
  assumes "length (list_with_stats st since now_utc None None t evs) \<le> k * n"
  shows "concat (map (\<lambda>p. list_with_stats st since now_utc (Some p) (Some n) t evs) [1..<k + 1]) =
    list_with_stats st since now_utc None None t evs"
proof -
  define rows where "rows = list_with_stats st since now_utc None None t evs"
  have page: "list_with_stats st since now_utc (Some p) (Some n) t evs = take n (drop ((p - 1) * n) rows)" for p
    by (simp add: rows_def list_with_stats_def Let_def)
  have "concat (map (\<lambda>p. take n (drop ((p - 1) * n) rows)) [1..<k + 1]) = take (k * n) rows" for k
  proof (induction k)
    case (Suc k)
    have "[1..<Suc k + 1] = [1..<k + 1] @ [k + 1]" by simp
    moreover have "take (Suc k * n) rows = take (k * n) rows @ take n (drop (k * n) rows)"
      using take_add[of "k * n" n rows] by (simp add: add.commute)
    ultimately show ?case using Suc by (simp del: upt_Suc mult_Suc)
  qed simp
  with assms show ?thesis by (simp add: page rows_def[symmetric])
qed

text \<open>The description of the pages says nothing about them, and two of the filters match nothing.\<close>

lemma pages_not_described:
  "list_endpoints offset now_utc st page page_size t evs gaps = Inr (items, meta) \<Longrightarrow>
   pm_page meta = 1 \<and> pm_total_pages meta = 1 \<and> pm_total meta = length items"
  by (auto simp: list_endpoints_def Let_def split: if_splits)

lemma status_filters_empty:
  assumes "table_ok inet t" "upper (strip s) \<in> {''MONITORED'', ''UNMONITORED''}"
    and "list_endpoints offset now_utc (Some s) page page_size t evs gaps = Inr (items, meta)"
  shows "items = []"
proof -
  have "filter (\<lambda>d. not_deleted d \<and> dv_endpoint_status d = upper (strip s)) t = []"
    using assms(1,2) by (auto simp: filter_empty_conv table_ok_def list_all_iff accepts_def)
  then have "list_with_stats (Some (upper (strip s))) since now_utc p n t evs = []" for since p n
    by (simp add: list_with_stats_def Let_def split: option.splits)
  with assms(3) show ?thesis by (auto simp: list_endpoints_def Let_def split: if_splits)
qed


subsection \<open>The engine follows\<close>

definition monitored :: "device \<Rightarrow> bool" where
  "monitored d \<longleftrightarrow> dv_endpoint_status d = ''ACTIVE'' \<and> dv_monitoring_enabled d"

lemma selected_rows: "i \<in> fst ` set (selected (map (engine_row show_time) t)) \<longleftrightarrow> (\<exists>d \<in> set t. dv_id d = i \<and> monitored d)"
  by (auto simp: selected_def engine_row_def monitored_def image_iff)

lemma orm_parents: "\<forall>row \<in> set (map (engine_row show_time) t). \<forall>s. snd row ''manual_parent_id'' \<noteq> Some (PStr s)"
  by (auto simp: engine_row_def split: option.splits)

lemma workers_follow_table:
  assumes "1 \<le> n" and "\<And>w. registry_step\<^sup>*\<^sup>* EndpointRegistry (e_registry (g w))"
  shows "{w. 0 \<le> w \<and> w < n \<and> get (r_running_tasks (e_registry (sync_round w n (map (engine_row show_time) t) (g w)))) i \<noteq> None} =
    (if \<exists>d \<in> set t. dv_id d = i \<and> monitored d then {uint (drop_bit 96 i) mod n} else {})"
proof -
  have "get (r_running_tasks (e_registry (sync_round w n (map (engine_row show_time) t) (g w)))) i \<noteq> None \<longleftrightarrow>
      (\<exists>d \<in> set t. dv_id d = i \<and> monitored d) \<and> uint (drop_bit 96 i) mod n = w" if "0 \<le> w" "w < n" for w
    unfolding selected_rows[where show_time = show_time, symmetric] by (rule worker_runs[OF assms(1) that assms(2) orm_parents])
  then have "{w. 0 \<le> w \<and> w < n \<and> get (r_running_tasks (e_registry (sync_round w n (map (engine_row show_time) t) (g w)))) i \<noteq> None} =
      {w. 0 \<le> w \<and> w < n \<and> (\<exists>d \<in> set t. dv_id d = i \<and> monitored d) \<and> uint (drop_bit 96 i) mod n = w}" by blast
  moreover have "0 \<le> uint (drop_bit 96 i) mod n" "uint (drop_bit 96 i) mod n < n"
    using assms(1) by (simp_all add: pos_mod_bound)
  ultimately show ?thesis by (simp only:) auto
qed

lemma deleted_not_monitored:
  assumes "delete_endpoint inet i now t = Inr (reply, t', effects)"
  shows "\<not> (\<exists>d \<in> set t'. dv_id d = i \<and> monitored d)"
proof
  let ?gone = "\<lambda>d. d\<lparr> dv_endpoint_status := ''DELETED'', dv_deleted_at := Some now, dv_updated_at := now \<rparr>"
  from assms have "soft_delete_endpoint inet i now t = Inr t'"
    by (auto simp: delete_endpoint_def dest!: map_sum_InrD split: option.splits sum.splits)
  then have t': "t' = map (\<lambda>d. if dv_id d = i \<and> not_deleted d then ?gone d else d) t"
    unfolding soft_delete_endpoint_def by (rule update_devices_ok(1)) simp_all
  assume "\<exists>d \<in> set t'. dv_id d = i \<and> monitored d"
  then obtain e where e: "dv_id (if dv_id e = i \<and> not_deleted e then ?gone e else e) = i"
    "monitored (if dv_id e = i \<and> not_deleted e then ?gone e else e)" unfolding t' set_map by blast
  show False
  proof (cases "dv_id e = i \<and> not_deleted e")
    case True
    with e(2) show False by (simp add: monitored_def)
  next
    case False
    with e have "dv_id e = i" "monitored e" by (simp_all only: if_False)
    with False show False by (simp add: monitored_def not_deleted_def)
  qed
qed

lemma patched_monitored:
  assumes "patch_endpoint inet i now u t = Inr (reply, t', effects)"
    and "up_monitoring_enabled u = Some False \<or> up_endpoint_status u = Some ''DISABLED''"
  shows "\<not> (\<exists>d \<in> set t'. dv_id d = i \<and> monitored d)"
proof -
  have "\<not> no_updates u" using assms(2) by (auto simp: no_updates_def)
  with assms(1) have "repo_update inet i now u t = Inr t'"
    by (auto simp: patch_endpoint_def dest!: map_sum_InrD split: option.splits)
  then have t': "t' = map (\<lambda>d. if dv_id d = i \<and> not_deleted d then updated now u d else d) t"
    by (simp add: repo_update_def update_devices_def split: if_splits)
  have "\<not> monitored (updated now u d)" for d using assms(2) by (auto simp: monitored_def updated_def)
  then show ?thesis by (auto simp: t' monitored_def not_deleted_def)
qed

lemma created_monitored:
  assumes "create_endpoint inet new_id admin now r t = Inr (reply, t', effects)" "reply \<in> {Created i, Restored i}"
  shows "(\<exists>d \<in> set t'. dv_id d = i \<and> monitored d) = rq_monitoring_enabled r"
proof (rule create_cases[OF assms(1)])
  fix j
  assume j: "reply = Restored j" "restore_endpoint inet j now r t = Inr t'"
    "\<exists>d \<in> set t. dv_id d = j \<and> same_inet (dv_ip_address d) (rq_ip_address r) \<and> \<not> not_deleted d"
  then have t': "set t' = (\<lambda>d. if dv_id d = i then restored now r d else d) ` set t" and i: "i = j"
    using assms(2) by (auto simp: restore_endpoint_def update_devices_def split: if_splits)
  have m: "monitored (restored now r d) = rq_monitoring_enabled r" for d by (simp add: monitored_def restored_def)
  obtain d where d: "d \<in> set t" "dv_id d = i" using j(3) i by blast
  then have "restored now r d \<in> set t'" unfolding t' by (intro image_eqI[of _ _ d]) simp_all
  moreover have "monitored e = rq_monitoring_enabled r" if "e \<in> set t'" "dv_id e = i" for e
    using that m unfolding t' by (auto split: if_splits)
  ultimately show ?thesis using d(2) by (metis updated_simps(3))
next
  assume c: "reply = Created new_id" "insert_device inet (new_device new_id admin now r) t = Inr t'"
  from insert_device_ok(1,2)[OF c(2)] c(1) assms(2) show ?thesis
    by (auto simp: monitored_def new_device_def ids_of_def)
qed



end
