(* ===== verification/App_Settings.thy ===== *)
theory App_Settings
  imports Exporters Login Session_Migration
begin

text \<open>
  The settings of the application (\<open>routers/settings.py\<close>): the reading of the table, its change with
  the rules for flow ingestion, the check that Redis is ready for it, the organization's branding, and
  the choice of the storage driver (\<open>StorageDriverManager.initialize\<close> of \<open>services/driver_manager.py\<close>) that a
  change of the mode leads to. The table is a dictionary by key. The system's commands, the files of the
  kernel, the sockets and Redis are the environment.
\<close>

subsection \<open>Reading\<close>

record app_config =
  ac_redis_enabled :: bool
  ac_redis_performance_mode :: bool
  ac_flow_enabled :: bool
  ac_netflow_port :: int
  ac_ipfix_port :: int
  ac_sampling_multiplier :: int

record settings_payload =
  st_performance_mode :: bool
  st_l2_auto_bypass :: bool
  st_session_timeout :: int
  st_lockout_threshold :: int
  st_alerting_enabled :: bool
  st_flow_ingestion_enabled :: bool
  st_flow_netflow_port :: int
  st_flow_ipfix_port :: int
  st_flow_sampling_multiplier :: int

type_synonym setting_table = "(string, string) dict"

definition truthy_text :: "string \<Rightarrow> bool" where
  "truthy_text s \<longleftrightarrow> lower (strip s) \<in> {''true'', ''1'', ''yes''}"

definition performance_text :: "string \<Rightarrow> bool" where
  "performance_text s \<longleftrightarrow> lower (strip s) \<in> {''true'', ''1'', ''redis'', ''yes''}"

definition read_flag :: "setting_table \<Rightarrow> string \<Rightarrow> bool \<Rightarrow> bool" where
  "read_flag kv k dflt = (case get kv k of None \<Rightarrow> dflt | Some s \<Rightarrow> truthy_text s)"

definition read_int :: "setting_table \<Rightarrow> string \<Rightarrow> int \<Rightarrow> int \<Rightarrow> int" where
  \<comment> \<open>the value without the key, and that of a text which is no integer\<close>
  "read_int kv k absent bad =
     (case get kv k of None \<Rightarrow> absent | Some s \<Rightarrow> (case py_int s of Inl _ \<Rightarrow> bad | Inr n \<Rightarrow> n))"

definition read_settings_dict :: "app_config \<Rightarrow> setting_table \<Rightarrow> settings_payload" where
  "read_settings_dict cfg kv =
     \<lparr> st_performance_mode =
         (case get kv ''performance_mode'' of None \<Rightarrow> ac_redis_performance_mode cfg | Some s \<Rightarrow> performance_text s),
       st_l2_auto_bypass = read_flag kv ''l2_auto_bypass'' True,
       st_session_timeout = read_int kv ''session_timeout'' 120 120,
       st_lockout_threshold = read_int kv ''lockout_threshold'' 5 5,
       st_alerting_enabled = read_flag kv ''alerting_enabled'' True,
       st_flow_ingestion_enabled = read_flag kv ''flow_ingestion_enabled'' (ac_flow_enabled cfg),
       st_flow_netflow_port = read_int kv ''flow_netflow_port'' (ac_netflow_port cfg) 2055,
       st_flow_ipfix_port = read_int kv ''flow_ipfix_port'' (ac_ipfix_port cfg) 4739,
       st_flow_sampling_multiplier = read_int kv ''flow_sampling_multiplier'' (ac_sampling_multiplier cfg) 1 \<rparr>"

subsection \<open>The check for flow ingestion\<close>

record redis_server =
  rs_version :: string
  rs_xadd_ok :: bool

record preflight =
  pf_redis_connected :: bool
  pf_redis_version :: "string option"
  pf_redis_version_supported :: bool
  pf_stream_write_success :: bool
  pf_rmem_max :: "int option"
  pf_rmem_max_supported :: bool
  pf_udp_ports_available :: bool
  pf_port_conflicts :: "int list"
  pf_ready :: bool

definition major_version :: "string \<Rightarrow> int" where
  "major_version v = (case py_int (hd (split_on CHR ''.'' v)) of Inl _ \<Rightarrow> 0 | Inr n \<Rightarrow> n)"

definition run_redis_flow_check ::
  "app_config \<Rightarrow> string option \<Rightarrow> (int \<Rightarrow> bool) \<Rightarrow> redis_server option \<Rightarrow> preflight" where
  \<comment> \<open>the text of \<open>rmem_max\<close>, if there is such a file; the ports that can be bound; the server, if it answers\<close>
  "run_redis_flow_check cfg rmem_file binds server =
     (let rmem_val = (case rmem_file of None \<Rightarrow> None | Some s \<Rightarrow> (case py_int (strip s) of Inl _ \<Rightarrow> None | Inr n \<Rightarrow> Some n));
          rmem_ok = (case rmem_val of None \<Rightarrow> True | Some n \<Rightarrow> 2097152 \<le> n);
          port_conflicts = filter (\<lambda>p. \<not> binds p) [ac_netflow_port cfg, ac_ipfix_port cfg];
          udp_ports_ok = (port_conflicts = [])
      in case server of
           None \<Rightarrow> \<lparr> pf_redis_connected = False, pf_redis_version = None, pf_redis_version_supported = False,
                     pf_stream_write_success = False, pf_rmem_max = rmem_val, pf_rmem_max_supported = rmem_ok,
                     pf_udp_ports_available = udp_ports_ok, pf_port_conflicts = port_conflicts, pf_ready = False \<rparr>
         | Some srv \<Rightarrow>
             (let version_supported = 6 \<le> major_version (rs_version srv)
              in \<lparr> pf_redis_connected = True, pf_redis_version = Some (rs_version srv),
                   pf_redis_version_supported = version_supported, pf_stream_write_success = rs_xadd_ok srv,
                   pf_rmem_max = rmem_val, pf_rmem_max_supported = rmem_ok, pf_udp_ports_available = udp_ports_ok,
                   pf_port_conflicts = port_conflicts,
                   pf_ready = (version_supported \<and> rs_xadd_ok srv \<and> udp_ports_ok) \<rparr>))"

subsection \<open>The service of the collector\<close>

fun first_success :: "(string list \<Rightarrow> int result) \<Rightarrow> string list list \<Rightarrow> string list option" where
  \<comment> \<open>the first command whose return code is zero\<close>
  "first_success run [] = None"
| "first_success run (cmd # cmds) = (if run cmd = Inr 0 then Some cmd else first_success run cmds)"

definition systemctl :: "string \<Rightarrow> string list list" where
  "systemctl action =
     [[''sudo'', ''-n'', ''systemctl'', action, ''netmon-flowd''], [''systemctl'', action, ''netmon-flowd'']]"

definition manage_flow_service ::
  "bool \<Rightarrow> (string list \<Rightarrow> int result) \<Rightarrow> bool \<Rightarrow> bool \<times> string list list" where
  \<comment> \<open>whether it succeeds, and the commands that do; the text for the log is left out\<close>
  "manage_flow_service installed run enable =
     (if \<not> installed then (False, [])
      else (case first_success run (systemctl (if enable then ''restart'' else ''stop'')) of
              None \<Rightarrow> (False, [])
            | Some cmd \<Rightarrow>
                (True, cmd # (case first_success run (systemctl (if enable then ''enable'' else ''disable'')) of
                                None \<Rightarrow> [] | Some c \<Rightarrow> [c]))))"

subsection \<open>Writing\<close>

record settings_update =
  su_performance_mode :: "bool option"
  su_l2_auto_bypass :: "bool option"
  su_session_timeout :: "int option"
  su_lockout_threshold :: "int option"
  su_alerting_enabled :: "bool option"
  su_flow_ingestion_enabled :: "bool option"
  su_flowIngestionEnabled :: "bool option"
  su_flow_netflow_port :: "int option"
  su_flowNetflowPort :: "int option"
  su_flow_ipfix_port :: "int option"
  su_flowIpfixPort :: "int option"
  su_flow_sampling_multiplier :: "int option"
  su_flowSamplingMultiplier :: "int option"

definition in_range :: "int \<Rightarrow> int \<Rightarrow> int option \<Rightarrow> bool" where
  "in_range lo hi x \<longleftrightarrow> (case x of None \<Rightarrow> True | Some n \<Rightarrow> lo \<le> n \<and> n \<le> hi)"

definition settings_update_ok :: "settings_update \<Rightarrow> bool" where
  \<comment> \<open>the constraints of the fields\<close>
  "settings_update_ok p \<longleftrightarrow>
     in_range 1 1440 (su_session_timeout p) \<and> in_range 1 100 (su_lockout_threshold p) \<and>
     in_range 1 65535 (su_flow_netflow_port p) \<and> in_range 1 65535 (su_flowNetflowPort p) \<and>
     in_range 1 65535 (su_flow_ipfix_port p) \<and> in_range 1 65535 (su_flowIpfixPort p) \<and>
     (case su_flow_sampling_multiplier p of None \<Rightarrow> True | Some n \<Rightarrow> 1 \<le> n) \<and>
     (case su_flowSamplingMultiplier p of None \<Rightarrow> True | Some n \<Rightarrow> 1 \<le> n)"

fun either_name :: "'a option \<Rightarrow> 'a option \<Rightarrow> 'a option" where
  "either_name None y = y"
| "either_name (Some x) y = Some x"

definition upsert_setting :: "string \<Rightarrow> string \<Rightarrow> setting_table \<Rightarrow> setting_table" where
  "upsert_setting k v kv = put k v kv"

definition upsert_flag :: "string \<Rightarrow> bool option \<Rightarrow> setting_table \<Rightarrow> setting_table" where
  "upsert_flag k x kv = (case x of None \<Rightarrow> kv | Some b \<Rightarrow> upsert_setting k (if b then ''true'' else ''false'') kv)"

definition upsert_int :: "string \<Rightarrow> int option \<Rightarrow> setting_table \<Rightarrow> setting_table" where
  "upsert_int k x kv = (case x of None \<Rightarrow> kv | Some n \<Rightarrow> upsert_setting k (int_str n) kv)"

datatype settings_effect = Manage_flow_service bool | Reinitialize_driver

definition write_settings :: "settings_update \<Rightarrow> setting_table \<Rightarrow> setting_table" where
  "write_settings p kv =
     (let kv = upsert_flag ''performance_mode'' (su_performance_mode p) kv;
          kv = upsert_flag ''l2_auto_bypass'' (su_l2_auto_bypass p) kv;
          kv = upsert_int ''session_timeout'' (su_session_timeout p) kv;
          kv = upsert_int ''lockout_threshold'' (su_lockout_threshold p) kv;
          kv = upsert_flag ''alerting_enabled'' (su_alerting_enabled p) kv;
          kv = upsert_flag ''flow_ingestion_enabled'' (either_name (su_flow_ingestion_enabled p) (su_flowIngestionEnabled p)) kv;
          kv = upsert_int ''flow_netflow_port'' (either_name (su_flow_netflow_port p) (su_flowNetflowPort p)) kv;
          kv = upsert_int ''flow_ipfix_port'' (either_name (su_flow_ipfix_port p) (su_flowIpfixPort p)) kv
      in upsert_int ''flow_sampling_multiplier'' (either_name (su_flow_sampling_multiplier p) (su_flowSamplingMultiplier p)) kv)"

definition update_settings ::
  "app_config \<Rightarrow> bool \<Rightarrow> settings_update \<Rightarrow> setting_table \<Rightarrow>
   request_error + setting_table \<times> settings_payload \<times> settings_effect list" where
  \<comment> \<open>the boolean: the check for flow ingestion would succeed\<close>
  "update_settings cfg ready p kv =
     (let flow = either_name (su_flow_ingestion_enabled p) (su_flowIngestionEnabled p);
          current = read_settings_dict cfg kv;
          effective_perf_mode = (case su_performance_mode p of Some b \<Rightarrow> b | None \<Rightarrow> st_performance_mode current);
          effective_flow_enabled = (case flow of Some b \<Rightarrow> b | None \<Rightarrow> st_flow_ingestion_enabled current)
      in if st_flow_ingestion_enabled current \<and> su_performance_mode p = Some False \<and> flow \<noteq> Some False then Inl Bad_request
         else if effective_flow_enabled \<and> \<not> effective_perf_mode then Inl Bad_request
         else if effective_flow_enabled \<and> \<not> ready then Inl Bad_request
         else (let kv = write_settings p kv
               in Inr (kv, read_settings_dict cfg kv,
                       (case flow of None \<Rightarrow> [] | Some b \<Rightarrow> [Manage_flow_service b]) @
                       (if su_performance_mode p \<noteq> None then [Reinitialize_driver] else []))))"

subsection \<open>Branding\<close>

record branding =
  br_company_name :: string
  br_department :: string
  br_logo_data :: string
  br_report_footer :: string

record branding_update =
  bu_company_name :: "string option"
  bu_department :: "string option"
  bu_logo_data :: "string option"
  bu_report_footer :: "string option"

definition text_setting :: "setting_table \<Rightarrow> string \<Rightarrow> string" where
  "text_setting kv k = (case get kv k of None \<Rightarrow> [] | Some s \<Rightarrow> s)"

definition get_organization_settings :: "setting_table \<Rightarrow> branding" where
  "get_organization_settings kv =
     \<lparr> br_company_name = text_setting kv ''org:company_name'', br_department = text_setting kv ''org:department'',
       br_logo_data = text_setting kv ''org:logo_data'', br_report_footer = text_setting kv ''org:report_footer'' \<rparr>"

definition upsert_text :: "string \<Rightarrow> string option \<Rightarrow> setting_table \<Rightarrow> setting_table" where
  "upsert_text k x kv = (case x of None \<Rightarrow> kv | Some s \<Rightarrow> upsert_setting k (strip s) kv)"

definition update_organization_settings ::
  "branding_update \<Rightarrow> setting_table \<Rightarrow> request_error + setting_table \<times> branding" where
  "update_organization_settings p kv =
     (let bad_logo = (case bu_logo_data p of
                        None \<Rightarrow> False
                      | Some l \<Rightarrow> strip l \<noteq> [] \<and> (take 11 (strip l) \<noteq> ''data:image/'' \<or> 2000000 < length (strip l)));
          kv = upsert_text ''org:logo_data'' (bu_logo_data p) kv;
          kv = upsert_text ''org:company_name'' (bu_company_name p) kv;
          kv = upsert_text ''org:department'' (bu_department p) kv;
          kv = upsert_text ''org:report_footer'' (bu_report_footer p) kv
      in if bad_logo then Inl Bad_request else Inr (kv, get_organization_settings kv))"

subsection \<open>The storage driver\<close>

definition redis_wanted :: "app_config \<Rightarrow> setting_table option \<Rightarrow> bool" where
  \<comment> \<open>no table: its query failed\<close>
  "redis_wanted cfg kv =
     (case (case kv of None \<Rightarrow> None | Some kv \<Rightarrow> get kv ''performance_mode'') of
        Some s \<Rightarrow> performance_text s
      | None \<Rightarrow> ac_redis_enabled cfg \<and> ac_redis_performance_mode cfg)"

definition initialize_drivers ::
  "app_config \<Rightarrow> setting_table option \<Rightarrow> bool \<Rightarrow> uuid set \<Rightarrow> (nat \<Rightarrow> uuid) \<Rightarrow> instant \<Rightarrow> string list \<Rightarrow> auth_state \<Rightarrow> auth_state" where
  \<comment> \<open>the boolean: Redis answers; the list: the keys of sessions that it holds. A process starts with the driver of Postgres.\<close>
  "initialize_drivers cfg kv ping users new_id now ks g =
     (if redis_wanted cfg kv \<and> ping
      then g\<lparr>as_driver := Redis_driver,
             as_redis := (if as_driver g = Postgres_driver then fst (migrate_sessions_pg_to_redis now (as_table g) (as_redis g))
                          else as_redis g)\<rparr>
      else g\<lparr>as_driver := Postgres_driver,
             as_table := (if as_driver g = Redis_driver then fst (migrate_sessions_redis_to_pg users new_id now ks (as_redis g) (as_table g))
                          else as_table g)\<rparr>)"


subsection \<open>A change takes effect\<close>

lemma flag_texts [simp]: "truthy_text ''true''" "\<not> truthy_text ''false''" "performance_text ''true''" "\<not> performance_text ''false''"
proof -
  have l: "lower (strip ''true'') = ''true''" "lower (strip ''false'') = ''false''" by code_simp+
  show "truthy_text ''true''" "\<not> truthy_text ''false''" "performance_text ''true''" "\<not> performance_text ''false''"
    by (simp_all add: truthy_text_def performance_text_def l)
qed

lemma py_int_str [simp]: "0 \<le> n \<Longrightarrow> py_int (int_str n) = Inr n"
  by (simp add: int_str_def)

lemma get_upsert [simp]:
  "get (upsert_flag k x kv) k' = (if k' = k \<and> x \<noteq> None then Some (if x = Some True then ''true'' else ''false'') else get kv k')"
  "get (upsert_int k y kv) k' = (if k' = k then (case y of None \<Rightarrow> get kv k | Some n \<Rightarrow> Some (int_str n)) else get kv k')"
  "get (upsert_text k z kv) k' = (if k' = k then (case z of None \<Rightarrow> get kv k | Some t \<Rightarrow> Some (strip t)) else get kv k')"
  by (auto simp: upsert_flag_def upsert_int_def upsert_text_def upsert_setting_def split: option.splits)

definition applied :: "settings_update \<Rightarrow> settings_payload \<Rightarrow> settings_payload" where
  \<comment> \<open>what the request asks for over what was\<close>
  "applied p s =
     (let or_old = (\<lambda>x old. case x of None \<Rightarrow> old | Some b \<Rightarrow> b); or_old_int = (\<lambda>x old. case x of None \<Rightarrow> old | Some n \<Rightarrow> n)
      in \<lparr> st_performance_mode = or_old (su_performance_mode p) (st_performance_mode s),
           st_l2_auto_bypass = or_old (su_l2_auto_bypass p) (st_l2_auto_bypass s),
           st_session_timeout = or_old_int (su_session_timeout p) (st_session_timeout s),
           st_lockout_threshold = or_old_int (su_lockout_threshold p) (st_lockout_threshold s),
           st_alerting_enabled = or_old (su_alerting_enabled p) (st_alerting_enabled s),
           st_flow_ingestion_enabled =
             or_old (either_name (su_flow_ingestion_enabled p) (su_flowIngestionEnabled p)) (st_flow_ingestion_enabled s),
           st_flow_netflow_port = or_old_int (either_name (su_flow_netflow_port p) (su_flowNetflowPort p)) (st_flow_netflow_port s),
           st_flow_ipfix_port = or_old_int (either_name (su_flow_ipfix_port p) (su_flowIpfixPort p)) (st_flow_ipfix_port s),
           st_flow_sampling_multiplier =
             or_old_int (either_name (su_flow_sampling_multiplier p) (su_flowSamplingMultiplier p)) (st_flow_sampling_multiplier s) \<rparr>)"

lemma read_upsert:
  "get kv' k = get (upsert_flag k x kv) k \<Longrightarrow> read_flag kv' k d = (case x of None \<Rightarrow> read_flag kv k d | Some b \<Rightarrow> b)"
  "get kv' k = get (upsert_int k y kv) k \<Longrightarrow> \<forall>n. y = Some n \<longrightarrow> 0 \<le> n \<Longrightarrow>
    read_int kv' k a b = (case y of None \<Rightarrow> read_int kv k a b | Some n \<Rightarrow> n)"
  by (auto simp: read_flag_def read_int_def split: option.splits)

lemma get_written:
  "get (write_settings p kv) ''performance_mode'' = get (upsert_flag ''performance_mode'' (su_performance_mode p) kv) ''performance_mode''"
  "get (write_settings p kv) ''l2_auto_bypass'' = get (upsert_flag ''l2_auto_bypass'' (su_l2_auto_bypass p) kv) ''l2_auto_bypass''"
  "get (write_settings p kv) ''session_timeout'' = get (upsert_int ''session_timeout'' (su_session_timeout p) kv) ''session_timeout''"
  "get (write_settings p kv) ''lockout_threshold'' = get (upsert_int ''lockout_threshold'' (su_lockout_threshold p) kv) ''lockout_threshold''"
  "get (write_settings p kv) ''alerting_enabled'' = get (upsert_flag ''alerting_enabled'' (su_alerting_enabled p) kv) ''alerting_enabled''"
  "get (write_settings p kv) ''flow_ingestion_enabled'' =
     get (upsert_flag ''flow_ingestion_enabled'' (either_name (su_flow_ingestion_enabled p) (su_flowIngestionEnabled p)) kv) ''flow_ingestion_enabled''"
  "get (write_settings p kv) ''flow_netflow_port'' =
     get (upsert_int ''flow_netflow_port'' (either_name (su_flow_netflow_port p) (su_flowNetflowPort p)) kv) ''flow_netflow_port''"
  "get (write_settings p kv) ''flow_ipfix_port'' =
     get (upsert_int ''flow_ipfix_port'' (either_name (su_flow_ipfix_port p) (su_flowIpfixPort p)) kv) ''flow_ipfix_port''"
  "get (write_settings p kv) ''flow_sampling_multiplier'' =
     get (upsert_int ''flow_sampling_multiplier'' (either_name (su_flow_sampling_multiplier p) (su_flowSamplingMultiplier p)) kv)
       ''flow_sampling_multiplier''"
  by (simp_all add: write_settings_def Let_def cong: option.case_cong)

lemma in_rangeD: "in_range lo hi x \<Longrightarrow> 0 \<le> lo \<Longrightarrow> x = Some n \<Longrightarrow> 0 \<le> n"
  by (simp add: in_range_def)

lemma either_in_range:
  "in_range 1 hi x \<Longrightarrow> in_range 1 hi y \<Longrightarrow> either_name x y = Some n \<Longrightarrow> 0 \<le> n"
  using in_rangeD[of 1 hi x n] in_rangeD[of 1 hi y n] by (cases x) simp_all

lemma given_nonneg:
  assumes "settings_update_ok p"
  shows "\<forall>n. su_session_timeout p = Some n \<longrightarrow> 0 \<le> n" "\<forall>n. su_lockout_threshold p = Some n \<longrightarrow> 0 \<le> n"
    "\<forall>n. either_name (su_flow_netflow_port p) (su_flowNetflowPort p) = Some n \<longrightarrow> 0 \<le> n"
    "\<forall>n. either_name (su_flow_ipfix_port p) (su_flowIpfixPort p) = Some n \<longrightarrow> 0 \<le> n"
    "\<forall>n. either_name (su_flow_sampling_multiplier p) (su_flowSamplingMultiplier p) = Some n \<longrightarrow> 0 \<le> n"
proof -
  from assms have ok: "in_range 1 1440 (su_session_timeout p)" "in_range 1 100 (su_lockout_threshold p)"
    "in_range 1 65535 (su_flow_netflow_port p)" "in_range 1 65535 (su_flowNetflowPort p)"
    "in_range 1 65535 (su_flow_ipfix_port p)" "in_range 1 65535 (su_flowIpfixPort p)"
    "case su_flow_sampling_multiplier p of None \<Rightarrow> True | Some n \<Rightarrow> 1 \<le> n"
    "case su_flowSamplingMultiplier p of None \<Rightarrow> True | Some n \<Rightarrow> 1 \<le> n"
    by (simp_all only: settings_update_ok_def)
  show "\<forall>n. su_session_timeout p = Some n \<longrightarrow> 0 \<le> n" "\<forall>n. su_lockout_threshold p = Some n \<longrightarrow> 0 \<le> n"
    using in_rangeD[OF ok(1)] in_rangeD[OF ok(2)] by simp_all
  show "\<forall>n. either_name (su_flow_netflow_port p) (su_flowNetflowPort p) = Some n \<longrightarrow> 0 \<le> n"
    "\<forall>n. either_name (su_flow_ipfix_port p) (su_flowIpfixPort p) = Some n \<longrightarrow> 0 \<le> n"
    using either_in_range[OF ok(3,4)] either_in_range[OF ok(5,6)] by simp_all
  show "\<forall>n. either_name (su_flow_sampling_multiplier p) (su_flowSamplingMultiplier p) = Some n \<longrightarrow> 0 \<le> n"
    using ok(7,8) by (cases "su_flow_sampling_multiplier p"; cases "su_flowSamplingMultiplier p") simp_all
qed

lemma read_written:
  assumes "settings_update_ok p"
  shows "read_settings_dict cfg (write_settings p kv) = applied p (read_settings_dict cfg kv)"
proof -
  note ints = given_nonneg[OF assms]
  have "(case get (write_settings p kv) ''performance_mode'' of None \<Rightarrow> d | Some t \<Rightarrow> performance_text t) =
      (case su_performance_mode p of None \<Rightarrow> (case get kv ''performance_mode'' of None \<Rightarrow> d | Some t \<Rightarrow> performance_text t) | Some b \<Rightarrow> b)" for d
    by (cases "su_performance_mode p") (simp_all add: get_written(1))
  then show ?thesis
    unfolding read_settings_dict_def applied_def Let_def settings_payload.simps
    by (simp only: read_upsert(1)[OF get_written(2)] read_upsert(1)[OF get_written(5)] read_upsert(1)[OF get_written(6)]
        read_upsert(2)[OF get_written(3) ints(1)] read_upsert(2)[OF get_written(4) ints(2)]
        read_upsert(2)[OF get_written(7) ints(3)] read_upsert(2)[OF get_written(8) ints(4)] read_upsert(2)[OF get_written(9) ints(5)])
qed

text \<open>
  C13. A change of the settings does what it says: what the request gives is read back, by either
  spelling of a name, and everything else is as it was; and flow ingestion is never enabled without
  the mode that brings Redis, nor by a change that found Redis unready.
\<close>

theorem settings_applied:
  assumes "settings_update_ok p" "update_settings cfg ready p kv = Inr (kv', s, effects)"
  shows "s = applied p (read_settings_dict cfg kv) \<and> s = read_settings_dict cfg kv' \<and>
    (st_flow_ingestion_enabled s \<longrightarrow> st_performance_mode s \<and> ready)"
proof -
  have s: "s = read_settings_dict cfg kv'" "kv' = write_settings p kv"
    using assms(2) by (auto simp: update_settings_def Let_def split: if_splits)
  then have a: "s = applied p (read_settings_dict cfg kv)" using read_written[OF assms(1)] by simp
  have "st_flow_ingestion_enabled s \<longrightarrow> st_performance_mode s \<and> ready"
    using assms(2) unfolding a
    by (auto simp: update_settings_def applied_def Let_def split: if_splits option.splits)
  with a s(1) show ?thesis by simp
qed


definition no_settings :: settings_update where
  "no_settings =
     \<lparr> su_performance_mode = None, su_l2_auto_bypass = None, su_session_timeout = None, su_lockout_threshold = None,
       su_alerting_enabled = None, su_flow_ingestion_enabled = None, su_flowIngestionEnabled = None, su_flow_netflow_port = None,
       su_flowNetflowPort = None, su_flow_ipfix_port = None, su_flowIpfixPort = None, su_flow_sampling_multiplier = None,
       su_flowSamplingMultiplier = None \<rparr>"

definition default_config :: app_config where
  "default_config =
     \<lparr> ac_redis_enabled = True, ac_redis_performance_mode = False, ac_flow_enabled = False, ac_netflow_port = 2055,
       ac_ipfix_port = 4739, ac_sampling_multiplier = 1 \<rparr>"

theorem settings_applied_witness:
  "\<exists>kv s. update_settings default_config True
       (no_settings\<lparr>su_performance_mode := Some True, su_flowIngestionEnabled := Some True, su_session_timeout := Some 30\<rparr>) []
       = Inr (kv, s, [Manage_flow_service True, Reinitialize_driver]) \<and>
     st_flow_ingestion_enabled s \<and> st_performance_mode s \<and> st_session_timeout s = 30 \<and> st_lockout_threshold s = 5"
proof -
  let ?p = "no_settings\<lparr>su_performance_mode := Some True, su_flowIngestionEnabled := Some True, su_session_timeout := Some 30\<rparr>"
  have ok: "settings_update_ok ?p" by (simp add: settings_update_ok_def in_range_def no_settings_def)
  obtain kv s where u: "update_settings default_config True ?p [] = Inr (kv, s, [Manage_flow_service True, Reinitialize_driver])"
    by (simp add: update_settings_def read_settings_dict_def default_config_def read_flag_def no_settings_def Let_def)
  from settings_applied[OF ok u] have "s = applied ?p (read_settings_dict default_config [])" by simp
  then have "st_flow_ingestion_enabled s \<and> st_performance_mode s \<and> st_session_timeout s = 30 \<and> st_lockout_threshold s = 5"
    by (simp add: applied_def no_settings_def Let_def read_settings_dict_def read_int_def)
  with u show ?thesis by blast
qed

subsection \<open>Where the settings mislead\<close>

text \<open>While flow ingestion is enabled, every change is refused when Redis is not ready, whatever it
  changes; the mode that is shown leaves out whether the configuration enables Redis at all.\<close>

lemma unrelated_change_refused:
  "st_flow_ingestion_enabled (read_settings_dict cfg kv) \<Longrightarrow>
   update_settings cfg False (no_settings\<lparr>su_session_timeout := Some n\<rparr>) kv = Inl Bad_request"
  by (simp add: update_settings_def no_settings_def Let_def)

lemma mode_shown_but_not_used:
  "\<exists>cfg. st_performance_mode (read_settings_dict cfg []) \<and> \<not> redis_wanted cfg (Some [])"
  by (rule exI[of _ "default_config\<lparr>ac_redis_enabled := False, ac_redis_performance_mode := True\<rparr>"])
    (simp add: read_settings_dict_def redis_wanted_def default_config_def)

text \<open>A process begins with the driver of Postgres, so each start with Redis copies the table over
  the sessions that Redis holds. A session that was ended under Redis is still in the table, and lives again; one that
  was begun under Redis is not, and ends.\<close>

definition one_session :: "uuid \<Rightarrow> string \<Rightarrow> user_session" where
  "one_session u jti = \<lparr> us_id = 1, us_user_id = u, us_jti = jti, us_created_at = 0, us_expires_at = sec 7200 \<rparr>"

lemma restart_overwrites_sessions:
  assumes "as_driver g = Postgres_driver" "as_table g = [one_session u ''ended'']" "redis_wanted cfg kv"
    and "as_redis g (session_key (uuid_text u)) = Some ([''begun''], sec 9000)"
  shows "let g' = initialize_drivers cfg kv True users new_id (sec 3600) ks g
     in store_is_active (sec 3600) (uuid_text u) (Some ''ended'') g' \<and> \<not> store_is_active (sec 3600) (uuid_text u) (Some ''begun'') g'"
  using assms
  by (simp add: initialize_drivers_def migrate_sessions_pg_to_redis_def migrate_user_def group_by_user_def one_session_def
      store_is_active_def redis_is_session_active_def redis_get_def Let_def)

end
