(* ===== verification/Secrets.thy ===== *)
theory Secrets
  imports Alerts
begin

text \<open>
  The masking of secrets (\<open>mask_secret\<close> of \<open>services/crypto_service.py\<close>), with the parts of
  \<open>urllib.parse\<close> that it uses. Texts are sequences of bytes in UTF-8; percent-encoded bytes are taken to form such text. The
  decryption is a parameter: it gives the plain text or fails.
\<close>

subsection \<open>Texts\<close>

fun text_in :: "string \<Rightarrow> string \<Rightarrow> bool" where \<comment> \<open>\<open>p in s\<close>\<close>
  "text_in p [] \<longleftrightarrow> p = []"
| "text_in p (c # s) \<longleftrightarrow> take (length p) (c # s) = p \<or> text_in p s"

definition bullet :: string where "bullet = [CHR 0xE2, CHR 0x80, CHR 0xA2]"

definition bullets :: "nat \<Rightarrow> string" where "bullets n = concat (replicate n bullet)"

definition rejoin :: "char \<Rightarrow> string list \<Rightarrow> string" where
  "rejoin c ws = join [c] ws"

definition split_once :: "char \<Rightarrow> string \<Rightarrow> string \<times> string option" where
  \<comment> \<open>\<open>s.split(c, 1)\<close>\<close>
  "split_once c s = (before c s, if c \<in> set s then Some (after c s) else None)"

subsection \<open>URLs and queries\<close>

record full_url =
  fu_scheme :: string
  fu_netloc :: string
  fu_path :: string
  fu_params :: string
  fu_query :: string
  fu_fragment :: string

definition split_params :: "string \<Rightarrow> string \<times> string" where
  \<comment> \<open>at the first semicolon of the last segment\<close>
  "split_params path =
     (let segs = split_on CHR ''/'' path; last_seg = last segs; (a, b) = split_once CHR '';'' last_seg
      in case b of None \<Rightarrow> (path, []) | Some ps \<Rightarrow> (rejoin CHR ''/'' (butlast segs @ [a]), ps))"

definition urlparse_full :: "string \<Rightarrow> full_url result" where
  \<comment> \<open>\<open>urlparse\<close> of a text that starts with \<open>http\<close> and its colon\<close>
  "urlparse_full s =
     (case urlparse s of
        Inl e \<Rightarrow> Inl e
      | Inr u \<Rightarrow>
          (let s = filter (\<lambda>c. of_char c \<notin> {9::nat, 10, 13}) s;
               rest = after CHR '':'' s;
               rest = (if take 2 rest = ''//'' then dropWhile (\<lambda>c. c \<notin> set ''/?#'') (drop 2 rest) else rest);
               (rest, fragment) = split_once CHR ''#'' rest;
               (path, query) = split_once CHR ''?'' rest;
               (path, params) = split_params path;
               text_of = (\<lambda>x. case x of None \<Rightarrow> [] | Some t \<Rightarrow> t)
           in Inr \<lparr> fu_scheme = u_scheme u, fu_netloc = u_netloc u, fu_path = path, fu_params = params,
                    fu_query = text_of query, fu_fragment = text_of fragment \<rparr>))"

definition urlunparse :: "full_url \<Rightarrow> string" where
  "urlunparse u =
     (let url = (if fu_params u \<noteq> [] then fu_path u @ CHR '';'' # fu_params u else fu_path u);
          url = (if url \<noteq> [] \<and> take 1 url \<noteq> ''/'' then CHR ''/'' # url else url)
      in fu_scheme u @ ''://'' @ fu_netloc u @ url @
         (if fu_query u \<noteq> [] then CHR ''?'' # fu_query u else []) @ (if fu_fragment u \<noteq> [] then CHR ''#'' # fu_fragment u else []))"

fun unquote :: "string \<Rightarrow> string" where
  "unquote (c # a # b # s) =
     (if c = CHR ''%'' then
        (case (hex_val a, hex_val b) of
           (Some x, Some y) \<Rightarrow> char_of (16 * x + y) # unquote s
         | _ \<Rightarrow> c # unquote (a # b # s))
      else c # unquote (a # b # s))"
| "unquote (c # s) = c # unquote s"
| "unquote [] = []"

definition url_safe :: "char \<Rightarrow> bool" where
  "url_safe c \<longleftrightarrow> is_alpha c \<or> digit_val c \<noteq> None \<or> c \<in> set ''_.-~''"

definition quote_plus :: "string \<Rightarrow> string" where
  "quote_plus s =
     concat (map (\<lambda>c. if url_safe c then [c] else if c = CHR '' '' then ''+''
       else CHR ''%'' # map upper_char (hex_pad 2 (of_char c))) s)"

definition parse_qsl :: "string \<Rightarrow> (string \<times> string) list" where
  \<comment> \<open>blank values are kept\<close>
  "parse_qsl query =
     (let plain = (\<lambda>t. unquote (map (\<lambda>c. if c = CHR ''+'' then CHR '' '' else c) t))
      in map (\<lambda>p. let (k, v) = split_once CHR ''='' p in (plain k, plain (case v of None \<Rightarrow> [] | Some t \<Rightarrow> t)))
           (filter (\<lambda>p. p \<noteq> []) (split_on CHR ''&'' query)))"

definition urlencode :: "(string \<times> string) list \<Rightarrow> string" where
  "urlencode ps = rejoin CHR ''&'' (map (\<lambda>(k, v). quote_plus k @ CHR ''='' # quote_plus v) ps)"

subsection \<open>Masks\<close>

definition sensitive_keys :: "string set" where
  "sensitive_keys =
     {''sig'', ''token'', ''key'', ''secret'', ''webhook'', ''auth'', ''api_key'', ''password'', ''access_token'',
      ''apikey'', ''bearer'', ''code''}"

definition mask_query :: "string \<Rightarrow> string" where
  "mask_query query =
     (let query_params = parse_qsl query
      in if query_params \<noteq> []
         then unquote (urlencode (map (\<lambda>(k, v). (k, if lower k \<in> sensitive_keys then bullets 8 else v)) query_params))
         else query)"

definition mask_last :: "string \<Rightarrow> string" where
  "mask_last path =
     (let segments = split_on CHR ''/'' (strip_chars {CHR ''/''} path)
      in if 3 \<le> length segments then CHR ''/'' # rejoin CHR ''/'' (butlast segments @ [bullets 8]) else path)"

definition teams_match :: "string \<Rightarrow> (string \<times> string) option" where
  \<comment> \<open>the two tokens after \<open>/IncomingWebhook/\<close>, in whatever case, at the start of a text: what replaces the match, and the rest\<close>
  "teams_match s =
     (let token1 = takeWhile (\<lambda>x. x \<noteq> CHR ''/'') (drop 17 s);
          rest = dropWhile (\<lambda>x. x \<noteq> CHR ''/'') (drop 17 s);
          token2 = takeWhile (\<lambda>x. x \<notin> {CHR ''/'', CHR ''?''}) (drop 1 rest)
      in if lower (take 17 s) = ''/incomingwebhook/'' \<and> token1 \<noteq> [] \<and> rest \<noteq> [] \<and> token2 \<noteq> []
         then Some (take 17 s @ bullets 12 @ ''/'' @ bullets 12, dropWhile (\<lambda>x. x \<notin> {CHR ''/'', CHR ''?''}) (drop 1 rest))
         else None)"

lemma teams_match_shorter: "teams_match s = Some (out, rest) \<Longrightarrow> length rest < length s"
proof -
  assume m: "teams_match s = Some (out, rest)"
  let ?r = "dropWhile (\<lambda>x. x \<noteq> CHR ''/'') (drop 17 s)"
  let ?P = "\<lambda>x. x \<notin> {CHR ''/'', CHR ''?''}"
  from m have rest: "rest = dropWhile ?P (drop 1 ?r)" and "?r \<noteq> []"
    unfolding teams_match_def Let_def by (simp_all only: option.simps prod.inject not_False_eq_True split: if_splits)
  then have pos: "0 < length ?r" by (simp only: length_greater_0_conv simp_thms)
  have "length rest \<le> length ?r - 1"
    unfolding rest using length_dropWhile_le[of ?P "drop 1 ?r"] by (simp only: length_drop)
  moreover have "length ?r \<le> length (drop 17 s)" by (rule length_dropWhile_le)
  then have "length ?r \<le> length s" unfolding length_drop by linarith
  ultimately show ?thesis using pos by linarith
qed

function mask_teams :: "string \<Rightarrow> string" where
  \<comment> \<open>\<open>re.sub\<close>\<close>
  "mask_teams s =
     (case teams_match s of
        Some (out, rest) \<Rightarrow> out @ mask_teams rest
      | None \<Rightarrow> (case s of [] \<Rightarrow> [] | c # s' \<Rightarrow> c # mask_teams s'))"
  by simp_all
termination by (relation "measure length") (auto dest: teams_match_shorter)

declare mask_teams.simps [simp del]

definition mask_path :: "string \<Rightarrow> string" where
  "mask_path path =
     (if text_in ''/api/webhooks/'' path then mask_last path
      else if text_in ''/services/T'' path then mask_last path
      else mask_teams path)"

definition mask_netloc :: "string \<Rightarrow> string" where
  "mask_netloc netloc =
     (case split_once CHR ''@'' netloc of
        (user_info, Some host) \<Rightarrow>
          (case split_once CHR '':'' user_info of
             (user, Some _) \<Rightarrow> user @ '':'' @ bullets 8 @ ''@'' @ host
           | (_, None) \<Rightarrow> bullets 8 @ ''@'' @ host)
      | (_, None) \<Rightarrow> netloc)"

definition mask_url :: "string \<Rightarrow> string" where
  "mask_url secret =
     (case urlparse_full secret of
        Inl _ \<Rightarrow> ''https://'' @ bullets 8
      | Inr u \<Rightarrow> urlunparse (u\<lparr>fu_query := mask_query (fu_query u), fu_path := mask_path (fu_path u),
                               fu_netloc := mask_netloc (fu_netloc u)\<rparr>))"

definition is_http :: "string \<Rightarrow> bool" where
  "is_http s \<longleftrightarrow> take 7 s = ''http://'' \<or> take 8 s = ''https://''"

definition mask_secret :: "(string \<Rightarrow> string option) \<Rightarrow> string \<Rightarrow> string" where
  "mask_secret decrypt secret =
     (if secret = [] then []
      else (case (if take 7 secret = ''ENC:v1:'' then decrypt secret else Some secret) of
              None \<Rightarrow> bullets 8
            | Some s \<Rightarrow> if is_http s then mask_url s else bullets 12))"

end
