(* ===== verification/Channels.thy ===== *)
theory Channels
  imports Secrets Exporters
begin

text \<open>
  The requests over alert channels (\<open>routers/alerts.py\<close>): their configuration with masked secrets, the
  checks of its destinations, the test of a channel and the history of deliveries. The table holds
  the configuration decrypted, or nothing where that fails. The text of a list or an object, as \<open>str\<close>
  gives it, is a parameter.
\<close>

subsection \<open>Configurations\<close>

datatype cfg_val =
    Cfg_null
  | Cfg_text string
  | Cfg_flag bool
  | Cfg_num bool string \<comment> \<open>whether it is zero, and its text\<close>
  | Cfg_list "cfg_val list"
  | Cfg_object "(string \<times> cfg_val) list"

type_synonym config = "(string, cfg_val) dict"

fun cfg_truthy :: "cfg_val \<Rightarrow> bool" where
  "cfg_truthy Cfg_null = False"
| "cfg_truthy (Cfg_text s) = (s \<noteq> [])"
| "cfg_truthy (Cfg_flag b) = b"
| "cfg_truthy (Cfg_num zero s) = (\<not> zero)"
| "cfg_truthy (Cfg_list xs) = (xs \<noteq> [])"
| "cfg_truthy (Cfg_object kvs) = (kvs \<noteq> [])"

fun cfg_str :: "(cfg_val \<Rightarrow> string) \<Rightarrow> cfg_val \<Rightarrow> string" where \<comment> \<open>\<open>str\<close>\<close>
  "cfg_str repr Cfg_null = ''None''"
| "cfg_str repr (Cfg_text s) = s"
| "cfg_str repr (Cfg_flag b) = (if b then ''True'' else ''False'')"
| "cfg_str repr (Cfg_num zero s) = s"
| "cfg_str repr v = repr v"

record channel_env =
  ce_decrypt :: "string \<Rightarrow> string option"
  ce_repr :: "cfg_val \<Rightarrow> string"
  ce_getaddrinfo :: "string \<Rightarrow> string list result"
  ce_allow_private :: bool \<comment> \<open>\<open>NETMON_ALLOW_PRIVATE_WEBHOOKS\<close>\<close>

definition masked_value :: "channel_env \<Rightarrow> cfg_val \<Rightarrow> cfg_val" where
  "masked_value env v = Cfg_text (mask_secret (ce_decrypt env) (cfg_str (ce_repr env) v))"

definition mask_key :: "channel_env \<Rightarrow> string \<Rightarrow> config \<Rightarrow> config" where
  "mask_key env k cfg =
     (case get cfg k of None \<Rightarrow> cfg | Some v \<Rightarrow> if cfg_truthy v then put k (masked_value env v) cfg else cfg)"

definition secret_header :: "string \<Rightarrow> bool" where
  "secret_header k \<longleftrightarrow> (\<exists>s \<in> {''auth'', ''token'', ''key'', ''secret''}. text_in s (lower k))"

definition mask_headers :: "channel_env \<Rightarrow> (string \<times> cfg_val) list \<Rightarrow> (string \<times> cfg_val) list" where
  "mask_headers env hs = map (\<lambda>(k, v). (k, if secret_header k then masked_value env v else v)) hs"

definition mask_channel_config :: "channel_env \<Rightarrow> config \<Rightarrow> config" where
  "mask_channel_config env cfg =
     (let masked = mask_key env ''password'' (mask_key env ''webhook_url'' cfg)
      in case get masked ''headers'' of
           Some (Cfg_object hs) \<Rightarrow> put ''headers'' (Cfg_object (mask_headers env hs)) masked
         | _ \<Rightarrow> masked)"

definition has_bullet :: "cfg_val \<Rightarrow> bool" where
  "has_bullet v = (case v of Cfg_text s \<Rightarrow> text_in bullet s | _ \<Rightarrow> False)"

fun merge_headers :: "(string, cfg_val) dict \<Rightarrow> (string \<times> cfg_val) list \<Rightarrow> (string, cfg_val) dict \<Rightarrow> (string, cfg_val) dict" where
  \<comment> \<open>the headers that exist, those of the request, the merged ones\<close>
  "merge_headers existing [] merged = merged"
| "merge_headers existing ((hk, hv) # hs) merged =
     merge_headers existing hs
       (if hv = Cfg_null then del hk merged
        else if has_bullet hv then
          (case get existing hk of Some old \<Rightarrow> put hk old merged | None \<Rightarrow> put hk hv merged)
        else put hk hv merged)"

fun merge_values :: "config \<Rightarrow> (string \<times> cfg_val) list \<Rightarrow> config \<Rightarrow> config" where
  \<comment> \<open>a masked text keeps the value that is stored\<close>
  "merge_values existing [] merged = merged"
| "merge_values existing ((k, v) # kvs) merged =
     merge_values existing kvs
       (case (k = ''headers'', v) of
          (True, Cfg_object hs) \<Rightarrow>
            (let existing_headers = (case get merged k of Some (Cfg_object old) \<Rightarrow> old | _ \<Rightarrow> [])
             in put k (Cfg_object (merge_headers existing_headers hs existing_headers)) merged)
        | _ \<Rightarrow> if has_bullet v \<and> get existing k \<noteq> None then merged else put k v merged)"

definition merge_channel_config :: "config \<Rightarrow> config \<Rightarrow> config" where
  "merge_channel_config existing_cfg new_cfg = merge_values existing_cfg new_cfg existing_cfg"

subsection \<open>Channels\<close>

record channel_row =
  ch_id :: uuid
  ch_name :: string
  ch_type :: string
  ch_is_enabled :: bool
  ch_config :: "config option" \<comment> \<open>\<open>None\<close>: it cannot be decrypted or read\<close>
  ch_endpoint_ids :: "string list"
  ch_subnet_filters :: "string list"
  ch_severity_filters :: "string list"
  ch_created_at :: instant

definition decrypted :: "channel_row \<Rightarrow> config" where \<comment> \<open>\<open>_decrypt_config_dict\<close>\<close>
  "decrypted ch = (case ch_config ch of None \<Rightarrow> [] | Some cfg \<Rightarrow> cfg)"

definition shown_channel :: "channel_env \<Rightarrow> channel_row \<Rightarrow> channel_row" where
  "shown_channel env ch = ch\<lparr>ch_config := Some (mask_channel_config env (decrypted ch))\<rparr>"

definition list_alert_channels :: "channel_env \<Rightarrow> channel_row list \<Rightarrow> channel_row list" where
  "list_alert_channels env t = map (shown_channel env) (sort_key ch_created_at t)"

definition webhook_types :: "string set" where
  "webhook_types = {''TEAMS'', ''DISCORD'', ''SLACK'', ''GENERIC_WEBHOOK''}"

definition channel_types :: "string set" where "channel_types = insert ''EMAIL_SMTP'' webhook_types"

definition config_value :: "config \<Rightarrow> string \<Rightarrow> cfg_val" where
  "config_value cfg k = (case get cfg k of None \<Rightarrow> Cfg_null | Some v \<Rightarrow> v)"

definition check_url :: "channel_env \<Rightarrow> cfg_val \<Rightarrow> request_error option" where
  \<comment> \<open>\<open>None\<close>: the URL is accepted; one that is no text makes \<open>urlparse\<close> raise\<close>
  "check_url env v =
     (case v of
        Cfg_text url \<Rightarrow>
          (case validate_outbound_url (ce_getaddrinfo env) url (ce_allow_private env) False of Inl _ \<Rightarrow> Some Bad_request | Inr _ \<Rightarrow> None)
      | _ \<Rightarrow> Some Unhandled)"

definition check_smtp :: "channel_env \<Rightarrow> config \<Rightarrow> request_error option" where
  "check_smtp env cfg =
     (let smtp_host = config_value cfg ''smtp_host''
      in if \<not> cfg_truthy smtp_host then Some Bad_request
         else (case validate_outbound_url (ce_getaddrinfo env) (''http://'' @ cfg_str (ce_repr env) smtp_host) True True of
                 Inl _ \<Rightarrow> Some Bad_request
               | Inr _ \<Rightarrow> None))"

definition check_config :: "channel_env \<Rightarrow> bool \<Rightarrow> string \<Rightarrow> config \<Rightarrow> request_error option" where
  \<comment> \<open>the boolean: a webhook needs a URL\<close>
  "check_config env strict ctype cfg =
     (if ctype \<in> webhook_types then
        (let url = config_value cfg ''webhook_url''
         in if cfg_truthy url then check_url env url else if strict then Some Bad_request else None)
      else if ctype = ''EMAIL_SMTP'' then check_smtp env cfg
      else None)"

record channel_create =
  cc_name :: string
  cc_type :: string
  cc_is_enabled :: bool
  cc_config :: config
  cc_endpoint_ids :: "uuid list"
  cc_subnet_filters :: "string list"
  cc_severity_filters :: "string list"

definition create_alert_channel ::
  "channel_env \<Rightarrow> uuid \<Rightarrow> instant \<Rightarrow> channel_create \<Rightarrow> channel_row list \<Rightarrow> request_error + channel_row \<times> channel_row list" where
  \<comment> \<open>the reply and the table\<close>
  "create_alert_channel env new_id now p t =
     (let ctype = upper (cc_type p)
      in case check_config env True ctype (cc_config p) of
           Some e \<Rightarrow> Inl e
         | None \<Rightarrow>
             (let ch = \<lparr> ch_id = new_id, ch_name = cc_name p, ch_type = ctype, ch_is_enabled = cc_is_enabled p,
                         ch_config = Some (cc_config p), ch_endpoint_ids = map uuid_text (cc_endpoint_ids p),
                         ch_subnet_filters = cc_subnet_filters p, ch_severity_filters = cc_severity_filters p,
                         ch_created_at = now \<rparr>
              in Inr (shown_channel env ch, t @ [ch])))"

definition find_channel :: "uuid \<Rightarrow> channel_row list \<Rightarrow> channel_row option" where
  "find_channel i t = find (\<lambda>ch. ch_id ch = i) t"

definition get_alert_channel :: "channel_env \<Rightarrow> uuid \<Rightarrow> channel_row list \<Rightarrow> request_error + channel_row" where
  "get_alert_channel env i t =
     (case find_channel i t of None \<Rightarrow> Inl Not_found | Some ch \<Rightarrow> Inr (shown_channel env ch))"

record channel_update =
  cu_name :: "string option"
  cu_type :: "string option"
  cu_is_enabled :: "bool option"
  cu_config :: "config option"
  cu_endpoint_ids :: "uuid list option"
  cu_subnet_filters :: "string list option"
  cu_severity_filters :: "string list option"

definition assigned_fields :: "channel_update \<Rightarrow> channel_row \<Rightarrow> channel_row" where
  "assigned_fields p ch =
     ch\<lparr> ch_name := (case cu_name p of None \<Rightarrow> ch_name ch | Some x \<Rightarrow> x),
         ch_type := (case cu_type p of None \<Rightarrow> ch_type ch | Some x \<Rightarrow> upper x),
         ch_is_enabled := (case cu_is_enabled p of None \<Rightarrow> ch_is_enabled ch | Some x \<Rightarrow> x),
         ch_endpoint_ids := (case cu_endpoint_ids p of None \<Rightarrow> ch_endpoint_ids ch | Some x \<Rightarrow> map uuid_text x),
         ch_subnet_filters := (case cu_subnet_filters p of None \<Rightarrow> ch_subnet_filters ch | Some x \<Rightarrow> x),
         ch_severity_filters := (case cu_severity_filters p of None \<Rightarrow> ch_severity_filters ch | Some x \<Rightarrow> x) \<rparr>"

definition update_alert_channel ::
  "channel_env \<Rightarrow> uuid \<Rightarrow> channel_update \<Rightarrow> channel_row list \<Rightarrow> request_error + channel_row \<times> channel_row list" where
  "update_alert_channel env i p t =
     (case find_channel i t of
        None \<Rightarrow> Inl Not_found
      | Some old \<Rightarrow>
          (let ch = assigned_fields p old;
               store = (\<lambda>ch. Inr (shown_channel env ch, map (\<lambda>c. if ch_id c = i then ch else c) t))
           in case cu_config p of
                None \<Rightarrow> store ch
              | Some new_cfg \<Rightarrow>
                  (let merged_cfg = merge_channel_config (decrypted old) new_cfg
                   in case check_config env False (ch_type ch) merged_cfg of
                        Some e \<Rightarrow> Inl e
                      | None \<Rightarrow> store (ch\<lparr>ch_config := Some merged_cfg\<rparr>))))"

definition delete_alert_channel :: "uuid \<Rightarrow> channel_row list \<Rightarrow> request_error + channel_row list" where
  "delete_alert_channel i t =
     (case find_channel i t of None \<Rightarrow> Inl Not_found | Some _ \<Rightarrow> Inr (filter (\<lambda>c. ch_id c \<noteq> i) t))"

subsection \<open>Test and history\<close>

record test_request =
  tr_channel_id :: "uuid option"
  tr_channel_type :: "string option"
  tr_config :: "config option"
  tr_name :: "string option"

definition recipients_in :: "channel_env \<Rightarrow> config \<Rightarrow> string \<Rightarrow> recipients option" where
  "recipients_in env cfg k =
     (case config_value cfg k of
        Cfg_text s \<Rightarrow> Some (Address_text s)
      | Cfg_list xs \<Rightarrow> Some (Address_list (map (cfg_str (ce_repr env)) (filter cfg_truthy xs)))
      | _ \<Rightarrow> None)"

definition probed_channel :: "channel_env \<Rightarrow> uuid \<Rightarrow> string \<Rightarrow> string \<Rightarrow> config \<Rightarrow> alert_channel" where
  \<comment> \<open>what the dispatcher is given, whose test looks at no filter\<close>
  "probed_channel env i name ctype cfg =
     \<lparr> ac_id = i, ac_name = name, ac_type = ctype, ac_is_enabled = True,
       ac_config = \<lparr> cf_webhook_url = (case config_value cfg ''webhook_url'' of Cfg_text s \<Rightarrow> Some s | _ \<Rightarrow> None),
                     cf_smtp_host = map_option (cfg_str (ce_repr env)) (get cfg ''smtp_host''),
                     cf_to_emails = recipients_in env cfg ''to_emails'', cf_to_email = recipients_in env cfg ''to_email'' \<rparr>,
       ac_endpoint_ids = [], ac_subnet_filters = [], ac_severity_filters = [] \<rparr>"

definition test_alert_channel ::
  "channel_env \<Rightarrow> dispatch_env \<Rightarrow> test_request \<Rightarrow> channel_row list \<Rightarrow>
   request_error + (bool \<times> int \<times> (send_error + string)) \<times> delivery_log option" where
  \<comment> \<open>the answer, and the row that is logged for a stored channel\<close>
  "test_alert_channel env denv p t =
     (case tr_channel_id p of
        Some i \<Rightarrow>
          (case find_channel i t of
             None \<Rightarrow> Inl Not_found
           | Some ch \<Rightarrow>
               (let cfg = (case tr_config p of
                             Some new_cfg \<Rightarrow> if new_cfg \<noteq> [] then merge_channel_config (decrypted ch) new_cfg else decrypted ch
                           | None \<Rightarrow> decrypted ch)
                in case check_config env False (ch_type ch) cfg of
                     Some e \<Rightarrow> Inl e
                   | None \<Rightarrow> Inr (map_prod id Some (send_test_alert denv (probed_channel env i (ch_name ch) (ch_type ch) cfg)))))
      | None \<Rightarrow>
          (case (tr_channel_type p, tr_config p) of
             (Some ctype, Some cfg) \<Rightarrow>
               if ctype = [] \<or> cfg = [] then Inl Bad_request
               else (case check_config env False (upper ctype) cfg of
                       Some e \<Rightarrow> Inl e
                     | None \<Rightarrow> Inr (fst (send_test_alert denv (probed_channel env 0 (or_text (tr_name p) ''Diagnostic Probe Channel'') (upper ctype) cfg)), None))
           | _ \<Rightarrow> Inl Bad_request))"

definition get_alert_history ::
  "nat \<Rightarrow> nat \<Rightarrow> (instant \<times> delivery_log) list \<Rightarrow> delivery_log list \<times> nat \<times> nat" where
  \<comment> \<open>the rows of a page, the total and the number of pages\<close>
  "get_alert_history page page_size logs =
     (let n = length logs
      in (map snd (take page_size (drop ((page - 1) * page_size) (sort_key (\<lambda>(t, l). - t) logs))),
          n, if 0 < n then nat \<lceil>real n / real page_size\<rceil> else 1))"


subsection \<open>Masked secrets come back\<close>

lemma text_in_appendI: "text_in p s \<Longrightarrow> text_in p (a @ s)"
  by (induction a) auto

lemma text_in_prefix: "text_in p (p @ s)"
proof (cases p)
  case Nil
  then show ?thesis by (cases s) simp_all
qed simp

lemma has_bullets: "0 < n \<Longrightarrow> text_in bullet (a @ bullets n @ b)"
  by (cases n) (simp_all add: bullets_def text_in_appendI text_in_prefix)

definition comes_back :: "channel_env \<Rightarrow> cfg_val \<Rightarrow> bool" where
  \<comment> \<open>the mask of a value is recognized as one, or hides nothing\<close>
  "comes_back env v \<longleftrightarrow> has_bullet (masked_value env v) \<or> masked_value env v = v"

lemma plain_comes_back:
  assumes "\<not> is_http s" "take 7 s \<noteq> ''ENC:v1:''" "s \<noteq> []"
  shows "has_bullet (masked_value env (Cfg_text s))"
  using assms has_bullets[of 12 "[]" "[]"] by (simp add: has_bullet_def masked_value_def mask_secret_def)

lemma get_mask_key:
  "get (mask_key env k cfg) k' =
     (if k' = k then (case get cfg k of None \<Rightarrow> None | Some v \<Rightarrow> Some (if cfg_truthy v then masked_value env v else v)) else get cfg k')"
  by (auto simp: mask_key_def split: option.splits)

lemma get_masked:
  "get (mask_channel_config env cfg) k =
     (case get cfg k of
        None \<Rightarrow> None
      | Some v \<Rightarrow> Some (if k \<in> {''webhook_url'', ''password''} then (if cfg_truthy v then masked_value env v else v)
                       else if k = ''headers'' then (case v of Cfg_object hs \<Rightarrow> Cfg_object (mask_headers env hs) | _ \<Rightarrow> v) else v))"
  by (auto simp: mask_channel_config_def Let_def get_mask_key split: option.splits cfg_val.splits)


lemma put_same: "get d k = Some v \<Longrightarrow> put k v d = d"
  by (induction d) (auto split: if_splits)

lemma merge_headers_id:
  assumes "\<forall>(k, v) \<in> set hs. \<exists>old. get existing k = Some old \<and> v \<noteq> Cfg_null \<and> (has_bullet v \<or> v = old)"
  shows "merge_headers existing hs existing = existing"
  using assms
proof (induction hs)
  case (Cons e hs)
  obtain k v where e: "e = (k, v)" by (cases e)
  with Cons.prems obtain old where "get existing k = Some old" "v \<noteq> Cfg_null" "has_bullet v \<or> v = old" by auto
  then show ?case using Cons by (auto simp: e put_same)
qed simp

lemma merge_values_id:
  assumes "\<forall>(k, v) \<in> set kvs. merge_values existing [(k, v)] existing = existing"
  shows "merge_values existing kvs existing = existing"
  using assms
proof (induction kvs)
  case (Cons e kvs)
  obtain k v where e: "e = (k, v)" by (cases e)
  have "merge_values existing (e # kvs) existing = merge_values existing kvs (merge_values existing [(k, v)] existing)" by (simp add: e)
  also have "\<dots> = existing" using Cons e by simp
  finally show ?case .
qed simp

definition headers_come_back :: "channel_env \<Rightarrow> (string, cfg_val) dict \<Rightarrow> bool" where
  "headers_come_back env hs \<longleftrightarrow>
     dict_ok hs \<and> (\<forall>(k, v) \<in> set hs. if secret_header k then comes_back env v else v \<noteq> Cfg_null)"

definition config_comes_back :: "channel_env \<Rightarrow> config \<Rightarrow> bool" where
  "config_comes_back env cfg \<longleftrightarrow>
     dict_ok cfg \<and> (\<forall>k \<in> {''webhook_url'', ''password''}. case get cfg k of None \<Rightarrow> True | Some v \<Rightarrow> cfg_truthy v \<longrightarrow> comes_back env v) \<and>
     (case get cfg ''headers'' of Some (Cfg_object hs) \<Rightarrow> headers_come_back env hs | _ \<Rightarrow> True)"


lemma mask_dict_ok: "dict_ok cfg \<Longrightarrow> dict_ok (mask_channel_config env cfg)"
proof -
  have key: "dict_ok c \<Longrightarrow> dict_ok (mask_key env k c)" for c k by (simp add: mask_key_def split: option.splits)
  assume "dict_ok cfg"
  then have ok: "dict_ok (mask_key env ''password'' (mask_key env ''webhook_url'' cfg))" by (intro key)
  show ?thesis unfolding mask_channel_config_def Let_def by (simp add: ok split: option.splits cfg_val.splits)
qed

lemma headers_merge_back:
  assumes "headers_come_back env hs"
  shows "merge_headers hs (mask_headers env hs) hs = hs"
proof (rule merge_headers_id)
  show "\<forall>(k, v) \<in> set (mask_headers env hs). \<exists>old. get hs k = Some old \<and> v \<noteq> Cfg_null \<and> (has_bullet v \<or> v = old)"
  proof clarify
    fix k v
    assume "(k, v) \<in> set (mask_headers env hs)"
    then obtain old where old: "(k, old) \<in> set hs" "v = (if secret_header k then masked_value env old else old)"
      by (auto simp: mask_headers_def)
    with assms have g: "get hs k = Some old" by (simp add: headers_come_back_def dict_ok_get)
    have "\<forall>(k, v) \<in> set hs. if secret_header k then comes_back env v else v \<noteq> Cfg_null"
      using assms by (simp add: headers_come_back_def)
    from bspec[OF this old(1)] have b: "if secret_header k then comes_back env old else old \<noteq> Cfg_null" by simp
    have "masked_value env old \<noteq> Cfg_null" by (simp add: masked_value_def)
    with b old(2) have "v \<noteq> Cfg_null \<and> (has_bullet v \<or> v = old)" by (auto simp: comes_back_def split: if_splits)
    with g show "\<exists>old. get hs k = Some old \<and> v \<noteq> Cfg_null \<and> (has_bullet v \<or> v = old)" by blast
  qed
qed

lemma merge_masked:
  assumes "config_comes_back env cfg"
  shows "merge_channel_config cfg (mask_channel_config env cfg) = cfg"
  unfolding merge_channel_config_def
proof (rule merge_values_id, clarify)
  fix k v
  have ok: "dict_ok cfg" using assms by (simp add: config_comes_back_def)
  assume "(k, v) \<in> set (mask_channel_config env cfg)"
  then have "get (mask_channel_config env cfg) k = Some v" using mask_dict_ok[OF ok] by (simp add: dict_ok_get)
  then obtain old where old: "get cfg k = Some old" and v: "v = (if k \<in> {''webhook_url'', ''password''} then (if cfg_truthy old then masked_value env old else old)
       else if k = ''headers'' then (case old of Cfg_object hs \<Rightarrow> Cfg_object (mask_headers env hs) | _ \<Rightarrow> old) else old)"
    unfolding get_masked by (auto split: option.splits)
  show "merge_values cfg [(k, v)] cfg = cfg"
  proof (cases "k = ''headers''")
    case False
    have "has_bullet v \<or> v = old"
    proof (cases "k \<in> {''webhook_url'', ''password''} \<and> cfg_truthy old")
      case True
      with assms old have "comes_back env old" by (auto simp: config_comes_back_def)
      with True v show ?thesis by (simp add: comes_back_def)
    qed (use False v in auto)
    with False old show ?thesis by (auto simp: put_same split: cfg_val.splits)
  next
    case True
    show ?thesis
    proof (cases "\<exists>hs. old = Cfg_object hs")
      case False
      with True v have "v = old" by (auto split: cfg_val.splits)
      with True False old show ?thesis by (auto simp: put_same split: cfg_val.splits)
    next
      case obj: True
      then obtain hs where hs: "old = Cfg_object hs" by blast
      with assms old True have "headers_come_back env hs" by (auto simp: config_comes_back_def)
      from headers_merge_back[OF this] True hs v old show ?thesis by (simp add: put_same)
    qed
  qed
qed

definition only_config :: "config \<Rightarrow> channel_update" where
  "only_config cfg =
     \<lparr> cu_name = None, cu_type = None, cu_is_enabled = None, cu_config = Some cfg, cu_endpoint_ids = None,
       cu_subnet_filters = None, cu_severity_filters = None \<rparr>"



lemma two_key_config:
  "config_comes_back env [(''password'', Cfg_text s), (''smtp_host'', v)] \<longleftrightarrow> (s \<noteq> [] \<longrightarrow> comes_back env (Cfg_text s))"
  by (simp add: config_comes_back_def dict_ok_def)

definition no_env :: channel_env where
  "no_env = \<lparr> ce_decrypt = \<lambda>_. None, ce_repr = \<lambda>_. [], ce_getaddrinfo = \<lambda>_. Inr [''9.9.9.9''], ce_allow_private = False \<rparr>"

definition mail_channel :: channel_row where
  "mail_channel =
     \<lparr> ch_id = 1, ch_name = ''mail'', ch_type = ''EMAIL_SMTP'', ch_is_enabled = True,
       ch_config = Some [(''password'', Cfg_text ''hunter2''), (''smtp_host'', Cfg_text ''mail'')],
       ch_endpoint_ids = [], ch_subnet_filters = [], ch_severity_filters = [], ch_created_at = 0 \<rparr>"


subsection \<open>Where masks fail\<close>

text \<open>A URL whose path is of no known form is shown as it is, with whatever it holds; and the query of
  one that nothing masks is decoded on the way, so that saving it back changes it.\<close>

lemma url_shown_in_clear: "mask_secret d ''https://hook.example/secret-path'' = ''https://hook.example/secret-path''"
proof -
  have "mask_url ''https://hook.example/secret-path'' = ''https://hook.example/secret-path''" by code_simp
  then show ?thesis by (simp add: mask_secret_def is_http_def)
qed

lemma query_changed_by_showing:
  "mask_secret d ''https://hook.example/p?x=a%26b'' = ''https://hook.example/p?x=a&b''"
  "\<not> text_in bullet ''https://hook.example/p?x=a&b''"
proof -
  have "mask_url ''https://hook.example/p?x=a%26b'' = ''https://hook.example/p?x=a&b''" by code_simp
  then show "mask_secret d ''https://hook.example/p?x=a%26b'' = ''https://hook.example/p?x=a&b''" by (simp add: mask_secret_def is_http_def)
  show "\<not> text_in bullet ''https://hook.example/p?x=a&b''" by code_simp
qed

text \<open>The destination is checked when a channel is created; a later change of its type alone is not.\<close>

lemma created_url_checked:
  assumes "create_alert_channel env i now p t = Inr (reply, t')" "ch_type reply \<in> webhook_types"
  shows "\<exists>url. get (cc_config p) ''webhook_url'' = Some (Cfg_text url) \<and>
    validate_outbound_url (ce_getaddrinfo env) url (ce_allow_private env) False = Inr ()"
proof -
  have "check_config env True (upper (cc_type p)) (cc_config p) = None" "ch_type reply = upper (cc_type p)"
    using assms(1) by (auto simp: create_alert_channel_def Let_def shown_channel_def split: option.splits)
  with assms(2) have "check_url env (config_value (cc_config p) ''webhook_url'') = None"
    by (auto simp: check_config_def Let_def split: if_splits)
  then show ?thesis
    by (auto simp: check_url_def config_value_def split: cfg_val.splits option.splits sum.splits)
qed

lemma type_change_unchecked:
  assumes "find_channel i t = Some ch"
  shows "\<exists>reply t'. update_alert_channel env i
      \<lparr> cu_name = None, cu_type = Some ''SLACK'', cu_is_enabled = None, cu_config = None, cu_endpoint_ids = None,
        cu_subnet_filters = None, cu_severity_filters = None \<rparr> t = Inr (reply, t') \<and>
      ch_type reply = ''SLACK'' \<and> (\<forall>c \<in> set t'. ch_id c = i \<longrightarrow> ch_config c = ch_config ch)"
proof -
  have "upper ''SLACK'' = ''SLACK''" by code_simp
  then show ?thesis using assms
    by (auto simp: update_alert_channel_def assigned_fields_def shown_channel_def Let_def find_channel_def dest: find_Some_iff[THEN iffD1])
qed

end
