(* ===== verification/Synthetic.thy ===== *)
theory Synthetic
  imports Secrets
begin

text \<open>
  Synthetic probes (\<open>monitoring/synthetic.py\<close>): the check of a target, and the probes over TCP, HTTP
  and TLS. The resolvers, connections, replies and certificates are the environment; times are in
  milliseconds, and the texts of errors are left out but for their kind.
\<close>

subsection \<open>The check of a target\<close>

fun restricted :: "ip_addr \<Rightarrow> bool" where \<comment> \<open>\<open>RESTRICTED_NETWORKS\<close>\<close>
  "restricted (V4 n) \<longleftrightarrow> in_net 32 8 0x7F000000 n \<or> in_net 32 16 0xA9FE0000 n \<or> in_net 32 8 0 n"
| "restricted (V6 n scope) \<longleftrightarrow> in_net 128 128 1 n \<or> in_net 128 10 (0xFE80 * 2 ^ 112) n"

definition validate_probe_target :: "(string \<Rightarrow> string result) \<Rightarrow> string \<Rightarrow> string result" where
  \<comment> \<open>an error of \<open>ip_address\<close> quotes its argument, so that a name which text_in the mark of a refusal is refused\<close>
  "validate_probe_target gethostbyname host_or_ip =
     (let cleaned = strip host_or_ip
      in case ip_address cleaned of
           Inr ip \<Rightarrow> if restricted ip then Inl ValueError else Inr cleaned
         | Inl _ \<Rightarrow>
             if text_in ''SSRF Protection'' cleaned then Inl ValueError
             else (case gethostbyname cleaned of
                     Inl _ \<Rightarrow> Inr cleaned
                   | Inr resolved_ip \<Rightarrow>
                       (case ip_address resolved_ip of
                          Inl _ \<Rightarrow> Inr cleaned
                        | Inr ip \<Rightarrow> if restricted ip then Inl ValueError else Inr resolved_ip)))"

subsection \<open>Probes\<close>

datatype probe_error = Target_refused | Timed_out | Probe_failed | No_hostname | Unexpected_status int

record probe_result =
  pr_success :: bool
  pr_latency_ms :: "real option"
  pr_error :: "probe_error option"

definition failed_probe :: "probe_error \<Rightarrow> probe_result" where
  "failed_probe e = \<lparr> pr_success = False, pr_latency_ms = None, pr_error = Some e \<rparr>"

datatype connection = Connected real | Timeout | Connection_error

definition run_tcp_probe :: "(string \<Rightarrow> string result) \<Rightarrow> (string \<Rightarrow> int \<Rightarrow> connection) \<Rightarrow> string \<Rightarrow> int \<Rightarrow> probe_result" where
  "run_tcp_probe gethostbyname open_connection host port =
     (case validate_probe_target gethostbyname host of
        Inl _ \<Rightarrow> failed_probe Target_refused
      | Inr resolved_ip \<Rightarrow>
          (case open_connection resolved_ip port of
             Connected t \<Rightarrow> \<lparr> pr_success = True, pr_latency_ms = Some (round2 t), pr_error = None \<rparr>
           | Timeout \<Rightarrow> failed_probe Timed_out
           | Connection_error \<Rightarrow> failed_probe Probe_failed))"

record http_probe_env =
  hp_gethostbyname :: "string \<Rightarrow> string result"
  hp_getaddrinfo :: "string \<Rightarrow> string list result"
  hp_get :: "string \<Rightarrow> string \<Rightarrow> (int \<times> real) result" \<comment> \<open>the status and the time of a request to an address\<close>

definition run_http_probe :: "http_probe_env \<Rightarrow> string \<Rightarrow> int \<Rightarrow> probe_result \<times> int option" where
  \<comment> \<open>with the status code; \<open>urlparse\<close> may raise, which the caller sees\<close>
  "run_http_probe env url expected_status =
     (case urlparse url of
        Inl _ \<Rightarrow> (failed_probe Probe_failed, None)
      | Inr parsed \<Rightarrow>
          if hostname_of parsed = [] then (failed_probe No_hostname, None)
          else (case validate_probe_target (hp_gethostbyname env) (hostname_of parsed) of
                  Inl _ \<Rightarrow> (failed_probe Target_refused, None)
                | Inr _ \<Rightarrow>
                    (case connect_tcp True (hp_getaddrinfo env) (hostname_of parsed) of
                       Inl _ \<Rightarrow> (failed_probe Probe_failed, None)
                     | Inr addr \<Rightarrow>
                         (case hp_get env addr url of
                            Inl _ \<Rightarrow> (failed_probe Probe_failed, None)
                          | Inr (status_code, t) \<Rightarrow>
                              (\<lparr> pr_success = (status_code = expected_status), pr_latency_ms = Some (round2 t),
                                 pr_error = (if status_code = expected_status then None else Some (Unexpected_status status_code)) \<rparr>,
                               Some status_code)))))"

record certificate =
  ct_not_after :: "instant option" \<comment> \<open>\<open>notAfter\<close>, if it is there and can be read\<close>
  ct_der_expiry :: "instant option" \<comment> \<open>the end of validity in the binary form, if that can be read\<close>

datatype handshake = Handshake real certificate | Untrusted | Handshake_failed

record ssl_result =
  sr_success :: bool
  sr_days_until_expiry :: "int option"
  sr_expires_at :: "instant option"
  sr_latency_ms :: "real option"
  sr_is_trusted :: bool

definition failed_ssl :: ssl_result where
  "failed_ssl = \<lparr> sr_success = False, sr_days_until_expiry = None, sr_expires_at = None, sr_latency_ms = None, sr_is_trusted = False \<rparr>"

definition ssl_report :: "instant \<Rightarrow> bool \<Rightarrow> real \<Rightarrow> certificate \<Rightarrow> ssl_result" where
  "ssl_report now is_trusted t cert =
     (let expiry = (case ct_not_after cert of Some e \<Rightarrow> Some e | None \<Rightarrow> ct_der_expiry cert)
      in \<lparr> sr_success = True, sr_days_until_expiry = map_option (\<lambda>e. (e - now) div sec 86400) expiry, sr_expires_at = expiry,
           sr_latency_ms = Some (round2 t), sr_is_trusted = is_trusted \<rparr>)"

definition run_ssl_probe ::
  "(string \<Rightarrow> string result) \<Rightarrow> (bool \<Rightarrow> string \<Rightarrow> int \<Rightarrow> handshake) \<Rightarrow> instant \<Rightarrow> string \<Rightarrow> int \<Rightarrow> ssl_result" where
  \<comment> \<open>the handshake that verifies the certificate, then one that does not; the second cannot find it untrusted\<close>
  "run_ssl_probe gethostbyname shake now host port =
     (case validate_probe_target gethostbyname host of
        Inl _ \<Rightarrow> failed_ssl
      | Inr resolved_ip \<Rightarrow>
          (case shake True resolved_ip port of
             Handshake t cert \<Rightarrow> ssl_report now True t cert
           | Handshake_failed \<Rightarrow> failed_ssl
           | Untrusted \<Rightarrow>
               (case shake False resolved_ip port of
                  Handshake t cert \<Rightarrow> ssl_report now False t cert
                | _ \<Rightarrow> failed_ssl)))"

subsection \<open>What a probe reaches\<close>

lemma probe_target_checked:
  \<comment> \<open>an address that is not restricted, or a name that the resolver did not know\<close>
  assumes "validate_probe_target gethostbyname host = Inr target"
  shows "(\<exists>ip. ip_address target = Inr ip \<and> \<not> restricted ip) \<or>
    (target = strip host \<and> (\<forall>ip. gethostbyname target = Inr ip \<longrightarrow> (\<exists>e. ip_address ip = Inl e)))"
  using assms by (auto simp: validate_probe_target_def Let_def split: sum.splits if_splits)

lemma tcp_probe_connects:
  assumes "pr_success (run_tcp_probe gethostbyname open_connection host port)"
  shows "\<exists>target t. validate_probe_target gethostbyname host = Inr target \<and> open_connection target port = Connected t"
  using assms by (auto simp: run_tcp_probe_def failed_probe_def split: sum.splits connection.splits)

lemma http_probe_connects:
  \<comment> \<open>the second check unwraps a mapped address\<close>
  assumes "pr_error (fst (run_http_probe env url n)) = None" "urlparse url = Inr parsed"
  shows "\<exists>addr. connect_tcp True (hp_getaddrinfo env) (hostname_of parsed) = Inr addr \<and> snd (run_http_probe env url n) = Some n"
  using assms by (auto simp: run_http_probe_def failed_probe_def split: sum.splits if_splits)

lemma ssl_days:
  assumes "sr_expires_at (ssl_report now tr t cert) = Some e" "sr_days_until_expiry (ssl_report now tr t cert) = Some d"
  shows "now + sec (86400 * d) \<le> e \<and> e < now + sec (86400 * (d + 1)) \<and> (d < 0 \<longleftrightarrow> e < now)"
proof -
  have d: "d = (e - now) div 86400000000"
    using assms by (auto simp: ssl_report_def Let_def split: option.splits)
  have "86400000000 * d \<le> e - now" "e - now < 86400000000 * d + 86400000000"
    unfolding d using pos_mod_bound[of 86400000000 "e - now"] pos_mod_sign[of 86400000000 "e - now"]
      mult_div_mod_eq[of 86400000000 "e - now"] by linarith+
  then show ?thesis by auto
qed

subsection \<open>Ways around the check\<close>

text \<open>An IPv4 address in its IPv6 form is compared with the IPv6 networks only; and a name without an
  IPv4 address passes unresolved, to be resolved again, to whatever address, when the connection is opened.\<close>

lemma mapped_loopback_passes:
  "ip_address (strip s) = Inr (V6 (0xFFFF * 2 ^ 32 + 0x7F000001) None) \<Longrightarrow> validate_probe_target g s = Inr (strip s)"
  by (simp add: validate_probe_target_def in_net_def)

lemma unresolved_name_passes:
  "ip_address (strip s) = Inl e \<Longrightarrow> \<not> text_in ''SSRF Protection'' (strip s) \<Longrightarrow> g (strip s) = Inl e' \<Longrightarrow>
   validate_probe_target g s = Inr (strip s)"
  by (simp add: validate_probe_target_def)

end
