(* ===== verification/Spec2Isabelle.thy ===== *)
theory Spec2Isabelle
  imports Collector Baseline Engine Uptime Login Session_Migration RCA_Proofs Relay Leader Endpoint_Proofs App_Settings Channels Synthetic
begin

text \<open>
  A model of the monitoring core of LNMP, a network monitor written in Python, and the theorems
  that make it correct. This theory only collects the others; each of them opens with a note on
  what it holds.

  \<^bold>\<open>The program.\<close> Two families of processes run beside a web back end and share its database.
  The flow daemon (\<open>src/monitoring/flow\<close>) receives NetFlow v5, v9 and IPFIX datagrams, decodes
  them (\<open>v5_parser.py\<close>, \<open>v9_parser.py\<close>, \<open>ipfix_parser.py\<close>), queues the flows and writes them to a
  Redis stream (\<open>collector.py\<close>); the aggregator reads the stream, attributes each flow to an
  endpoint with the tables of the correlator (\<open>correlator.py\<close>), accumulates it into rollups and
  commits these to Postgres at intervals (\<open>aggregator.py\<close>). The monitoring engine
  (\<open>src/monitoring\<close>) pings every endpoint at intervals (\<open>ping.py\<close>), feeds each result to a state
  machine that keeps the endpoint's events (\<open>state_machine.py\<close>), keeps a registry of the sweeps
  that run (\<open>registry.py\<close>, \<open>engine.py\<close>) and, when it starts, closes what an earlier run left
  open (\<open>gap_handler.py\<close>). The back end (\<open>src/backend/app\<close>) computes availability from the events
  and the gaps (\<open>services/uptime_calculator.py\<close>), learns latency baselines
  (\<open>services/baseline_service.py\<close>), draws the topology (\<open>services/topology.py\<close>), traces routes and
  explains failures by them, sends alerts, serves the requests that change endpoints, exporters,
  settings and alert channels, and lets users log in (\<open>routers/auth.py\<close>, \<open>services/auth_service.py\<close>,
  \<open>services/session_store.py\<close>).

  \<^bold>\<open>The library.\<close>
    \<^item> \<open>Lnmp_Prelude\<close>: errors, results that may raise, slices, texts and decimals; the
      collections \<open>py_simps\<close> and \<open>wf_intros\<close>.
    \<^item> \<open>Py_Bytes\<close>, \<open>Py_Dict\<close>, \<open>Py_Address\<close>, \<open>Py_Number\<close>, \<open>Py_Value\<close>: the parts of Python's standard
      library that the code uses: \<open>struct\<close>, insertion-ordered dictionaries, \<open>ipaddress\<close>, number
      formats and half-even rounding, \<open>uuid\<close> and values of several types.

  \<^bold>\<open>The flow pipeline.\<close>
    \<^item> \<open>Flow_Record\<close>: the flow that all decoders produce, the roll-over of the uptime counter (C1),
      and the locale \<open>flow_decoder\<close>: what the collector relies on, that is, a decoder that keeps its
      invariant and never raises. Its lemma on streams of datagrams is interpreted by each decoder.
    \<^item> \<open>NetFlow_V5\<close>, \<open>NetFlow_V9\<close>, \<open>IPFIX\<close>: the decoders with their template caches and their
      buffers for data that precede a template. They never raise, whatever the bytes (C2, C4);
      v5 and the IPFIX templates are recovered from their encoding (C3, C8); order does not matter
      for a late template (C5).
    \<^item> \<open>Collector\<close>: queue and flush; the bounds (C15) and the round trip through the stream (C17).
    \<^item> \<open>Correlator\<close>: the rate limit on unmatched exporters, the lookup and its refresh.
    \<^item> \<open>Aggregator\<close>, \<open>Flush_Proofs\<close>, \<open>Flow_System\<close>: accumulators, flush, tables and acknowledgement,
      and the system of a consumer and a flush that interleave, with faults of the database and of
      Redis. The tables hold every contribution exactly once (C12), and one flow that cannot be
      stored stalls the rest (C14).
    \<^item> \<open>Bandwidth\<close>, \<open>Exporters\<close>: the requests over the tables (\<open>routers/bandwidth.py\<close>). A series shares
      out the bytes of the rows and loses none (C20); once an exporter is mapped to an endpoint, the
      correlator resolves it (C11).

  \<^bold>\<open>Monitoring.\<close>
    \<^item> \<open>Ping\<close>: the chain of sockets and command, the output of the command, the classification.
    \<^item> \<open>Event_Store\<close>, \<open>State_Machine\<close>: the table of events with its statements, and the state machine
      over it. Confirmation (C21), one open event (C22), a gapless time line (C23).
    \<^item> \<open>Gap_Handler\<close>: the clean-up at start (C26), and recovery: what it leaves satisfies the state
      machine's invariant (C27).
    \<^item> \<open>Registry\<close>, \<open>Engine\<close>: the sweeps as a table of tasks with steps for their ends and call-backs
      (\<open>registry_step\<close>, C30); the workers' partition (C31); the sweeps of all endpoints over
      one table, as the step relation \<open>engine_step\<close> (C33).
    \<^item> \<open>Synthetic\<close>: the check of a probe's target and the probes over TCP, HTTP and TLS
      (\<open>monitoring/synthetic.py\<close>), with two ways around the check.

  \<^bold>\<open>Routes and alerts.\<close>
    \<^item> \<open>Topology\<close>, \<open>Topology_Proofs\<close>: the graph from routes, parents and incidents, its levels (C39)
      and inferred failures (C40).
    \<^item> \<open>Trace\<close>, \<open>Trace_Proofs\<close>, \<open>Routes\<close>: the commands that trace a route, the reading of their output
      (\<open>services/diagnostics.py\<close>), the baseline routes (\<open>services/baseline_route.py\<close>).
    \<^item> \<open>RCA\<close>, \<open>RCA_Proofs\<close>: the root-cause analysis (\<open>services/rca_engine.py\<close>). It finds the router at
      which a path breaks, from the text of the trace to the incident (C16).
    \<^item> \<open>SSRF\<close>: the check of outbound addresses (\<open>services/ssrf_validator.py\<close>). A connection reaches
      only public addresses (C7).
    \<^item> \<open>Alerts\<close>, \<open>Alerts_Proofs\<close>, \<open>Leader\<close>, \<open>Relay\<close>: the dispatcher (\<open>services/alert_dispatcher.py\<close>), whose
      rows are typed (C9), which limits its rate (C10) and is silent on the symptoms of an incident
      (C19); the election of the worker that dispatches (C32); the relay of the events
      (\<open>services/telemetry_relay.py\<close>), and what its order decides.

  \<^bold>\<open>Back end.\<close>
    \<^item> \<open>Baseline\<close>, \<open>Uptime\<close> (C34): the lookup in the cache, and availability as the share of seconds.
    \<^item> \<open>Session_Contract\<close>, \<open>Session_Store\<close>, \<open>Auth\<close>, \<open>Session_Migration\<close>, \<open>Login\<close>: the locale
      \<open>session_store\<close> is the contract of the three drivers, a bounded queue per user; each driver is
      an interpretation, and refines it under any operations (C35). The migration keeps sessions
      (C18); what a login leaves on each driver (C36); the lockout (C37); the client's address (C38).
    \<^item> \<open>Endpoint_Repo\<close>, \<open>Endpoint_API\<close>, \<open>Endpoint_Proofs\<close>: the table of endpoints with its constraints and the
      requests over it (\<open>routers/endpoints.py\<close>, \<open>repositories/endpoint_repo.py\<close>). Parents stay without
      cycles (C6), an address has one endpoint (C24), the detail agrees with the list (C28), and the
      engine runs what the requests ask for (C29); the races and the restoration that break this
      are lemmas beside them.
    \<^item> \<open>App_Settings\<close>: the settings, the branding and the choice of the storage driver
      (\<open>routers/settings.py\<close>, \<open>services/driver_manager.py\<close>). A change does what it says (C13).
    \<^item> \<open>Secrets\<close>, \<open>Channels\<close>: the masks of secrets (\<open>services/crypto_service.py\<close>) and the requests over alert
      channels (\<open>routers/alerts.py\<close>). A configuration that is saved back as it was shown changes
      nothing (C25).

  \<^bold>\<open>Conventions.\<close> A Python class is a record, its methods functions from record to record; an
  exception is the left of a sum; a dictionary is an association list in insertion order where
  the code iterates over it, a map otherwise; a clock reading, a random identifier, a reply of
  the network is an argument. An SQL statement is a function on the rows of its table. Floats are
  real numbers, and rounding is written out where the code rounds.

  \<^bold>\<open>Bounds and fuel.\<close> The decoders recurse on the bytes that remain, with their termination proved.
  The search below a node of the topology takes fuel for its depth: the number of edges plus two,
  which no path without repetition exceeds (\<open>downstream_below\<close> shows that nothing is missed). The
  loop that computes levels is a partial function whose end is part of C39.

  \<^bold>\<open>Not modelled.\<close> The processes' start-up and signals, sockets, subprocesses, the text of log
  lines; password hashing, tokens and encryption, which are calls of libraries; the migrations
  that only declare tables; the reports, the payloads of the alert providers, the event broker,
  the broadcast of settings, and the requests over users and the drawn topology, which are not
  covered yet; the front end.
\<close>

end
